(* ===== verification/Prelude.thy ===== *)
theory Prelude
  imports Main "HOL-Library.Word" "HOL-Library.List_Lexorder" "HOL-Library.Char_ord"
    "HOL-Library.Monad_Syntax" "HOL-Library.Multiset"
begin

text \<open>
  The shared vocabulary of the development.

  \<^item> Machine integers: Go's \<open>int32\<close>, \<open>int64\<close> and \<open>int\<close> (64 bit on the operator's platforms)
    are words of their width, read as two's complement by \<open>sint\<close>.
  \<^item> Slices: a Go slice is nil or a list of elements (\<open>'a slice\<close>); the two are kept apart
    where the program can tell them apart.
  \<^item> Maps: a Go map with string keys is an association list in canonical (sorted) order, so
    that two maps with the same entries are the same value, as \<open>reflect.DeepEqual\<close> has it.
  \<^item> Effects: an operation takes the state of the world and returns its result with the new
    state, in the option monad; \<^const>\<open>None\<close> is a Go panic.
\<close>

named_theorems go_defs \<open>unfolding rules of the operations modelled from the source\<close>
named_theorems obj_simps \<open>how the object constructors and their metadata interact\<close>

section \<open>Machine integers\<close>

type_synonym int32 = "32 word"
type_synonym int64 = "64 word"
type_synonym goint = "64 word"

text \<open>Go's \<open>a < b\<close> on \<open>int64\<close> operands.\<close>

definition lt64 :: "int64 \<Rightarrow> int64 \<Rightarrow> bool" where
  "lt64 a b \<longleftrightarrow> sint a < sint b"

text \<open>The conversions \<open>int(x)\<close> of an \<open>int32\<close> and \<open>int32(x)\<close> of an \<open>int\<close>.\<close>

definition int_of_int32 :: "int32 \<Rightarrow> goint" where
  "int_of_int32 x = word_of_int (sint x)"

definition int32_of_int :: "goint \<Rightarrow> int32" where
  "int32_of_int x = word_of_int (sint x)"

lemma lt64_irrefl [simp]: "\<not> lt64 a a"
  by (simp add: lt64_def)

lemma lt64_antisym: "lt64 a b \<Longrightarrow> \<not> lt64 b a"
  by (simp add: lt64_def)

text \<open>A duration is its number of nanoseconds.\<close>

definition time_Second :: int where "time_Second = 1000000000"

section \<open>Slices\<close>

type_synonym 'a slice = "'a list option"

definition elems :: "'a slice \<Rightarrow> 'a list" where
  "elems s = (case s of None \<Rightarrow> [] | Some xs \<Rightarrow> xs)"

definition slice_append :: "'a slice \<Rightarrow> 'a \<Rightarrow> 'a slice" where
  "slice_append s x = Some (elems s @ [x])"

lemma elems_simps [simp]:
  "elems None = []" "elems (Some xs) = xs" "elems (slice_append s x) = elems s @ [x]"
  by (simp_all add: elems_def slice_append_def)

lemma slice_append_not_nil [simp]: "slice_append s x \<noteq> None"
  by (simp add: slice_append_def)

section \<open>Maps with string keys\<close>

type_synonym 'v gomap = "(string \<times> 'v) list"

text \<open>\<open>m[k] = v\<close> and \<open>delete(m, k)\<close>; \<open>m[k]\<close> is \<^term>\<open>map_of m k\<close>.\<close>

fun mput :: "string \<Rightarrow> 'v \<Rightarrow> 'v gomap \<Rightarrow> 'v gomap" where
  "mput k v [] = [(k, v)]"
| "mput k v ((k', v') # m) =
     (if k = k' then (k, v) # m
      else if k < k' then (k, v) # (k', v') # m
      else (k', v') # mput k v m)"

fun mdel :: "string \<Rightarrow> 'v gomap \<Rightarrow> 'v gomap" where
  "mdel k [] = []"
| "mdel k ((k', v') # m) = (if k = k' then m else (k', v') # mdel k m)"

definition minv :: "'v gomap \<Rightarrow> bool" where
  "minv m \<longleftrightarrow> sorted_wrt (<) (map fst m)"

definition mkeys :: "'v gomap \<Rightarrow> string list" where
  "mkeys m = map fst m"

text \<open>A map literal: the entries are put one after the other.\<close>

definition map_literal :: "(string \<times> 'v) list \<Rightarrow> 'v gomap" where
  "map_literal kvs = fold (\<lambda>(k, v) m. mput k v m) kvs []"

lemma map_of_mput [simp]: "map_of (mput k v m) = (map_of m)(k \<mapsto> v)"
  by (induction k v m rule: mput.induct) (auto simp: fun_eq_iff)

lemma set_keys_mput: "fst ` set (mput k v m) = insert k (fst ` set m)"
  by (induction k v m rule: mput.induct) auto

lemma minv_Nil [simp]: "minv []"
  by (simp add: minv_def)

lemma minv_Cons:
  "minv ((k, v) # m) \<longleftrightarrow> (\<forall>k' \<in> fst ` set m. k < k') \<and> minv m"
  by (auto simp: minv_def)

lemma minv_mput: "minv m \<Longrightarrow> minv (mput k v m)"
  by (induction k v m rule: mput.induct) (auto simp: minv_Cons set_keys_mput)

lemma map_of_mdel: "minv m \<Longrightarrow> map_of (mdel k m) = (map_of m)(k := None)"
proof (induction m)
  case Nil
  then show ?case by simp
next
  case (Cons kv m)
  obtain k' v' where kv: "kv = (k', v')" by force
  from Cons.prems kv have fresh: "k' \<notin> fst ` set m" and m: "minv m"
    by (auto simp: minv_Cons)
  from fresh have "map_of m k' = None" by (simp add: map_of_eq_None_iff)
  with Cons.IH [OF m] kv show ?case by (auto simp: fun_eq_iff)
qed

lemma keys_mdel: "fst ` set (mdel k m) \<subseteq> fst ` set m"
  by (induction k m rule: mdel.induct) auto

lemma minv_mdel: "minv m \<Longrightarrow> minv (mdel k m)"
  using keys_mdel by (induction k m rule: mdel.induct) (auto simp: minv_Cons, fastforce)

lemma minv_distinct: "minv m \<Longrightarrow> distinct (map fst m)"
  by (auto simp: minv_def strict_sorted_iff)

text \<open>Canonical maps are equal exactly when they have the same entries.\<close>

lemma minv_ext:
  assumes "minv m" and "minv m'" and eq: "map_of m = map_of m'"
  shows "m = m'"
proof -
  have d: "distinct (map fst m)" "distinct (map fst m')"
    using assms by (auto intro: minv_distinct)
  with eq have s: "set m = set m'"
    by (metis map_of_eq_Some_iff subsetI subset_antisym surj_pair)
  then have "set (map fst m) = set (map fst m')" by simp
  moreover have "sorted (map fst m)" "sorted (map fst m')"
    using assms by (auto simp: minv_def strict_sorted_iff)
  ultimately have "map fst m = map fst m'"
    using d by (simp add: sorted_distinct_set_unique)
  then show ?thesis
  proof (intro nth_equalityI)
    assume keys: "map fst m = map fst m'"
    then show "length m = length m'" by (metis length_map)
    fix i
    assume i: "i < length m"
    with keys have i': "i < length m'" by (metis length_map)
    from keys i i' have f: "fst (m ! i) = fst (m' ! i)" by (metis nth_map)
    have "map_of m (fst (m ! i)) = Some (snd (m ! i))"
      "map_of m' (fst (m' ! i)) = Some (snd (m' ! i))"
      using d i i' by (auto intro!: map_of_is_SomeI)
    with eq f show "m ! i = m' ! i" by (simp add: prod_eq_iff)
  qed
qed

lemma map_of_map_literal_aux:
  "map_of (fold (\<lambda>(k, v) m. mput k v m) kvs m) = map_of m ++ map_of (rev kvs)"
  by (induction kvs arbitrary: m) (auto simp: fun_eq_iff map_add_def split: option.splits)

lemma map_of_map_literal: "map_of (map_literal kvs) = map_of (rev kvs)"
  by (simp add: map_literal_def map_of_map_literal_aux)

lemma minv_map_literal: "minv (map_literal kvs)"
proof -
  have "minv m \<Longrightarrow> minv (fold (\<lambda>(k, v) m. mput k v m) kvs m)" for m
    by (induction kvs arbitrary: m) (auto simp: minv_mput)
  then show ?thesis by (simp add: map_literal_def)
qed

end
