(* ===== verification/GoStrings.thy ===== *)
theory GoStrings
  imports Prelude
begin

text \<open>
  The parts of Go's standard library that the operator uses on strings: \<open>strings\<close>
  (\<open>ToLower\<close>, \<open>TrimSpace\<close>, \<open>TrimLeft\<close>, \<open>HasPrefix\<close>), \<open>strconv.Itoa\<close>, \<open>sort.Strings\<close> and
  \<open>path.Join\<close> with the \<open>path.Clean\<close> it applies (\<open>filepath.Join\<close> is the same function on
  the platforms the operator runs on). A string is its list of bytes. \<open>ToLower\<close> and
  \<open>TrimSpace\<close> are modelled on ASCII bytes, which is what Kubernetes allows in the names they
  are applied to; the bytes of other characters are left alone.
\<close>

section \<open>Characters and trimming\<close>

definition ascii_lower :: "char \<Rightarrow> char" where
  "ascii_lower c = (if CHR ''A'' \<le> c \<and> c \<le> CHR ''Z'' then char_of (of_char c + (32::nat)) else c)"

definition ToLower :: "string \<Rightarrow> string" where
  "ToLower s = map ascii_lower s"

definition is_space :: "char \<Rightarrow> bool" where
  "is_space c \<longleftrightarrow> c \<in> {CHR 0x09, CHR 0x0A, CHR 0x0B, CHR 0x0C, CHR 0x0D, CHR '' ''}"

definition TrimSpace :: "string \<Rightarrow> string" where
  "TrimSpace s = rev (dropWhile is_space (rev (dropWhile is_space s)))"

definition HasPrefix :: "string \<Rightarrow> string \<Rightarrow> bool" where
  "HasPrefix s p \<longleftrightarrow> take (length p) s = p"

definition TrimLeft :: "string \<Rightarrow> string \<Rightarrow> string" where
  "TrimLeft s cutset = dropWhile (\<lambda>c. c \<in> set cutset) s"

definition sort_Strings :: "string list \<Rightarrow> string list" where
  "sort_Strings xs = sort xs"

lemma length_ToLower [simp]: "length (ToLower s) = length s"
  by (simp add: ToLower_def)

lemma ToLower_Nil [simp]: "ToLower [] = []" and ToLower_append [simp]:
  "ToLower (s @ t) = ToLower s @ ToLower t"
  by (simp_all add: ToLower_def)

lemma ToLower_eq_Nil [simp]: "ToLower s = [] \<longleftrightarrow> s = []"
  by (simp add: ToLower_def)

text \<open>A character is lower case already when it is not one of A to Z.\<close>

definition is_upper :: "char \<Rightarrow> bool" where
  "is_upper c \<longleftrightarrow> CHR ''A'' \<le> c \<and> c \<le> CHR ''Z''"

lemma ascii_lower_id: "\<not> is_upper c \<Longrightarrow> ascii_lower c = c"
  by (auto simp: ascii_lower_def is_upper_def)

lemma ToLower_id: "\<forall>c \<in> set s. \<not> is_upper c \<Longrightarrow> ToLower s = s"
  by (simp add: ToLower_def ascii_lower_id map_idI)

lemma of_char_ascii_lower:
  "(of_char (ascii_lower c) :: nat) =
     (if 65 \<le> (of_char c :: nat) \<and> (of_char c :: nat) \<le> 90 then of_char c + 32 else of_char c)"
proof -
  have le: "CHR ''A'' \<le> c \<longleftrightarrow> 65 \<le> (of_char c :: nat)" "c \<le> CHR ''Z'' \<longleftrightarrow> (of_char c :: nat) \<le> 90"
    by (simp_all add: less_eq_char_def)
  show ?thesis by (simp add: ascii_lower_def le of_char_of)
qed

lemma ascii_lower_not_upper: "\<not> is_upper (ascii_lower c)"
proof -
  have "is_upper d \<longleftrightarrow> 65 \<le> (of_char d :: nat) \<and> (of_char d :: nat) \<le> 90" for d
    by (simp add: is_upper_def less_eq_char_def)
  then show ?thesis by (simp add: of_char_ascii_lower)
qed

lemma ToLower_idem [simp]: "ToLower (ToLower s) = ToLower s"
  by (rule ToLower_id) (auto simp: ToLower_def ascii_lower_not_upper)

lemma ascii_lower_eq_slash [simp]: "ascii_lower c = CHR ''/'' \<longleftrightarrow> c = CHR ''/''"
proof -
  have "ascii_lower c = CHR ''/'' \<longleftrightarrow> (of_char (ascii_lower c) :: nat) = of_char (CHR ''/'')"
    by (metis char_of_char)
  also have "\<dots> \<longleftrightarrow> (of_char c :: nat) = of_char (CHR ''/'')"
    by (simp add: of_char_ascii_lower)
  also have "\<dots> \<longleftrightarrow> c = CHR ''/''" by (metis char_of_char)
  finally show ?thesis .
qed

lemma slash_in_ToLower [simp]: "CHR ''/'' \<in> set (ToLower s) \<longleftrightarrow> CHR ''/'' \<in> set s"
  by (auto simp: ToLower_def image_iff) (metis ascii_lower_eq_slash)+

lemma ascii_lower_eq_dot [simp]: "ascii_lower c = CHR ''.'' \<longleftrightarrow> c = CHR ''.''"
proof -
  have "ascii_lower c = CHR ''.'' \<longleftrightarrow> (of_char (ascii_lower c) :: nat) = of_char (CHR ''.'')"
    by (metis char_of_char)
  also have "\<dots> \<longleftrightarrow> (of_char c :: nat) = of_char (CHR ''.'')"
    by (simp add: of_char_ascii_lower)
  also have "\<dots> \<longleftrightarrow> c = CHR ''.''" by (metis char_of_char)
  finally show ?thesis .
qed

lemma TrimSpace_no_space:
  assumes "s \<noteq> []" and "\<not> is_space (hd s)" and "\<not> is_space (last s)"
  shows "TrimSpace s = s"
proof -
  have "dropWhile is_space s = s" using assms by (cases s) auto
  moreover have "dropWhile is_space (rev s) = rev s"
    using assms by (cases s rule: rev_cases) auto
  ultimately show ?thesis by (simp add: TrimSpace_def)
qed

section \<open>Decimal numbers\<close>

definition digit :: "nat \<Rightarrow> char" where
  "digit d = char_of (48 + d)"

fun itoa_nat :: "nat \<Rightarrow> string" where
  "itoa_nat n = (if n < 10 then [digit n] else itoa_nat (n div 10) @ [digit (n mod 10)])"

declare itoa_nat.simps [simp del]

definition Itoa :: "int \<Rightarrow> string" where
  "Itoa i = (if i < 0 then CHR ''-'' # itoa_nat (nat (- i)) else itoa_nat (nat i))"

lemma of_char_digit: "d < 10 \<Longrightarrow> (of_char (digit d) :: nat) = 48 + d"
  by (simp add: digit_def of_char_of)

lemma digit_inj: "d < 10 \<Longrightarrow> e < 10 \<Longrightarrow> digit d = digit e \<longleftrightarrow> d = e"
  by (metis add_left_cancel of_char_digit)

definition is_digit :: "char \<Rightarrow> bool" where
  "is_digit c \<longleftrightarrow> (\<exists>d < 10. c = digit d)"

lemma is_digit_range: "is_digit c \<Longrightarrow> 48 \<le> (of_char c :: nat) \<and> (of_char c :: nat) < 58"
  by (auto simp: is_digit_def of_char_digit)

lemma itoa_nat_not_Nil [simp]: "itoa_nat n \<noteq> []"
  by (subst itoa_nat.simps) simp

lemma itoa_nat_digits: "\<forall>c \<in> set (itoa_nat n). is_digit c"
proof (induction n rule: itoa_nat.induct)
  case (1 n)
  show ?case
  proof (cases "n < 10")
    case True
    then show ?thesis by (subst itoa_nat.simps) (auto simp: is_digit_def)
  next
    case False
    moreover have "is_digit (digit (n mod 10))"
      unfolding is_digit_def by (intro exI [of _ "n mod 10"]) simp
    ultimately show ?thesis using "1.IH" by (subst itoa_nat.simps) auto
  qed
qed

lemma itoa_nat_inj: "itoa_nat m = itoa_nat n \<Longrightarrow> m = n"
proof (induction m arbitrary: n rule: itoa_nat.induct)
  case (1 m)
  have lt: "m mod 10 < 10" "n mod 10 < 10" by simp_all
  show ?case
  proof (cases "m < 10"; cases "n < 10")
    assume a: "m < 10" "n < 10"
    with "1.prems" show ?thesis by (simp add: itoa_nat.simps [of m] itoa_nat.simps [of n] digit_inj)
  next
    assume "m < 10" "\<not> n < 10"
    with "1.prems" show ?thesis
      using itoa_nat_not_Nil [of "n div 10"] by (simp add: itoa_nat.simps [of m] itoa_nat.simps [of n])
  next
    assume "\<not> m < 10" "n < 10"
    with "1.prems" show ?thesis by (simp add: itoa_nat.simps [of m] itoa_nat.simps [of n])
  next
    assume m: "\<not> m < 10" and n: "\<not> n < 10"
    with "1.prems" have "itoa_nat (m div 10) = itoa_nat (n div 10)" and
      d: "digit (m mod 10) = digit (n mod 10)"
      by (simp_all add: itoa_nat.simps [of m] itoa_nat.simps [of n])
    then have "m div 10 = n div 10" using "1.IH" m by blast
    moreover have "m mod 10 = n mod 10" using d digit_inj [OF lt] by simp
    ultimately show ?thesis by (metis div_mult_mod_eq)
  qed
qed

lemma is_digit_not:
  "is_digit c \<Longrightarrow> c \<noteq> CHR ''/''" "is_digit c \<Longrightarrow> c \<noteq> CHR ''-''" "is_digit c \<Longrightarrow> c \<noteq> CHR ''.''"
  "is_digit c \<Longrightarrow> c \<noteq> CHR ''(''"
  by (auto dest: is_digit_range)

lemma minus_notin_itoa_nat: "CHR ''-'' \<notin> set (itoa_nat n)"
  using itoa_nat_digits is_digit_not(2) by blast

lemma Itoa_inj: "Itoa i = Itoa j \<longleftrightarrow> i = j"
proof
  assume eq: "Itoa i = Itoa j"
  have no: "CHR ''-'' # s \<noteq> itoa_nat n" for s n
    using minus_notin_itoa_nat [of n] by (metis list.set_intros(1))
  show "i = j"
  proof (cases "i < 0"; cases "j < 0")
    assume a: "i < 0" "j < 0"
    with eq have "nat (- i) = nat (- j)" by (auto simp: Itoa_def dest: itoa_nat_inj)
    with a show ?thesis by simp
  next
    assume a: "\<not> i < 0" "\<not> j < 0"
    with eq have "nat i = nat j" by (auto simp: Itoa_def dest: itoa_nat_inj)
    with a show ?thesis by simp
  qed (use eq no no [symmetric] in \<open>auto simp: Itoa_def\<close>)
qed simp

lemma Itoa_chars: "c \<in> set (Itoa i) \<Longrightarrow> is_digit c \<or> c = CHR ''-''"
  using itoa_nat_digits by (auto simp: Itoa_def split: if_splits)

lemma slash_notin_Itoa [simp]: "CHR ''/'' \<notin> set (Itoa i)"
  using Itoa_chars is_digit_not(1) by force

lemma Itoa_not_Nil [simp]: "Itoa i \<noteq> []"
  by (simp add: Itoa_def)

section \<open>Paths\<close>

fun split_slash :: "string \<Rightarrow> string list" where
  "split_slash [] = [[]]"
| "split_slash (c # cs) =
     (if c = CHR ''/'' then [] # split_slash cs
      else (case split_slash cs of [] \<Rightarrow> [[c]] | x # xs \<Rightarrow> (c # x) # xs))"

fun join_slash :: "string list \<Rightarrow> string" where
  "join_slash [] = []"
| "join_slash [x] = x"
| "join_slash (x # y # ys) = x @ CHR ''/'' # join_slash (y # ys)"

text \<open>
  One element of the path, with the elements kept so far in reverse: empty and \<open>.\<close> elements
  go, \<open>..\<close> removes the element before it, or stays where there is none to remove and the
  path is not rooted.
\<close>

definition clean_step :: "bool \<Rightarrow> string \<Rightarrow> string list \<Rightarrow> string list" where
  "clean_step rooted c out =
     (if c = [] \<or> c = ''.'' then out
      else if c = ''..'' then
        (case out of
           o1 # os \<Rightarrow> if o1 = ''..'' then c # out else os
         | [] \<Rightarrow> if rooted then [] else [c])
      else c # out)"

definition path_Clean :: "string \<Rightarrow> string" where
  "path_Clean p =
     (let rooted = HasPrefix p ''/'';
          out = join_slash (rev (fold (clean_step rooted) (split_slash p) []))
      in if rooted then CHR ''/'' # out else if out = [] then ''.'' else out)"

definition path_Join :: "string list \<Rightarrow> string" where
  "path_Join es =
     (case dropWhile (\<lambda>e. e = []) es of [] \<Rightarrow> [] | e # rest \<Rightarrow> path_Clean (join_slash (e # rest)))"

definition IsAbs :: "string \<Rightarrow> bool" where
  "IsAbs p \<longleftrightarrow> HasPrefix p ''/''"

text \<open>An element that cleaning keeps.\<close>

definition plain :: "string \<Rightarrow> bool" where
  "plain c \<longleftrightarrow> c \<noteq> [] \<and> c \<noteq> ''.'' \<and> c \<noteq> ''..'' \<and> CHR ''/'' \<notin> set c"

lemma split_slash_not_Nil [simp]: "split_slash s \<noteq> []"
  by (induction s) (auto split: list.splits)

lemma split_slash_no_slash: "CHR ''/'' \<notin> set s \<Longrightarrow> split_slash s = [s]"
  by (induction s) auto

lemma split_slash_Cons_slash [simp]: "split_slash (CHR ''/'' # s) = [] # split_slash s"
  by simp

lemma split_slash_append:
  "CHR ''/'' \<notin> set s \<Longrightarrow> split_slash (s @ CHR ''/'' # t) = s # split_slash t"
  by (induction s) auto

lemma split_join: "cs \<noteq> [] \<Longrightarrow> \<forall>c \<in> set cs. CHR ''/'' \<notin> set c \<Longrightarrow> split_slash (join_slash cs) = cs"
  by (induction cs rule: join_slash.induct) (auto simp: split_slash_no_slash split_slash_append)

lemma fold_clean_plain:
  "\<forall>c \<in> set cs. plain c \<Longrightarrow> fold (clean_step r) cs out = rev cs @ out"
  by (induction cs arbitrary: out) (auto simp: clean_step_def plain_def)

lemma clean_step_empty [simp]: "clean_step r [] out = out"
  by (simp add: clean_step_def)

text \<open>A rooted path of plain elements is joined as it stands.\<close>

lemma path_Clean_rooted_plain:
  assumes "cs \<noteq> []" and "\<forall>c \<in> set cs. plain c"
  shows "path_Clean (CHR ''/'' # join_slash cs) = CHR ''/'' # join_slash cs"
    and "path_Clean (CHR ''/'' # CHR ''/'' # join_slash cs) = CHR ''/'' # join_slash cs"
proof -
  have "split_slash (join_slash cs) = cs"
    using assms by (intro split_join) (auto simp: plain_def)
  then show "path_Clean (CHR ''/'' # join_slash cs) = CHR ''/'' # join_slash cs"
    and "path_Clean (CHR ''/'' # CHR ''/'' # join_slash cs) = CHR ''/'' # join_slash cs"
    using fold_clean_plain [OF assms(2)] by (simp_all add: path_Clean_def HasPrefix_def)
qed

lemma path_Join_rooted:
  assumes "plain a" and "\<forall>c \<in> set (b # bs). plain c"
  shows "path_Join [''/'', a, join_slash (b # bs)] = CHR ''/'' # a @ CHR ''/'' # join_slash (b # bs)"
proof -
  have "path_Join [''/'', a, join_slash (b # bs)] = path_Clean (CHR ''/'' # CHR ''/'' # join_slash (a # b # bs))"
    by (simp add: path_Join_def)
  also have "\<dots> = CHR ''/'' # join_slash (a # b # bs)"
    by (rule path_Clean_rooted_plain(2)) (use assms in auto)
  finally show ?thesis by simp
qed

text \<open>The elements that survive cleaning of a rooted path are never \<open>..\<close>, so the result stays
  below the root.\<close>

lemma clean_step_no_dotdot:
  assumes "''..'' \<notin> set out"
  shows "''..'' \<notin> set (clean_step True c out)"
proof (cases out)
  case Nil
  then show ?thesis by (simp add: clean_step_def)
next
  case (Cons o1 os)
  with assms show ?thesis by (simp add: clean_step_def) blast
qed

lemma clean_rooted_no_dotdot:
  "''..'' \<notin> set out \<Longrightarrow> ''..'' \<notin> set (fold (clean_step True) cs out)"
  by (induction cs arbitrary: out) (simp_all add: clean_step_no_dotdot del: list.set_intros)

end
