(* ===== verification/KubeTypes.thy ===== *)
theory KubeTypes
  imports GoStrings
begin

text \<open>
  The Kubernetes API types (\<open>k8s.io/api\<close>, \<open>k8s.io/apimachinery\<close>) the operator reads and
  writes. Each record has the fields the operator uses under their own names; a field
  \<open>..._rest\<close> stands for all the others, as the list of those with a value that is not zero.
  The operator never sets such a field, but what the API server's defaulting put there is
  kept, dropped or compared with the object that holds it. Pointers to structs are options.
\<close>

type_synonym rest = "(string \<times> string) list"

section \<open>Metadata\<close>

record namespaced_name =
  nn_Namespace :: string
  nn_Name :: string

record type_meta =
  tm_Kind :: string
  tm_APIVersion :: string

record owner_reference =
  or_APIVersion :: string
  or_Kind :: string
  or_Name :: string
  or_UID :: string
  or_Controller :: "bool option"
  or_BlockOwnerDeletion :: "bool option"

record object_meta =
  om_Name :: string
  om_Namespace :: string
  om_UID :: string
  om_Labels :: "string gomap"
  om_Annotations :: "string gomap option"
  om_OwnerReferences :: "owner_reference list"
  om_rest :: rest

definition zero_type_meta :: type_meta where
  "zero_type_meta = \<lparr>tm_Kind = [], tm_APIVersion = []\<rparr>"

definition new_meta :: "string \<Rightarrow> string \<Rightarrow> object_meta" where
  "new_meta name namespace =
     \<lparr>om_Name = name, om_Namespace = namespace, om_UID = [], om_Labels = [], om_Annotations = None,
      om_OwnerReferences = [], om_rest = []\<rparr>"

text \<open>\<open>intstr.IntOrString\<close>: the type constants are those of \<open>artifact/constants.go\<close>.\<close>

record int_or_string =
  ios_Type :: int64
  ios_IntVal :: int32
  ios_StrVal :: string

section \<open>Resources, volumes and containers\<close>

record quantity =
  q_i :: "int64 \<times> int32"
  q_d :: "(int \<times> int32) option"
  q_s :: string
  q_Format :: string

record resource_requirements =
  rr_Limits :: "quantity gomap option"
  rr_Requests :: "quantity gomap option"

record pvc_spec =
  pvcs_AccessModes :: "string slice"
  pvcs_Selector :: "string gomap option"
  pvcs_Resources :: resource_requirements
  pvcs_VolumeName :: string
  pvcs_StorageClassName :: "string option"
  pvcs_VolumeMode :: "string option"
  pvcs_DataSource :: "rest option"

definition zero_pvc_spec :: pvc_spec where
  "zero_pvc_spec =
     \<lparr>pvcs_AccessModes = None, pvcs_Selector = None,
      pvcs_Resources = \<lparr>rr_Limits = None, rr_Requests = None\<rparr>, pvcs_VolumeName = [],
      pvcs_StorageClassName = None, pvcs_VolumeMode = None, pvcs_DataSource = None\<rparr>"

record env_var =
  ev_Name :: string
  ev_Value :: string
  ev_ValueFrom :: "rest option"

record container_port =
  cp_Name :: string
  cp_ContainerPort :: int32
  cp_Protocol :: string
  cp_rest :: rest

record volume_mount =
  vm_Name :: string
  vm_MountPath :: string
  vm_rest :: rest

record volume =
  vol_Name :: string
  vol_ConfigMap :: "string option"              \<comment> \<open>the name in \<open>ConfigMapVolumeSource\<close>\<close>
  vol_PersistentVolumeClaim :: "string option"  \<comment> \<open>the claim's name\<close>
  vol_rest :: rest

record http_get_action =
  hga_Path :: string
  hga_Port :: int_or_string
  hga_rest :: rest

record probe =
  pr_HTTPGet :: "http_get_action option"
  pr_InitialDelaySeconds :: int32
  pr_PeriodSeconds :: int32
  pr_rest :: rest

record security_context =
  sctx_RunAsUser :: "int64 option"
  sctx_rest :: rest

record container =
  ct_Name :: string
  ct_Image :: string
  ct_Command :: "string list"
  ct_Args :: "string list"
  ct_Ports :: "container_port list"
  ct_Env :: "env_var slice"
  ct_VolumeMounts :: "volume_mount list"
  ct_LivenessProbe :: "probe option"
  ct_ReadinessProbe :: "probe option"
  ct_ImagePullPolicy :: string
  ct_SecurityContext :: "security_context option"
  ct_rest :: rest

definition zero_container :: container where
  "zero_container =
     \<lparr>ct_Name = [], ct_Image = [], ct_Command = [], ct_Args = [], ct_Ports = [], ct_Env = None,
      ct_VolumeMounts = [], ct_LivenessProbe = None, ct_ReadinessProbe = None,
      ct_ImagePullPolicy = [], ct_SecurityContext = None, ct_rest = []\<rparr>"

record pod_spec =
  ps_Volumes :: "volume list"
  ps_Containers :: "container list"
  ps_ImagePullSecrets :: "string list"  \<comment> \<open>\<open>LocalObjectReference\<close>: its only field, the name\<close>
  ps_rest :: rest

section \<open>Workloads and networking\<close>

record rolling_update =
  ru_MaxUnavailable :: "int_or_string option"
  ru_MaxSurge :: "int_or_string option"

record deployment_strategy =
  dst_Type :: string
  dst_RollingUpdate :: "rolling_update option"

record deployment_spec =
  ds_Replicas :: "int32 option"
  ds_Selector :: "string gomap option"  \<comment> \<open>\<open>MatchLabels\<close> of the label selector\<close>
  ds_TemplateLabels :: "string gomap"   \<comment> \<open>\<open>Template.ObjectMeta.Labels\<close>\<close>
  ds_TemplateSpec :: pod_spec           \<comment> \<open>\<open>Template.Spec\<close>\<close>
  ds_Strategy :: deployment_strategy
  ds_rest :: rest

record deployment_status =
  dstat_AvailableReplicas :: int32
  dstat_rest :: rest

record deployment =
  dep_TypeMeta :: type_meta
  dep_ObjectMeta :: object_meta
  dep_Spec :: deployment_spec
  dep_Status :: deployment_status

record service_port =
  svp_Name :: string
  svp_Port :: int32
  svp_rest :: rest

record service_spec =
  svs_Ports :: "service_port list"
  svs_Selector :: "string gomap"
  svs_Type :: string
  svs_rest :: rest

record service =
  svc_TypeMeta :: type_meta
  svc_ObjectMeta :: object_meta
  svc_Spec :: service_spec
  svc_rest :: rest

record config_map =
  cm_TypeMeta :: type_meta
  cm_ObjectMeta :: object_meta
  cm_Data :: "string gomap"
  cm_rest :: rest

record pvc =
  pvc_TypeMeta :: type_meta
  pvc_ObjectMeta :: object_meta
  pvc_Spec :: pvc_spec
  pvc_rest :: rest

record ingress_backend =
  ib_ServiceName :: string
  ib_ServicePort :: int_or_string

record http_ingress_path =
  hip_Path :: string
  hip_Backend :: ingress_backend

record ingress_rule =
  ir_Host :: string
  ir_HTTP :: "http_ingress_path list option"  \<comment> \<open>the paths of \<open>HTTPIngressRuleValue\<close>, None when it is nil\<close>

record ingress_tls =
  it_Hosts :: "string list"
  it_SecretName :: string

record ingress_spec =
  is_Backend :: "ingress_backend option"
  is_TLS :: "ingress_tls list"
  is_Rules :: "ingress_rule list"

record ingress =
  ing_TypeMeta :: type_meta
  ing_ObjectMeta :: object_meta
  ing_Spec :: ingress_spec
  ing_rest :: rest

end
