(* ===== verification/SiddhiTypes.thy ===== *)
theory SiddhiTypes
  imports KubeTypes
begin

text \<open>
  The SiddhiProcess custom resource (\<open>pkg/apis/siddhi/v1alpha2/siddhiprocess_types.go\<close>) and
  the comparison functions of \<open>siddhiprocess_functions.go\<close>, by which the update predicate of
  the controller decides whether a change of the resource has to be reconciled.

  The lemmas characterise what each comparison really decides: the persistent volume claim's
  comparison is an equivalence relation, the messaging system's ignores the order of the
  servers (and sorts both operands in place), the apps' and containers' comparisons are
  inclusions and not equalities.
\<close>

section \<open>The resource\<close>

record messaging_config =
  mc_ClusterID :: string
  mc_BootstrapServers :: "string list"

record messaging_system =
  ms_Type :: string
  ms_Config :: messaging_config

definition zero_messaging_system :: messaging_system where
  "zero_messaging_system = \<lparr>ms_Type = [], ms_Config = \<lparr>mc_ClusterID = [], mc_BootstrapServers = []\<rparr>\<rparr>"

record apps =
  app_ConfigMap :: string
  app_Script :: string

record partial_app =
  pa_DeploymentName :: string
  pa_Apps :: "string list"

record siddhi_process_spec =
  sps_Apps :: "apps list"
  sps_SiddhiConfig :: string
  sps_Container :: container
  sps_MessagingSystem :: messaging_system
  sps_PVC :: pvc_spec
  sps_ImagePullSecret :: string

record siddhi_process_status =
  st_Status :: string
  st_Ready :: string
  st_CurrentVersion :: int64
  st_PreviousVersion :: int64
  st_EventType :: string
  st_PartialApps :: "partial_app list"

record siddhi_process =
  sp_TypeMeta :: type_meta
  sp_ObjectMeta :: object_meta
  sp_Spec :: siddhi_process_spec
  sp_Status :: siddhi_process_status

abbreviation sp_Name :: "siddhi_process \<Rightarrow> string" where
  "sp_Name sp \<equiv> om_Name (sp_ObjectMeta sp)"

abbreviation sp_Namespace :: "siddhi_process \<Rightarrow> string" where
  "sp_Namespace sp \<equiv> om_Namespace (sp_ObjectMeta sp)"

definition zero_siddhi_process_spec :: siddhi_process_spec where
  "zero_siddhi_process_spec =
     \<lparr>sps_Apps = [], sps_SiddhiConfig = [], sps_Container = zero_container,
      sps_MessagingSystem = zero_messaging_system, sps_PVC = zero_pvc_spec, sps_ImagePullSecret = []\<rparr>"

definition zero_siddhi_process_status :: siddhi_process_status where
  "zero_siddhi_process_status =
     \<lparr>st_Status = [], st_Ready = [], st_CurrentVersion = 0, st_PreviousVersion = 0,
      st_EventType = [], st_PartialApps = []\<rparr>"

definition zero_siddhi_process :: siddhi_process where
  "zero_siddhi_process =
     \<lparr>sp_TypeMeta = zero_type_meta, sp_ObjectMeta = new_meta [] [], sp_Spec = zero_siddhi_process_spec,
      sp_Status = zero_siddhi_process_status\<rparr>"

section \<open>Comparisons\<close>

text \<open>The equality of two pointers to strings, as \<open>EqualsPVCSpec\<close> computes it twice.\<close>

definition ptr_eq :: "'a option \<Rightarrow> 'a option \<Rightarrow> bool" where
  "ptr_eq p q = (case (p, q) of (Some a, Some b) \<Rightarrow> a = b | (None, None) \<Rightarrow> True | _ \<Rightarrow> False)"

text \<open>The loops \<open>for i := range p\<close> over two slices of the same length.\<close>

fun all_equal :: "string list \<Rightarrow> string list \<Rightarrow> bool" where
  "all_equal (a # as) (b # bs) = (if a \<noteq> b then False else all_equal as bs)"
| "all_equal [] [] = True"
| "all_equal as bs = False"

definition EqualsPVCSpec :: "pvc_spec \<Rightarrow> pvc_spec \<Rightarrow> bool" where
  "EqualsPVCSpec p q =
     (let vmEq = ptr_eq (pvcs_VolumeMode p) (pvcs_VolumeMode q);
          classEq = ptr_eq (pvcs_StorageClassName p) (pvcs_StorageClassName q);
          resourceEq = (pvcs_Resources p = pvcs_Resources q)
      in if length (elems (pvcs_AccessModes p)) \<noteq> length (elems (pvcs_AccessModes q)) then False
         else if \<not> all_equal (elems (pvcs_AccessModes p)) (elems (pvcs_AccessModes q)) then False
         else vmEq \<and> classEq \<and> resourceEq)"

definition sort_servers :: "messaging_system \<Rightarrow> messaging_system" where
  "sort_servers m = m\<lparr>ms_Config := (ms_Config m)\<lparr>mc_BootstrapServers :=
     sort_Strings (mc_BootstrapServers (ms_Config m))\<rparr>\<rparr>"

text \<open>The two operands are pointers: the result holds their values after the call.\<close>

definition MessagingSystem_Equals ::
    "messaging_system \<Rightarrow> messaging_system \<Rightarrow> bool \<times> messaging_system \<times> messaging_system" where
  "MessagingSystem_Equals p q =
     (let typeEq = (ms_Type p = ms_Type q);
          cidEq = (mc_ClusterID (ms_Config p) = mc_ClusterID (ms_Config q))
      in if length (mc_BootstrapServers (ms_Config p)) \<noteq> length (mc_BootstrapServers (ms_Config q))
         then (False, p, q)
         else
           let p' = sort_servers p; q' = sort_servers q
           in if \<not> all_equal (mc_BootstrapServers (ms_Config p')) (mc_BootstrapServers (ms_Config q'))
              then (False, p', q')
              else (typeEq \<and> cidEq, p', q'))"

fun contained :: "'a \<Rightarrow> 'a list \<Rightarrow> bool" where
  "contained x [] = False"
| "contained x (y # ys) = (if x = y then True else contained x ys)"

fun all_contained :: "'a list \<Rightarrow> 'a list \<Rightarrow> bool" where
  "all_contained [] qs = True"
| "all_contained (p # ps) qs = (if \<not> contained p qs then False else all_contained ps qs)"

definition EqualApps :: "apps list \<Rightarrow> apps list \<Rightarrow> bool" where
  "EqualApps p q = (if length p \<noteq> length q then False else all_contained p q)"

definition EqualContainers :: "container \<Rightarrow> container \<Rightarrow> bool" where
  "EqualContainers p q =
     (if ct_Image p \<noteq> ct_Image q then False else all_contained (elems (ct_Env p)) (elems (ct_Env q)))"

definition Spec_Equals ::
    "siddhi_process_spec \<Rightarrow> siddhi_process_spec \<Rightarrow>
       bool \<times> siddhi_process_spec \<times> siddhi_process_spec" where
  "Spec_Equals p q =
     (if \<not> EqualApps (sps_Apps p) (sps_Apps q) then (False, p, q)
      else if sps_SiddhiConfig p \<noteq> sps_SiddhiConfig q then (False, p, q)
      else if \<not> EqualContainers (sps_Container p) (sps_Container q) then (False, p, q)
      else
        case MessagingSystem_Equals (sps_MessagingSystem p) (sps_MessagingSystem q) of
          (eq, pm, qm) \<Rightarrow>
            let p' = p\<lparr>sps_MessagingSystem := pm\<rparr>; q' = q\<lparr>sps_MessagingSystem := qm\<rparr>
            in if \<not> eq then (False, p', q')
               else if \<not> EqualsPVCSpec (sps_PVC p') (sps_PVC q') then (False, p', q')
               else if sps_ImagePullSecret p' \<noteq> sps_ImagePullSecret q' then (False, p', q')
               else (True, p', q'))"

definition EmptyConfig :: "messaging_system \<Rightarrow> bool" where
  "EmptyConfig p =
     (if mc_ClusterID (ms_Config p) \<noteq> [] then False
      else if length (mc_BootstrapServers (ms_Config p)) > 0 then False
      else True)"

definition TypeDefined :: "messaging_system \<Rightarrow> bool" where
  "TypeDefined p = (if ms_Type p \<noteq> [] then True else False)"

section \<open>What the comparisons decide\<close>

lemma ptr_eq_iff [simp]: "ptr_eq p q \<longleftrightarrow> p = q"
  by (auto simp: ptr_eq_def split: option.splits)

lemma all_equal_iff [simp]: "all_equal as bs \<longleftrightarrow> as = bs"
  by (induction as bs rule: all_equal.induct) auto

lemma contained_iff [simp]: "contained x ys \<longleftrightarrow> x \<in> set ys"
  by (induction ys) auto

lemma all_contained_iff [simp]: "all_contained ps qs \<longleftrightarrow> set ps \<subseteq> set qs"
  by (induction ps) auto

lemma EqualsPVCSpec_iff:
  "EqualsPVCSpec p q \<longleftrightarrow>
     elems (pvcs_AccessModes p) = elems (pvcs_AccessModes q) \<and>
     pvcs_VolumeMode p = pvcs_VolumeMode q \<and>
     pvcs_StorageClassName p = pvcs_StorageClassName q \<and>
     pvcs_Resources p = pvcs_Resources q"
  by (auto simp: EqualsPVCSpec_def Let_def)

lemma sort_Strings_eq_iff: "sort_Strings xs = sort_Strings ys \<longleftrightarrow> mset xs = mset ys"
  by (metis sort_Strings_def mset_sort properties_for_sort sorted_sort)

lemma MessagingSystem_Equals_iff:
  "fst (MessagingSystem_Equals p q) \<longleftrightarrow>
     ms_Type p = ms_Type q \<and> mc_ClusterID (ms_Config p) = mc_ClusterID (ms_Config q) \<and>
     mset (mc_BootstrapServers (ms_Config p)) = mset (mc_BootstrapServers (ms_Config q))"
  by (auto simp: MessagingSystem_Equals_def Let_def sort_servers_def sort_Strings_eq_iff
      dest: mset_eq_length)

lemma EqualApps_iff: "EqualApps p q \<longleftrightarrow> length p = length q \<and> set p \<subseteq> set q"
  by (simp add: EqualApps_def)

lemma EqualContainers_iff:
  "EqualContainers p q \<longleftrightarrow> ct_Image p = ct_Image q \<and> set (elems (ct_Env p)) \<subseteq> set (elems (ct_Env q))"
  by (simp add: EqualContainers_def)

lemma Spec_Equals_iff:
  "fst (Spec_Equals p q) \<longleftrightarrow>
     EqualApps (sps_Apps p) (sps_Apps q) \<and> sps_SiddhiConfig p = sps_SiddhiConfig q \<and>
     EqualContainers (sps_Container p) (sps_Container q) \<and>
     fst (MessagingSystem_Equals (sps_MessagingSystem p) (sps_MessagingSystem q)) \<and>
     EqualsPVCSpec (sps_PVC p) (sps_PVC q) \<and> sps_ImagePullSecret p = sps_ImagePullSecret q"
  by (auto simp: Spec_Equals_def Let_def split: prod.splits)

lemmas comparison_iffs =
  EqualsPVCSpec_iff MessagingSystem_Equals_iff EqualApps_iff EqualContainers_iff Spec_Equals_iff

text \<open>For apps without duplicates the comparison is equality up to order.\<close>

lemma EqualApps_distinct:
  assumes "distinct p"
  shows "EqualApps p q \<longleftrightarrow> mset p = mset q"
proof
  assume "EqualApps p q"
  then have len: "length p = length q" and sub: "set p \<subseteq> set q" by (auto simp: EqualApps_iff)
  have "card (set q) \<le> length q" by (rule card_length)
  moreover have "card (set p) = length p" using assms by (rule distinct_card)
  ultimately have "set p = set q"
    using sub len by (metis card_seteq finite_set)
  moreover from this have "distinct q"
    using len \<open>card (set p) = length p\<close> by (metis card_distinct)
  ultimately show "mset p = mset q"
    using assms by (simp add: set_eq_iff_mset_eq_distinct)
next
  assume "mset p = mset q"
  then show "EqualApps p q" by (auto simp: EqualApps_iff dest: mset_eq_length mset_eq_setD)
qed

lemma sort_servers_mset [simp]:
  "mset (mc_BootstrapServers (ms_Config (sort_servers m))) = mset (mc_BootstrapServers (ms_Config m))"
  "ms_Type (sort_servers m) = ms_Type m"
  "mc_ClusterID (ms_Config (sort_servers m)) = mc_ClusterID (ms_Config m)"
  by (simp_all add: sort_servers_def sort_Strings_def)

section \<open>Properties\<close>

text \<open>
  C34: what counts as a change of a spec. Two specs compare equal exactly when: the lists of apps have
  one length and the old apps are among the new; the Siddhi configuration, the container's image and
  the pull secret agree; every old environment variable is still there; the messaging systems agree
  up to the order of the servers; and the claims have the same access modes, mode, class and resources.
\<close>

theorem Spec_Equals_decides:
  "fst (Spec_Equals p q) \<longleftrightarrow>
     length (sps_Apps p) = length (sps_Apps q) \<and> set (sps_Apps p) \<subseteq> set (sps_Apps q) \<and>
     sps_SiddhiConfig p = sps_SiddhiConfig q \<and> sps_ImagePullSecret p = sps_ImagePullSecret q \<and>
     ct_Image (sps_Container p) = ct_Image (sps_Container q) \<and>
     set (elems (ct_Env (sps_Container p))) \<subseteq> set (elems (ct_Env (sps_Container q))) \<and>
     ms_Type (sps_MessagingSystem p) = ms_Type (sps_MessagingSystem q) \<and>
     mc_ClusterID (ms_Config (sps_MessagingSystem p)) = mc_ClusterID (ms_Config (sps_MessagingSystem q)) \<and>
     mset (mc_BootstrapServers (ms_Config (sps_MessagingSystem p))) = mset (mc_BootstrapServers (ms_Config (sps_MessagingSystem q))) \<and>
     elems (pvcs_AccessModes (sps_PVC p)) = elems (pvcs_AccessModes (sps_PVC q)) \<and>
     pvcs_VolumeMode (sps_PVC p) = pvcs_VolumeMode (sps_PVC q) \<and>
     pvcs_StorageClassName (sps_PVC p) = pvcs_StorageClassName (sps_PVC q) \<and>
     pvcs_Resources (sps_PVC p) = pvcs_Resources (sps_PVC q)"
  by (auto simp: comparison_iffs)

text \<open>
  Changes that are not seen. A spec that gains environment variables, and swaps an app it has
  twice for any other app, compares equal to the old one, although not the other way round.
\<close>

theorem Spec_Equals_misses:
  assumes "sps_Apps p = [a, a]" and "b \<noteq> a" and "e \<notin> set (elems (ct_Env (sps_Container p)))"
  defines "q \<equiv> p\<lparr>sps_Apps := [a, b],
     sps_Container := (sps_Container p)\<lparr>ct_Env := slice_append (ct_Env (sps_Container p)) e\<rparr>\<rparr>"
  shows "fst (Spec_Equals p q) \<and> \<not> fst (Spec_Equals q p)"
  using assms by (auto simp: comparison_iffs)

theorem Spec_Equals_misses_witness:
  "fst (Spec_Equals (zero_siddhi_process_spec\<lparr>sps_Apps := [\<lparr>app_ConfigMap = ''a'', app_Script = []\<rparr>, \<lparr>app_ConfigMap = ''a'', app_Script = []\<rparr>]\<rparr>)
     (zero_siddhi_process_spec\<lparr>sps_Apps := [\<lparr>app_ConfigMap = ''a'', app_Script = []\<rparr>, \<lparr>app_ConfigMap = ''b'', app_Script = []\<rparr>],
       sps_Container := zero_container\<lparr>ct_Env := Some [\<lparr>ev_Name = ''E'', ev_Value = ''1'', ev_ValueFrom = None\<rparr>]\<rparr>\<rparr>))"
  using Spec_Equals_misses [of "zero_siddhi_process_spec\<lparr>sps_Apps := [\<lparr>app_ConfigMap = ''a'', app_Script = []\<rparr>, \<lparr>app_ConfigMap = ''a'', app_Script = []\<rparr>]\<rparr>"
      "\<lparr>app_ConfigMap = ''a'', app_Script = []\<rparr>" "\<lparr>app_ConfigMap = ''b'', app_Script = []\<rparr>"
      "\<lparr>ev_Name = ''E'', ev_Value = ''1'', ev_ValueFrom = None\<rparr>"]
  by (simp add: zero_siddhi_process_spec_def zero_container_def slice_append_def)

text \<open>
  Among specs whose apps are pairwise different the comparison of the apps is symmetric and means
  the same apps in some order.
\<close>

theorem EqualApps_is_permutation:
  assumes "distinct p"
  shows "(EqualApps p q \<longleftrightarrow> mset p = mset q) \<and> (EqualApps p q \<longrightarrow> distinct q \<and> EqualApps q p)"
proof -
  have "EqualApps q p \<longleftrightarrow> mset q = mset p" if "mset p = mset q"
    by (rule EqualApps_distinct) (use assms that in \<open>metis mset_eq_imp_distinct_iff\<close>)
  with EqualApps_distinct [OF assms] show ?thesis
    using assms mset_eq_imp_distinct_iff by metis
qed

theorem EqualApps_is_permutation_witness:
  "EqualApps [\<lparr>app_ConfigMap = ''a'', app_Script = []\<rparr>, \<lparr>app_ConfigMap = ''b'', app_Script = []\<rparr>]
     [\<lparr>app_ConfigMap = ''b'', app_Script = []\<rparr>, \<lparr>app_ConfigMap = ''a'', app_Script = []\<rparr>]"
  using EqualApps_is_permutation [of "[\<lparr>app_ConfigMap = ''a'', app_Script = []\<rparr>, \<lparr>app_ConfigMap = ''b'', app_Script = []\<rparr>]"
      "[\<lparr>app_ConfigMap = ''b'', app_Script = []\<rparr>, \<lparr>app_ConfigMap = ''a'', app_Script = []\<rparr>]"]
  by (simp add: add_mset_commute)

end
