(* ===== verification/Json.thy ===== *)
theory Json
  imports GoStrings
begin

text \<open>
  JSON as Go's package encoding/json writes and reads it, on strings of bytes: the escapes of the encoder,
  with bytes that are not UTF-8 replaced, and the scanner and the unquoting of the decoder. What the
  encoder writes is read back with anything after it, up to the replacement of invalid bytes.
\<close>

section \<open>UTF-8\<close>

abbreviation byte :: "char \<Rightarrow> nat" where
  "byte c \<equiv> of_char c"

definition continuation :: "char \<Rightarrow> bool" where
  "continuation c \<longleftrightarrow> 128 \<le> byte c \<and> byte c < 192"

text \<open>The range of the second byte after a first byte of three or four (no overlong forms, no surrogates).\<close>

definition second_ok :: "nat \<Rightarrow> char \<Rightarrow> bool" where
  "second_ok n c \<longleftrightarrow>
     (if n = 224 then 160 else if n = 240 then 144 else 128) \<le> byte c \<and>
     byte c < (if n = 237 then 160 else if n = 244 then 144 else 192)"

text \<open>\<open>utf8.DecodeRune\<close>: the number of bytes of the rune at the start, 0 when it is not a valid one.\<close>

fun rune_size :: "string \<Rightarrow> nat" where
  "rune_size [] = 0"
| "rune_size (a # cs) =
     (let n = byte a
      in if n < 128 then 1
         else if n < 194 then 0
         else if n < 224 then (case cs of b # _ \<Rightarrow> if continuation b then 2 else 0 | _ \<Rightarrow> 0)
         else if n < 240 then
           (case cs of b # c # _ \<Rightarrow> if second_ok n b \<and> continuation c then 3 else 0 | _ \<Rightarrow> 0)
         else if n < 245 then
           (case cs of b # c # d # _ \<Rightarrow> if second_ok n b \<and> continuation c \<and> continuation d then 4 else 0 | _ \<Rightarrow> 0)
         else 0)"

definition replacement :: string where
  "replacement = [CHR 0xEF, CHR 0xBF, CHR 0xBD]"

lemma rune_size_le: "rune_size s \<le> length s"
  by (cases s) (auto simp: Let_def split: list.splits)

text \<open>A string with the replacement character for every invalid byte.\<close>

function to_valid :: "string \<Rightarrow> string" where
  "to_valid [] = []"
| "to_valid (c # cs) =
     (let k = rune_size (c # cs)
      in if k = 0 then replacement @ to_valid cs else take k (c # cs) @ to_valid (drop k (c # cs)))"
  by pat_completeness auto

termination
  by (relation "measure length") (auto simp: Let_def)

definition utf8_valid :: "string \<Rightarrow> bool" where
  "utf8_valid s \<longleftrightarrow> to_valid s = s"

text \<open>\<open>utf8.EncodeRune\<close>; surrogates and what is out of range give the replacement character.\<close>

definition encode_rune :: "nat \<Rightarrow> string" where
  "encode_rune r =
     (if r < 128 then [char_of r]
      else if r < 2048 then [char_of (192 + r div 64), char_of (128 + r mod 64)]
      else if 55296 \<le> r \<and> r < 57344 \<or> 1114111 < r then replacement
      else if r < 65536 then
        [char_of (224 + r div 4096), char_of (128 + r div 64 mod 64), char_of (128 + r mod 64)]
      else
        [char_of (240 + r div 262144), char_of (128 + r div 4096 mod 64), char_of (128 + r div 64 mod 64),
         char_of (128 + r mod 64)])"

section \<open>Strings\<close>

text \<open>The encoder's string, without the quotes; \<open>escapeHTML\<close> is on.\<close>

definition hex_digit :: "nat \<Rightarrow> char" where
  "hex_digit n = char_of (if n < 10 then 48 + n else 87 + n)"

definition escape_byte :: "char \<Rightarrow> string" where
  "escape_byte c =
     (if c = CHR 0x22 \<or> c = CHR 0x5C then [CHR 0x5C, c]
      else if c = CHR 0x0A then [CHR 0x5C, CHR ''n'']
      else if c = CHR 0x0D then [CHR 0x5C, CHR ''r'']
      else if c = CHR 0x09 then [CHR 0x5C, CHR ''t'']
      else if byte c < 32 \<or> c \<in> set ''<>&''
      then [CHR 0x5C] @ ''u00'' @ [hex_digit (byte c div 16), hex_digit (byte c mod 16)]
      else [c])"

function escape :: "string \<Rightarrow> string" where
  "escape [] = []"
| "escape (c # cs) =
     (if byte c < 128 then escape_byte c @ escape cs
      else
        (let k = rune_size (c # cs)
         in if k = 0 then [CHR 0x5C] @ ''ufffd'' @ escape cs
            else if take k (c # cs) = [CHR 0xE2, CHR 0x80, CHR 0xA8] then [CHR 0x5C] @ ''u2028'' @ escape (drop k (c # cs))
            else if take k (c # cs) = [CHR 0xE2, CHR 0x80, CHR 0xA9] then [CHR 0x5C] @ ''u2029'' @ escape (drop k (c # cs))
            else take k (c # cs) @ escape (drop k (c # cs))))"
  by pat_completeness auto

termination
  by (relation "measure length") (auto simp: Let_def)

definition quoted :: "string \<Rightarrow> string" where
  "quoted s = [CHR 0x22] @ escape s @ [CHR 0x22]"

text \<open>The decoder: \<open>getu4\<close>, and the unquoting up to the closing quote, with the rest of the input.\<close>

definition hex_value :: "char \<Rightarrow> nat option" where
  "hex_value c =
     (let n = byte c
      in if 48 \<le> n \<and> n \<le> 57 then Some (n - 48)
         else if 97 \<le> n \<and> n \<le> 102 then Some (n - 87)
         else if 65 \<le> n \<and> n \<le> 70 then Some (n - 55) else None)"

fun getu4 :: "string \<Rightarrow> nat option" where
  "getu4 (a # b # c # d # _) = do {
     x \<leftarrow> hex_value a; y \<leftarrow> hex_value b; z \<leftarrow> hex_value c; w \<leftarrow> hex_value d;
     Some (((x * 16 + y) * 16 + z) * 16 + w) }"
| "getu4 _ = None"

definition simple_escape :: "char \<Rightarrow> char option" where
  "simple_escape c =
     (if c = CHR 0x22 \<or> c = CHR 0x5C \<or> c = CHR ''/'' then Some c
      else if c = CHR ''b'' then Some (CHR 0x08)
      else if c = CHR ''f'' then Some (CHR 0x0C)
      else if c = CHR ''n'' then Some (CHR 0x0A)
      else if c = CHR ''r'' then Some (CHR 0x0D)
      else if c = CHR ''t'' then Some (CHR 0x09) else None)"

text \<open>A surrogate and a following escape that completes it: the rune of the pair.\<close>

definition surrogate :: "nat \<Rightarrow> bool" where
  "surrogate r \<longleftrightarrow> 55296 \<le> r \<and> r < 57344"

definition pair_rune :: "nat \<Rightarrow> string \<Rightarrow> nat option" where
  "pair_rune r cs =
     (if take 2 cs = [CHR 0x5C, CHR ''u''] then
        (case getu4 (drop 2 cs) of
           Some r1 \<Rightarrow>
             if 55296 \<le> r \<and> r < 56320 \<and> 56320 \<le> r1 \<and> r1 < 57344
             then Some ((r - 55296) * 1024 + (r1 - 56320) + 65536) else None
         | None \<Rightarrow> None)
      else None)"

function unquote :: "string \<Rightarrow> (string \<times> string) option" where
  "unquote [] = None"
| "unquote (c # cs) =
     (if c = CHR 0x22 then Some ([], cs)
      else if byte c < 32 then None
      else if c = CHR 0x5C then
        (case cs of
           [] \<Rightarrow> None
         | e # ds \<Rightarrow>
             if e = CHR ''u'' then
               (case getu4 ds of
                  None \<Rightarrow> None
                | Some r \<Rightarrow>
                    if surrogate r \<and> pair_rune r (drop 4 ds) \<noteq> None
                    then map_option (\<lambda>(s, rest). (encode_rune (the (pair_rune r (drop 4 ds))) @ s, rest)) (unquote (drop 10 ds))
                    else map_option (\<lambda>(s, rest). (encode_rune r @ s, rest)) (unquote (drop 4 ds)))
             else
               (case simple_escape e of
                  None \<Rightarrow> None
                | Some x \<Rightarrow> map_option (\<lambda>(s, rest). (x # s, rest)) (unquote ds)))
      else
        (let k = rune_size (c # cs)
         in if k = 0 then map_option (\<lambda>(s, rest). (replacement @ s, rest)) (unquote cs)
            else map_option (\<lambda>(s, rest). (take k (c # cs) @ s, rest)) (unquote (drop k (c # cs)))))"
  by pat_completeness auto

termination
  by (relation "measure length") (auto simp: Let_def)


section \<open>What is unquoted\<close>

lemma byte_less [simp]: "byte c < 256"
  using nat_of_char_less_256 .

lemma char_eq_byte: "c = d \<longleftrightarrow> byte c = byte d"
  by (metis char_of_char)

lemma rune_size_ascii: "byte c < 128 \<Longrightarrow> rune_size (c # cs) = 1"
  by (simp add: Let_def)

text \<open>A rune is read the same whatever follows it.\<close>

lemma rune_size_prefix: "0 < rune_size s \<Longrightarrow> rune_size (take (rune_size s) s @ t) = rune_size s"
  by (cases s; cases "tl s"; cases "tl (tl s)"; cases "tl (tl (tl s))")
    (auto simp: Let_def numeral_eq_Suc split: if_splits list.splits)

lemma rune_size_cases: "rune_size s \<in> {0, 1, 2, 3, 4}"
  by (cases s) (auto simp: Let_def split: list.splits)

lemma hex_value_digit: "n < 16 \<Longrightarrow> hex_value (hex_digit n) = Some n"
  by (auto simp: hex_value_def hex_digit_def of_char_of)

lemma getu4_hex_digits:
  "n < 256 \<Longrightarrow> getu4 (CHR ''0'' # CHR ''0'' # hex_digit (n div 16) # hex_digit (n mod 16) # t) = Some n"
proof -
  assume n: "n < 256"
  have z: "hex_value (CHR ''0'') = Some 0" by code_simp
  from n have "hex_value (hex_digit (n div 16)) = Some (n div 16)" "hex_value (hex_digit (n mod 16)) = Some (n mod 16)"
    by (simp_all add: hex_value_digit)
  then show ?thesis by (simp add: z)
qed

lemma encode_rune_ascii: "byte c < 128 \<Longrightarrow> encode_rune (byte c) = [c]"
  by (simp add: encode_rune_def)

text \<open>The unquoting of one escaped byte, and of the escapes for what is not copied.\<close>

abbreviation cons_read :: "string \<Rightarrow> (string \<times> string) option \<Rightarrow> (string \<times> string) option" where
  "cons_read s \<equiv> map_option (\<lambda>(t, rest). (s @ t, rest))"

lemma unquote_u:
  assumes "getu4 ds = Some r" and "\<not> surrogate r"
  shows "unquote (CHR 0x5C # CHR ''u'' # ds) = cons_read (encode_rune r) (unquote (drop 4 ds))"
  using assms by simp

lemma unquote_escape_byte:
  assumes "byte c < 128"
  shows "unquote (escape_byte c @ t) = cons_read [c] (unquote t)"
proof -
  consider (quote) "c = CHR 0x22 \<or> c = CHR 0x5C" | (short) "c \<in> {CHR 0x0A, CHR 0x0D, CHR 0x09}"
    | (hex) "c \<notin> {CHR 0x22, CHR 0x5C, CHR 0x0A, CHR 0x0D, CHR 0x09}" "byte c < 32 \<or> c \<in> set ''<>&''"
    | (plain) "c \<notin> {CHR 0x22, CHR 0x5C, CHR 0x0A, CHR 0x0D, CHR 0x09}" "\<not> (byte c < 32 \<or> c \<in> set ''<>&'')"
    by auto
  then show ?thesis
  proof cases
    case quote
    then show ?thesis by (auto simp: escape_byte_def simple_escape_def)
  next
    case short
    then show ?thesis by (auto simp: escape_byte_def simple_escape_def)
  next
    case hex
    have "getu4 (CHR ''0'' # CHR ''0'' # hex_digit (byte c div 16) # hex_digit (byte c mod 16) # t) = Some (byte c)"
      by (rule getu4_hex_digits) simp
    moreover have "\<not> surrogate (byte c)" using assms by (simp add: surrogate_def)
    ultimately have "unquote (CHR 0x5C # CHR ''u'' # CHR ''0'' # CHR ''0'' # hex_digit (byte c div 16) # hex_digit (byte c mod 16) # t) =
        cons_read [c] (unquote t)"
      using unquote_u [of "CHR ''0'' # CHR ''0'' # hex_digit (byte c div 16) # hex_digit (byte c mod 16) # t"]
        encode_rune_ascii [OF assms] by (simp del: getu4.simps unquote.simps)
    moreover have "escape_byte c = CHR 0x5C # CHR ''u'' # CHR ''0'' # CHR ''0'' # hex_digit (byte c div 16) # [hex_digit (byte c mod 16)]"
      using hex by (auto simp: escape_byte_def)
    ultimately show ?thesis by (simp del: unquote.simps)
  next
    case plain
    then have "escape_byte c = [c]" by (auto simp: escape_byte_def)
    with plain assms show ?thesis by (simp add: Let_def)
  qed
qed

declare rune_size.simps [simp del] to_valid.simps [simp del] escape.simps [simp del] unquote.simps [simp del]

lemma to_valid_Nil [simp]: "to_valid [] = []" and escape_Nil [simp]: "escape [] = []"
  by (simp_all add: to_valid.simps escape.simps)

lemma unquote_rune:
  assumes "0 < rune_size s" and "128 \<le> byte (hd s)"
  shows "unquote (take (rune_size s) s @ t) = cons_read (take (rune_size s) s) (unquote t)"
proof -
  let ?k = "rune_size s"
  have len: "length (take ?k s) = ?k" using rune_size_le by simp
  from assms(1) obtain c cs where s: "s = c # cs" by (cases s) (auto simp: rune_size.simps)
  with assms(1) obtain ds where ds: "take ?k s @ t = c # ds" by (cases ?k) auto
  have c: "c \<noteq> CHR 0x22" "c \<noteq> CHR 0x5C" "\<not> byte c < 32" using assms(2) s by auto
  have k: "rune_size (c # ds) = ?k" using rune_size_prefix [OF assms(1), of t] by (simp add: ds)
  have "take ?k (c # ds) = take ?k s" "drop ?k (c # ds) = t" using len by (simp_all flip: ds)
  with c k assms(1) show ?thesis by (simp add: ds unquote.simps Let_def)
qed

text \<open>The escapes for what is not copied stand for runes that are no surrogates.\<close>

lemma unquote_ufffd: "unquote (CHR 0x5C # ''ufffd'' @ t) = cons_read replacement (unquote t)"
  and unquote_u2028: "unquote (CHR 0x5C # ''u2028'' @ t) = cons_read [CHR 0xE2, CHR 0x80, CHR 0xA8] (unquote t)"
  and unquote_u2029: "unquote (CHR 0x5C # ''u2029'' @ t) = cons_read [CHR 0xE2, CHR 0x80, CHR 0xA9] (unquote t)"
proof -
  have g: "getu4 (''fffd'' @ t) = Some 65533" "getu4 (''2028'' @ t) = Some 8232" "getu4 (''2029'' @ t) = Some 8233"
    by (simp_all add: hex_value_def)
  have e: "encode_rune 65533 = replacement" "encode_rune 8232 = [CHR 0xE2, CHR 0x80, CHR 0xA8]"
    "encode_rune 8233 = [CHR 0xE2, CHR 0x80, CHR 0xA9]"
    by (simp_all add: encode_rune_def replacement_def char_of_def bit_numeral_rec bit_0)
  show "unquote (CHR 0x5C # ''ufffd'' @ t) = cons_read replacement (unquote t)"
    using unquote_u [OF g(1)] by (simp add: surrogate_def e)
  show "unquote (CHR 0x5C # ''u2028'' @ t) = cons_read [CHR 0xE2, CHR 0x80, CHR 0xA8] (unquote t)"
    using unquote_u [OF g(2)] by (simp add: surrogate_def e)
  show "unquote (CHR 0x5C # ''u2029'' @ t) = cons_read [CHR 0xE2, CHR 0x80, CHR 0xA9] (unquote t)"
    using unquote_u [OF g(3)] by (simp add: surrogate_def e)
qed

lemma unquote_escape: "unquote (escape s @ CHR 0x22 # rest) = Some (to_valid s, rest)"
proof (induction s rule: to_valid.induct)
  case 1
  show ?case by (simp add: unquote.simps)
next
  case (2 c cs)
  let ?s = "c # cs"
  let ?k = "rune_size ?s"
  show ?case
  proof (cases "byte c < 128")
    case True
    then have "?k = 1" by (rule rune_size_ascii)
    with True 2(2) [OF refl] show ?thesis
      by (simp add: escape.simps to_valid.simps unquote_escape_byte)
  next
    case high: False
    show ?thesis
    proof (cases "?k = 0")
      case True
      with high 2(1) [OF refl True] show ?thesis
        by (simp add: escape.simps to_valid.simps unquote_ufffd [simplified])
    next
      case False
      then have IH: "unquote (escape (drop ?k ?s) @ CHR 0x22 # rest) = Some (to_valid (drop ?k ?s), rest)"
        using 2(2) by blast
      have valid: "to_valid ?s = take ?k ?s @ to_valid (drop ?k ?s)"
        using False by (simp add: to_valid.simps Let_def)
      consider (ls) "take ?k ?s = [CHR 0xE2, CHR 0x80, CHR 0xA8]" | (ps) "take ?k ?s = [CHR 0xE2, CHR 0x80, CHR 0xA9]"
        | (plain) "take ?k ?s \<noteq> [CHR 0xE2, CHR 0x80, CHR 0xA8]" "take ?k ?s \<noteq> [CHR 0xE2, CHR 0x80, CHR 0xA9]"
        by blast
      then show ?thesis
      proof cases
        case ls
        with high False IH valid show ?thesis by (simp add: escape.simps Let_def unquote_u2028 [simplified])
      next
        case ps
        with high False IH valid show ?thesis by (simp add: escape.simps Let_def unquote_u2029 [simplified])
      next
        case plain
        with high False have "escape ?s = take ?k ?s @ escape (drop ?k ?s)"
          by (simp add: escape.simps Let_def)
        moreover have "0 < ?k" "128 \<le> byte (hd ?s)" using high False by simp_all
        ultimately show ?thesis
          using unquote_rune [of ?s "escape (drop ?k ?s) @ CHR 0x22 # rest"] IH valid by simp
      qed
    qed
  qed
qed

text \<open>Reading a string uses up at least the closing quote; ASCII strings are valid.\<close>

lemma unquote_length: "unquote s = Some (t, r) \<Longrightarrow> length r < length s"
proof (induction s arbitrary: t r rule: length_induct)
  case (1 s)
  show ?case
  proof (cases s)
    case Nil
    with "1.prems" show ?thesis by (simp add: unquote.simps)
  next
    case (Cons c cs)
    have step: "unquote x = Some (a, r) \<Longrightarrow> length x \<le> length cs \<Longrightarrow> length r < Suc (length cs)" for x a
      using "1.IH" Cons by (metis le_imp_less_Suc length_Cons less_SucI order_less_le_trans)
    have k: "0 < rune_size (c # cs) \<Longrightarrow> length (drop (rune_size (c # cs)) (c # cs)) \<le> length cs" by simp
    from "1.prems" Cons show ?thesis
      by (auto simp: unquote.simps(2) Let_def split: if_splits list.splits option.splits dest!: step k)
  qed
qed

lemma to_valid_ascii: "\<forall>c \<in> set s. byte c < 128 \<Longrightarrow> to_valid s = s"
  by (induction s) (simp_all add: to_valid.simps rune_size_ascii)

text \<open>What has been made valid is valid.\<close>

lemma to_valid_rune:
  assumes "0 < rune_size s"
  shows "to_valid (take (rune_size s) s @ t) = take (rune_size s) s @ to_valid t"
proof -
  have len: "length (take (rune_size s) s) = rune_size s" using rune_size_le by simp
  from assms obtain c cs where s: "take (rune_size s) s @ t = c # cs" by (cases s; cases "rune_size s") (auto simp: rune_size.simps)
  have "rune_size (c # cs) = rune_size s" using rune_size_prefix [OF assms, of t] s by simp
  with assms have "to_valid (c # cs) = take (rune_size s) (c # cs) @ to_valid (drop (rune_size s) (c # cs))"
    by (simp add: to_valid.simps(2) Let_def)
  with len show ?thesis by (simp flip: s)
qed

lemma to_valid_replacement: "to_valid (replacement @ t) = replacement @ to_valid t"
proof -
  have "rune_size replacement = 3" by (simp add: replacement_def rune_size.simps second_ok_def continuation_def)
  then show ?thesis using to_valid_rune [of replacement t] by (simp add: replacement_def)
qed

lemma to_valid_idem [simp]: "to_valid (to_valid s) = to_valid s"
proof (induction s rule: to_valid.induct)
  case (2 c cs)
  then show ?case
    using to_valid_rune [of "c # cs"] by (cases "rune_size (c # cs) = 0") (simp_all add: to_valid.simps(2) Let_def to_valid_replacement)
qed simp

end
