(* ===== verification/JsonValue.thy ===== *)
theory JsonValue
  imports Json
begin

text \<open>
  JSON values, the compact text \<open>encoding/json\<close> writes for them, and its scanner as a recursive parser that
  leaves what follows the first value, as \<open>json.Decoder\<close> does. Numbers are kept as their literals. What is
  printed is parsed back to the same value with its strings made valid UTF-8.
\<close>

section \<open>Values and their text\<close>

datatype json =
    JNull
  | JBool bool
  | JNumber string
  | JString string
  | JArray "json list"
  | JObject "(string \<times> json) list"

definition comma :: "'a list \<Rightarrow> string" where
  "comma more = (if more = [] then [] else '','')"

fun show_json :: "json \<Rightarrow> string" and show_elems :: "json list \<Rightarrow> string" and
    show_members :: "(string \<times> json) list \<Rightarrow> string" where
  "show_json JNull = ''null''"
| "show_json (JBool b) = (if b then ''true'' else ''false'')"
| "show_json (JNumber n) = n"
| "show_json (JString s) = quoted s"
| "show_json (JArray js) = ''['' @ show_elems js"
| "show_json (JObject ms) = ''{'' @ show_members ms"
| "show_elems [] = '']''"
| "show_elems (j # js) = show_json j @ comma js @ show_elems js"
| "show_members [] = ''}''"
| "show_members ((k, j) # ms) = quoted k @ '':'' @ show_json j @ comma ms @ show_members ms"

section \<open>The scanner\<close>

definition json_space :: "char \<Rightarrow> bool" where
  "json_space c \<longleftrightarrow> c = CHR '' '' \<or> c = CHR 0x09 \<or> c = CHR 0x0D \<or> c = CHR 0x0A"

definition skip :: "string \<Rightarrow> string" where
  "skip s = dropWhile json_space s"

definition ascii_digit :: "char \<Rightarrow> bool" where
  "ascii_digit c \<longleftrightarrow> 48 \<le> byte c \<and> byte c < 58"

definition digits :: "string \<Rightarrow> string \<times> string" where
  "digits s = (takeWhile ascii_digit s, dropWhile ascii_digit s)"

definition digits1 :: "string \<Rightarrow> (string \<times> string) option" where
  "digits1 s = (case digits s of (ds, rest) \<Rightarrow> if ds = [] then None else Some (ds, rest))"

text \<open>The parts of a number: sign, integer without leading zeros, fraction, exponent.\<close>

definition scan_sign :: "string \<Rightarrow> string \<times> string" where
  "scan_sign s = (case s of c # cs \<Rightarrow> if c = CHR ''-'' then (''-'', cs) else ([], s) | [] \<Rightarrow> ([], s))"

definition scan_integer :: "string \<Rightarrow> (string \<times> string) option" where
  "scan_integer s =
     (case s of
        [] \<Rightarrow> None
      | c # cs \<Rightarrow> if c = CHR ''0'' then Some (''0'', cs) else digits1 s)"

definition scan_fraction :: "string \<Rightarrow> (string \<times> string) option" where
  "scan_fraction s =
     (case s of
        [] \<Rightarrow> Some ([], s)
      | c # cs \<Rightarrow>
          if c = CHR ''.'' then do { (ds, rest) \<leftarrow> digits1 cs; Some (c # ds, rest) } else Some ([], s))"

definition scan_exponent :: "string \<Rightarrow> (string \<times> string) option" where
  "scan_exponent s =
     (case s of
        [] \<Rightarrow> Some ([], s)
      | c # cs \<Rightarrow>
          if c = CHR ''e'' \<or> c = CHR ''E'' then
            (case cs of
               [] \<Rightarrow> None
             | d # ds \<Rightarrow>
                 if d = CHR ''+'' \<or> d = CHR ''-'' then do { (es, rest) \<leftarrow> digits1 ds; Some (c # d # es, rest) }
                 else do { (es, rest) \<leftarrow> digits1 cs; Some (c # es, rest) })
          else Some ([], s))"

definition scan_number :: "string \<Rightarrow> (string \<times> string) option" where
  "scan_number s = (case scan_sign s of (sign, r0) \<Rightarrow> do {
     (i, r1) \<leftarrow> scan_integer r0;
     (f, r2) \<leftarrow> scan_fraction r1;
     (e, r3) \<leftarrow> scan_exponent r2;
     Some (sign @ i @ f @ e, r3) })"

definition scan_literal :: "string \<Rightarrow> json \<Rightarrow> string \<Rightarrow> (json \<times> string) option" where
  "scan_literal word j s = (if take (length word) s = word then Some (j, drop (length word) s) else None)"

text \<open>
  The value at the start of a text, and what follows it. The fuel bounds the depth of the recursion; twice
  the length of the text is more than is used (\<open>parse_fuel\<close>).
\<close>

fun parse_value :: "nat \<Rightarrow> string \<Rightarrow> (json \<times> string) option" and
    parse_elems :: "nat \<Rightarrow> string \<Rightarrow> (json list \<times> string) option" and
    parse_members :: "nat \<Rightarrow> string \<Rightarrow> ((string \<times> json) list \<times> string) option" where
  "parse_value 0 s = None"
| "parse_value (Suc n) s =
     (case skip s of
        [] \<Rightarrow> None
      | c # cs \<Rightarrow>
          if c = CHR 0x22 then map_option (\<lambda>(t, rest). (JString t, rest)) (unquote cs)
          else if c = CHR ''['' then
            (case skip cs of
               [] \<Rightarrow> None
             | d # ds \<Rightarrow> if d = CHR '']'' then Some (JArray [], ds)
                 else map_option (\<lambda>(js, rest). (JArray js, rest)) (parse_elems n cs))
          else if c = CHR ''{'' then
            (case skip cs of
               [] \<Rightarrow> None
             | d # ds \<Rightarrow> if d = CHR ''}'' then Some (JObject [], ds)
                 else map_option (\<lambda>(ms, rest). (JObject ms, rest)) (parse_members n cs))
          else if c = CHR ''n'' then scan_literal ''null'' JNull (c # cs)
          else if c = CHR ''t'' then scan_literal ''true'' (JBool True) (c # cs)
          else if c = CHR ''f'' then scan_literal ''false'' (JBool False) (c # cs)
          else map_option (\<lambda>(lit, rest). (JNumber lit, rest)) (scan_number (c # cs)))"
| "parse_elems 0 s = None"
| "parse_elems (Suc n) s = do {
     (j, r) \<leftarrow> parse_value n s;
     case skip r of
       [] \<Rightarrow> None
     | c # cs \<Rightarrow>
         if c = CHR '','' then map_option (\<lambda>(js, rest). (j # js, rest)) (parse_elems n cs)
         else if c = CHR '']'' then Some ([j], cs) else None }"
| "parse_members 0 s = None"
| "parse_members (Suc n) s =
     (case skip s of
        [] \<Rightarrow> None
      | q # qs \<Rightarrow>
          if q \<noteq> CHR 0x22 then None else do {
            (k, r0) \<leftarrow> unquote qs;
            case skip r0 of
              [] \<Rightarrow> None
            | m # mcs \<Rightarrow>
                if m \<noteq> CHR '':'' then None else do {
                  (j, r) \<leftarrow> parse_value n mcs;
                  case skip r of
                    [] \<Rightarrow> None
                  | c # cs \<Rightarrow>
                      if c = CHR '','' then map_option (\<lambda>(ms, rest). ((k, j) # ms, rest)) (parse_members n cs)
                      else if c = CHR ''}'' then Some ([(k, j)], cs) else None } })"

definition parse_json :: "string \<Rightarrow> (json \<times> string) option" where
  "parse_json s = parse_value (2 * length s + 2) s"

section \<open>The fuel is enough\<close>

lemma skip_length: "length (skip s) \<le> length s"
  by (simp add: skip_def length_dropWhile_le)

lemma skip_Cons_length: "skip s = c # cs \<Longrightarrow> length cs < length s"
  using skip_length [of s] by simp

lemma digits1_length: "digits1 s = Some (ds, r) \<Longrightarrow> length r < length s"
  unfolding digits1_def digits_def
  by (auto split: if_splits simp: takeWhile_eq_Nil_iff) (metis dropWhile.simps(2) le_imp_less_Suc length_Cons length_dropWhile_le list.collapse)

lemma scan_number_length: "scan_number s = Some (lit, r) \<Longrightarrow> length r < length s"
proof -
  have sign: "scan_sign s = (a, r0) \<Longrightarrow> length r0 \<le> length s" for a r0
    by (auto simp: scan_sign_def split: list.splits if_splits)
  have int: "scan_integer s = Some (a, r1) \<Longrightarrow> length r1 < length s" for s a r1
    by (auto simp: scan_integer_def split: list.splits if_splits dest: digits1_length)
  have frac: "scan_fraction s = Some (a, r2) \<Longrightarrow> length r2 \<le> length s" for s a r2
    by (auto simp: scan_fraction_def bind_eq_Some_conv split: list.splits if_splits dest!: digits1_length)
  have ex: "scan_exponent s = Some (a, r3) \<Longrightarrow> length r3 \<le> length s" for s a r3
    by (auto simp: scan_exponent_def bind_eq_Some_conv split: list.splits if_splits dest!: digits1_length)
  assume "scan_number s = Some (lit, r)"
  then show ?thesis
    by (auto simp: scan_number_def bind_eq_Some_conv split: prod.splits dest!: sign int frac ex)
qed

lemma scan_literal_length: "scan_literal w j s = Some (k, r) \<Longrightarrow> w \<noteq> [] \<Longrightarrow> length r < length s"
  by (cases s) (auto simp: scan_literal_def split: if_splits)

lemma parse_length_all:
  "(\<forall>s j r. parse_value n s = Some (j, r) \<longrightarrow> length r < length s) \<and>
   (\<forall>s js r. parse_elems n s = Some (js, r) \<longrightarrow> length r < length s) \<and>
   (\<forall>s ms r. parse_members n s = Some (ms, r) \<longrightarrow> length r < length s)"
proof (induction n)
  case 0
  then show ?case by simp
next
  case (Suc n)
  then have v: "parse_value n s = Some (j, r) \<Longrightarrow> length r < length s"
    and e: "parse_elems n s = Some (js, r) \<Longrightarrow> length r < length s"
    and m: "parse_members n s = Some (ms, r) \<Longrightarrow> length r < length s" for s j js ms r by blast+
  have "length r < length s" if run: "parse_value (Suc n) s = Some (j, r)" for s j r
  proof (cases "skip s")
    case Nil
    with run show ?thesis by simp
  next
    case (Cons c cs)
    have len: "length cs < length s" "length (c # cs) \<le> length s"
      using skip_length [of s] Cons by simp_all
    have lit: "scan_literal ''null'' k (c # cs) = Some (j, r) \<Longrightarrow> length r < length s"
        "scan_literal ''true'' k (c # cs) = Some (j, r) \<Longrightarrow> length r < length s"
        "scan_literal ''false'' k (c # cs) = Some (j, r) \<Longrightarrow> length r < length s" for k
      using len(2) by (auto dest!: scan_literal_length)
    have parts: "unquote cs = Some (t, r) \<Longrightarrow> length r < length s"
        "scan_number (c # cs) = Some (t, r) \<Longrightarrow> length r < length s"
        "parse_elems n cs = Some (js, r) \<Longrightarrow> length r < length s"
        "parse_members n cs = Some (ms, r) \<Longrightarrow> length r < length s"
        "skip cs = d # r \<Longrightarrow> length r < length s" for t js ms d
      using len by (auto dest!: unquote_length scan_number_length e m skip_Cons_length)
    from run Cons show ?thesis
      by (simp split: if_split_asm list.split_asm) (auto intro: lit parts)
  qed
  moreover have "length r < length s" if run: "parse_elems (Suc n) s = Some (js, r)" for s js r
  proof -
    from run obtain j t where one: "parse_value n s = Some (j, t)"
      and next_: "(case skip t of [] \<Rightarrow> None
        | c # cs \<Rightarrow> if c = CHR '','' then map_option (\<lambda>(js, rest). (j # js, rest)) (parse_elems n cs)
            else if c = CHR '']'' then Some ([j], cs) else None) = Some (js, r)"
      unfolding parse_elems.simps bind_eq_Some_conv by auto
    from next_ obtain c cs where t: "skip t = c # cs" by (cases "skip t") simp_all
    with v [OF one] have len: "length cs < length s" using skip_Cons_length [OF t] by simp
    from next_ t have "r = cs \<or> (\<exists>js'. parse_elems n cs = Some (js', r))" by (simp split: if_splits) blast
    then show ?thesis using len e by (metis order_less_trans)
  qed
  moreover have "length r < length s" if run: "parse_members (Suc n) s = Some (ms, r)" for s ms r
  proof -
    from run obtain q qs where s: "skip s = q # qs" by (cases "skip s") simp_all
    with run obtain k u where k: "unquote qs = Some (k, u)"
      and next1: "(case skip u of [] \<Rightarrow> None
        | m # mcs \<Rightarrow> if m \<noteq> CHR '':'' then None else do {
            (j, r) \<leftarrow> parse_value n mcs;
            case skip r of [] \<Rightarrow> None
            | c # cs \<Rightarrow> if c = CHR '','' then map_option (\<lambda>(ms, rest). ((k, j) # ms, rest)) (parse_members n cs)
                else if c = CHR ''}'' then Some ([(k, j)], cs) else None}) = Some (ms, r)"
      by (auto simp: bind_eq_Some_conv simp del: parse_value.simps split: if_splits)
    from next1 obtain m mcs where u: "skip u = m # mcs" by (cases "skip u") simp_all
    with next1 obtain j t where one: "parse_value n mcs = Some (j, t)"
      and next2: "(case skip t of [] \<Rightarrow> None
        | c # cs \<Rightarrow> if c = CHR '','' then map_option (\<lambda>(ms, rest). ((k, j) # ms, rest)) (parse_members n cs)
            else if c = CHR ''}'' then Some ([(k, j)], cs) else None) = Some (ms, r)"
      by (auto simp: bind_eq_Some_conv simp del: parse_value.simps split: if_splits)
    from next2 obtain c cs where t: "skip t = c # cs" by (cases "skip t") simp_all
    have len: "length cs < length s"
      using skip_Cons_length [OF s] unquote_length [OF k] skip_Cons_length [OF u] v [OF one]
        skip_Cons_length [OF t] by simp
    from next2 t have "r = cs \<or> (\<exists>ms'. parse_members n cs = Some (ms', r))" by (simp split: if_splits) blast
    then show ?thesis using len m by (metis order_less_trans)
  qed
  ultimately show ?case by blast
qed

lemma parse_value_length: "parse_value n s = Some (j, r) \<Longrightarrow> length r < length s"
  using parse_length_all by blast

lemma parse_fuel_all:
  "(\<forall>s. 2 * length s + 1 \<le> n \<longrightarrow> parse_value (Suc n) s = parse_value n s) \<and>
   (\<forall>s. 2 * length s + 2 \<le> n \<longrightarrow> parse_elems (Suc n) s = parse_elems n s) \<and>
   (\<forall>s. 2 * length s + 2 \<le> n \<longrightarrow> parse_members (Suc n) s = parse_members n s)"
proof (induction n)
  case 0
  then show ?case by simp
next
  case (Suc n)
  then have v: "2 * length s + 1 \<le> n \<Longrightarrow> parse_value (Suc n) s = parse_value n s"
    and e: "2 * length s + 2 \<le> n \<Longrightarrow> parse_elems (Suc n) s = parse_elems n s"
    and m: "2 * length s + 2 \<le> n \<Longrightarrow> parse_members (Suc n) s = parse_members n s" for s by blast+
  have "parse_value (Suc (Suc n)) s = parse_value (Suc n) s" if "2 * length s + 1 \<le> Suc n" for s
  proof (cases "skip s")
    case (Cons c cs)
    with that have "2 * length cs + 2 \<le> n" using skip_Cons_length [OF Cons] by simp
    from e [OF this] m [OF this] Cons show ?thesis
      by (simp only: parse_value.simps(2) list.case)
  qed simp
  moreover have "parse_elems (Suc (Suc n)) s = parse_elems (Suc n) s" if "2 * length s + 2 \<le> Suc n" for s
  proof -
    have v': "parse_value (Suc n) s = parse_value n s" using that v by simp
    have e': "parse_elems (Suc n) cs = parse_elems n cs"
      if "parse_value n s = Some (j, r)" "skip r = c # cs" for j r c cs
      using parse_value_length [OF that(1)] skip_Cons_length [OF that(2)] \<open>2 * length s + 2 \<le> Suc n\<close>
      by (intro e) simp
    show ?thesis
      by (subst parse_elems.simps(2), subst (2) parse_elems.simps(2), subst v', intro Option.bind_cong refl)
        (auto simp del: parse_value.simps parse_elems.simps simp: e' split: list.splits)
  qed
  moreover have "parse_members (Suc (Suc n)) s = parse_members (Suc n) s" if "2 * length s + 2 \<le> Suc n" for s
  proof -
    have v': "parse_value (Suc n) cs = parse_value n cs" if "skip s = q # qs" "unquote qs = Some (k, r)" "skip r = c # cs"
      for q qs k r c cs
      using skip_Cons_length [OF that(1)] unquote_length [OF that(2)] skip_Cons_length [OF that(3)]
        \<open>2 * length s + 2 \<le> Suc n\<close> by (intro v) simp
    have m': "parse_members (Suc n) ds = parse_members n ds"
      if "skip s = q # qs" "unquote qs = Some (k, r)" "skip r = c # cs" "parse_value n cs = Some (j, t)" "skip t = d # ds"
      for q qs k r c cs j t d ds
      using skip_Cons_length [OF that(1)] unquote_length [OF that(2)] skip_Cons_length [OF that(3)]
        parse_value_length [OF that(4)] skip_Cons_length [OF that(5)] \<open>2 * length s + 2 \<le> Suc n\<close>
      by (intro m) simp
    show ?thesis
      by (subst parse_members.simps(2), subst (2) parse_members.simps(2), cases "skip s")
        (auto simp del: parse_value.simps parse_members.simps
          simp: v' m' intro!: Option.bind_cong split: list.splits)
  qed
  ultimately show ?case by blast
qed

text \<open>Any fuel above that of \<^const>\<open>parse_json\<close> gives its answer.\<close>

lemma parse_fuel:
  assumes "2 * length s + 2 \<le> n"
  shows "parse_value n s = parse_json s"
  using assms
proof (induction n rule: dec_induct)
  case (step m)
  then show ?case using parse_fuel_all [of m] by (simp del: parse_value.simps)
qed (simp add: parse_json_def)

section \<open>What is printed is parsed back\<close>

text \<open>What may follow a number: nothing that continues it.\<close>

definition stops :: "string \<Rightarrow> bool" where
  "stops s \<longleftrightarrow> s = [] \<or> \<not> ascii_digit (hd s) \<and> hd s \<notin> set ''.eE+-''"

definition number_ok :: "string \<Rightarrow> bool" where
  "number_ok lit \<longleftrightarrow> scan_number lit = Some (lit, [])"

lemma digits_append: "stops t \<Longrightarrow> digits (s @ t) = (fst (digits s), snd (digits s) @ t)"
proof (induction s)
  case Nil
  then show ?case by (cases t) (auto simp: digits_def stops_def)
qed (simp add: digits_def)

lemma digits1_append: "stops t \<Longrightarrow> digits1 s = Some (a, r) \<Longrightarrow> digits1 (s @ t) = Some (a, r @ t)"
  by (auto simp: digits1_def digits_append split: prod.splits if_splits)

lemma scan_sign_append: "s \<noteq> [] \<Longrightarrow> scan_sign (s @ t) = (fst (scan_sign s), snd (scan_sign s) @ t)"
  by (cases s) (simp_all add: scan_sign_def)

lemma scan_integer_append:
  "stops t \<Longrightarrow> scan_integer s = Some (a, r) \<Longrightarrow> scan_integer (s @ t) = Some (a, r @ t)"
  using digits1_append [of t s] by (cases s) (auto simp: scan_integer_def)

lemma scan_fraction_append:
  "stops t \<Longrightarrow> scan_fraction s = Some (a, r) \<Longrightarrow> scan_fraction (s @ t) = Some (a, r @ t)"
  by (cases s; cases t)
    (auto simp: scan_fraction_def stops_def bind_eq_Some_conv digits1_append split: if_splits)

lemma scan_exponent_append:
  "stops t \<Longrightarrow> scan_exponent s = Some (a, r) \<Longrightarrow> scan_exponent (s @ t) = Some (a, r @ t)"
  using digits1_append [of t "tl s"] digits1_append [of t "tl (tl s)"]
  by (cases s; cases "tl s"; cases t)
    (auto simp: scan_exponent_def stops_def bind_eq_Some_conv split: if_splits)

lemma scan_number_append:
  assumes t: "stops t" and run: "scan_number s = Some (a, r)"
  shows "scan_number (s @ t) = Some (a, r @ t)"
proof -
  have s: "s \<noteq> []" using run by (auto simp: scan_number_def scan_sign_def scan_integer_def)
  obtain sg r0 where sg: "scan_sign s = (sg, r0)" by force
  from run sg obtain i r1 f r2 e where "scan_integer r0 = Some (i, r1)" "scan_fraction r1 = Some (f, r2)"
    "scan_exponent r2 = Some (e, r)" "a = sg @ i @ f @ e"
    by (auto simp: scan_number_def bind_eq_Some_conv)
  with scan_integer_append [OF t] scan_fraction_append [OF t] scan_exponent_append [OF t]
    scan_sign_append [OF s, of t] sg show ?thesis by (simp add: scan_number_def)
qed

text \<open>An array's or an object's end, a comma, a colon: what follows a value inside another.\<close>

lemma stops_delimiter [simp]:
  "stops ('','' @ s)" "stops ('']'' @ s)" "stops (''}'' @ s)" "stops (CHR '','' # s)" "stops (CHR '']'' # s)"
  "stops (CHR ''}'' # s)" "stops []"
  by (simp_all add: stops_def ascii_digit_def)

lemma skip_simps [simp]:
  "skip (CHR '','' # s) = CHR '','' # s" "skip (CHR '':'' # s) = CHR '':'' # s"
  "skip (CHR '']'' # s) = CHR '']'' # s" "skip (CHR ''}'' # s) = CHR ''}'' # s"
  "skip (CHR ''['' # s) = CHR ''['' # s" "skip (CHR ''{'' # s) = CHR ''{'' # s"
  "skip (CHR 0x22 # s) = CHR 0x22 # s" "skip (CHR ''n'' # s) = CHR ''n'' # s"
  "skip (CHR ''t'' # s) = CHR ''t'' # s" "skip (CHR ''f'' # s) = CHR ''f'' # s"
  by (simp_all add: skip_def json_space_def)

lemma number_starts:
  assumes "scan_number s = Some (a, r)"
  shows "\<exists>c cs. s = c # cs \<and> (c = CHR ''-'' \<or> ascii_digit c)"
  using assms
  by (cases s) (auto simp: scan_number_def scan_sign_def scan_integer_def digits1_def digits_def ascii_digit_def
      split: if_splits)

text \<open>What decoding gives: the value with its strings, and the keys of its objects, valid UTF-8.\<close>

fun valid_json :: "json \<Rightarrow> json" where
  "valid_json (JString s) = JString (to_valid s)"
| "valid_json (JArray js) = JArray (map valid_json js)"
| "valid_json (JObject ms) = JObject (map (\<lambda>(k, j). (to_valid k, valid_json j)) ms)"
| "valid_json j = j"

fun numbers_ok :: "json \<Rightarrow> bool" where
  "numbers_ok (JNumber n) = number_ok n"
| "numbers_ok (JArray js) = list_all numbers_ok js"
| "numbers_ok (JObject ms) = list_all (\<lambda>(k, j). numbers_ok j) ms"
| "numbers_ok j = True"

definition self_delimiting :: "json \<Rightarrow> bool" where
  "self_delimiting j \<longleftrightarrow> (case j of JNumber _ \<Rightarrow> False | _ \<Rightarrow> True)"

lemma show_json_starts:
  assumes "numbers_ok j"
  shows "\<exists>c cs. show_json j = c # cs \<and> c \<noteq> CHR '']'' \<and> skip (c # cs @ t) = c # cs @ t"
proof (cases j)
  case (JNumber n)
  with assms number_starts [of n] obtain c cs where "n = c # cs" "c = CHR ''-'' \<or> ascii_digit c"
    by (auto simp: number_ok_def)
  with JNumber show ?thesis by (auto simp: skip_def json_space_def ascii_digit_def)
qed (simp_all add: quoted_def)

lemma parse_number:
  assumes "number_ok lit" and "stops rest"
  shows "parse_value (Suc n) (lit @ rest) = Some (JNumber lit, rest)"
proof -
  have scan: "scan_number (lit @ rest) = Some (lit, rest)"
    using scan_number_append [OF assms(2), of lit lit "[]"] assms(1) by (simp add: number_ok_def)
  from number_starts [OF scan] obtain c cs where s: "lit @ rest = c # cs" and c: "c = CHR ''-'' \<or> ascii_digit c"
    by blast
  have "skip (c # cs) = c # cs" using c by (auto simp: skip_def json_space_def ascii_digit_def)
  moreover have "c \<noteq> CHR 0x22" "c \<noteq> CHR ''[''" "c \<noteq> CHR ''{''" "c \<noteq> CHR ''n''" "c \<noteq> CHR ''t''" "c \<noteq> CHR ''f''"
    using c by (auto simp: ascii_digit_def)
  ultimately show ?thesis using scan unfolding s by simp
qed

lemma parse_show_all:
  "numbers_ok j \<Longrightarrow> 2 * length (show_json j) + 1 \<le> n \<Longrightarrow> self_delimiting j \<or> stops rest \<Longrightarrow>
     parse_value n (show_json j @ rest) = Some (valid_json j, rest)"
  "list_all numbers_ok js \<Longrightarrow> 2 * length (show_elems js) + 2 \<le> n \<Longrightarrow> js \<noteq> [] \<Longrightarrow>
     parse_elems n (show_elems js @ rest) = Some (map valid_json js, rest)"
  "list_all (\<lambda>(k, j). numbers_ok j) ms \<Longrightarrow> 2 * length (show_members ms) + 2 \<le> n \<Longrightarrow> ms \<noteq> [] \<Longrightarrow>
     parse_members n (show_members ms @ rest) = Some (map (\<lambda>(k, j). (to_valid k, valid_json j)) ms, rest)"
proof (induction j and js and ms arbitrary: n rest and n rest and n rest
    rule: show_json_show_elems_show_members.induct)
  case (5 js)
  then obtain m where n: "n = Suc m" by (cases n) auto
  show ?case
  proof (cases js)
    case (Cons j js')
    from "5.prems" Cons have "numbers_ok j" by simp
    from show_json_starts [OF this, of "comma js' @ show_elems js' @ rest"] Cons obtain c cs where
      "show_elems js @ rest = c # cs" "c \<noteq> CHR '']''" "skip (c # cs) = c # cs"
      by (metis append_Cons append_assoc show_elems.simps(2))
    moreover from "5.IH" "5.prems" Cons have "parse_elems m (show_elems js @ rest) = Some (map valid_json js, rest)"
      by (simp add: n)
    ultimately show ?thesis by (simp add: n)
  qed (simp add: n)
next
  case (6 ms)
  then obtain m where n: "n = Suc m" by (cases n) auto
  show ?case
  proof (cases ms)
    case (Cons kj ms')
    obtain k j where kj: "kj = (k, j)" by force
    obtain cs where "show_members ms @ rest = CHR 0x22 # cs" by (simp add: Cons kj quoted_def)
    moreover from "6.IH" "6.prems" Cons have
      "parse_members m (show_members ms @ rest) = Some (map (\<lambda>(k, j). (to_valid k, valid_json j)) ms, rest)"
      by (simp add: n)
    ultimately show ?thesis by (simp add: n)
  qed (simp add: n)
next
  case (8 j js)
  then obtain m where n: "n = Suc m" by (cases n) auto
  have "parse_value m (show_json j @ comma js @ show_elems js @ rest) = Some (valid_json j, comma js @ show_elems js @ rest)"
    by (rule "8.IH"(1)) (use "8.prems" n in \<open>cases js; auto simp: comma_def\<close>)+
  moreover have "js \<noteq> [] \<Longrightarrow> parse_elems m (show_elems js @ rest) = Some (map valid_json js, rest)"
    by (rule "8.IH"(2)) (use "8.prems" n in \<open>auto simp: comma_def\<close>)
  ultimately show ?case by (cases js) (simp_all add: n comma_def del: parse_value.simps)
next
  case (10 k j ms)
  then obtain m where n: "n = Suc m" by (cases n) auto
  have "parse_value m (show_json j @ comma ms @ show_members ms @ rest) = Some (valid_json j, comma ms @ show_members ms @ rest)"
    by (rule "10.IH"(1)) (use "10.prems" n in \<open>cases ms; auto simp: comma_def\<close>)+
  moreover have "ms \<noteq> [] \<Longrightarrow> parse_members m (show_members ms @ rest) =
      Some (map (\<lambda>(k, j). (to_valid k, valid_json j)) ms, rest)"
    by (rule "10.IH"(2)) (use "10.prems" n in \<open>auto simp: comma_def\<close>)
  ultimately show ?case
    by (cases ms) (auto simp add: n comma_def quoted_def unquote_escape simp del: parse_value.simps)
next
  case (3 lit)
  then show ?case using parse_number by (cases n) (auto simp: self_delimiting_def)
next
  case 1
  then show ?case by (cases n) (auto simp: scan_literal_def)
next
  case (2 b)
  then show ?case by (cases n) (auto simp: scan_literal_def)
next
  case (4 s)
  then show ?case by (cases n) (auto simp: quoted_def unquote_escape)
qed simp_all

theorem parse_show_json:
  assumes "numbers_ok j" and "self_delimiting j \<or> stops rest"
  shows "parse_json (show_json j @ rest) = Some (valid_json j, rest)"
  unfolding parse_json_def by (rule parse_show_all(1)) (use assms in auto)

section \<open>Integers\<close>

text \<open>\<open>strconv.ParseInt\<close> on the literals the scanner gives: \<^const>\<open>None\<close> for a fraction or an exponent.\<close>

fun parse_nat :: "string \<Rightarrow> nat \<Rightarrow> nat option" where
  "parse_nat [] acc = Some acc"
| "parse_nat (c # cs) acc = (if ascii_digit c then parse_nat cs (acc * 10 + (byte c - 48)) else None)"

definition parse_int :: "string \<Rightarrow> int option" where
  "parse_int s =
     (case s of
        [] \<Rightarrow> None
      | c # cs \<Rightarrow>
          if c = CHR ''-'' then (if cs = [] then None else map_option (\<lambda>n. - int n) (parse_nat cs 0))
          else map_option int (parse_nat s 0))"

definition in_bits :: "nat \<Rightarrow> int \<Rightarrow> bool" where
  "in_bits b i \<longleftrightarrow> - (2 ^ (b - 1)) \<le> i \<and> i < 2 ^ (b - 1)"

lemma ascii_digit_digit [simp]: "d < 10 \<Longrightarrow> ascii_digit (digit d)"
  by (simp add: ascii_digit_def of_char_digit)

lemma parse_nat_append: "parse_nat (s @ t) acc = Option.bind (parse_nat s acc) (parse_nat t)"
  by (induction s arbitrary: acc) auto

lemma parse_nat_itoa: "parse_nat (itoa_nat n) 0 = Some n"
proof (induction n rule: itoa_nat.induct)
  case (1 n)
  then show ?case
    by (subst itoa_nat.simps) (auto simp: parse_nat_append of_char_digit)
qed

lemma parse_int_Itoa: "parse_int (Itoa i) = Some i"
proof (cases "i < 0")
  case True
  then show ?thesis by (simp add: Itoa_def parse_int_def parse_nat_itoa)
next
  case False
  obtain c cs where s: "itoa_nat (nat i) = c # cs" by (cases "itoa_nat (nat i)") auto
  with itoa_nat_digits [of "nat i"] have "is_digit c" by simp
  then have "c \<noteq> CHR ''-''" by (rule is_digit_not)
  with s False parse_nat_itoa [of "nat i"] show ?thesis by (simp add: Itoa_def parse_int_def)
qed

lemma itoa_nat_hd: "0 < n \<Longrightarrow> hd (itoa_nat n) \<noteq> CHR ''0''"
proof (induction n rule: itoa_nat.induct)
  case (1 n)
  show ?case
  proof (cases "n < 10")
    case True
    have "CHR ''0'' = digit 0" by code_simp
    with True "1.prems" show ?thesis by (subst itoa_nat.simps) (simp add: digit_inj)
  next
    case False
    then have "hd (itoa_nat (n div 10)) \<noteq> CHR ''0''" by (intro "1.IH") auto
    with False show ?thesis by (subst itoa_nat.simps) simp
  qed
qed

lemma number_ok_Itoa: "number_ok (Itoa i)"
proof -
  have d: "\<forall>c \<in> set (itoa_nat n). ascii_digit c" for n
    using itoa_nat_digits is_digit_range by (auto simp: ascii_digit_def)
  then have all: "takeWhile ascii_digit (itoa_nat n) = itoa_nat n" "dropWhile ascii_digit (itoa_nat n) = []" for n
    by simp_all
  have int: "scan_integer (itoa_nat n) = Some (itoa_nat n, [])" for n
  proof (cases "n = 0")
    case True
    then have "itoa_nat n = ''0''" by (simp add: itoa_nat.simps digit_def char_of_def bit_numeral_rec bit_0)
    then show ?thesis by (simp add: scan_integer_def)
  next
    case False
    then show ?thesis using itoa_nat_hd [of n] all [of n]
      by (cases "itoa_nat n") (auto simp: scan_integer_def digits1_def digits_def)
  qed
  have sign: "scan_sign (itoa_nat n) = ([], itoa_nat n)" for n
    using minus_notin_itoa_nat [of n] by (cases "itoa_nat n") (auto simp: scan_sign_def)
  show ?thesis
    by (simp add: number_ok_def Itoa_def scan_number_def sign int scan_fraction_def scan_exponent_def)
      (simp add: scan_sign_def int)
qed

end
