(* ===== verification/GoJson.thy ===== *)
theory GoJson
  imports JsonValue
begin

text \<open>
  \<open>json.Marshal\<close> and \<open>json.Decoder\<close> as they walk Go values by reflection: a description of the types the
  operator sends and reads (\<open>gotype\<close>, with the names and options of the struct tags), their values
  (\<open>goval\<close>), the encoder, and the decoder with its rules for null, for keys, for duplicate keys and for
  slices that already have elements. What is marshalled is decoded to the same value, up to the
  replacement of bytes that are not UTF-8 and to empty slices that the tags leave out.
\<close>

section \<open>Types and values\<close>

text \<open>A field has its name in JSON, whether it is \<open>omitempty\<close>, and its type; maps have string keys.\<close>

datatype gotype =
    TString
  | TBool
  | TInt nat
  | TSlice gotype
  | TMap gotype
  | TPtr gotype
  | TStruct "(string \<times> bool \<times> gotype) list"

text \<open>
  A slice has its elements, and the values decoded into its array past its length; \<open>VNil\<close> is the nil slice,
  map or pointer.
\<close>

datatype goval =
    VString string
  | VBool bool
  | VInt int
  | VNil
  | VSlice "goval list" "goval list"
  | VMap "(string \<times> goval) list"
  | VPtr goval
  | VStruct "goval list"

fun zero_of :: "gotype \<Rightarrow> goval" where
  "zero_of TString = VString []"
| "zero_of TBool = VBool False"
| "zero_of (TInt b) = VInt 0"
| "zero_of (TSlice t) = VNil"
| "zero_of (TMap t) = VNil"
| "zero_of (TPtr t) = VNil"
| "zero_of (TStruct fs) = VStruct (map (\<lambda>(name, opt, t). zero_of t) fs)"

section \<open>The encoder\<close>

definition empty_value :: "goval \<Rightarrow> bool" where
  "empty_value v \<longleftrightarrow>
     (case v of
        VString s \<Rightarrow> s = []
      | VBool b \<Rightarrow> \<not> b
      | VInt i \<Rightarrow> i = 0
      | VNil \<Rightarrow> True
      | VSlice vs _ \<Rightarrow> vs = []
      | VMap m \<Rightarrow> m = []
      | _ \<Rightarrow> False)"

text \<open>The value of a type that does not have that form has no meaning; it is \<^const>\<open>JNull\<close> here.\<close>

fun encode_value :: "gotype \<Rightarrow> goval \<Rightarrow> json" and
    encode_fields :: "(string \<times> bool \<times> gotype) list \<Rightarrow> goval list \<Rightarrow> (string \<times> json) list" where
  "encode_value t VNil = JNull"
| "encode_value TString (VString s) = JString s"
| "encode_value TBool (VBool b) = JBool b"
| "encode_value (TInt b) (VInt i) = JNumber (Itoa i)"
| "encode_value (TSlice t) (VSlice vs _) = JArray (map (encode_value t) vs)"
| "encode_value (TMap t) (VMap m) = JObject (map (\<lambda>(k, v). (k, encode_value t v)) m)"
| "encode_value (TPtr t) (VPtr v) = encode_value t v"
| "encode_value (TStruct fs) (VStruct vs) = JObject (encode_fields fs vs)"
| "encode_value t v = JNull"
| "encode_fields ((name, opt, t) # fs) (v # vs) =
     (if opt \<and> empty_value v then encode_fields fs vs
      else (name, encode_value t v) # encode_fields fs vs)"
| "encode_fields fs vs = []"

definition Marshal_value :: "gotype \<Rightarrow> goval \<Rightarrow> string" where
  "Marshal_value t v = show_json (encode_value t v)"

section \<open>The decoder\<close>

text \<open>
  The field of a key: the one with that very name, else the first whose name equals it under case folding,
  where the long s and the Kelvin sign fold to s and k.
\<close>

function fold_key :: "string \<Rightarrow> string" where
  "fold_key [] = []"
| "fold_key (c # cs) =
     (if take 2 (c # cs) = [CHR 0xC5, CHR 0xBF] then CHR ''s'' # fold_key (drop 2 (c # cs))
      else if take 3 (c # cs) = [CHR 0xE2, CHR 0x84, CHR 0xAA] then CHR ''k'' # fold_key (drop 3 (c # cs))
      else ascii_lower c # fold_key cs)"
  by pat_completeness auto

termination
  by (relation "measure length") auto

fun index_where :: "('a \<Rightarrow> bool) \<Rightarrow> 'a list \<Rightarrow> nat option" where
  "index_where p [] = None"
| "index_where p (x # xs) = (if p x then Some 0 else map_option Suc (index_where p xs))"

definition field_index :: "(string \<times> bool \<times> gotype) list \<Rightarrow> string \<Rightarrow> nat option" where
  "field_index fs key =
     (case index_where (\<lambda>(name, _). name = key) fs of
        Some i \<Rightarrow> Some i
      | None \<Rightarrow> index_where (\<lambda>(name, _). fold_key name = fold_key key) fs)"

text \<open>
  Decoding a value into a variable that holds another, \<^const>\<open>None\<close> with the error of a value of the wrong
  kind or an integer out of range. A slice is filled from its first element on, over what its array holds,
  and given the length of the JSON array; a map gets the entries added; a struct gets the fields that the
  object has, unknown keys left out.
\<close>

function (sequential) decode_into :: "gotype \<Rightarrow> json \<Rightarrow> goval \<Rightarrow> goval option" and
    decode_elems :: "gotype \<Rightarrow> json list \<Rightarrow> goval list \<Rightarrow> goval list option" and
    decode_entries :: "gotype \<Rightarrow> (string \<times> json) list \<Rightarrow> (string \<times> goval) list \<Rightarrow> (string \<times> goval) list option" and
    decode_fields :: "(string \<times> bool \<times> gotype) list \<Rightarrow> (string \<times> json) list \<Rightarrow> goval list \<Rightarrow> goval list option" where
  "decode_into (TPtr t) JNull v = Some VNil"
| "decode_into (TSlice t) JNull v = Some VNil"
| "decode_into (TMap t) JNull v = Some VNil"
| "decode_into t JNull v = Some v"
| "decode_into (TPtr t) j v =
     map_option VPtr (decode_into t j (case v of VPtr u \<Rightarrow> u | _ \<Rightarrow> zero_of t))"
| "decode_into TString (JString s) v = Some (VString s)"
| "decode_into TBool (JBool b) v = Some (VBool b)"
| "decode_into (TInt b) (JNumber n) v = do {
     i \<leftarrow> parse_int n;
     if in_bits b i then Some (VInt i) else None }"
| "decode_into (TSlice t) (JArray js) v =
     (if js = [] then Some (VSlice [] [])
      else (let array = (case v of VSlice vs hidden \<Rightarrow> vs @ hidden | _ \<Rightarrow> [])
            in map_option (\<lambda>vs. VSlice vs (drop (length js) array)) (decode_elems t js array)))"
| "decode_into (TMap t) (JObject ms) v =
     map_option VMap (decode_entries t ms (case v of VMap m \<Rightarrow> m | _ \<Rightarrow> []))"
| "decode_into (TStruct fs) (JObject ms) v =
     map_option VStruct (decode_fields fs ms (case v of VStruct vs \<Rightarrow> vs | _ \<Rightarrow> []))"
| "decode_into t j v = None"
| "decode_elems t [] array = Some []"
| "decode_elems t (j # js) array = do {
     v \<leftarrow> decode_into t j (case array of [] \<Rightarrow> zero_of t | u # _ \<Rightarrow> u);
     vs \<leftarrow> decode_elems t js (drop 1 array);
     Some (v # vs) }"
| "decode_entries t [] m = Some m"
| "decode_entries t ((k, j) # ms) m = do {
     v \<leftarrow> decode_into t j (zero_of t);
     decode_entries t ms (mput k v m) }"
| "decode_fields fs [] vs = Some vs"
| "decode_fields fs ((k, j) # ms) vs =
     (case field_index fs k of
        None \<Rightarrow> decode_fields fs ms vs
      | Some i \<Rightarrow> do {
          v \<leftarrow> decode_into (snd (snd (fs ! i))) j (vs ! i);
          decode_fields fs ms (vs[i := v]) })"
  by pat_completeness auto

termination
  by (relation "measures
        [case_sum (case_sum (\<lambda>(t, j, v). size j) (\<lambda>(t, js, vs). size_list size js))
           (case_sum (\<lambda>(t, ms, m). size_list (size_prod (\<lambda>_. 0) size) ms)
              (\<lambda>(fs, ms, vs). size_list (size_prod (\<lambda>_. 0) size) ms)),
         case_sum (case_sum (\<lambda>(t, j, v). size t) (\<lambda>_. 0)) (\<lambda>_. 0)]")
     simp_all

text \<open>\<open>json.Unmarshal\<close> takes the whole text, \<open>Decoder.Decode\<close> the first value of a stream.\<close>

definition Unmarshal_value :: "gotype \<Rightarrow> string \<Rightarrow> goval \<Rightarrow> goval option" where
  "Unmarshal_value t s v = do {
     (j, rest) \<leftarrow> parse_json s;
     if skip rest = [] then decode_into t j v else None }"

definition Decode_value :: "gotype \<Rightarrow> string \<Rightarrow> goval \<Rightarrow> goval option" where
  "Decode_value t s v = do {
     (j, _) \<leftarrow> parse_json s;
     decode_into t j v }"

section \<open>What arrives\<close>

fun has_type :: "gotype \<Rightarrow> goval \<Rightarrow> bool" and
    have_types :: "(string \<times> bool \<times> gotype) list \<Rightarrow> goval list \<Rightarrow> bool" where
  "has_type TString (VString s) = True"
| "has_type TBool (VBool b) = True"
| "has_type (TInt b) (VInt i) = in_bits b i"
| "has_type (TSlice t) VNil = True"
| "has_type (TSlice t) (VSlice vs hidden) = list_all (has_type t) vs"
| "has_type (TMap t) VNil = True"
| "has_type (TMap t) (VMap m) = list_all (\<lambda>(k, v). has_type t v) m"
| "has_type (TPtr t) VNil = True"
| "has_type (TPtr t) (VPtr v) = has_type t v"
| "has_type (TStruct fs) (VStruct vs) = have_types fs vs"
| "has_type t v = False"
| "have_types [] [] = True"
| "have_types ((name, opt, t) # fs) (v # vs) = (has_type t v \<and> have_types fs vs)"
| "have_types fs vs = False"

text \<open>The names of the fields of a struct are distinct and valid UTF-8.\<close>

fun wf_type :: "gotype \<Rightarrow> bool" where
  "wf_type (TSlice t) = wf_type t"
| "wf_type (TMap t) = wf_type t"
| "wf_type (TPtr t) = wf_type t"
| "wf_type (TStruct fs) =
     (distinct (map fst fs) \<and> list_all (\<lambda>(name, opt, t). utf8_valid name \<and> wf_type t) fs)"
| "wf_type t = True"

text \<open>
  The value the other side has: strings and keys made valid, nothing past the length of a slice, a pointer
  to what is written as null lost, and the zero value for what \<open>omitempty\<close> leaves out.
\<close>

fun sent :: "gotype \<Rightarrow> goval \<Rightarrow> goval" and
    sent_fields :: "(string \<times> bool \<times> gotype) list \<Rightarrow> goval list \<Rightarrow> goval list" where
  "sent TString (VString s) = VString (to_valid s)"
| "sent (TSlice t) (VSlice vs hidden) = VSlice (map (sent t) vs) []"
| "sent (TMap t) (VMap m) = VMap (fold (\<lambda>(k, v). mput (to_valid k) (sent t v)) m [])"
| "sent (TPtr t) (VPtr v) = (if encode_value t v = JNull then VNil else VPtr (sent t v))"
| "sent (TStruct fs) (VStruct vs) = VStruct (sent_fields fs vs)"
| "sent t v = v"
| "sent_fields ((name, opt, t) # fs) (v # vs) =
     (if opt \<and> empty_value v then zero_of t else sent t v) # sent_fields fs vs"
| "sent_fields fs vs = []"

lemma numbers_ok_encode:
  "numbers_ok (encode_value t v)"
  "list_all (\<lambda>(k, j). numbers_ok j) (encode_fields fs vs)"
  by (induction t v and fs vs rule: encode_value_encode_fields.induct)
    (auto simp: number_ok_Itoa list_all_iff)

lemma decode_elems_sent:
  assumes "\<And>v. v \<in> set vs \<Longrightarrow> decode_into t (f v) (zero_of t) = Some (g v)"
  shows "decode_elems t (map f vs) [] = Some (map g vs)"
  using assms by (induction vs) auto

lemma decode_entries_sent:
  assumes "\<And>k v. (k, v) \<in> set m \<Longrightarrow> decode_into t (f v) (zero_of t) = Some (g v)"
  shows "decode_entries t (map (\<lambda>(k, v). (to_valid k, f v)) m) acc =
    Some (fold (\<lambda>(k, v). mput (to_valid k) (g v)) m acc)"
  using assms
proof (induction m arbitrary: acc)
  case (Cons kv m)
  obtain k v where kv: "kv = (k, v)" by force
  have "decode_entries t (map (\<lambda>(k, v). (to_valid k, f v)) m) acc' =
      Some (fold (\<lambda>(k, v). mput (to_valid k) (g v)) m acc')" for acc'
    by (rule Cons.IH) (auto intro: Cons.prems)
  moreover have "decode_into t (f v) (zero_of t) = Some (g v)" using Cons.prems [of k v] kv by simp
  ultimately show ?case by (simp add: kv)
qed simp

lemma index_where_append:
  "\<forall>x \<in> set xs. \<not> p x \<Longrightarrow> p y \<Longrightarrow> index_where p (xs @ y # ys) = Some (length xs)"
  by (induction xs) auto

lemma field_index_own:
  assumes "distinct (map fst (pre @ (name, ot) # fs))"
  shows "field_index (pre @ (name, ot) # fs) name = Some (length pre)"
proof -
  from assms have "\<forall>x \<in> set pre. \<not> (case x of (n, _) \<Rightarrow> n = name)" by force
  then have "index_where (\<lambda>(n, _). n = name) (pre @ (name, ot) # fs) = Some (length pre)"
    by (rule index_where_append) simp
  then show ?thesis by (simp add: field_index_def)
qed

lemma decode_ptr_not_null:
  "j \<noteq> JNull \<Longrightarrow> decode_into (TPtr t) j VNil = map_option VPtr (decode_into t j (zero_of t))"
  by (cases j) simp_all

lemma valid_json_null [simp]: "valid_json j = JNull \<longleftrightarrow> j = JNull"
  by (cases j) simp_all

lemma decode_encode:
  "wf_type t \<Longrightarrow> has_type t v \<Longrightarrow>
     decode_into t (valid_json (encode_value t v)) (zero_of t) = Some (sent t v)"
  "list_all (\<lambda>(name, opt, t). utf8_valid name \<and> wf_type t) fs \<Longrightarrow> have_types fs vs \<Longrightarrow>
     distinct (map fst (pre @ fs)) \<Longrightarrow> length pre = length done \<Longrightarrow>
     decode_fields (pre @ fs) (map (\<lambda>(k, j). (to_valid k, valid_json j)) (encode_fields fs vs))
       (done @ map (\<lambda>(name, opt, t). zero_of t) fs) = Some (done @ sent_fields fs vs)"
proof (induction t v and fs vs arbitrary: and pre "done" rule: encode_value_encode_fields.induct)
  case (5 t vs hidden)
  then have "decode_elems t (map (\<lambda>v. valid_json (encode_value t v)) vs) [] = Some (map (sent t) vs)"
    by (intro decode_elems_sent) (auto simp: list_all_iff)
  then show ?case by (auto simp: comp_def)
next
  case (6 t m)
  then have "decode_entries t (map (\<lambda>(k, v). (to_valid k, valid_json (encode_value t v))) m) [] =
      Some (fold (\<lambda>(k, v). mput (to_valid k) (sent t v)) m [])"
    by (intro decode_entries_sent) (auto simp: list_all_iff)
  then show ?case by (simp add: comp_def case_prod_unfold)
next
  case (7 t v)
  then show ?case by (cases "encode_value t v = JNull") (simp_all add: decode_ptr_not_null)
next
  case (8 fs vs)
  from "8.IH" [of "[]" "[]"] "8.prems" show ?case by simp
next
  case (10 name opt t fs v vs)
  let ?rest = "map (\<lambda>(k, j). (to_valid k, valid_json j)) (encode_fields fs vs)"
  let ?zeros = "map (\<lambda>(name, opt, t). zero_of t) fs"
  have name: "to_valid name = name" and wf: "wf_type t" and typed: "has_type t v"
    using "10.prems"(1,2) by (simp_all add: utf8_valid_def)
  have dist: "distinct (map fst ((pre @ [(name, opt, t)]) @ fs))" using "10.prems"(3) by simp
  have len: "length (pre @ [(name, opt, t)]) = length (done @ [x])" for x using "10.prems"(4) by simp
  have own: "field_index (pre @ (name, opt, t) # fs) name = Some (length done)"
    using field_index_own [of pre name "(opt, t)" fs] "10.prems"(3,4) by simp
  have at: "(pre @ (name, opt, t) # fs) ! length done = (name, opt, t)"
    "(done @ zero_of t # ?zeros) ! length done = zero_of t" "(done @ zero_of t # ?zeros)[length done := y] = done @ y # ?zeros" for y
    using "10.prems"(4) by (simp_all add: nth_append)
  show ?case
  proof (cases "opt \<and> empty_value v")
    case True
    from "10.IH"(1) [OF True _ _ dist len, of "zero_of t"] "10.prems" True show ?thesis by simp
  next
    case False
    from "10.IH"(2) [OF False wf typed] have one: "decode_into t (valid_json (encode_value t v)) (zero_of t) = Some (sent t v)" .
    from "10.IH"(3) [OF False _ _ dist len, of "sent t v"] "10.prems" False show ?thesis
      by (auto simp: name own at one)
  qed
next
  case (1 t)
  then show ?case by (cases t) simp_all
qed (auto simp: parse_int_Itoa elim: have_types.elims)

text \<open>The texts: what is marshalled, with anything after it in a stream, is decoded to what is sent.\<close>

lemma Decode_Marshal:
  assumes "wf_type t" and "has_type t v" and "self_delimiting (encode_value t v) \<or> stops rest"
  shows "Decode_value t (Marshal_value t v @ rest) (zero_of t) = Some (sent t v)"
  unfolding Decode_value_def Marshal_value_def
  using parse_show_json [OF numbers_ok_encode(1) assms(3)] decode_encode(1) [OF assms(1,2)] by simp

lemma Unmarshal_Marshal:
  assumes "wf_type t" and "has_type t v"
  shows "Unmarshal_value t (Marshal_value t v) (zero_of t) = Some (sent t v)"
  unfolding Unmarshal_value_def Marshal_value_def
  using parse_show_json [OF numbers_ok_encode(1), of t v "[]"] decode_encode(1) [OF assms]
  by (simp add: skip_def stops_def)

section \<open>Values of slices, strings and integers\<close>

definition slice_value :: "('a \<Rightarrow> goval) \<Rightarrow> 'a list \<Rightarrow> goval" where
  "slice_value f xs = (if xs = [] then VNil else VSlice (map f xs) [])"

definition value_slice :: "(goval \<Rightarrow> 'a) \<Rightarrow> goval \<Rightarrow> 'a list" where
  "value_slice g v = (case v of VSlice vs _ \<Rightarrow> map g vs | _ \<Rightarrow> [])"

definition value_string :: "goval \<Rightarrow> string" where
  "value_string v = (case v of VString s \<Rightarrow> s | _ \<Rightarrow> [])"

definition value_bool :: "goval \<Rightarrow> bool" where
  "value_bool v = (case v of VBool b \<Rightarrow> b | _ \<Rightarrow> False)"

definition value_int :: "goval \<Rightarrow> int" where
  "value_int v = (case v of VInt i \<Rightarrow> i | _ \<Rightarrow> 0)"

definition struct_fields :: "goval \<Rightarrow> goval list" where
  "struct_fields v = (case v of VStruct vs \<Rightarrow> vs | _ \<Rightarrow> [])"

lemma value_simps [simp]:
  "value_string (VString s) = s" "value_bool (VBool b) = b" "value_int (VInt i) = i"
  "struct_fields (VStruct vs) = vs"
  by (simp_all add: value_string_def value_bool_def value_int_def struct_fields_def)

lemma has_type_slice: "has_type (TSlice t) (slice_value f xs) \<longleftrightarrow> (\<forall>x \<in> set xs. has_type t (f x))"
  by (auto simp: slice_value_def list_all_iff)

lemma sent_slice: "sent (TSlice t) (slice_value f xs) = slice_value (sent t \<circ> f) xs"
  by (simp add: slice_value_def)

lemma slice_value_map: "slice_value f (map g xs) = slice_value (\<lambda>x. f (g x)) xs"
  by (simp add: slice_value_def comp_def)

lemma value_slice_of: "value_slice g (slice_value f xs) = map (g \<circ> f) xs"
  by (simp add: slice_value_def value_slice_def)

lemma in_bits_sint64: "in_bits 64 (sint (x :: 64 word))" and in_bits_sint32: "in_bits 32 (sint (y :: 32 word))"
  using sint_range_size [of x] sint_range_size [of y] by (simp_all add: in_bits_def word_size)

end
