(* ===== verification/NatsTypes.thy ===== *)
theory NatsTypes
  imports KubeTypes GoJson
begin

text \<open>
  The custom resources of the NATS operator (\<open>pkg/apis/nats/v1alpha2/cluster.go\<close>,
  \<open>service_role.go\<close>) and of the NATS streaming operator
  (\<open>pkg/apis/streaming/v1alpha1/types.go\<close>) that the operator creates: their types, the
  validation and defaulting of a cluster's spec, and the operations on its status with the
  bounded log of conditions.
\<close>

section \<open>The NATS cluster\<close>

record nats_server_config =
  nsc_Debug :: bool
  nsc_Trace :: bool
  nsc_WriteDeadline :: string
  nsc_MaxConnections :: goint
  nsc_MaxPayload :: goint
  nsc_MaxPending :: goint
  nsc_MaxSubscriptions :: goint
  nsc_MaxControlLine :: goint
  nsc_DisableLogtime :: bool

record operator_config =
  oc_Secret :: string
  oc_SystemAccount :: string
  oc_Resolver :: string

record extra_route =
  er_Cluster :: string
  er_Route :: string

record remote_gateway_opts =
  rg_Name :: string
  rg_URL :: string

record gateway_config =
  gc_Name :: string
  gc_Port :: goint
  gc_Gateways :: "remote_gateway_opts option list"

record leaf_node_config =
  lnc_Port :: goint

text \<open>The timeouts are \<open>float64\<close>: their bit patterns.\<close>

record tls_config =
  tls_ServerSecret :: string
  tls_ServerSecretCAFileName :: string
  tls_ServerSecretKeyFileName :: string
  tls_ServerSecretCertFileName :: string
  tls_RoutesSecret :: string
  tls_RoutesSecretCAFileName :: string
  tls_RoutesSecretKeyFileName :: string
  tls_RoutesSecretCertFileName :: string
  tls_GatewaySecret :: string
  tls_GatewaySecretCAFileName :: string
  tls_GatewaySecretKeyFileName :: string
  tls_GatewaySecretCertFileName :: string
  tls_LeafnodeSecret :: string
  tls_LeafnodeSecretCAFileName :: string
  tls_LeafnodeSecretKeyFileName :: string
  tls_LeafnodeSecretCertFileName :: string
  tls_EnableHttps :: bool
  tls_ClientsTLSTimeout :: "64 word"
  tls_RoutesTLSTimeout :: "64 word"
  tls_GatewaysTLSTimeout :: "64 word"
  tls_LeafnodesTLSTimeout :: "64 word"
  tls_Verify :: bool

record pod_policy =
  pp_Labels :: "string gomap"
  pp_Annotations :: "string gomap"
  pp_NodeSelector :: "string gomap"
  pp_AntiAffinity :: bool
  pp_Resources :: resource_requirements
  pp_Tolerations :: "rest list"
  pp_NatsEnv :: "env_var list"
  pp_EnableConfigReload :: bool
  pp_ReloaderImage :: string
  pp_ReloaderImageTag :: string
  pp_ReloaderImagePullPolicy :: string
  pp_EnableMetrics :: bool
  pp_MetricsImage :: string
  pp_MetricsImageTag :: string
  pp_MetricsImagePullPolicy :: string
  pp_EnableClientsHostPort :: bool
  pp_AdvertiseExternalIP :: bool
  pp_BootConfigContainerImage :: string
  pp_BootConfigContainerImageTag :: string
  pp_VolumeMounts :: "volume_mount list"

record auth_config =
  ac_EnableServiceAccounts :: bool
  ac_ClientsAuthSecret :: string
  ac_ClientsAuthFile :: string
  ac_ClientsAuthTimeout :: goint
  ac_TLSVerifyAndMap :: bool

record cluster_spec =
  cs_Size :: goint
  cs_Version :: string
  cs_ServerImage :: string
  cs_ServerConfig :: "nats_server_config option"
  cs_Paused :: bool
  cs_Pod :: "pod_policy option"
  cs_TLS :: "tls_config option"
  cs_Auth :: "auth_config option"
  cs_LameDuckDurationSeconds :: "int64 option"
  cs_NoAdvertise :: bool
  cs_PodTemplate :: "rest option"
  cs_ExtraRoutes :: "extra_route option list"
  cs_GatewayConfig :: "gateway_config option"
  cs_LeafNodeConfig :: "leaf_node_config option"
  cs_OperatorConfig :: "operator_config option"

definition zero_cluster_spec :: cluster_spec where
  "zero_cluster_spec =
     \<lparr>cs_Size = 0, cs_Version = [], cs_ServerImage = [], cs_ServerConfig = None, cs_Paused = False,
      cs_Pod = None, cs_TLS = None, cs_Auth = None, cs_LameDuckDurationSeconds = None,
      cs_NoAdvertise = False, cs_PodTemplate = None, cs_ExtraRoutes = [], cs_GatewayConfig = None,
      cs_LeafNodeConfig = None, cs_OperatorConfig = None\<rparr>"

record cluster_condition =
  cc_Type :: string
  cc_Reason :: string
  cc_TransitionTime :: string

record cluster_status =
  cst_Phase :: string
  cst_Reason :: string
  cst_ControlPaused :: bool
  cst_Conditions :: "cluster_condition list"
  cst_Size :: goint
  cst_CurrentVersion :: string

definition zero_cluster_status :: cluster_status where
  "zero_cluster_status =
     \<lparr>cst_Phase = [], cst_Reason = [], cst_ControlPaused = False, cst_Conditions = [], cst_Size = 0,
      cst_CurrentVersion = []\<rparr>"

record nats_cluster =
  nc_TypeMeta :: type_meta
  nc_ObjectMeta :: object_meta
  nc_Spec :: cluster_spec
  nc_Status :: cluster_status

section \<open>Roles\<close>

record permissions =
  perm_Publish :: "string list"
  perm_Subscribe :: "string list"

record service_role_spec =
  srs_Permissions :: permissions

record nats_service_role =
  nsr_TypeMeta :: type_meta
  nsr_ObjectMeta :: object_meta
  nsr_Spec :: service_role_spec

section \<open>The streaming cluster\<close>

record stan_server_config =
  ssc_Debug :: bool
  ssc_Trace :: bool
  ssc_RaftLogging :: bool
  ssc_StoreDir :: string

record stan_cluster_spec =
  scs_Size :: int32
  scs_Image :: string
  scs_NatsService :: string
  scs_Config :: "stan_server_config option"
  scs_StoreType :: string
  scs_ConfigFile :: string
  scs_PodTemplate :: "rest option"

definition zero_stan_cluster_spec :: stan_cluster_spec where
  "zero_stan_cluster_spec =
     \<lparr>scs_Size = 0, scs_Image = [], scs_NatsService = [], scs_Config = None, scs_StoreType = [],
      scs_ConfigFile = [], scs_PodTemplate = None\<rparr>"

record stan_cluster =
  sc_TypeMeta :: type_meta
  sc_ObjectMeta :: object_meta
  sc_Spec :: stan_cluster_spec

section \<open>Owner references and annotations\<close>

definition NatsCluster_AsOwner :: "nats_cluster \<Rightarrow> owner_reference" where
  "NatsCluster_AsOwner c =
     \<lparr>or_APIVersion = tm_APIVersion (nc_TypeMeta c), or_Kind = tm_Kind (nc_TypeMeta c),
      or_Name = om_Name (nc_ObjectMeta c), or_UID = om_UID (nc_ObjectMeta c),
      or_Controller = Some True, or_BlockOwnerDeletion = None\<rparr>"

definition NatsServiceRole_AsOwner :: "nats_service_role \<Rightarrow> owner_reference" where
  "NatsServiceRole_AsOwner c =
     \<lparr>or_APIVersion = tm_APIVersion (nsr_TypeMeta c), or_Kind = tm_Kind (nsr_TypeMeta c),
      or_Name = om_Name (nsr_ObjectMeta c), or_UID = om_UID (nsr_ObjectMeta c),
      or_Controller = Some True, or_BlockOwnerDeletion = None\<rparr>"

definition clientAuthSecretResourceVersionAnnotationKey :: string where
  "clientAuthSecretResourceVersionAnnotationKey = ''nats.io/cas''"

definition natsServiceRolesHashAnnotationKey :: string where
  "natsServiceRolesHashAnnotationKey = ''nats.io/nsr''"

definition annotation :: "object_meta \<Rightarrow> string \<Rightarrow> string" where
  "annotation m k =
     (case om_Annotations m of
        None \<Rightarrow> []
      | Some as \<Rightarrow> (case map_of as k of None \<Rightarrow> [] | Some res \<Rightarrow> res))"

definition set_annotation :: "object_meta \<Rightarrow> string \<Rightarrow> string \<Rightarrow> object_meta" where
  "set_annotation m k v =
     m\<lparr>om_Annotations := Some (mput k v (case om_Annotations m of None \<Rightarrow> [] | Some as \<Rightarrow> as))\<rparr>"

definition GetClientAuthSecretResourceVersion :: "nats_cluster \<Rightarrow> string" where
  "GetClientAuthSecretResourceVersion c =
     annotation (nc_ObjectMeta c) clientAuthSecretResourceVersionAnnotationKey"

definition SetClientAuthSecretResourceVersion :: "string \<Rightarrow> nats_cluster \<Rightarrow> nats_cluster" where
  "SetClientAuthSecretResourceVersion v c =
     c\<lparr>nc_ObjectMeta := set_annotation (nc_ObjectMeta c) clientAuthSecretResourceVersionAnnotationKey v\<rparr>"

definition GetNatsServiceRolesHash :: "nats_cluster \<Rightarrow> string" where
  "GetNatsServiceRolesHash c = annotation (nc_ObjectMeta c) natsServiceRolesHashAnnotationKey"

definition SetNatsServiceRolesHash :: "string \<Rightarrow> nats_cluster \<Rightarrow> nats_cluster" where
  "SetNatsServiceRolesHash v c =
     c\<lparr>nc_ObjectMeta := set_annotation (nc_ObjectMeta c) natsServiceRolesHashAnnotationKey v\<rparr>"

section \<open>Validation and defaulting\<close>

text \<open>The iteration order of the label map does not matter: any reserved label is an error.\<close>

definition Validate :: "cluster_spec \<Rightarrow> string option" where
  "Validate c =
     (case cs_Pod c of
        None \<Rightarrow> None
      | Some pod \<Rightarrow>
          if \<exists>k \<in> set (mkeys (pp_Labels pod)). k = ''app'' \<or> HasPrefix k ''nats_''
          then Some ''spec: pod labels contains reserved label'' else None)"

text \<open>
  The default file names are constants of the NATS operator's own \<open>constants\<close> package, which
  the repository does not hold: a parameter of the defaulting.
\<close>

record nats_constants =
  k_DefaultNatsVersion :: string
  k_DefaultServerImage :: string
  k_DefaultServerCAFileName :: string
  k_DefaultServerCertFileName :: string
  k_DefaultServerKeyFileName :: string
  k_DefaultRoutesCAFileName :: string
  k_DefaultRoutesCertFileName :: string
  k_DefaultRoutesKeyFileName :: string
  k_DefaultGatewayCAFileName :: string
  k_DefaultGatewayCertFileName :: string
  k_DefaultGatewayKeyFileName :: string
  k_DefaultLeafnodeCAFileName :: string
  k_DefaultLeafnodeCertFileName :: string
  k_DefaultLeafnodeKeyFileName :: string

definition default_to :: "string \<Rightarrow> string \<Rightarrow> string" where
  "default_to d s = (if length s = 0 then d else s)"

definition Cleanup_TLS :: "nats_constants \<Rightarrow> tls_config \<Rightarrow> tls_config" where
  "Cleanup_TLS k t =
     t\<lparr>tls_ServerSecretCAFileName := default_to (k_DefaultServerCAFileName k) (tls_ServerSecretCAFileName t),
       tls_ServerSecretCertFileName := default_to (k_DefaultServerCertFileName k) (tls_ServerSecretCertFileName t),
       tls_ServerSecretKeyFileName := default_to (k_DefaultServerKeyFileName k) (tls_ServerSecretKeyFileName t),
       tls_RoutesSecretCAFileName := default_to (k_DefaultRoutesCAFileName k) (tls_RoutesSecretCAFileName t),
       tls_RoutesSecretCertFileName := default_to (k_DefaultRoutesCertFileName k) (tls_RoutesSecretCertFileName t),
       tls_RoutesSecretKeyFileName := default_to (k_DefaultRoutesKeyFileName k) (tls_RoutesSecretKeyFileName t),
       tls_GatewaySecretCAFileName := default_to (k_DefaultGatewayCAFileName k) (tls_GatewaySecretCAFileName t),
       tls_GatewaySecretCertFileName := default_to (k_DefaultGatewayCertFileName k) (tls_GatewaySecretCertFileName t),
       tls_GatewaySecretKeyFileName := default_to (k_DefaultGatewayKeyFileName k) (tls_GatewaySecretKeyFileName t),
       tls_LeafnodeSecretCAFileName := default_to (k_DefaultLeafnodeCAFileName k) (tls_LeafnodeSecretCAFileName t),
       tls_LeafnodeSecretCertFileName := default_to (k_DefaultLeafnodeCertFileName k) (tls_LeafnodeSecretCertFileName t),
       tls_LeafnodeSecretKeyFileName := default_to (k_DefaultLeafnodeKeyFileName k) (tls_LeafnodeSecretKeyFileName t)\<rparr>"

definition Cleanup :: "nats_constants \<Rightarrow> cluster_spec \<Rightarrow> cluster_spec" where
  "Cleanup k c =
     c\<lparr>cs_Version := TrimLeft (default_to (k_DefaultNatsVersion k) (cs_Version c)) ''v'',
       cs_ServerImage := default_to (k_DefaultServerImage k) (cs_ServerImage c),
       cs_TLS := map_option (Cleanup_TLS k) (cs_TLS c)\<rparr>"

lemma default_to_idem [simp]: "default_to d (default_to d s) = default_to d s"
  by (simp add: default_to_def)

lemma Cleanup_TLS_idem: "Cleanup_TLS k (Cleanup_TLS k t) = Cleanup_TLS k t"
  by (simp add: Cleanup_TLS_def)

lemma TrimLeft_idem [simp]: "TrimLeft (TrimLeft s cs) cs = TrimLeft s cs"
  by (simp add: TrimLeft_def)

section \<open>The status and its log of conditions\<close>

definition ClusterPhaseNone :: string where "ClusterPhaseNone = []"
definition ClusterPhaseCreating :: string where "ClusterPhaseCreating = ''Creating''"
definition ClusterPhaseRunning :: string where "ClusterPhaseRunning = ''Running''"
definition ClusterPhaseFailed :: string where "ClusterPhaseFailed = ''Failed''"

definition ClusterConditionReady :: string where "ClusterConditionReady = ''Ready''"
definition ClusterConditionScalingUp :: string where "ClusterConditionScalingUp = ''ScalingUp''"
definition ClusterConditionScalingDown :: string where "ClusterConditionScalingDown = ''ScalingDown''"
definition ClusterConditionUpgrading :: string where "ClusterConditionUpgrading = ''Upgrading''"

text \<open>
  \<open>Copy\<close> goes through JSON by the tags of the structs (nil is the empty list of conditions, which is only
  built with \<open>append\<close>); None is the panic of an \<open>Unmarshal\<close> that fails, and \<open>Marshal\<close> does not fail on
  these types.
\<close>

definition cluster_condition_type :: gotype where
  "cluster_condition_type = TStruct
     [(''type'', False, TString), (''reason'', False, TString), (''transitionTime'', False, TString)]"

definition cluster_status_type :: gotype where
  "cluster_status_type = TStruct
     [(''phase'', False, TString), (''reason'', False, TString), (''controlPaused'', False, TBool),
      (''conditions'', False, TSlice cluster_condition_type), (''size'', False, TInt 64),
      (''currentVersion'', False, TString)]"

definition cluster_condition_value :: "cluster_condition \<Rightarrow> goval" where
  "cluster_condition_value cc = VStruct [VString (cc_Type cc), VString (cc_Reason cc), VString (cc_TransitionTime cc)]"

definition cluster_status_value :: "cluster_status \<Rightarrow> goval" where
  "cluster_status_value cs = VStruct
     [VString (cst_Phase cs), VString (cst_Reason cs), VBool (cst_ControlPaused cs),
      slice_value cluster_condition_value (cst_Conditions cs), VInt (sint (cst_Size cs)),
      VString (cst_CurrentVersion cs)]"

definition value_cluster_condition :: "goval \<Rightarrow> cluster_condition" where
  "value_cluster_condition v =
     (case struct_fields v of
        [ty, why, at] \<Rightarrow>
          \<lparr>cc_Type = value_string ty, cc_Reason = value_string why, cc_TransitionTime = value_string at\<rparr>
      | _ \<Rightarrow> \<lparr>cc_Type = [], cc_Reason = [], cc_TransitionTime = []\<rparr>)"

definition value_cluster_status :: "goval \<Rightarrow> cluster_status" where
  "value_cluster_status v =
     (case struct_fields v of
        [ph, why, paused, conditions, members, version] \<Rightarrow>
          \<lparr>cst_Phase = value_string ph, cst_Reason = value_string why, cst_ControlPaused = value_bool paused,
           cst_Conditions = value_slice value_cluster_condition conditions, cst_Size = word_of_int (value_int members),
           cst_CurrentVersion = value_string version\<rparr>
      | _ \<Rightarrow> zero_cluster_status)"

definition ClusterStatus_Copy :: "cluster_status \<Rightarrow> cluster_status option" where
  "ClusterStatus_Copy cs =
     (let b = Marshal_value cluster_status_type (cluster_status_value cs)
      in map_option value_cluster_status
           (Unmarshal_value cluster_status_type b (cluster_status_value zero_cluster_status)))"

text \<open>The status with every string made valid UTF-8.\<close>

definition valid_cluster_condition :: "cluster_condition \<Rightarrow> cluster_condition" where
  "valid_cluster_condition cc =
     \<lparr>cc_Type = to_valid (cc_Type cc), cc_Reason = to_valid (cc_Reason cc),
      cc_TransitionTime = to_valid (cc_TransitionTime cc)\<rparr>"

definition valid_cluster_status :: "cluster_status \<Rightarrow> cluster_status" where
  "valid_cluster_status cs =
     cs\<lparr>cst_Phase := to_valid (cst_Phase cs), cst_Reason := to_valid (cst_Reason cs),
        cst_Conditions := map valid_cluster_condition (cst_Conditions cs),
        cst_CurrentVersion := to_valid (cst_CurrentVersion cs)\<rparr>"

lemma wf_cluster_status_type: "wf_type cluster_status_type"
  by (simp add: cluster_status_type_def cluster_condition_type_def utf8_valid_def to_valid_ascii)

lemma has_type_cluster_status: "has_type cluster_status_type (cluster_status_value cs)"
  by (simp add: cluster_status_type_def cluster_status_value_def cluster_condition_type_def
      cluster_condition_value_def has_type_slice in_bits_sint64)

lemma zero_of_cluster_status: "cluster_status_value zero_cluster_status = zero_of cluster_status_type"
  by (simp add: cluster_status_type_def cluster_status_value_def zero_cluster_status_def slice_value_def)

lemma ClusterStatus_Copy_valid: "ClusterStatus_Copy cs = Some (valid_cluster_status cs)"
  by (simp add: ClusterStatus_Copy_def Let_def zero_of_cluster_status
      Unmarshal_Marshal [OF wf_cluster_status_type has_type_cluster_status])
    (simp add: cluster_status_type_def cluster_status_value_def value_cluster_status_def cluster_condition_type_def
      cluster_condition_value_def value_cluster_condition_def valid_cluster_status_def valid_cluster_condition_def
      sent_slice value_slice_of)

text \<open>The receiver of \<open>IsFailed\<close> may be a nil pointer.\<close>

definition IsFailed :: "cluster_status option \<Rightarrow> bool" where
  "IsFailed cs = (case cs of None \<Rightarrow> False | Some s \<Rightarrow> cst_Phase s = ClusterPhaseFailed)"

definition SetPhase :: "string \<Rightarrow> cluster_status \<Rightarrow> cluster_status" where
  "SetPhase p cs = cs\<lparr>cst_Phase := p\<rparr>"

definition PauseControl :: "cluster_status \<Rightarrow> cluster_status" where
  "PauseControl cs = cs\<lparr>cst_ControlPaused := True\<rparr>"

definition Control :: "cluster_status \<Rightarrow> cluster_status" where
  "Control cs = cs\<lparr>cst_ControlPaused := False\<rparr>"

definition SetSize :: "goint \<Rightarrow> cluster_status \<Rightarrow> cluster_status" where
  "SetSize n cs = cs\<lparr>cst_Size := n\<rparr>"

definition SetCurrentVersion :: "string \<Rightarrow> cluster_status \<Rightarrow> cluster_status" where
  "SetCurrentVersion v cs = cs\<lparr>cst_CurrentVersion := v\<rparr>"

definition SetReason :: "string \<Rightarrow> cluster_status \<Rightarrow> cluster_status" where
  "SetReason r cs = cs\<lparr>cst_Reason := r\<rparr>"

definition appendCondition :: "cluster_condition \<Rightarrow> cluster_status \<Rightarrow> cluster_status" where
  "appendCondition c cs =
     (let conds = cst_Conditions cs @ [c]
      in cs\<lparr>cst_Conditions := (if length conds > 10 then drop 1 conds else conds)\<rparr>)"

definition scalingReason :: "goint \<Rightarrow> goint \<Rightarrow> string" where
  "scalingReason frm to =
     ''scaling cluster from '' @ Itoa (sint frm) @ '' to '' @ Itoa (sint to) @ '' peers''"

text \<open>\<open>now\<close> is the time of the call, formatted as RFC 3339.\<close>

definition AppendScalingUpCondition :: "string \<Rightarrow> goint \<Rightarrow> goint \<Rightarrow> cluster_status \<Rightarrow> cluster_status" where
  "AppendScalingUpCondition now frm to =
     appendCondition \<lparr>cc_Type = ClusterConditionScalingUp, cc_Reason = scalingReason frm to,
       cc_TransitionTime = now\<rparr>"

definition AppendScalingDownCondition :: "string \<Rightarrow> goint \<Rightarrow> goint \<Rightarrow> cluster_status \<Rightarrow> cluster_status" where
  "AppendScalingDownCondition now frm to =
     appendCondition \<lparr>cc_Type = ClusterConditionScalingDown, cc_Reason = scalingReason frm to,
       cc_TransitionTime = now\<rparr>"

definition AppendUpgradingCondition :: "string \<Rightarrow> string \<Rightarrow> string \<Rightarrow> cluster_status \<Rightarrow> cluster_status" where
  "AppendUpgradingCondition now frm to =
     appendCondition \<lparr>cc_Type = ClusterConditionUpgrading,
       cc_Reason = ''upgrading cluster version from '' @ frm @ '' to '' @ to,
       cc_TransitionTime = now\<rparr>"

definition SetReadyCondition :: "string \<Rightarrow> cluster_status \<Rightarrow> cluster_status" where
  "SetReadyCondition now cs =
     (let c = \<lparr>cc_Type = ClusterConditionReady, cc_Reason = ''current state matches desired state'',
               cc_TransitionTime = now\<rparr>
      in if length (cst_Conditions cs) = 0 then appendCondition c cs
         else if cc_Type (cst_Conditions cs ! (length (cst_Conditions cs) - 1)) = ClusterConditionReady
         then cs else appendCondition c cs)"

text \<open>
  The life of a status: the steps the operations above allow, from the zero status.
\<close>

inductive status_step :: "cluster_status \<Rightarrow> cluster_status \<Rightarrow> bool" where
  set_phase: "status_step s (SetPhase p s)"
| pause: "status_step s (PauseControl s)"
| control: "status_step s (Control s)"
| set_size: "status_step s (SetSize n s)"
| set_version: "status_step s (SetCurrentVersion v s)"
| set_reason: "status_step s (SetReason r s)"
| scaling_up: "status_step s (AppendScalingUpCondition now a b s)"
| scaling_down: "status_step s (AppendScalingDownCondition now a b s)"
| upgrading: "status_step s (AppendUpgradingCondition now u v s)"
| ready: "status_step s (SetReadyCondition now s)"

inductive status_reachable :: "cluster_status \<Rightarrow> bool" where
  start: "status_reachable zero_cluster_status"
| step: "status_reachable s \<Longrightarrow> status_step s t \<Longrightarrow> status_reachable t"

text \<open>No two neighbouring conditions are both Ready.\<close>

definition no_double_ready :: "cluster_condition list \<Rightarrow> bool" where
  "no_double_ready cs \<longleftrightarrow>
     (\<forall>i. Suc i < length cs \<longrightarrow>
        \<not> (cc_Type (cs ! i) = ClusterConditionReady \<and> cc_Type (cs ! Suc i) = ClusterConditionReady))"

definition conditions_ok :: "cluster_condition list \<Rightarrow> bool" where
  "conditions_ok cs \<longleftrightarrow> length cs \<le> 10 \<and> no_double_ready cs"

lemma no_double_ready_snoc:
  "no_double_ready (cs @ [c]) \<longleftrightarrow>
     no_double_ready cs \<and>
     (cs \<noteq> [] \<longrightarrow> cc_Type (last cs) \<noteq> ClusterConditionReady \<or> cc_Type c \<noteq> ClusterConditionReady)"
  (is "?L \<longleftrightarrow> ?R")
proof
  assume L: ?L
  have "no_double_ready cs"
    unfolding no_double_ready_def
  proof (intro allI impI)
    fix i assume "Suc i < length cs"
    with L show "\<not> (cc_Type (cs ! i) = ClusterConditionReady \<and> cc_Type (cs ! Suc i) = ClusterConditionReady)"
      by (auto simp: no_double_ready_def nth_append dest: spec [of _ i])
  qed
  moreover have "cs \<noteq> [] \<longrightarrow> cc_Type (last cs) \<noteq> ClusterConditionReady \<or> cc_Type c \<noteq> ClusterConditionReady"
    using L [unfolded no_double_ready_def, rule_format, of "length cs - 1"]
    by (cases cs rule: rev_cases) (auto simp: nth_append)
  ultimately show ?R by blast
next
  assume R: ?R
  show ?L
    unfolding no_double_ready_def
  proof (intro allI impI)
    fix i assume i: "Suc i < length (cs @ [c])"
    show "\<not> (cc_Type ((cs @ [c]) ! i) = ClusterConditionReady \<and>
              cc_Type ((cs @ [c]) ! Suc i) = ClusterConditionReady)"
    proof (cases "Suc i < length cs")
      case True
      with R show ?thesis by (auto simp: no_double_ready_def nth_append)
    next
      case False
      with i have "Suc i = length cs" by simp
      with R show ?thesis by (cases cs rule: rev_cases) (auto simp: nth_append)
    qed
  qed
qed

lemma no_double_ready_drop: "no_double_ready cs \<Longrightarrow> no_double_ready (drop n cs)"
  by (auto simp: no_double_ready_def)

lemma appendCondition_ok:
  assumes "conditions_ok (cst_Conditions s)"
    and "cst_Conditions s \<noteq> [] \<longrightarrow>
      cc_Type (last (cst_Conditions s)) \<noteq> ClusterConditionReady \<or> cc_Type c \<noteq> ClusterConditionReady"
  shows "conditions_ok (cst_Conditions (appendCondition c s))"
  using assms no_double_ready_drop [of "cst_Conditions s @ [c]" 1]
  by (auto simp: conditions_ok_def appendCondition_def Let_def no_double_ready_snoc)

lemma status_step_ok:
  assumes "status_step s t" and "conditions_ok (cst_Conditions s)"
  shows "conditions_ok (cst_Conditions t)"
  using assms
proof (induction rule: status_step.induct)
  case (ready s now)
  then show ?case
    by (auto simp: SetReadyCondition_def Let_def last_conv_nth intro!: appendCondition_ok)
qed (auto simp: SetPhase_def PauseControl_def Control_def SetSize_def SetCurrentVersion_def
    SetReason_def AppendScalingUpCondition_def AppendScalingDownCondition_def
    AppendUpgradingCondition_def ClusterConditionReady_def ClusterConditionScalingUp_def
    ClusterConditionScalingDown_def ClusterConditionUpgrading_def intro!: appendCondition_ok)

lemma status_reachable_ok: "status_reachable s \<Longrightarrow> conditions_ok (cst_Conditions s)"
proof (induction rule: status_reachable.induct)
  case start
  show ?case by (simp add: zero_cluster_status_def conditions_ok_def no_double_ready_def)
next
  case (step s t)
  then show ?case by (blast intro: status_step_ok)
qed

text \<open>The log is a window: it keeps the last ten conditions that were appended.\<close>

lemma appendCondition_window:
  assumes "cst_Conditions s = drop (length cs - 10) cs"
  shows "cst_Conditions (appendCondition c s) = drop (length (cs @ [c]) - 10) (cs @ [c])"
proof (cases "10 \<le> length cs")
  case True
  then have "Suc (length cs - 10) = length cs - 9" by simp
  with True assms show ?thesis by (simp add: appendCondition_def Let_def)
qed (use assms in \<open>simp add: appendCondition_def Let_def\<close>)

section \<open>Properties\<close>

text \<open>
  C36: in every status that the operations can reach from the zero status, in any order, the log has at
  most ten conditions and no two neighbouring ones are both Ready.
\<close>

theorem Conditions_bounded:
  assumes "status_reachable s"
  shows "length (cst_Conditions s) \<le> 10 \<and>
    (\<forall>i. Suc i < length (cst_Conditions s) \<longrightarrow>
       \<not> (cc_Type (cst_Conditions s ! i) = ClusterConditionReady \<and> cc_Type (cst_Conditions s ! Suc i) = ClusterConditionReady))"
  using status_reachable_ok [OF assms] by (simp add: conditions_ok_def no_double_ready_def)

theorem Conditions_bounded_witness:
  "length (cst_Conditions (SetReadyCondition ''t'' (AppendScalingUpCondition ''t'' 1 3 zero_cluster_status))) \<le> 10"
  using Conditions_bounded [of "SetReadyCondition ''t'' (AppendScalingUpCondition ''t'' 1 3 zero_cluster_status)"]
    status_reachable.step [OF status_reachable.step [OF start scaling_up] ready] by blast

text \<open>
  The log is the history's end: whatever conditions are appended, it holds the last ten in order.
\<close>

theorem Conditions_are_last_ten:
  "cst_Conditions (fold appendCondition cs zero_cluster_status) = drop (length cs - 10) cs"
proof (induction cs rule: rev_induct)
  case Nil
  show ?case by (simp add: zero_cluster_status_def)
next
  case (snoc c cs)
  from appendCondition_window [OF this] show ?case by simp
qed

text \<open>
  Defaulting. \<open>Cleanup\<close> gives every empty name of a file, the image and the version its default and
  strips leading \<open>v\<close>s off the version; doing it twice changes nothing more, unless the version consists
  of \<open>v\<close>s: then the first call leaves it empty and the second one defaults it.
\<close>

theorem Cleanup_idempotent:
  "Cleanup k (Cleanup k c) =
     (if cs_Version (Cleanup k c) = []
      then (Cleanup k c)\<lparr>cs_Version := TrimLeft (k_DefaultNatsVersion k) ''v''\<rparr> else Cleanup k c) \<and>
   (cs_Version (Cleanup k c) = [] \<longleftrightarrow> set (default_to (k_DefaultNatsVersion k) (cs_Version c)) \<subseteq> {CHR ''v''})"
proof
  have "map_option (Cleanup_TLS k) (map_option (Cleanup_TLS k) t) = map_option (Cleanup_TLS k) t" for t
    by (cases t) (simp_all add: Cleanup_TLS_idem)
  moreover have "default_to d s = s" if "s \<noteq> []" for d s using that by (simp add: default_to_def)
  ultimately show "Cleanup k (Cleanup k c) =
     (if cs_Version (Cleanup k c) = []
      then (Cleanup k c)\<lparr>cs_Version := TrimLeft (k_DefaultNatsVersion k) ''v''\<rparr> else Cleanup k c)"
    by (auto simp: Cleanup_def) (auto simp: default_to_def)
  show "cs_Version (Cleanup k c) = [] \<longleftrightarrow> set (default_to (k_DefaultNatsVersion k) (cs_Version c)) \<subseteq> {CHR ''v''}"
    by (auto simp: Cleanup_def TrimLeft_def dropWhile_eq_Nil_conv)
qed

text \<open>
  C35: the copy of a status through JSON. \<open>Copy\<close> never panics, and its result is the status with every
  byte that is not UTF-8 replaced in its strings; a status of valid strings is copied unchanged, whatever
  its conditions and its size.
\<close>

theorem Status_copied_through_JSON:
  "ClusterStatus_Copy cs = Some (valid_cluster_status cs) \<and>
   (ClusterStatus_Copy cs = Some cs \<longleftrightarrow>
      utf8_valid (cst_Phase cs) \<and> utf8_valid (cst_Reason cs) \<and> utf8_valid (cst_CurrentVersion cs) \<and>
      list_all (\<lambda>cc. utf8_valid (cc_Type cc) \<and> utf8_valid (cc_Reason cc) \<and> utf8_valid (cc_TransitionTime cc))
        (cst_Conditions cs))"
proof -
  have "map valid_cluster_condition ccs = ccs \<longleftrightarrow>
      list_all (\<lambda>cc. utf8_valid (cc_Type cc) \<and> utf8_valid (cc_Reason cc) \<and> utf8_valid (cc_TransitionTime cc)) ccs" for ccs
  proof (induction ccs)
    case (Cons cc ccs)
    then show ?case by (cases cc) (auto simp: valid_cluster_condition_def utf8_valid_def)
  qed simp
  then have "valid_cluster_status cs = cs \<longleftrightarrow>
      utf8_valid (cst_Phase cs) \<and> utf8_valid (cst_Reason cs) \<and> utf8_valid (cst_CurrentVersion cs) \<and>
      list_all (\<lambda>cc. utf8_valid (cc_Type cc) \<and> utf8_valid (cc_Reason cc) \<and> utf8_valid (cc_TransitionTime cc))
        (cst_Conditions cs)"
    by (cases cs) (auto simp: valid_cluster_status_def utf8_valid_def)
  with ClusterStatus_Copy_valid show ?thesis by simp
qed

end
