(* ===== verification/KubeClient.thy ===== *)
theory KubeClient
  imports SiddhiTypes NatsTypes
begin

text \<open>
  The client of the Kubernetes API server. The server is a service outside the repository: the
  operator's code is modelled over any \<open>client\<close>, a record of the operations of
  \<open>client.Client\<close> that it calls, and the laws it relies on are the locales \<open>kube_api\<close> (calls
  may fail at any moment; a call that fails changes nothing, one that succeeds does what it
  says) and \<open>kube_store\<close> (in addition no call fails without reason).

  The laws are proved for a client modelled from vendored sources: reads by key as the manager's
  cache answers them, writes as the object tracker of the fake client does them, with and without
  injected faults.
\<close>

section \<open>Errors and objects\<close>

text \<open>The kinds of errors the code tells apart, with the message \<open>Error()\<close> returns.\<close>

datatype goerror = NotFound string | AlreadyExists string | Failure string

fun error_text :: "goerror \<Rightarrow> string" where
  "error_text (NotFound s) = s"
| "error_text (AlreadyExists s) = s"
| "error_text (Failure s) = s"

fun IsNotFound :: "goerror \<Rightarrow> bool" where
  "IsNotFound (NotFound s) = True"
| "IsNotFound (AlreadyExists s) = False"
| "IsNotFound (Failure s) = False"

datatype kind =
  KDeployment | KService | KConfigMap | KPVC | KIngress | KNatsCluster | KStanCluster | KSiddhiProcess

text \<open>\<open>runtime.Object\<close>: the objects that go through the client.\<close>

datatype kobject =
    ODeployment deployment
  | OService service
  | OConfigMap config_map
  | OPVC pvc
  | OIngress ingress
  | ONatsCluster nats_cluster
  | OStanCluster stan_cluster
  | OSiddhiProcess siddhi_process

fun kind_of :: "kobject \<Rightarrow> kind" where
  "kind_of (ODeployment _) = KDeployment"
| "kind_of (OService _) = KService"
| "kind_of (OConfigMap _) = KConfigMap"
| "kind_of (OPVC _) = KPVC"
| "kind_of (OIngress _) = KIngress"
| "kind_of (ONatsCluster _) = KNatsCluster"
| "kind_of (OStanCluster _) = KStanCluster"
| "kind_of (OSiddhiProcess _) = KSiddhiProcess"

fun meta_of :: "kobject \<Rightarrow> object_meta" where
  "meta_of (ODeployment d) = dep_ObjectMeta d"
| "meta_of (OService s) = svc_ObjectMeta s"
| "meta_of (OConfigMap c) = cm_ObjectMeta c"
| "meta_of (OPVC p) = pvc_ObjectMeta p"
| "meta_of (OIngress i) = ing_ObjectMeta i"
| "meta_of (ONatsCluster n) = nc_ObjectMeta n"
| "meta_of (OStanCluster n) = sc_ObjectMeta n"
| "meta_of (OSiddhiProcess s) = sp_ObjectMeta s"

fun set_meta :: "object_meta \<Rightarrow> kobject \<Rightarrow> kobject" where
  "set_meta m (ODeployment d) = ODeployment (d\<lparr>dep_ObjectMeta := m\<rparr>)"
| "set_meta m (OService s) = OService (s\<lparr>svc_ObjectMeta := m\<rparr>)"
| "set_meta m (OConfigMap c) = OConfigMap (c\<lparr>cm_ObjectMeta := m\<rparr>)"
| "set_meta m (OPVC p) = OPVC (p\<lparr>pvc_ObjectMeta := m\<rparr>)"
| "set_meta m (OIngress i) = OIngress (i\<lparr>ing_ObjectMeta := m\<rparr>)"
| "set_meta m (ONatsCluster n) = ONatsCluster (n\<lparr>nc_ObjectMeta := m\<rparr>)"
| "set_meta m (OStanCluster n) = OStanCluster (n\<lparr>sc_ObjectMeta := m\<rparr>)"
| "set_meta m (OSiddhiProcess s) = OSiddhiProcess (s\<lparr>sp_ObjectMeta := m\<rparr>)"

definition key_of :: "kobject \<Rightarrow> namespaced_name" where
  "key_of obj = \<lparr>nn_Namespace = om_Namespace (meta_of obj), nn_Name = om_Name (meta_of obj)\<rparr>"

definition nn :: "string \<Rightarrow> string \<Rightarrow> namespaced_name" where
  "nn name namespace = \<lparr>nn_Namespace = namespace, nn_Name = name\<rparr>"

lemma meta_of_set_meta [simp]: "meta_of (set_meta m obj) = m"
  by (cases obj) auto

lemma kind_of_set_meta [simp]: "kind_of (set_meta m obj) = kind_of obj"
  by (cases obj) auto

lemma kind_of_eqs:
  "kind_of obj = KDeployment \<longleftrightarrow> (\<exists>d. obj = ODeployment d)"
  "kind_of obj = KService \<longleftrightarrow> (\<exists>s. obj = OService s)"
  "kind_of obj = KConfigMap \<longleftrightarrow> (\<exists>c. obj = OConfigMap c)"
  "kind_of obj = KPVC \<longleftrightarrow> (\<exists>p. obj = OPVC p)"
  "kind_of obj = KIngress \<longleftrightarrow> (\<exists>i. obj = OIngress i)"
  "kind_of obj = KNatsCluster \<longleftrightarrow> (\<exists>n. obj = ONatsCluster n)"
  "kind_of obj = KStanCluster \<longleftrightarrow> (\<exists>n. obj = OStanCluster n)"
  "kind_of obj = KSiddhiProcess \<longleftrightarrow> (\<exists>s. obj = OSiddhiProcess s)"
  by (cases obj; simp)+

section \<open>The client\<close>

text \<open>
  \<open>cl_Get\<close> takes the kind of the object pointer it is given; it yields the object it fills in.
  The manager's client reads from its cache, which replaces the whole of the caller's object by
  a deep copy of the cached one (\<open>CacheReader.Get\<close>); the object is left as it was when the call
  fails. The laws below take reads to be current; those of a cache that lags behind are in theory \<open>Reads\<close>.
  \<open>cl_StatusUpdate\<close> (\<open>Status().Update\<close>) yields the object the server returns, which is
  decoded into the argument.
\<close>

record 'w client =
  cl_Get :: "kind \<Rightarrow> namespaced_name \<Rightarrow> 'w \<Rightarrow> (goerror + kobject) \<times> 'w"
  cl_Create :: "kobject \<Rightarrow> 'w \<Rightarrow> goerror option \<times> 'w"
  cl_Update :: "kobject \<Rightarrow> 'w \<Rightarrow> goerror option \<times> 'w"
  cl_Delete :: "kobject \<Rightarrow> 'w \<Rightarrow> goerror option \<times> 'w"
  cl_StatusUpdate :: "kobject \<Rightarrow> 'w \<Rightarrow> (goerror + kobject) \<times> 'w"

text \<open>
  The laws. \<open>look w k n\<close> is the object of kind \<open>k\<close> the server holds under the name \<open>n\<close>;
  \<open>adm\<close> is what the server stores for an object it is sent (admission and defaulting).
\<close>

locale kube_api =
  fixes c :: "'w client"
    and look :: "'w \<Rightarrow> kind \<Rightarrow> namespaced_name \<Rightarrow> kobject option"
    and adm :: "kobject \<Rightarrow> kobject"
    and inv :: "'w \<Rightarrow> bool"
  assumes adm_kind: "kind_of (adm obj) = kind_of obj"
    and adm_key: "key_of (adm obj) = key_of obj"
    and look_obj: "inv w \<Longrightarrow> look w k n = Some obj \<Longrightarrow> kind_of obj = k \<and> key_of obj = n"
    and get_inv: "cl_Get c k n w = (r, w') \<Longrightarrow> inv w \<Longrightarrow> inv w'"
    and get_frame: "cl_Get c k n w = (r, w') \<Longrightarrow> inv w \<Longrightarrow> look w' = look w"
    and get_look_obj: "cl_Get c k n w = (Inr obj, w') \<Longrightarrow> inv w \<Longrightarrow> look w k n = Some obj"
    and get_missing: "cl_Get c k n w = (Inl e, w') \<Longrightarrow> inv w \<Longrightarrow> IsNotFound e \<Longrightarrow> look w k n = None"
    and create_inv: "cl_Create c obj w = (eo, w') \<Longrightarrow> inv w \<Longrightarrow> inv w'"
    and create_ok: "cl_Create c obj w = (None, w') \<Longrightarrow> inv w \<Longrightarrow>
      look w (kind_of obj) (key_of obj) = None \<and>
      look w' = (look w)(kind_of obj := (look w (kind_of obj))(key_of obj \<mapsto> adm obj))"
    and create_fail: "cl_Create c obj w = (Some e, w') \<Longrightarrow> inv w \<Longrightarrow> look w' = look w"
    and update_inv: "cl_Update c obj w = (eo, w') \<Longrightarrow> inv w \<Longrightarrow> inv w'"
    and update_ok: "cl_Update c obj w = (None, w') \<Longrightarrow> inv w \<Longrightarrow>
      look w (kind_of obj) (key_of obj) \<noteq> None \<and>
      look w' = (look w)(kind_of obj := (look w (kind_of obj))(key_of obj \<mapsto> adm obj))"
    and update_fail: "cl_Update c obj w = (Some e, w') \<Longrightarrow> inv w \<Longrightarrow> look w' = look w"
    and delete_inv: "cl_Delete c obj w = (eo, w') \<Longrightarrow> inv w \<Longrightarrow> inv w'"
    and delete_ok: "cl_Delete c obj w = (None, w') \<Longrightarrow> inv w \<Longrightarrow>
      look w' = (look w)(kind_of obj := (look w (kind_of obj))(key_of obj := None))"
    and delete_fail: "cl_Delete c obj w = (Some e, w') \<Longrightarrow> inv w \<Longrightarrow> look w' = look w"
    and status_inv: "cl_StatusUpdate c obj w = (r, w') \<Longrightarrow> inv w \<Longrightarrow> inv w'"
    and status_ok: "cl_StatusUpdate c obj w = (Inr obj', w') \<Longrightarrow> inv w \<Longrightarrow>
      kind_of obj' = kind_of obj \<and> key_of obj' = key_of obj \<and>
      look w' = (look w)(kind_of obj := (look w (kind_of obj))(key_of obj \<mapsto> obj'))"
    and status_fail: "cl_StatusUpdate c obj w = (Inl e, w') \<Longrightarrow> inv w \<Longrightarrow> look w' = look w"

text \<open>The same server when no call fails without reason.\<close>

locale kube_store = kube_api +
  assumes get_total: "inv w \<Longrightarrow> look w k n = Some obj \<Longrightarrow> \<exists>w'. cl_Get c k n w = (Inr obj, w')"
    and get_none: "inv w \<Longrightarrow> look w k n = None \<Longrightarrow> \<exists>e w'. cl_Get c k n w = (Inl e, w') \<and> IsNotFound e"
    and create_total: "inv w \<Longrightarrow> look w (kind_of obj) (key_of obj) = None \<Longrightarrow>
      \<exists>w'. cl_Create c obj w = (None, w')"
    and update_total: "inv w \<Longrightarrow> look w (kind_of obj) (key_of obj) \<noteq> None \<Longrightarrow>
      \<exists>w'. cl_Update c obj w = (None, w')"
    and delete_total: "inv w \<Longrightarrow> look w (kind_of obj) (key_of obj) \<noteq> None \<Longrightarrow>
      \<exists>w'. cl_Delete c obj w = (None, w')"

text \<open>What every client may use of the laws.\<close>

context kube_api
begin

lemma get_found:
  "cl_Get c k n w = (Inr obj, w') \<Longrightarrow> inv w \<Longrightarrow> look w k n = Some obj \<and> kind_of obj = k \<and> key_of obj = n"
  using get_look_obj look_obj by blast

lemma get_look:
  assumes "cl_Get c k n w = (r, w')" and "inv w"
  shows "inv w' \<and> look w' = look w"
  using assms get_inv get_frame by blast

lemma get_kind: "cl_Get c k n w = (Inr obj, w') \<Longrightarrow> inv w \<Longrightarrow> kind_of obj = k"
  using get_found by blast

text \<open>Objects of another kind or name are never touched.\<close>

lemma create_other:
  assumes "cl_Create c obj w = (e, w')" and "inv w" and "(k, n) \<noteq> (kind_of obj, key_of obj)"
  shows "look w' k n = look w k n"
proof (cases e)
  case None
  then show ?thesis using assms create_ok [of obj w w'] by auto
next
  case (Some x)
  then show ?thesis using assms create_fail [of obj w x w'] by auto
qed

lemma update_other:
  assumes "cl_Update c obj w = (e, w')" and "inv w" and "(k, n) \<noteq> (kind_of obj, key_of obj)"
  shows "look w' k n = look w k n"
proof (cases e)
  case None
  then show ?thesis using assms update_ok [of obj w w'] by auto
next
  case (Some x)
  then show ?thesis using assms update_fail [of obj w x w'] by auto
qed

lemma delete_other:
  assumes "cl_Delete c obj w = (e, w')" and "inv w" and "(k, n) \<noteq> (kind_of obj, key_of obj)"
  shows "look w' k n = look w k n"
proof (cases e)
  case None
  then show ?thesis using assms delete_ok [of obj w w'] by auto
next
  case (Some x)
  then show ?thesis using assms delete_fail [of obj w x w'] by auto
qed

end

section \<open>A client over an object store\<close>

text \<open>
  The manager's client reads from its cache and writes to the server. Here both are one store: for
  every resource the list of its objects. Reads look up the key as \<open>CacheReader.Get\<close> does (a key is
  namespace and name; the cache's key string is injective because names have no slash). Writes are
  those of the object tracker the fake client of the tests has: \<open>Create\<close> and \<open>Update\<close> are the same
  function \<open>add\<close> with a flag.
\<close>

type_synonym tracker = "kind \<Rightarrow> kobject list"

definition cache_Get :: "kind \<Rightarrow> namespaced_name \<Rightarrow> tracker \<Rightarrow> goerror + kobject" where
  "cache_Get k n t =
     (case find (\<lambda>obj. key_of obj = n) (t k) of
        None \<Rightarrow> Inl (NotFound (nn_Name n))
      | Some obj \<Rightarrow> Inr obj)"

fun replace_first :: "kobject \<Rightarrow> kobject list \<Rightarrow> kobject list option" where
  "replace_first obj [] = None"
| "replace_first obj (x # xs) =
     (if key_of x = key_of obj then Some (obj # xs)
      else map_option ((#) x) (replace_first obj xs))"

text \<open>
  \<open>ns\<close> is the object's own namespace at every call, so the tracker's propagation of the
  namespace and its namespace check never fire.
\<close>

definition tracker_add :: "kobject \<Rightarrow> bool \<Rightarrow> tracker \<Rightarrow> goerror option \<times> tracker" where
  "tracker_add obj replaceExisting t =
     (let k = kind_of obj
      in case replace_first obj (t k) of
           Some objs \<Rightarrow>
             if replaceExisting then (None, t(k := objs))
             else (Some (AlreadyExists (nn_Name (key_of obj))), t)
         | None \<Rightarrow>
             if replaceExisting then (Some (NotFound (nn_Name (key_of obj))), t)
             else (None, t(k := t k @ [obj])))"

fun remove_first :: "namespaced_name \<Rightarrow> kobject list \<Rightarrow> kobject list option" where
  "remove_first n [] = None"
| "remove_first n (x # xs) =
     (if key_of x = n then Some xs else map_option ((#) x) (remove_first n xs))"

definition tracker_Delete :: "kind \<Rightarrow> namespaced_name \<Rightarrow> tracker \<Rightarrow> goerror option \<times> tracker" where
  "tracker_Delete k n t =
     (case remove_first n (t k) of
        Some objs \<Rightarrow> (None, t(k := objs))
      | None \<Rightarrow> (Some (NotFound (nn_Name n)), t))"

definition cached_client :: "tracker client" where
  "cached_client =
     \<lparr>cl_Get = (\<lambda>k n t. (cache_Get k n t, t)),
      cl_Create = (\<lambda>obj t. tracker_add obj False t),
      cl_Update = (\<lambda>obj t. tracker_add obj True t),
      cl_Delete = (\<lambda>obj t. tracker_Delete (kind_of obj) (key_of obj) t),
      cl_StatusUpdate = (\<lambda>obj t. case tracker_add obj True t of
         (None, t') \<Rightarrow> (Inr obj, t') | (Some e, t') \<Rightarrow> (Inl e, t'))\<rparr>"

definition empty_tracker :: tracker where
  "empty_tracker = (\<lambda>_. [])"

text \<open>The objects of a list by their names.\<close>

definition objs_map :: "kobject list \<Rightarrow> namespaced_name \<Rightarrow> kobject option" where
  "objs_map xs = map_of (map (\<lambda>obj. (key_of obj, obj)) xs)"

definition tracker_look :: "tracker \<Rightarrow> kind \<Rightarrow> namespaced_name \<Rightarrow> kobject option" where
  "tracker_look t k = objs_map (t k)"

text \<open>Each list holds objects of its kind, at most one of a name.\<close>

definition tracker_inv :: "tracker \<Rightarrow> bool" where
  "tracker_inv t \<longleftrightarrow> (\<forall>k. distinct (map key_of (t k)) \<and> (\<forall>obj \<in> set (t k). kind_of obj = k))"

lemma tracker_inv_empty [simp]: "tracker_inv empty_tracker"
  by (simp add: tracker_inv_def empty_tracker_def)

lemma objs_map_Nil: "objs_map [] = Map.empty"
  and objs_map_Cons: "objs_map (x # xs) = (objs_map xs)(key_of x \<mapsto> x)"
  by (simp_all add: objs_map_def)

lemma objs_map_None: "objs_map xs n = None \<longleftrightarrow> n \<notin> key_of ` set xs"
  by (simp add: objs_map_def map_of_eq_None_iff image_image)

lemma objs_map_Some: "objs_map xs n = Some obj \<Longrightarrow> obj \<in> set xs \<and> key_of obj = n"
  by (auto simp: objs_map_def dest: map_of_SomeD)

lemma objs_map_snoc:
  "objs_map xs (key_of x) = None \<Longrightarrow> objs_map (xs @ [x]) = (objs_map xs)(key_of x \<mapsto> x)"
  by (induction xs) (auto simp: objs_map_Nil objs_map_Cons fun_eq_iff split: if_splits)

lemma find_key: "find (\<lambda>obj. key_of obj = n) xs = objs_map xs n"
  by (induction xs) (auto simp: objs_map_Nil objs_map_Cons)

lemma cache_Get_look:
  "cache_Get k n t = (case tracker_look t k n of None \<Rightarrow> Inl (NotFound (nn_Name n)) | Some obj \<Rightarrow> Inr obj)"
  by (simp add: cache_Get_def tracker_look_def find_key)

lemma tracker_look_obj:
  "tracker_look t k n = Some obj \<Longrightarrow> tracker_inv t \<Longrightarrow> kind_of obj = k \<and> key_of obj = n"
  by (auto simp: tracker_look_def tracker_inv_def dest: objs_map_Some)

lemma replace_first_None: "replace_first obj xs = None \<longleftrightarrow> objs_map xs (key_of obj) = None"
  by (induction xs) (auto simp: objs_map_Nil objs_map_Cons)

lemma replace_first_Some:
  "replace_first obj xs = Some ys \<Longrightarrow>
     map key_of ys = map key_of xs \<and> set ys \<subseteq> insert obj (set xs) \<and>
     objs_map ys = (objs_map xs)(key_of obj \<mapsto> obj)"
proof (induction xs arbitrary: ys)
  case (Cons x xs)
  then show ?case
    by (cases "key_of x = key_of obj") (auto simp: objs_map_Cons fun_upd_twist)
qed simp

lemma remove_first_None: "remove_first n xs = None \<longleftrightarrow> objs_map xs n = None"
  by (induction xs) (auto simp: objs_map_Nil objs_map_Cons)

lemma remove_first_Some:
  "remove_first n xs = Some ys \<Longrightarrow> distinct (map key_of xs) \<Longrightarrow>
     distinct (map key_of ys) \<and> set ys \<subseteq> set xs \<and> objs_map ys = (objs_map xs)(n := None)"
proof (induction xs arbitrary: ys)
  case (Cons x xs)
  show ?case
  proof (cases "key_of x = n")
    case True
    with Cons.prems have "objs_map xs n = None" and ys: "ys = xs" by (auto simp: objs_map_None)
    with True Cons.prems show ?thesis by (auto simp: objs_map_Cons)
  next
    case False
    with Cons.prems obtain zs where zs: "remove_first n xs = Some zs" "ys = x # zs"
      by auto
    from Cons.prems(2) have d: "distinct (map key_of xs)" by simp
    from Cons.IH [OF zs(1) d] Cons.prems(2) zs(2) False show ?thesis
      by (auto simp: objs_map_Cons fun_upd_twist)
  qed
qed simp

lemma tracker_look_upd [simp]:
  "tracker_look (t(k := xs)) = (tracker_look t)(k := objs_map xs)"
  by (auto simp: tracker_look_def fun_eq_iff)

lemma tracker_create_spec:
  "tracker_add obj False t =
     (if tracker_look t (kind_of obj) (key_of obj) = None
      then (None, t(kind_of obj := t (kind_of obj) @ [obj]))
      else (Some (AlreadyExists (nn_Name (key_of obj))), t))"
  by (cases "replace_first obj (t (kind_of obj))")
    (auto simp: tracker_add_def Let_def tracker_look_def replace_first_None [symmetric])

lemma tracker_create_ok:
  assumes "tracker_look t (kind_of obj) (key_of obj) = None" and "tracker_inv t"
  shows "tracker_look (t(kind_of obj := t (kind_of obj) @ [obj])) =
      (tracker_look t)(kind_of obj := (tracker_look t (kind_of obj))(key_of obj \<mapsto> obj))"
    and "tracker_inv (t(kind_of obj := t (kind_of obj) @ [obj]))"
proof -
  from assms(1) have "objs_map (t (kind_of obj)) (key_of obj) = None" by (simp add: tracker_look_def)
  then show "tracker_look (t(kind_of obj := t (kind_of obj) @ [obj])) =
      (tracker_look t)(kind_of obj := (tracker_look t (kind_of obj))(key_of obj \<mapsto> obj))"
    by (simp add: objs_map_snoc) (simp add: tracker_look_def)
  from assms show "tracker_inv (t(kind_of obj := t (kind_of obj) @ [obj]))"
    by (auto simp: tracker_inv_def tracker_look_def objs_map_None)
qed

lemma objs_map_append_new:
  "tracker_look t (kind_of x) (key_of x) = None \<Longrightarrow>
     objs_map (t (kind_of x) @ [x]) = (tracker_look t (kind_of x))(key_of x \<mapsto> x)"
  by (simp add: tracker_look_def objs_map_snoc)

lemma tracker_update_spec:
  "tracker_add obj True t =
     (case replace_first obj (t (kind_of obj)) of
        Some objs \<Rightarrow> (None, t(kind_of obj := objs))
      | None \<Rightarrow> (Some (NotFound (nn_Name (key_of obj))), t))"
  by (simp add: tracker_add_def Let_def split: option.split)

lemma tracker_update_ok:
  assumes "replace_first obj (t (kind_of obj)) = Some objs" and "tracker_inv t"
  shows "tracker_look t (kind_of obj) (key_of obj) \<noteq> None"
    and "tracker_look (t(kind_of obj := objs)) =
      (tracker_look t)(kind_of obj := (tracker_look t (kind_of obj))(key_of obj \<mapsto> obj))"
    and "tracker_inv (t(kind_of obj := objs))"
proof -
  from assms(1) have "objs_map (t (kind_of obj)) (key_of obj) \<noteq> None"
    by (metis option.distinct(1) replace_first_None)
  then show "tracker_look t (kind_of obj) (key_of obj) \<noteq> None" by (simp add: tracker_look_def)
  from replace_first_Some [OF assms(1)]
  show "tracker_look (t(kind_of obj := objs)) =
      (tracker_look t)(kind_of obj := (tracker_look t (kind_of obj))(key_of obj \<mapsto> obj))"
    by simp (simp add: tracker_look_def)
  from replace_first_Some [OF assms(1)] assms(2) show "tracker_inv (t(kind_of obj := objs))"
    by (auto simp: tracker_inv_def)
qed

lemma tracker_delete_ok:
  assumes "remove_first n (t k) = Some objs" and "tracker_inv t"
  shows "tracker_look t k n \<noteq> None"
    and "tracker_look (t(k := objs)) = (tracker_look t)(k := (tracker_look t k)(n := None))"
    and "tracker_inv (t(k := objs))"
proof -
  from assms(1) have "objs_map (t k) n \<noteq> None" by (metis option.distinct(1) remove_first_None)
  then show "tracker_look t k n \<noteq> None" by (simp add: tracker_look_def)
  from assms(2) have d: "distinct (map key_of (t k))" by (simp add: tracker_inv_def)
  from remove_first_Some [OF assms(1) d]
  show "tracker_look (t(k := objs)) = (tracker_look t)(k := (tracker_look t k)(n := None))"
    by simp (simp add: tracker_look_def)
  from remove_first_Some [OF assms(1) d] assms(2) show "tracker_inv (t(k := objs))"
    by (auto simp: tracker_inv_def)
qed

lemmas cached_ops =
  cached_client_def cache_Get_look tracker_create_spec tracker_update_spec tracker_Delete_def

interpretation cached: kube_store cached_client tracker_look "\<lambda>obj. obj" tracker_inv
  by unfold_locales
    (auto simp: cached_ops tracker_create_ok objs_map_append_new replace_first_None remove_first_None
      dest: tracker_look_obj tracker_update_ok tracker_delete_ok
      simp flip: tracker_look_def split: option.splits if_splits)


section \<open>Injected faults\<close>

text \<open>
  A server whose calls may fail: the state carries a schedule with an entry for every call to
  come, and a call whose entry is a message fails with it, before it does anything. Calls past
  the end of the schedule succeed or fail as the server under it does.
\<close>

type_synonym faults = "string option list"

definition inject :: "('w \<Rightarrow> (goerror + 'a) \<times> 'w) \<Rightarrow> 'w \<times> faults \<Rightarrow> (goerror + 'a) \<times> ('w \<times> faults)" where
  "inject f p =
     (case p of
        (w, Some msg # fs) \<Rightarrow> (Inl (Failure msg), (w, fs))
      | (w, fs) \<Rightarrow> (let (r, w') = f w in (r, (w', tl fs))))"

definition inject_eff :: "('w \<Rightarrow> goerror option \<times> 'w) \<Rightarrow> 'w \<times> faults \<Rightarrow> goerror option \<times> ('w \<times> faults)" where
  "inject_eff f p =
     (case p of
        (w, Some msg # fs) \<Rightarrow> (Some (Failure msg), (w, fs))
      | (w, fs) \<Rightarrow> (let (r, w') = f w in (r, (w', tl fs))))"

definition faulty :: "'w client \<Rightarrow> ('w \<times> faults) client" where
  "faulty c =
     \<lparr>cl_Get = (\<lambda>k n. inject (cl_Get c k n)),
      cl_Create = (\<lambda>obj. inject_eff (cl_Create c obj)),
      cl_Update = (\<lambda>obj. inject_eff (cl_Update c obj)),
      cl_Delete = (\<lambda>obj. inject_eff (cl_Delete c obj)),
      cl_StatusUpdate = (\<lambda>obj. inject (cl_StatusUpdate c obj))\<rparr>"

lemma inject_cases:
  assumes "inject f p = (r, q)"
  obtains (call) "f (fst p) = (r, fst q)"
  | (fault) msg where "r = Inl (Failure msg)" and "fst q = fst p"
  using assms by (auto simp: inject_def split: prod.splits list.splits option.splits)

lemma inject_eff_cases:
  assumes "inject_eff f p = (r, q)"
  obtains (call) "f (fst p) = (r, fst q)"
  | (fault) msg where "r = Some (Failure msg)" and "fst q = fst p"
  using assms by (auto simp: inject_eff_def split: prod.splits list.splits option.splits)

text \<open>Faults keep the laws of the interface, whatever the client under them.\<close>

context kube_api
begin

lemma faulty_laws: "kube_api (faulty c) (\<lambda>p. look (fst p)) adm (\<lambda>p. inv (fst p))"
  by unfold_locales
    (auto simp: faulty_def adm_kind adm_key elim!: inject_cases inject_eff_cases
      dest: look_obj get_inv get_frame get_look_obj get_missing create_inv create_ok create_fail update_inv
        update_ok update_fail delete_inv delete_ok delete_fail status_inv status_ok status_fail)

end

interpretation faulty_cached: kube_api "faulty cached_client" "\<lambda>p. tracker_look (fst p)" "\<lambda>obj. obj"
    "\<lambda>p. tracker_inv (fst p)"
  by (rule cached.faulty_laws)

end
