(* ===== verification/ControllerUtil.thy ===== *)
theory ControllerUtil
  imports KubeClient
begin

text \<open>
  The helpers of the controller runtime the operator builds its objects with, from the copy it
  vendors: owner references (\<open>SetControllerReference\<close>) and the read-modify-write of one object
  (\<open>CreateOrUpdate\<close>), with the contract of the latter proved for every client that obeys the
  laws of the API.
\<close>

section \<open>Group and version\<close>

record group_version =
  gv_Group :: string
  gv_Version :: string

record group_version_kind =
  gvk_Group :: string
  gvk_Version :: string
  gvk_Kind :: string

text \<open>The scheme: the registered kind of a Go type (\<open>apiutil.GVKForObject\<close>), or an error.\<close>

type_synonym scheme = "kind \<Rightarrow> goerror + group_version_kind"

definition GroupVersion_String :: "group_version \<Rightarrow> string" where
  "GroupVersion_String gv =
     (if gv_Group gv = [] \<and> gv_Version gv = [] then []
      else if gv_Group gv = [] \<and> gv_Version gv = ''v1'' then gv_Version gv
      else if gv_Group gv \<noteq> [] then gv_Group gv @ ''/'' @ gv_Version gv
      else gv_Version gv)"

definition ParseGroupVersion :: "string \<Rightarrow> goerror + group_version" where
  "ParseGroupVersion gv =
     (if gv = [] \<or> gv = ''/'' then Inr \<lparr>gv_Group = [], gv_Version = []\<rparr>
      else case split_slash gv of
        [v] \<Rightarrow> Inr \<lparr>gv_Group = [], gv_Version = v\<rparr>
      | [g, v] \<Rightarrow> Inr \<lparr>gv_Group = g, gv_Version = v\<rparr>
      | _ \<Rightarrow> Inl (Failure (''unexpected GroupVersion string: '' @ gv)))"

section \<open>Owner references\<close>

definition NewControllerRef :: "object_meta \<Rightarrow> group_version_kind \<Rightarrow> owner_reference" where
  "NewControllerRef owner gvk =
     \<lparr>or_APIVersion = GroupVersion_String \<lparr>gv_Group = gvk_Group gvk, gv_Version = gvk_Version gvk\<rparr>,
      or_Kind = gvk_Kind gvk, or_Name = om_Name owner, or_UID = om_UID owner,
      or_Controller = Some True, or_BlockOwnerDeletion = Some True\<rparr>"

definition referSameObject :: "owner_reference \<Rightarrow> owner_reference \<Rightarrow> bool" where
  "referSameObject a b =
     (case (ParseGroupVersion (or_APIVersion a), ParseGroupVersion (or_APIVersion b)) of
        (Inr aGV, Inr bGV) \<Rightarrow> aGV = bGV \<and> or_Kind a = or_Kind b \<and> or_Name a = or_Name b
      | _ \<Rightarrow> False)"

text \<open>The loop over the references: the last one to the owner, or another controller's.\<close>

fun scan_refs ::
  "owner_reference \<Rightarrow> nat \<Rightarrow> nat option \<Rightarrow> owner_reference list \<Rightarrow> owner_reference + nat option" where
  "scan_refs ref i fi [] = Inr fi"
| "scan_refs ref i fi (r # rs) =
     (if referSameObject ref r then scan_refs ref (Suc i) (Some i) rs
      else if or_Controller r = Some True then Inl r
      else scan_refs ref (Suc i) fi rs)"

definition AlreadyOwnedError :: "object_meta \<Rightarrow> owner_reference \<Rightarrow> goerror" where
  "AlreadyOwnedError m r =
     Failure (''Object '' @ om_Namespace m @ ''/'' @ om_Name m @ '' is already owned by another ''
       @ or_Kind r @ '' controller '' @ or_Name r)"

definition SetControllerReference ::
  "kobject \<Rightarrow> kobject \<Rightarrow> scheme \<Rightarrow> goerror option \<times> kobject" where
  "SetControllerReference owner obj scheme =
     (case scheme (kind_of owner) of
        Inl err \<Rightarrow> (Some err, obj)
      | Inr gvk \<Rightarrow>
          (let ref = NewControllerRef (meta_of owner) gvk;
               m = meta_of obj;
               existingRefs = om_OwnerReferences m
           in case scan_refs ref 0 None existingRefs of
                Inl r \<Rightarrow> (Some (AlreadyOwnedError m r), obj)
              | Inr fi \<Rightarrow>
                  (let refs = (case fi of None \<Rightarrow> existingRefs @ [ref] | Some i \<Rightarrow> existingRefs[i := ref])
                   in (None, set_meta (m\<lparr>om_OwnerReferences := refs\<rparr>) obj))))"

lemma referSameObject_trans:
  "referSameObject a b \<Longrightarrow> referSameObject a c \<Longrightarrow> referSameObject b c"
  by (auto simp: referSameObject_def split: sum.splits)

lemma scan_refs_ok:
  "scan_refs ref i fi rs = Inr res \<Longrightarrow>
     (\<forall>r \<in> set rs. or_Controller r = Some True \<longrightarrow> referSameObject ref r) \<and>
     (res = fi \<and> (\<forall>r \<in> set rs. \<not> referSameObject ref r) \<or>
      (\<exists>j < length rs. res = Some (i + j) \<and> referSameObject ref (rs ! j)))"
proof (induction rs arbitrary: i fi)
  case (Cons r rs)
  show ?case
  proof (cases "referSameObject ref r")
    case True
    with Cons.prems have "scan_refs ref (Suc i) (Some i) rs = Inr res" by simp
    from Cons.IH [OF this] True show ?thesis
      by (auto intro: exI [of _ 0])
  next
    case False
    with Cons.prems have "scan_refs ref (Suc i) fi rs = Inr res" "or_Controller r \<noteq> Some True"
      by (auto split: if_splits)
    from Cons.IH [OF this(1)] this(2) False show ?thesis
      by auto
  qed
qed simp

text \<open>An object with no owner gets the reference; one with a different controller is refused.\<close>

lemma SetControllerReference_fresh:
  "om_OwnerReferences (meta_of obj) = [] \<Longrightarrow> scheme (kind_of owner) = Inr gvk \<Longrightarrow>
     SetControllerReference owner obj scheme =
       (None, set_meta ((meta_of obj)\<lparr>om_OwnerReferences := [NewControllerRef (meta_of owner) gvk]\<rparr>) obj)"
  by (simp add: SetControllerReference_def Let_def)

text \<open>
  The outcome: refused exactly when another controller owns the object; otherwise the owner is
  among the references and every controller among them is that owner.
\<close>

lemma scan_refs_refused:
  "(\<exists>r. scan_refs ref i fi rs = Inl r) \<longleftrightarrow>
     (\<exists>r \<in> set rs. or_Controller r = Some True \<and> \<not> referSameObject ref r)"
  by (induction rs arbitrary: i fi) auto

lemma SetControllerReference_refused:
  assumes "scheme (kind_of owner) = Inr gvk"
  shows "fst (SetControllerReference owner obj scheme) \<noteq> None \<longleftrightarrow>
    (\<exists>r \<in> set (om_OwnerReferences (meta_of obj)).
       or_Controller r = Some True \<and> \<not> referSameObject (NewControllerRef (meta_of owner) gvk) r)"
  unfolding scan_refs_refused [of _ 0 None, symmetric]
  by (auto simp: SetControllerReference_def Let_def assms split: sum.splits)

lemma SetControllerReference_ok:
  assumes sch: "scheme (kind_of owner) = Inr gvk"
    and run: "SetControllerReference owner obj scheme = (None, obj')"
  shows "NewControllerRef (meta_of owner) gvk \<in> set (om_OwnerReferences (meta_of obj')) \<and>
    (\<forall>r \<in> set (om_OwnerReferences (meta_of obj')). or_Controller r = Some True \<longrightarrow>
       r = NewControllerRef (meta_of owner) gvk \<or> referSameObject (NewControllerRef (meta_of owner) gvk) r)"
proof -
  let ?ref = "NewControllerRef (meta_of owner) gvk" and ?rs = "om_OwnerReferences (meta_of obj)"
  from sch run obtain fi where sc: "scan_refs ?ref 0 None ?rs = Inr fi"
    and refs: "om_OwnerReferences (meta_of obj') =
      (case fi of None \<Rightarrow> ?rs @ [?ref] | Some i \<Rightarrow> ?rs[i := ?ref])"
    by (auto simp: SetControllerReference_def Let_def split: sum.splits)
  from scan_refs_ok [OF sc] refs show ?thesis
    by (auto simp: set_update_memI dest!: set_update_subset_insert [THEN subsetD])
qed

lemma SetControllerReference_frame:
  assumes "SetControllerReference owner obj scheme = (e, obj')"
  shows "kind_of obj' = kind_of obj \<and> key_of obj' = key_of obj \<and>
    (\<exists>refs. obj' = set_meta ((meta_of obj)\<lparr>om_OwnerReferences := refs\<rparr>) obj)"
proof -
  have same: "\<exists>refs. obj = set_meta ((meta_of obj)\<lparr>om_OwnerReferences := refs\<rparr>) obj"
    by (cases obj) (auto intro: exI [of _ "om_OwnerReferences (meta_of obj)"])
  with assms show ?thesis
    by (auto simp: SetControllerReference_def Let_def key_of_def split: sum.splits option.splits)
qed

section \<open>CreateOrUpdate\<close>

datatype operation_result = OperationResultNone | OperationResultCreated | OperationResultUpdated

text \<open>A mutate function updates the object in place and may fail; None is a panic.\<close>

type_synonym mutate_fn = "kobject \<Rightarrow> (goerror option \<times> kobject) option"

definition CreateOrUpdate ::
  "'w client \<Rightarrow> kobject \<Rightarrow> mutate_fn \<Rightarrow> 'w \<Rightarrow> ((operation_result \<times> goerror option) \<times> 'w) option" where
  "CreateOrUpdate c obj f w =
     (let key = key_of obj;
          (r, w1) = cl_Get c (kind_of obj) key w;
          existing = (case r of Inr srv \<Rightarrow> srv | Inl err \<Rightarrow> obj)
      in do {
        (e, obj2) \<leftarrow> f existing;
        case e of
          Some e \<Rightarrow> Some ((OperationResultNone, Some e), w1)
        | None \<Rightarrow>
            if om_Name (meta_of obj2) \<noteq> om_Name (meta_of existing) then
              Some ((OperationResultNone, Some (Failure ''ReconcileFn cannot mutate objects name'')), w1)
            else if om_Namespace (meta_of obj2) \<noteq> om_Namespace (meta_of existing) then
              Some ((OperationResultNone, Some (Failure ''ReconcileFn cannot mutate objects namespace'')), w1)
            else case r of
              Inl err \<Rightarrow>
                if IsNotFound err then
                  (let (err, w2) = cl_Create c obj2 w1
                   in Some ((if err = None then OperationResultCreated else OperationResultNone, err), w2))
                else Some ((OperationResultNone, Some err), w1)
            | Inr srv \<Rightarrow>
                if existing = obj2 then Some ((OperationResultNone, None), w1)
                else (let (err, w2) = cl_Update c obj2 w1
                      in Some ((if err = None then OperationResultUpdated else OperationResultNone, err), w2))
      })"

text \<open>
  A mutate function that does not fail on the objects of a set, keeps their kind and name, and
  does to them what the pure function \<open>g\<close> says.
\<close>

definition mutates :: "mutate_fn \<Rightarrow> (kobject \<Rightarrow> kobject) \<Rightarrow> (kobject \<Rightarrow> bool) \<Rightarrow> bool" where
  "mutates f g P \<longleftrightarrow>
     (\<forall>obj. P obj \<longrightarrow> f obj = Some (None, g obj) \<and> kind_of (g obj) = kind_of obj \<and> key_of (g obj) = key_of obj)"

text \<open>The set covers the given object and the one of its name in the state \<open>l\<close> of the server.\<close>

definition covers :: "(kobject \<Rightarrow> bool) \<Rightarrow> (kind \<Rightarrow> namespaced_name \<Rightarrow> kobject option) \<Rightarrow> kobject \<Rightarrow> bool" where
  "covers P l obj \<longleftrightarrow>
     P obj \<and> (\<forall>srv. l (kind_of obj) (key_of obj) = Some srv \<and> kind_of srv = kind_of obj \<longrightarrow> P srv)"

lemma covers_obj: "covers P l obj \<Longrightarrow> P obj"
  by (simp add: covers_def)

lemma covers_kind [simp]: "covers (\<lambda>obj. kind_of obj = k) l obj \<longleftrightarrow> kind_of obj = k"
  by (auto simp: covers_def)

lemma mutatesD:
  "mutates f g P \<Longrightarrow> P obj \<Longrightarrow>
     f obj = Some (None, g obj) \<and> kind_of (g obj) = kind_of obj \<and> key_of (g obj) = key_of obj \<and>
     om_Name (meta_of (g obj)) = om_Name (meta_of obj) \<and>
     om_Namespace (meta_of (g obj)) = om_Namespace (meta_of obj)"
  unfolding mutates_def by (metis key_of_def namespaced_name.ext_inject)

lemma CreateOrUpdate_mutates:
  assumes f: "mutates f g P" and obj: "P obj" and get: "cl_Get c (kind_of obj) (key_of obj) w = (r, w1)"
    and srv: "\<And>srv. r = Inr srv \<Longrightarrow> P srv"
  shows "CreateOrUpdate c obj f w =
    (case r of
       Inl err \<Rightarrow>
         if IsNotFound err then
           (let (err, w2) = cl_Create c (g obj) w1
            in Some ((if err = None then OperationResultCreated else OperationResultNone, err), w2))
         else Some ((OperationResultNone, Some err), w1)
     | Inr srv \<Rightarrow>
         if srv = g srv then Some ((OperationResultNone, None), w1)
         else (let (err, w2) = cl_Update c (g srv) w1
               in Some ((if err = None then OperationResultUpdated else OperationResultNone, err), w2)))"
proof (cases r)
  case (Inl err)
  from mutatesD [OF f obj] Inl get show ?thesis by (simp add: CreateOrUpdate_def)
next
  case (Inr srv)
  from mutatesD [OF f srv [OF Inr]] Inr get show ?thesis by (simp add: CreateOrUpdate_def)
qed

text \<open>
  What one call does to the server, for a mutate function that does not fail: nothing when it
  reports an error; otherwise it leaves the object with the mutation applied to what was there
  (or to the given object, if nothing was), and nothing else is touched.
\<close>

definition updated :: "(kind \<Rightarrow> namespaced_name \<Rightarrow> kobject option) \<Rightarrow> kobject \<Rightarrow> kobject \<Rightarrow>
    kind \<Rightarrow> namespaced_name \<Rightarrow> kobject option" where
  "updated l obj new = l(kind_of obj := (l (kind_of obj))(key_of obj \<mapsto> new))"

lemma updated_apply:
  "updated l obj new k n = (if k = kind_of obj \<and> n = key_of obj then Some new else l k n)"
  by (simp add: updated_def)

lemma updated_same: "l (kind_of obj) (key_of obj) = Some new \<Longrightarrow> updated l obj new = l"
  by (simp add: updated_apply fun_eq_iff)

text \<open>Two states of the server that differ at one object at most.\<close>

definition same_except :: "(kind \<Rightarrow> namespaced_name \<Rightarrow> kobject option) \<Rightarrow>
    (kind \<Rightarrow> namespaced_name \<Rightarrow> kobject option) \<Rightarrow> kind \<Rightarrow> namespaced_name \<Rightarrow> bool" where
  "same_except l l' k n \<longleftrightarrow> (\<forall>k' n'. (k', n') \<noteq> (k, n) \<longrightarrow> l' k' n' = l k' n')"

lemma same_except_updated [simp]: "same_except l (updated l obj new) (kind_of obj) (key_of obj)"
  by (simp add: same_except_def updated_apply)

lemma same_except_refl [simp]: "same_except l l k n"
  by (simp add: same_except_def)

context kube_api
begin

lemma covered_get:
  "cl_Get c (kind_of obj) (key_of obj) w = (r, w1) \<Longrightarrow> inv w \<Longrightarrow> covers P (look w) obj \<Longrightarrow>
     r = Inr srv \<Longrightarrow> P srv"
  using get_found unfolding covers_def by blast

lemma CreateOrUpdate_spec:
  assumes f: "mutates f g P" and cov: "covers P (look w) obj" and w: "inv w"
    and run: "CreateOrUpdate c obj f w = Some ((op, err), w')"
  shows "inv w' \<and>
    (case (op, err) of
       (OperationResultCreated, e) \<Rightarrow>
         e = None \<and> look w (kind_of obj) (key_of obj) = None \<and> look w' = updated (look w) obj (adm (g obj))
     | (OperationResultUpdated, e) \<Rightarrow>
         e = None \<and> (\<exists>srv. look w (kind_of obj) (key_of obj) = Some srv \<and> g srv \<noteq> srv \<and>
           look w' = updated (look w) obj (adm (g srv)))
     | (OperationResultNone, None) \<Rightarrow>
         (\<exists>srv. look w (kind_of obj) (key_of obj) = Some srv \<and> g srv = srv) \<and> look w' = look w
     | (OperationResultNone, Some e) \<Rightarrow> look w' = look w)"
proof -
  obtain r w1 where get: "cl_Get c (kind_of obj) (key_of obj) w = (r, w1)" by force
  from get_look [OF get w] have w1: "inv w1" "look w1 = look w" by auto
  from cov have obj: "P obj" by (rule covers_obj)
  note eq = CreateOrUpdate_mutates [OF f obj get covered_get [OF get w cov]]
  show ?thesis
  proof (cases r)
    case (Inl e)
    show ?thesis
    proof (cases "IsNotFound e")
      case True
      obtain eo w2 where cr: "cl_Create c (g obj) w1 = (eo, w2)" by force
      with run Inl True eq have res: "op = (if eo = None then OperationResultCreated else OperationResultNone)"
        "err = eo" "w' = w2" by auto
      from create_inv [OF cr w1(1)] create_ok [of "g obj" w1 w2] create_fail [of "g obj" w1 _ w2]
        cr w1 res mutatesD [OF f obj] show ?thesis
        by (cases eo) (auto simp: updated_def)
    next
      case False
      with run Inl eq w1 show ?thesis by auto
    qed
  next
    case (Inr srv)
    from get_found [OF get [unfolded Inr] w]
    have srv: "look w (kind_of obj) (key_of obj) = Some srv" "kind_of srv = kind_of obj"
      "key_of srv = key_of obj" by auto
    show ?thesis
    proof (cases "srv = g srv")
      case True
      with run Inr eq w1 srv show ?thesis by auto
    next
      case False
      obtain eo w2 where up: "cl_Update c (g srv) w1 = (eo, w2)" by force
      with run Inr False eq have res: "op = (if eo = None then OperationResultUpdated else OperationResultNone)"
        "err = eo" "w' = w2" by auto
      from update_inv [OF up w1(1)] update_ok [of "g srv" w1 w2] update_fail [of "g srv" w1 _ w2]
        up w1 res mutatesD [OF f covered_get [OF get w cov Inr]] srv False show ?thesis
        by (cases eo) (auto simp: updated_def)
    qed
  qed
qed

text \<open>The two consequences the callers use.\<close>

lemma CreateOrUpdate_ok:
  assumes "mutates f g P" and "covers P (look w) obj" and "inv w"
    and "CreateOrUpdate c obj f w = Some ((op, None), w')"
  obtains base new where "inv w'" and "look w' = updated (look w) obj new"
    and "base = (case look w (kind_of obj) (key_of obj) of None \<Rightarrow> obj | Some srv \<Rightarrow> srv)"
    and "new = (if op = OperationResultNone then g base else adm (g base))"
  using CreateOrUpdate_spec [OF assms]
  by (cases op) (auto simp: updated_same)

lemma CreateOrUpdate_outcome:
  assumes "mutates f g P" and "covers P (look w) obj" and "inv w"
    and "CreateOrUpdate c obj f w = Some ((op, err), w')"
  shows "inv w' \<and>
    (case err of
       Some e \<Rightarrow> look w' = look w
     | None \<Rightarrow> same_except (look w) (look w') (kind_of obj) (key_of obj) \<and>
         (\<exists>new. look w' (kind_of obj) (key_of obj) = Some new \<and>
            (let base = (case look w (kind_of obj) (key_of obj) of None \<Rightarrow> obj | Some srv \<Rightarrow> srv)
             in new = g base \<or> new = adm (g base))))"
  using CreateOrUpdate_spec [OF assms]
  by (cases op; cases err) (auto simp: updated_apply Let_def)

lemma CreateOrUpdate_error:
  assumes "mutates f g P" and "covers P (look w) obj" and "inv w"
    and "CreateOrUpdate c obj f w = Some ((op, Some e), w')"
  shows "inv w' \<and> look w' = look w \<and> op = OperationResultNone"
  using CreateOrUpdate_spec [OF assms] by (cases op) auto

lemma CreateOrUpdate_inv:
  assumes "mutates f g P" and "covers P (look w) obj" and "inv w"
    and "CreateOrUpdate c obj f w = Some ((op, e), w')"
  shows "inv w'"
  using CreateOrUpdate_spec [OF assms] by simp

lemma CreateOrUpdate_other:
  assumes "mutates f g P" and "covers P (look w) obj" and "inv w"
    and "CreateOrUpdate c obj f w = Some ((op, e), w')"
    and "(k, n) \<noteq> (kind_of obj, key_of obj)"
  shows "look w' k n = look w k n"
  using CreateOrUpdate_spec [OF assms(1-4)] assms(5)
  by (auto simp: updated_apply split: operation_result.splits option.splits)

lemma CreateOrUpdate_no_panic:
  assumes "mutates f g P" and "covers P (look w) obj" and "inv w"
  shows "\<exists>r. CreateOrUpdate c obj f w = Some r"
proof -
  obtain r w1 where get: "cl_Get c (kind_of obj) (key_of obj) w = (r, w1)" by force
  from CreateOrUpdate_mutates [OF assms(1) covers_obj [OF assms(2)] get covered_get [OF get assms(3,2)]]
  show ?thesis by (auto split: sum.splits prod.splits)
qed

end

text \<open>On a server that does not fail, the call succeeds, and repeating it changes nothing.\<close>

context kube_store
begin

lemma CreateOrUpdate_total:
  assumes f: "mutates f g P" and cov: "covers P (look w) obj" and w: "inv w"
  shows "\<exists>op w'. CreateOrUpdate c obj f w = Some ((op, None), w')"
proof (cases "look w (kind_of obj) (key_of obj)")
  case None
  from get_none [OF w None] obtain e w1 where
    get: "cl_Get c (kind_of obj) (key_of obj) w = (Inl e, w1)" and e: "IsNotFound e" by blast
  from get_look [OF get w] None mutatesD [OF f covers_obj [OF cov]]
  have "inv w1" "look w1 (kind_of (g obj)) (key_of (g obj)) = None" by auto
  from create_total [OF this] obtain w2 where "cl_Create c (g obj) w1 = (None, w2)" by blast
  with CreateOrUpdate_mutates [OF f covers_obj [OF cov] get covered_get [OF get w cov]] e
  show ?thesis by simp
next
  case (Some srv)
  from get_total [OF w Some] obtain w1 where
    get: "cl_Get c (kind_of obj) (key_of obj) w = (Inr srv, w1)" by blast
  from get_found [OF get w] have srv: "kind_of srv = kind_of obj" "key_of srv = key_of obj" by auto
  from get_look [OF get w] Some mutatesD [OF f covered_get [OF get w cov refl]] srv
  have "inv w1" "look w1 (kind_of (g srv)) (key_of (g srv)) \<noteq> None" by auto
  from update_total [OF this] obtain w2 where up: "cl_Update c (g srv) w1 = (None, w2)" by blast
  with CreateOrUpdate_mutates [OF f covers_obj [OF cov] get covered_get [OF get w cov]]
  show ?thesis by auto
qed

lemma CreateOrUpdate_again:
  assumes f: "mutates f g P" and cov: "covers P (look w) obj" and w: "inv w"
    and settled: "look w (kind_of obj) (key_of obj) = Some srv" "g srv = srv"
  shows "\<exists>w'. CreateOrUpdate c obj f w = Some ((OperationResultNone, None), w') \<and> look w' = look w"
proof -
  from get_total [OF w settled(1)] obtain w1 where
    get: "cl_Get c (kind_of obj) (key_of obj) w = (Inr srv, w1)" by blast
  from get_look [OF get w] have "look w1 = look w" by auto
  moreover have "CreateOrUpdate c obj f w = Some ((OperationResultNone, None), w1)"
    using CreateOrUpdate_mutates [OF f covers_obj [OF cov] get covered_get [OF get w cov]] settled(2)
    by simp
  ultimately show ?thesis by blast
qed

lemma CreateOrUpdate_idem:
  assumes f: "mutates f g P" and cov: "covers P (look w) obj" and w: "inv w"
    and adm: "\<And>srv. P srv \<Longrightarrow> P (adm (g srv)) \<and> g (adm (g srv)) = adm (g srv)"
    and idem: "\<And>srv. P srv \<Longrightarrow> P (g srv) \<and> g (g srv) = g srv"
    and run: "CreateOrUpdate c obj f w = Some ((op, None), w')"
  shows "\<exists>w''. CreateOrUpdate c obj f w' = Some ((OperationResultNone, None), w'') \<and> look w'' = look w'"
proof -
  from CreateOrUpdate_ok [OF f cov w run] obtain base new where
    w': "inv w'" "look w' = updated (look w) obj new" and
    base: "base = (case look w (kind_of obj) (key_of obj) of None \<Rightarrow> obj | Some srv \<Rightarrow> srv)" and
    new: "new = (if op = OperationResultNone then g base else adm (g base))" .
  have "P srv" if "look w (kind_of obj) (key_of obj) = Some srv" for srv
    using get_total [OF w that] covered_get [OF _ w cov refl] by blast
  with base covers_obj [OF cov] have "P base" by (auto split: option.splits)
  with new adm idem have new': "P new" "g new = new" by simp_all
  with w' cov have "covers P (look w') obj" by (simp add: covers_def updated_apply)
  from CreateOrUpdate_again [OF f this w'(1)] w'(2) new' show ?thesis by (simp add: updated_apply)
qed

end

end
