(* ===== verification/Artifact.thy ===== *)
theory Artifact
  imports ControllerUtil
begin

text \<open>
  The operations on Kubernetes objects (\<open>pkg/controller/siddhiprocess/artifact/artifacts.go\<close>):
  building the objects the operator owns, creating or updating them with their mutate functions,
  creating the NATS clusters, and deleting.
\<close>

section \<open>Constants\<close>

definition IngressName :: string where "IngressName = ''siddhi''"
definition NATSClusterName :: string where "NATSClusterName = ''siddhi-nats''"
definition STANClusterName :: string where "STANClusterName = ''siddhi-stan''"
definition NATSAPIVersion :: string where "NATSAPIVersion = ''nats.io/v1alpha2''"
definition STANAPIVersion :: string where "STANAPIVersion = ''streaming.nats.io/v1alpha1''"
definition NATSKind :: string where "NATSKind = ''NatsCluster''"
definition STANKind :: string where "STANKind = ''NatsStreamingCluster''"
definition NATSClusterSize :: goint where "NATSClusterSize = 1"
definition STANClusterSize :: int32 where "STANClusterSize = 1"

definition HealthPath :: string where "HealthPath = ''/health''"
definition HealthPortName :: string where "HealthPortName = ''hport''"
definition HealthPort :: int32 where "HealthPort = 9090"
definition ReadyPrPeriodSeconds :: int32 where "ReadyPrPeriodSeconds = 10"
definition ReadyPrInitialDelaySeconds :: int32 where "ReadyPrInitialDelaySeconds = 10"
definition LivePrPeriodSeconds :: int32 where "LivePrPeriodSeconds = 70"
definition LivePrInitialDelaySeconds :: int32 where "LivePrInitialDelaySeconds = 20"

text \<open>The \<open>intstr.Type\<close> constants \<open>Int\<close> and \<open>String\<close>.\<close>

definition IntType :: int64 where "IntType = 0"
definition StringType :: int64 where "StringType = 1"

definition int_port :: "int32 \<Rightarrow> int_or_string" where
  "int_port p = \<lparr>ios_Type = IntType, ios_IntVal = p, ios_StrVal = []\<rparr>"

definition type_meta_of :: "string \<Rightarrow> string \<Rightarrow> type_meta" where
  "type_meta_of apiVersion k = \<lparr>tm_Kind = k, tm_APIVersion = apiVersion\<rparr>"

text \<open>\<open>KubeClient\<close>.\<close>

record 'w kube_client =
  kc_Client :: "'w client"
  kc_Scheme :: scheme

section \<open>Mutate functions\<close>

text \<open>The type assertion of each panics on an object of another type.\<close>

definition ConfigMapMutateFunc :: "string gomap \<Rightarrow> mutate_fn" where
  "ConfigMapMutateFunc data obj =
     (case obj of OConfigMap cm \<Rightarrow> Some (None, OConfigMap (cm\<lparr>cm_Data := data\<rparr>)) | _ \<Rightarrow> None)"

definition PVCMutateFunc :: "pvc_spec \<Rightarrow> mutate_fn" where
  "PVCMutateFunc pvcSpec obj =
     (case obj of OPVC p \<Rightarrow> Some (None, OPVC (p\<lparr>pvc_Spec := pvcSpec\<rparr>)) | _ \<Rightarrow> None)"

definition ServiceMutateFunc :: "string gomap \<Rightarrow> service_port list \<Rightarrow> mutate_fn" where
  "ServiceMutateFunc selectors servicePorts obj =
     (case obj of
        OService s \<Rightarrow>
          Some (None, OService (s\<lparr>svc_Spec := (svc_Spec s)\<lparr>svs_Selector := selectors, svs_Ports := servicePorts\<rparr>\<rparr>))
      | _ \<Rightarrow> None)"

text \<open>The pod of a deployment; the same literal is in \<open>CreateOrUpdateDeployment\<close> and in its
  mutate function.\<close>

definition deployment_pod ::
  "string \<Rightarrow> string \<Rightarrow> string list \<Rightarrow> string list \<Rightarrow> container_port list \<Rightarrow> volume_mount list \<Rightarrow>
   env_var slice \<Rightarrow> security_context \<Rightarrow> string \<Rightarrow> string list \<Rightarrow> volume list \<Rightarrow> probe \<Rightarrow> probe \<Rightarrow> pod_spec" where
  "deployment_pod img containerName command args ports volumeMounts envs sc ipp secrets volumes
     readyProbe liveProbe =
     \<lparr>ps_Volumes = volumes,
      ps_Containers =
        [\<lparr>ct_Name = containerName, ct_Image = img, ct_Command = command, ct_Args = args,
          ct_Ports = ports, ct_Env = envs, ct_VolumeMounts = volumeMounts,
          ct_LivenessProbe = Some liveProbe, ct_ReadinessProbe = Some readyProbe,
          ct_ImagePullPolicy = ipp, ct_SecurityContext = Some sc, ct_rest = []\<rparr>],
      ps_ImagePullSecrets = secrets, ps_rest = []\<rparr>"

definition DeploymentMutateFunc ::
  "int32 \<Rightarrow> string gomap \<Rightarrow> string \<Rightarrow> string \<Rightarrow> string list \<Rightarrow> string list \<Rightarrow> container_port list \<Rightarrow>
   volume_mount list \<Rightarrow> env_var slice \<Rightarrow> security_context \<Rightarrow> string \<Rightarrow> string list \<Rightarrow> volume list \<Rightarrow>
   probe \<Rightarrow> probe \<Rightarrow> deployment_strategy \<Rightarrow> mutate_fn" where
  "DeploymentMutateFunc replicas labels img containerName command args ports volumeMounts envs sc
     ipp secrets volumes readyProbe liveProbe strategy obj =
     (case obj of
        ODeployment d \<Rightarrow>
          (let pod = deployment_pod img containerName command args ports volumeMounts envs sc ipp
                 secrets volumes readyProbe liveProbe
           in Some (None, ODeployment (d\<lparr>dep_Spec := (dep_Spec d)\<lparr>ds_TemplateSpec := pod, ds_Strategy := strategy\<rparr>\<rparr>)))
      | _ \<Rightarrow> None)"

subsection \<open>Ingress\<close>

definition pathContains :: "http_ingress_path list \<Rightarrow> http_ingress_path \<Rightarrow> bool" where
  "pathContains paths path = (\<exists>p \<in> set paths. p = path)"

definition ingress_path :: "string \<Rightarrow> container_port \<Rightarrow> http_ingress_path" where
  "ingress_path serviceName port =
     \<lparr>hip_Path = path_Join [''/'', ToLower serviceName, Itoa (sint (cp_ContainerPort port)) @ ''(/|$)(.*)''],
      hip_Backend = \<lparr>ib_ServiceName = ToLower serviceName, ib_ServicePort = int_port (cp_ContainerPort port)\<rparr>\<rparr>"

definition ingress_paths :: "string \<Rightarrow> container_port list \<Rightarrow> http_ingress_path list" where
  "ingress_paths serviceName containerPorts = map (ingress_path serviceName) containerPorts"

definition ingress_tls_of :: "string \<Rightarrow> ingress_tls list" where
  "ingress_tls_of tls =
     (if tls \<noteq> [] then [\<lparr>it_Hosts = [IngressName], it_SecretName = tls\<rparr>] else [])"

definition ingress_spec_of :: "string \<Rightarrow> ingress_rule list \<Rightarrow> ingress_spec" where
  "ingress_spec_of tls rules = \<lparr>is_Backend = None, is_TLS = ingress_tls_of tls, is_Rules = rules\<rparr>"

definition siddhi_rule :: "http_ingress_path list \<Rightarrow> ingress_rule" where
  "siddhi_rule paths = \<lparr>ir_Host = IngressName, ir_HTTP = Some paths\<rparr>"

text \<open>The inner loop: the paths not yet there are appended, one after the other.\<close>

fun add_paths :: "http_ingress_path list \<Rightarrow> http_ingress_path list \<Rightarrow> http_ingress_path list" where
  "add_paths cur [] = cur"
| "add_paths cur (p # ps) = add_paths (if pathContains cur p then cur else cur @ [p]) ps"

text \<open>
  The outer loop. \<open>rule.HTTP\<close> is a pointer, so the update of the loop variable reaches the rule
  in the list. A rule without \<open>HTTP\<close> panics at its first path.
\<close>

fun update_rules :: "http_ingress_path list \<Rightarrow> ingress_rule list \<Rightarrow> ingress_rule list option" where
  "update_rules ps [] = Some []"
| "update_rules ps (rule # rules) = do {
     rule' \<leftarrow>
       (if ir_Host rule = IngressName \<and> ps \<noteq> []
        then (case ir_HTTP rule of
                None \<Rightarrow> None
              | Some paths \<Rightarrow> Some (rule\<lparr>ir_HTTP := Some (add_paths paths ps)\<rparr>))
        else Some rule);
     rules' \<leftarrow> update_rules ps rules;
     Some (rule' # rules')
   }"

definition IngressMutateFunc :: "string \<Rightarrow> string \<Rightarrow> string \<Rightarrow> container_port list \<Rightarrow> mutate_fn" where
  "IngressMutateFunc namespace serviceName tls containerPorts obj =
     (case obj of
        OIngress i \<Rightarrow>
          (let ps = ingress_paths serviceName containerPorts;
               currentRules = is_Rules (ing_Spec i);
               ruleExists = (\<exists>rule \<in> set currentRules. ir_Host rule = IngressName)
           in do {
             rules \<leftarrow> update_rules ps currentRules;
             let rules' = (if ruleExists then rules else rules @ [siddhi_rule ps]);
             Some (None, OIngress (i\<lparr>ing_Spec := ingress_spec_of tls rules'\<rparr>))
           })
      | _ \<Rightarrow> None)"

section \<open>Creating and updating\<close>

definition CreateOrUpdateCM ::
  "'w kube_client \<Rightarrow> string \<Rightarrow> string \<Rightarrow> string gomap \<Rightarrow> kobject \<Rightarrow> 'w \<Rightarrow> (goerror option \<times> 'w) option" where
  "CreateOrUpdateCM k name namespace data owner w =
     (let (r, w1) = cl_Get (kc_Client k) KConfigMap (nn name namespace) w;
          configMap = \<lparr>cm_TypeMeta = type_meta_of ''v1'' ''ConfigMap'', cm_ObjectMeta = new_meta name namespace,
                       cm_Data = data, cm_rest = []\<rparr>;
          (_, obj) = SetControllerReference owner (OConfigMap configMap) (kc_Scheme k)
      in do {
        ((_, err), w2) \<leftarrow> CreateOrUpdate (kc_Client k) obj (ConfigMapMutateFunc data) w1;
        Some (err, w2)
      })"

definition ingress_annotations :: "string gomap" where
  "ingress_annotations = map_literal
     [(''kubernetes.io/ingress.class'', ''nginx''),
      (''nginx.ingress.kubernetes.io/rewrite-target'', ''/$2'')]"

definition siddhi_ingress :: "string \<Rightarrow> string \<Rightarrow> string \<Rightarrow> container_port list \<Rightarrow> ingress" where
  "siddhi_ingress namespace serviceName tls containerPorts =
     \<lparr>ing_TypeMeta = type_meta_of ''extensions/v1beta1'' ''Ingress'',
      ing_ObjectMeta = (new_meta IngressName namespace)\<lparr>om_Annotations := Some ingress_annotations\<rparr>,
      ing_Spec = ingress_spec_of tls [siddhi_rule (ingress_paths serviceName containerPorts)],
      ing_rest = []\<rparr>"

definition CreateOrUpdateIngress ::
  "'w kube_client \<Rightarrow> string \<Rightarrow> string \<Rightarrow> string \<Rightarrow> container_port list \<Rightarrow> 'w \<Rightarrow>
   ((operation_result \<times> goerror option) \<times> 'w) option" where
  "CreateOrUpdateIngress k namespace serviceName tls containerPorts w =
     CreateOrUpdate (kc_Client k) (OIngress (siddhi_ingress namespace serviceName tls containerPorts))
       (IngressMutateFunc namespace serviceName tls containerPorts) w"

definition nats_object :: "string \<Rightarrow> nats_cluster" where
  "nats_object namespace =
     \<lparr>nc_TypeMeta = type_meta_of NATSAPIVersion NATSKind, nc_ObjectMeta = new_meta NATSClusterName namespace,
      nc_Spec = zero_cluster_spec\<lparr>cs_Size := NATSClusterSize\<rparr>, nc_Status = zero_cluster_status\<rparr>"

definition stan_object :: "string \<Rightarrow> stan_cluster" where
  "stan_object namespace =
     \<lparr>sc_TypeMeta = type_meta_of STANAPIVersion STANKind, sc_ObjectMeta = new_meta STANClusterName namespace,
      sc_Spec = zero_stan_cluster_spec\<lparr>scs_Size := STANClusterSize, scs_NatsService := NATSClusterName\<rparr>\<rparr>"

text \<open>The two halves of \<open>CreateNATS\<close>: get the object, create it when it is not found.\<close>

definition get_or_create :: "'w client \<Rightarrow> kobject \<Rightarrow> 'w \<Rightarrow> goerror option \<times> 'w" where
  "get_or_create c obj w =
     (let (r, w1) = cl_Get c (kind_of obj) (key_of obj) w
      in case r of
           Inr _ \<Rightarrow> (None, w1)
         | Inl e \<Rightarrow> if IsNotFound e then cl_Create c obj w1 else (Some e, w1))"

definition CreateNATS :: "'w kube_client \<Rightarrow> string \<Rightarrow> 'w \<Rightarrow> goerror option \<times> 'w" where
  "CreateNATS k namespace w =
     (case get_or_create (kc_Client k) (ONatsCluster (nats_object namespace)) w of
        (Some err, w1) \<Rightarrow> (Some err, w1)
      | (None, w1) \<Rightarrow> get_or_create (kc_Client k) (OStanCluster (stan_object namespace)) w1)"

definition ReadWriteOnce :: string where "ReadWriteOnce = ''ReadWriteOnce''"
definition ReadWriteMany :: string where "ReadWriteMany = ''ReadWriteMany''"

definition pvc_object :: "string \<Rightarrow> string \<Rightarrow> pvc_spec \<Rightarrow> pvc" where
  "pvc_object name namespace pvcSpec =
     \<lparr>pvc_TypeMeta = type_meta_of ''v1'' ''PersistentVolumeClaim'', pvc_ObjectMeta = new_meta name namespace,
      pvc_Spec = pvcSpec, pvc_rest = []\<rparr>"

definition CreateOrUpdatePVC ::
  "'w kube_client \<Rightarrow> string \<Rightarrow> string \<Rightarrow> pvc_spec \<Rightarrow> kobject \<Rightarrow> 'w \<Rightarrow> (goerror option \<times> 'w) option" where
  "CreateOrUpdatePVC k name namespace pvcSpec owner w =
     (let (r, w1) = cl_Get (kc_Client k) KPVC (nn name namespace) w
      in case r of
           Inr _ \<Rightarrow> Some (None, w1)
         | Inl e \<Rightarrow>
             if \<not> IsNotFound e then Some (Some e, w1)
             else (let accessGranted =
                        (\<exists>m \<in> set (elems (pvcs_AccessModes pvcSpec)). m = ReadWriteOnce \<or> m = ReadWriteMany)
                   in if pvcs_AccessModes pvcSpec \<noteq> None \<and> \<not> accessGranted
                      then Some (Some (Failure (''Restricted access mode in '' @ name)), w1)
                      else (let (_, obj) = SetControllerReference owner
                                 (OPVC (pvc_object name namespace pvcSpec)) (kc_Scheme k)
                            in do {
                              ((_, err), w2) \<leftarrow> CreateOrUpdate (kc_Client k) obj (PVCMutateFunc pvcSpec) w1;
                              Some (err, w2)
                            })))"

definition service_ports :: "container_port list \<Rightarrow> service_port list" where
  "service_ports containerPorts =
     map (\<lambda>p. \<lparr>svp_Name = cp_Name p, svp_Port = cp_ContainerPort p, svp_rest = []\<rparr>) containerPorts"

definition service_object :: "string \<Rightarrow> string \<Rightarrow> string gomap \<Rightarrow> service_port list \<Rightarrow> service" where
  "service_object name namespace selectors servicePorts =
     \<lparr>svc_TypeMeta = type_meta_of ''v1'' ''Service'', svc_ObjectMeta = new_meta name namespace,
      svc_Spec = \<lparr>svs_Ports = servicePorts, svs_Selector = selectors, svs_Type = ''ClusterIP'', svs_rest = []\<rparr>,
      svc_rest = []\<rparr>"

definition CreateOrUpdateService ::
  "'w kube_client \<Rightarrow> string \<Rightarrow> string \<Rightarrow> container_port list \<Rightarrow> string gomap \<Rightarrow> kobject \<Rightarrow> 'w \<Rightarrow>
   ((operation_result \<times> goerror option) \<times> 'w) option" where
  "CreateOrUpdateService k name namespace containerPorts selectors owner w =
     (let servicePorts = service_ports containerPorts;
          (_, obj) = SetControllerReference owner
            (OService (service_object name namespace selectors servicePorts)) (kc_Scheme k)
      in CreateOrUpdate (kc_Client k) obj (ServiceMutateFunc selectors servicePorts) w)"

definition health_probe :: "int32 \<Rightarrow> int32 \<Rightarrow> probe" where
  "health_probe period delay =
     \<lparr>pr_HTTPGet = Some \<lparr>hga_Path = HealthPath, hga_Port = int_port HealthPort, hga_rest = []\<rparr>,
      pr_InitialDelaySeconds = delay, pr_PeriodSeconds = period, pr_rest = []\<rparr>"

definition readyProbe :: probe where
  "readyProbe = health_probe ReadyPrPeriodSeconds ReadyPrInitialDelaySeconds"

definition liveProbe :: probe where
  "liveProbe = health_probe LivePrPeriodSeconds LivePrInitialDelaySeconds"

definition defaultPort :: container_port where
  "defaultPort = \<lparr>cp_Name = HealthPortName, cp_ContainerPort = HealthPort, cp_Protocol = ''TCP'', cp_rest = []\<rparr>"

definition zero_deployment_status :: deployment_status where
  "zero_deployment_status = \<lparr>dstat_AvailableReplicas = 0, dstat_rest = []\<rparr>"

definition deployment_object ::
  "string \<Rightarrow> string \<Rightarrow> int32 \<Rightarrow> string gomap \<Rightarrow> pod_spec \<Rightarrow> deployment_strategy \<Rightarrow> deployment" where
  "deployment_object name namespace replicas labels pod strategy =
     \<lparr>dep_TypeMeta = type_meta_of ''apps/v1'' ''Deployment'', dep_ObjectMeta = new_meta name namespace,
      dep_Spec = \<lparr>ds_Replicas = Some replicas, ds_Selector = Some labels, ds_TemplateLabels = labels,
        ds_TemplateSpec = pod, ds_Strategy = strategy, ds_rest = []\<rparr>,
      dep_Status = zero_deployment_status\<rparr>"

definition CreateOrUpdateDeployment ::
  "'w kube_client \<Rightarrow> string \<Rightarrow> string \<Rightarrow> int32 \<Rightarrow> string gomap \<Rightarrow> string \<Rightarrow> string \<Rightarrow> string list \<Rightarrow>
   string list \<Rightarrow> container_port list \<Rightarrow> volume_mount list \<Rightarrow> env_var slice \<Rightarrow> security_context \<Rightarrow>
   string \<Rightarrow> string list \<Rightarrow> volume list \<Rightarrow> deployment_strategy \<Rightarrow> kobject \<Rightarrow> 'w \<Rightarrow>
   ((operation_result \<times> goerror option) \<times> 'w) option" where
  "CreateOrUpdateDeployment k name namespace replicas labels img containerName command args ports
     volumeMounts envs sc ipp secrets volumes strategy owner w =
     (let ports' = ports @ [defaultPort];
          pod = deployment_pod img containerName command args ports' volumeMounts envs sc ipp secrets
            volumes readyProbe liveProbe;
          (_, obj) = SetControllerReference owner
            (ODeployment (deployment_object name namespace replicas labels pod strategy)) (kc_Scheme k)
      in CreateOrUpdate (kc_Client k) obj
           (DeploymentMutateFunc replicas labels img containerName command args ports' volumeMounts envs
              sc ipp secrets volumes readyProbe liveProbe strategy) w)"

section \<open>Deleting and reading\<close>

text \<open>The four delete functions differ in the type of the object only.\<close>

definition delete_kind :: "kind \<Rightarrow> 'w kube_client \<Rightarrow> string \<Rightarrow> string \<Rightarrow> 'w \<Rightarrow> goerror option \<times> 'w" where
  "delete_kind kd k name namespace w =
     (let (r, w1) = cl_Get (kc_Client k) kd (nn name namespace) w
      in case r of Inr obj \<Rightarrow> cl_Delete (kc_Client k) obj w1 | Inl _ \<Rightarrow> (None, w1))"

definition DeleteService :: "'w kube_client \<Rightarrow> string \<Rightarrow> string \<Rightarrow> 'w \<Rightarrow> goerror option \<times> 'w" where
  "DeleteService = delete_kind KService"

definition DeleteDeployment :: "'w kube_client \<Rightarrow> string \<Rightarrow> string \<Rightarrow> 'w \<Rightarrow> goerror option \<times> 'w" where
  "DeleteDeployment = delete_kind KDeployment"

definition DeletePVC :: "'w kube_client \<Rightarrow> string \<Rightarrow> string \<Rightarrow> 'w \<Rightarrow> goerror option \<times> 'w" where
  "DeletePVC = delete_kind KPVC"

definition DeleteConfigMap :: "'w kube_client \<Rightarrow> string \<Rightarrow> string \<Rightarrow> 'w \<Rightarrow> goerror option \<times> 'w" where
  "DeleteConfigMap = delete_kind KConfigMap"

text \<open>\<open>GetDeployment\<close>: the deployment when the call succeeds; the caller does not look at it otherwise.\<close>

definition GetDeployment :: "'w kube_client \<Rightarrow> string \<Rightarrow> string \<Rightarrow> 'w \<Rightarrow> deployment option \<times> 'w" where
  "GetDeployment k name namespace w =
     (let (r, w1) = cl_Get (kc_Client k) KDeployment (nn (ToLower name) namespace) w
      in (case r of Inr (ODeployment d) \<Rightarrow> Some d | _ \<Rightarrow> None, w1))"

section \<open>The server's defaulting\<close>

text \<open>
  What the operator relies on in what the server stores: defaulting and admission fill in fields
  the operator did not set, and keep those it did set.
\<close>

record container_core =
  cc_Name :: string
  cc_Image :: string
  cc_Command :: "string list"
  cc_Args :: "string list"
  cc_Ports :: "int32 list"
  cc_Env :: "(string \<times> string) list"
  cc_Mounts :: "(string \<times> string) list"

definition container_core_of :: "container \<Rightarrow> container_core" where
  "container_core_of c =
     \<lparr>cc_Name = ct_Name c, cc_Image = ct_Image c, cc_Command = ct_Command c, cc_Args = ct_Args c,
      cc_Ports = map cp_ContainerPort (ct_Ports c),
      cc_Env = map (\<lambda>e. (ev_Name e, ev_Value e)) (elems (ct_Env c)),
      cc_Mounts = map (\<lambda>m. (vm_Name m, vm_MountPath m)) (ct_VolumeMounts c)\<rparr>"

definition pod_core :: "pod_spec \<Rightarrow> container_core list \<times> string list" where
  "pod_core pod = (map container_core_of (ps_Containers pod), map vol_Name (ps_Volumes pod))"

locale kube_defaulting = kube_api +
  assumes adm_cm: "\<exists>cm'. adm (OConfigMap cm) = OConfigMap cm' \<and> cm_Data cm' = cm_Data cm"
    and adm_pvc: "\<exists>p'. adm (OPVC p) = OPVC p' \<and>
      pvcs_AccessModes (pvc_Spec p') = pvcs_AccessModes (pvc_Spec p) \<and>
      pvcs_Resources (pvc_Spec p') = pvcs_Resources (pvc_Spec p)"
    and adm_ingress: "\<exists>i'. adm (OIngress i) = OIngress i' \<and> ing_Spec i' = ing_Spec i"
    and adm_service: "\<exists>s'. adm (OService s) = OService s' \<and>
      svs_Selector (svc_Spec s') = svs_Selector (svc_Spec s) \<and>
      map (\<lambda>p. (svp_Name p, svp_Port p)) (svs_Ports (svc_Spec s')) =
        map (\<lambda>p. (svp_Name p, svp_Port p)) (svs_Ports (svc_Spec s))"
    and adm_deployment: "\<exists>d'. adm (ODeployment d) = ODeployment d' \<and>
      (\<forall>n. ds_Replicas (dep_Spec d) = Some n \<longrightarrow> ds_Replicas (dep_Spec d') = Some n) \<and>
      ds_Selector (dep_Spec d') = ds_Selector (dep_Spec d) \<and>
      ds_TemplateLabels (dep_Spec d') = ds_TemplateLabels (dep_Spec d) \<and>
      pod_core (ds_TemplateSpec (dep_Spec d')) = pod_core (ds_TemplateSpec (dep_Spec d))"

interpretation cached_def: kube_defaulting cached_client tracker_look "\<lambda>obj. obj" tracker_inv
  by unfold_locales auto

interpretation faulty_def: kube_defaulting "faulty cached_client" "\<lambda>p. tracker_look (fst p)" "\<lambda>obj. obj"
    "\<lambda>p. tracker_inv (fst p)"
  by unfold_locales auto

section \<open>What the mutate functions do\<close>

definition result_of :: "mutate_fn \<Rightarrow> kobject \<Rightarrow> kobject" where
  "result_of f obj = snd (the (f obj))"

lemmas mutate_defs =
  ConfigMapMutateFunc_def PVCMutateFunc_def ServiceMutateFunc_def DeploymentMutateFunc_def

lemma mutates_CM:
  "mutates (ConfigMapMutateFunc data) (result_of (ConfigMapMutateFunc data)) (\<lambda>obj. kind_of obj = KConfigMap)"
  by (auto simp: mutates_def result_of_def mutate_defs kind_of_eqs key_of_def)

lemma mutates_PVC:
  "mutates (PVCMutateFunc s) (result_of (PVCMutateFunc s)) (\<lambda>obj. kind_of obj = KPVC)"
  by (auto simp: mutates_def result_of_def mutate_defs kind_of_eqs key_of_def)

lemma mutates_Service:
  "mutates (ServiceMutateFunc sel ports) (result_of (ServiceMutateFunc sel ports)) (\<lambda>obj. kind_of obj = KService)"
  by (auto simp: mutates_def result_of_def mutate_defs kind_of_eqs key_of_def)

lemma mutates_Deployment:
  fixes replicas labels img containerName command args ports volumeMounts envs sc ipp secrets volumes rp lp strategy
  defines "f \<equiv> DeploymentMutateFunc replicas labels img containerName command args ports volumeMounts envs sc
     ipp secrets volumes rp lp strategy"
  shows "mutates f (result_of f) (\<lambda>obj. kind_of obj = KDeployment)"
  by (auto simp: f_def mutates_def result_of_def mutate_defs kind_of_eqs key_of_def)

subsection \<open>Ingress rules\<close>

text \<open>The ingress has no rule for the operator's host that lacks its \<open>HTTP\<close> value.\<close>

definition rules_ok :: "ingress_rule list \<Rightarrow> bool" where
  "rules_ok rules \<longleftrightarrow> (\<forall>rule \<in> set rules. ir_Host rule = IngressName \<longrightarrow> ir_HTTP rule \<noteq> None)"

definition ingress_ok :: "kobject \<Rightarrow> bool" where
  "ingress_ok obj \<longleftrightarrow> (case obj of OIngress i \<Rightarrow> rules_ok (is_Rules (ing_Spec i)) | _ \<Rightarrow> False)"

lemma set_add_paths: "set (add_paths cur ps) = set cur \<union> set ps"
  by (induction cur ps rule: add_paths.induct) (auto simp: pathContains_def)

lemma add_paths_prefix: "\<exists>new. add_paths cur ps = cur @ new \<and> set new \<subseteq> set ps"
proof (induction cur ps rule: add_paths.induct)
  case (2 cur p ps)
  then show ?case by (auto split: if_splits)
qed simp

lemma add_paths_distinct: "distinct cur \<Longrightarrow> distinct (add_paths cur ps)"
  by (induction cur ps rule: add_paths.induct) (auto simp: pathContains_def)

lemma add_paths_present: "set ps \<subseteq> set cur \<Longrightarrow> add_paths cur ps = cur"
  by (induction cur ps rule: add_paths.induct) (auto simp: pathContains_def)

lemma add_paths_idem [simp]: "add_paths (add_paths cur ps) ps = add_paths cur ps"
  by (rule add_paths_present) (simp add: set_add_paths)

text \<open>What the loop over the rules computes, and when it panics.\<close>

definition updated_rule :: "http_ingress_path list \<Rightarrow> ingress_rule \<Rightarrow> ingress_rule" where
  "updated_rule ps rule =
     (if ir_Host rule = IngressName then rule\<lparr>ir_HTTP := map_option (\<lambda>paths. add_paths paths ps) (ir_HTTP rule)\<rparr>
      else rule)"

lemma updated_rule_Nil [simp]: "updated_rule [] rule = rule"
  by (cases rule) (auto simp: updated_rule_def option.map_ident)

lemma updated_rule_Host [simp]: "ir_Host (updated_rule ps rule) = ir_Host rule"
  by (simp add: updated_rule_def)

lemma updated_rule_idem [simp]: "updated_rule ps (updated_rule ps rule) = updated_rule ps rule"
  by (simp add: updated_rule_def option.map_comp o_def)

lemma update_rules_ok: "rules_ok rules \<Longrightarrow> update_rules ps rules = Some (map (updated_rule ps) rules)"
  by (induction ps rules rule: update_rules.induct) (auto simp: rules_ok_def updated_rule_def)

lemma update_rules_panics: "update_rules ps rules = None \<longleftrightarrow> ps \<noteq> [] \<and> \<not> rules_ok rules"
proof (induction ps rules rule: update_rules.induct)
  case (1 ps)
  then show ?case by (simp add: rules_ok_def)
next
  case (2 ps rule rules)
  then show ?case
    by (cases "ir_Host rule = IngressName \<and> ps \<noteq> []"; cases "ir_HTTP rule")
      (auto simp: rules_ok_def bind_eq_None_conv)
qed

lemma rules_ok_Nil [simp]: "rules_ok []"
  by (simp add: rules_ok_def)

lemma rules_ok_siddhi [simp]: "rules_ok [siddhi_rule ps]"
  by (simp add: rules_ok_def siddhi_rule_def)

lemma rules_ok_append [simp]: "rules_ok (xs @ ys) \<longleftrightarrow> rules_ok xs \<and> rules_ok ys"
  by (auto simp: rules_ok_def)

lemma updated_rule_HTTP [simp]: "ir_HTTP (updated_rule ps rule) = None \<longleftrightarrow> ir_HTTP rule = None"
  by (simp add: updated_rule_def)

lemma rules_ok_updated [simp]: "rules_ok (map (updated_rule ps) rules) \<longleftrightarrow> rules_ok rules"
  by (simp add: rules_ok_def del: not_None_eq)

text \<open>The rules of the updated ingress, and that another update with the same paths is idle.\<close>

definition merged_rules :: "http_ingress_path list \<Rightarrow> ingress_rule list \<Rightarrow> ingress_rule list" where
  "merged_rules ps rules =
     map (updated_rule ps) rules @
     (if \<exists>rule \<in> set rules. ir_Host rule = IngressName then [] else [siddhi_rule ps])"

lemma updated_siddhi_rule [simp]: "updated_rule ps (siddhi_rule ps) = siddhi_rule ps"
  by (simp add: updated_rule_def siddhi_rule_def add_paths_present)

lemma siddhi_rule_Host [simp]: "ir_Host (siddhi_rule ps) = IngressName"
  by (simp add: siddhi_rule_def)

lemma merged_rules_idem [simp]: "merged_rules ps (merged_rules ps rules) = merged_rules ps rules"
  by (auto simp: merged_rules_def)

lemma rules_ok_merged [simp]: "rules_ok (merged_rules ps rules) \<longleftrightarrow> rules_ok rules"
  by (simp add: merged_rules_def)

lemma merged_rules_siddhi [simp]: "merged_rules ps [siddhi_rule ps] = [siddhi_rule ps]"
  by (simp add: merged_rules_def)

lemma merged_rules_paths:
  "rule \<in> set (merged_rules ps rules) \<Longrightarrow> ir_Host rule = IngressName \<Longrightarrow> rules_ok rules \<Longrightarrow>
     \<exists>paths. ir_HTTP rule = Some paths \<and> set ps \<subseteq> set paths"
  by (auto simp: merged_rules_def rules_ok_def updated_rule_def siddhi_rule_def set_add_paths split: if_splits)

lemma merged_rules_exists: "\<exists>rule \<in> set (merged_rules ps rules). ir_Host rule = IngressName"
  by (auto simp: merged_rules_def)

definition merged_ingress :: "string \<Rightarrow> string \<Rightarrow> container_port list \<Rightarrow> ingress \<Rightarrow> ingress" where
  "merged_ingress serviceName tls containerPorts i =
     i\<lparr>ing_Spec := ingress_spec_of tls
       (merged_rules (ingress_paths serviceName containerPorts) (is_Rules (ing_Spec i)))\<rparr>"

lemma is_Rules_ingress_spec_of [simp]: "is_Rules (ingress_spec_of tls rules) = rules"
  by (simp add: ingress_spec_of_def)

lemma IngressMutateFunc_eq:
  "rules_ok (is_Rules (ing_Spec i)) \<Longrightarrow>
     IngressMutateFunc namespace serviceName tls ports (OIngress i) =
       Some (None, OIngress (merged_ingress serviceName tls ports i))"
  by (auto simp: IngressMutateFunc_def Let_def update_rules_ok merged_ingress_def merged_rules_def)

lemma mutates_Ingress:
  "mutates (IngressMutateFunc namespace serviceName tls ports)
     (result_of (IngressMutateFunc namespace serviceName tls ports)) ingress_ok"
  by (auto simp: mutates_def result_of_def ingress_ok_def IngressMutateFunc_eq key_of_def merged_ingress_def
      split: kobject.splits)

section \<open>What the operations do to the server\<close>

lemma set_owner_object:
  assumes "SetControllerReference owner obj scheme = (e, obj')"
  shows "kind_of obj' = kind_of obj" and "key_of obj' = key_of obj"
  using SetControllerReference_frame [OF assms] by auto

lemma key_of_new:
  "key_of (OConfigMap \<lparr>cm_TypeMeta = t, cm_ObjectMeta = new_meta name ns, cm_Data = data, cm_rest = r\<rparr>) = nn name ns"
  "key_of (OPVC (pvc_object name ns spec)) = nn name ns"
  "key_of (OService (service_object name ns sel ports)) = nn name ns"
  "key_of (ODeployment (deployment_object name ns n labels pod strategy)) = nn name ns"
  "key_of (OIngress (siddhi_ingress ns svc tls cports)) = nn IngressName ns"
  by (simp_all add: key_of_def nn_def new_meta_def pvc_object_def service_object_def deployment_object_def
      siddhi_ingress_def)

text \<open>
  The outcome of an operation on one object: an error and the server as it was, or success, an
  object that satisfies \<open>Q\<close> under the name, and no other change.
\<close>

definition outcome ::
  "(kind \<Rightarrow> namespaced_name \<Rightarrow> kobject option) \<Rightarrow> (kind \<Rightarrow> namespaced_name \<Rightarrow> kobject option) \<Rightarrow>
   kind \<Rightarrow> namespaced_name \<Rightarrow> (kobject \<Rightarrow> bool) \<Rightarrow> goerror option \<Rightarrow> bool" where
  "outcome l l' k n Q err =
     (case err of
        Some e \<Rightarrow> l' = l
      | None \<Rightarrow> same_except l l' k n \<and> (\<exists>new. l' k n = Some new \<and> Q new))"

lemma outcome_mono: "outcome l l' k n Q err \<Longrightarrow> (\<And>obj. Q obj \<Longrightarrow> Q' obj) \<Longrightarrow> outcome l l' k n Q' err"
  by (auto simp: outcome_def split: option.splits)

context kube_api
begin

lemma CreateOrUpdate_result:
  assumes f: "mutates f (result_of f) P" and cov: "covers P (look w) obj" and w: "inv w"
    and run: "CreateOrUpdate c obj f w = Some ((op, err), w')"
    and Q: "\<And>base. P base \<Longrightarrow>
      base = (case look w (kind_of obj) (key_of obj) of None \<Rightarrow> obj | Some srv \<Rightarrow> srv) \<Longrightarrow>
      Q (result_of f base) \<and> Q (adm (result_of f base))"
  shows "inv w' \<and> outcome (look w) (look w') (kind_of obj) (key_of obj) Q err"
proof -
  let ?base = "case look w (kind_of obj) (key_of obj) of None \<Rightarrow> obj | Some srv \<Rightarrow> srv"
  have "P ?base" using cov look_obj [OF w] by (auto simp: covers_def split: option.splits)
  then have "Q (result_of f ?base) \<and> Q (adm (result_of f ?base))" by (rule Q) (rule refl)
  with CreateOrUpdate_outcome [OF f cov w run] show ?thesis
    by (auto simp: outcome_def Let_def split: option.splits)
qed

end

context kube_defaulting
begin

lemma CM_result:
  assumes "kc_Client k = c" and w: "inv w"
  shows "\<exists>err w'. CreateOrUpdateCM k name namespace data owner w = Some (err, w') \<and> inv w' \<and>
    outcome (look w) (look w') KConfigMap (nn name namespace)
      (\<lambda>obj. \<exists>cm. obj = OConfigMap cm \<and> cm_Data cm = data) err"
proof -
  let ?f = "ConfigMapMutateFunc data"
  let ?o = "OConfigMap \<lparr>cm_TypeMeta = type_meta_of ''v1'' ''ConfigMap'',
    cm_ObjectMeta = new_meta name namespace, cm_Data = data, cm_rest = []\<rparr>"
  obtain r w1 where get: "cl_Get c KConfigMap (nn name namespace) w = (r, w1)" by force
  obtain e obj where own: "SetControllerReference owner ?o (kc_Scheme k) = (e, obj)" by force
  from get_look [OF get w] have w1: "inv w1" "look w1 = look w" by auto
  from set_owner_object [OF own] have obj: "kind_of obj = KConfigMap" "key_of obj = nn name namespace"
    by (simp_all add: key_of_new)
  then have cov: "covers (\<lambda>obj. kind_of obj = KConfigMap) (look w1) obj" by simp
  from CreateOrUpdate_no_panic [OF mutates_CM [of data] cov w1(1)] obtain op err w'
    where run: "CreateOrUpdate c obj ?f w1 = Some ((op, err), w')" by force
  have res: "kind_of base = KConfigMap \<Longrightarrow>
      (\<exists>cm. result_of ?f base = OConfigMap cm \<and> cm_Data cm = data) \<and>
      (\<exists>cm. adm (result_of ?f base) = OConfigMap cm \<and> cm_Data cm = data)" for base
    using adm_cm by (auto simp: result_of_def mutate_defs kind_of_eqs)
      (metis config_map.select_convs(3) config_map.surjective config_map.update_convs(3))
  from CreateOrUpdate_result [OF mutates_CM cov w1(1) run res] obj w1(2) get own run assms(1)
  show ?thesis by (simp add: CreateOrUpdateCM_def)
qed

lemma Service_result:
  assumes "kc_Client k = c" and w: "inv w"
  shows "\<exists>op err w'. CreateOrUpdateService k name namespace ports selectors owner w = Some ((op, err), w') \<and>
    inv w' \<and>
    outcome (look w) (look w') KService (nn name namespace)
      (\<lambda>obj. \<exists>s. obj = OService s \<and> svs_Selector (svc_Spec s) = selectors \<and>
         map (\<lambda>p. (svp_Name p, svp_Port p)) (svs_Ports (svc_Spec s)) =
           map (\<lambda>p. (cp_Name p, cp_ContainerPort p)) ports) err"
proof -
  let ?f = "ServiceMutateFunc selectors (service_ports ports)"
  let ?o = "OService (service_object name namespace selectors (service_ports ports))"
  obtain e obj where own: "SetControllerReference owner ?o (kc_Scheme k) = (e, obj)" by force
  from set_owner_object [OF own] have obj: "kind_of obj = KService" "key_of obj = nn name namespace"
    by (simp_all add: key_of_new)
  then have cov: "covers (\<lambda>obj. kind_of obj = KService) (look w) obj" by simp
  from CreateOrUpdate_no_panic [OF mutates_Service cov w] obtain op err w'
    where run: "CreateOrUpdate c obj ?f w = Some ((op, err), w')" by force
  let ?Q = "\<lambda>obj. \<exists>s. obj = OService s \<and> svs_Selector (svc_Spec s) = selectors \<and>
         map (\<lambda>p. (svp_Name p, svp_Port p)) (svs_Ports (svc_Spec s)) =
           map (\<lambda>p. (cp_Name p, cp_ContainerPort p)) ports"
  have res: "?Q (result_of ?f base) \<and> ?Q (adm (result_of ?f base))" if "kind_of base = KService" for base
  proof -
    from that obtain s where "base = OService s" by (auto simp: kind_of_eqs)
    then obtain s' where s': "result_of ?f base = OService s'" "svs_Selector (svc_Spec s') = selectors"
      "svs_Ports (svc_Spec s') = service_ports ports"
      by (auto simp: result_of_def mutate_defs)
    from adm_service [of s'] s' show ?thesis by (auto simp: service_ports_def)
  qed
  from CreateOrUpdate_result [OF mutates_Service cov w run res] obj own run assms(1)
  show ?thesis by (simp add: CreateOrUpdateService_def Let_def)
qed

lemma Deployment_result:
  assumes "kc_Client k = c" and w: "inv w"
  shows "\<exists>op err w'. CreateOrUpdateDeployment k name namespace replicas labels img containerName command args
      ports volumeMounts envs sc ipp secrets volumes strategy owner w = Some ((op, err), w') \<and> inv w' \<and>
    outcome (look w) (look w') KDeployment (nn name namespace)
      (\<lambda>obj. \<exists>d. obj = ODeployment d \<and>
         pod_core (ds_TemplateSpec (dep_Spec d)) =
           ([\<lparr>cc_Name = containerName, cc_Image = img, cc_Command = command, cc_Args = args,
            cc_Ports = map cp_ContainerPort ports @ [HealthPort],
            cc_Env = map (\<lambda>e. (ev_Name e, ev_Value e)) (elems envs),
            cc_Mounts = map (\<lambda>m. (vm_Name m, vm_MountPath m)) volumeMounts\<rparr>], map vol_Name volumes) \<and>
         (case look w KDeployment (nn name namespace) of
            Some (ODeployment d0) \<Rightarrow>
              (\<forall>n. ds_Replicas (dep_Spec d0) = Some n \<longrightarrow> ds_Replicas (dep_Spec d) = Some n) \<and>
              ds_Selector (dep_Spec d) = ds_Selector (dep_Spec d0) \<and>
              ds_TemplateLabels (dep_Spec d) = ds_TemplateLabels (dep_Spec d0)
          | _ \<Rightarrow> ds_Replicas (dep_Spec d) = Some replicas \<and> ds_Selector (dep_Spec d) = Some labels \<and>
              ds_TemplateLabels (dep_Spec d) = labels)) err"
    (is "\<exists>op err w'. ?call = _ \<and> _ \<and> outcome _ _ _ _ ?Q _")
proof -
  let ?f = "DeploymentMutateFunc replicas labels img containerName command args (ports @ [defaultPort])
     volumeMounts envs sc ipp secrets volumes readyProbe liveProbe strategy"
  let ?pod = "deployment_pod img containerName command args (ports @ [defaultPort]) volumeMounts envs sc ipp
     secrets volumes readyProbe liveProbe"
  let ?d = "deployment_object name namespace replicas labels ?pod strategy"
  obtain e obj where own: "SetControllerReference owner (ODeployment ?d) (kc_Scheme k) = (e, obj)" by force
  from SetControllerReference_frame [OF own] obtain refs where
    obj: "kind_of obj = KDeployment" "key_of obj = nn name namespace"
    "obj = ODeployment (?d\<lparr>dep_ObjectMeta := (dep_ObjectMeta ?d)\<lparr>om_OwnerReferences := refs\<rparr>\<rparr>)"
    by (auto simp: key_of_new)
  then have cov: "covers (\<lambda>obj. kind_of obj = KDeployment) (look w) obj" by simp
  from CreateOrUpdate_no_panic [OF mutates_Deployment cov w] obtain op err w'
    where run: "CreateOrUpdate c obj ?f w = Some ((op, err), w')" by force
  have res: "?Q (result_of ?f base) \<and> ?Q (adm (result_of ?f base))"
    if k: "kind_of base = KDeployment"
      and b: "base = (case look w (kind_of obj) (key_of obj) of None \<Rightarrow> obj | Some srv \<Rightarrow> srv)" for base
  proof -
    from k obtain d where d: "base = ODeployment d" by (auto simp: kind_of_eqs)
    then obtain d' where d': "result_of ?f base = ODeployment d'"
      "dep_Spec d' = (dep_Spec d)\<lparr>ds_TemplateSpec := ?pod, ds_Strategy := strategy\<rparr>"
      by (auto simp: result_of_def mutate_defs Let_def)
    have core: "pod_core ?pod =
           ([\<lparr>cc_Name = containerName, cc_Image = img, cc_Command = command, cc_Args = args,
            cc_Ports = map cp_ContainerPort ports @ [HealthPort],
            cc_Env = map (\<lambda>e. (ev_Name e, ev_Value e)) (elems envs),
            cc_Mounts = map (\<lambda>m. (vm_Name m, vm_MountPath m)) volumeMounts\<rparr>], map vol_Name volumes)"
      by (simp add: pod_core_def deployment_pod_def container_core_of_def defaultPort_def)
    have spec: "look w KDeployment (nn name namespace) = None \<Longrightarrow> dep_Spec d = dep_Spec ?d"
      using b d obj by simp
    show ?thesis
    proof (cases "look w KDeployment (nn name namespace)")
      case None
      with adm_deployment [of d'] d' core spec show ?thesis by (auto simp: deployment_object_def)
    next
      case (Some srv)
      with b obj(1,2) have "srv = base" by simp
      with Some adm_deployment [of d'] d' d core show ?thesis by auto
    qed
  qed
  from CreateOrUpdate_result [OF mutates_Deployment cov w run res] obj(1,2) own run assms(1)
  show ?thesis by (simp add: CreateOrUpdateDeployment_def Let_def)
qed

lemma Ingress_result:
  assumes "kc_Client k = c" and w: "inv w"
    and ok: "\<And>i. look w KIngress (nn IngressName namespace) = Some (OIngress i) \<Longrightarrow> rules_ok (is_Rules (ing_Spec i))"
  shows "\<exists>op err w'. CreateOrUpdateIngress k namespace serviceName tls ports w = Some ((op, err), w') \<and> inv w' \<and>
    outcome (look w) (look w') KIngress (nn IngressName namespace)
      (\<lambda>obj. \<exists>i. obj = OIngress i \<and>
         ing_Spec i = ingress_spec_of tls (merged_rules (ingress_paths serviceName ports)
           (case look w KIngress (nn IngressName namespace) of
              Some (OIngress i0) \<Rightarrow> is_Rules (ing_Spec i0) | _ \<Rightarrow> []))) err"
    (is "\<exists>op err w'. ?call = _ \<and> _ \<and> outcome _ _ _ _ ?Q _")
proof -
  let ?f = "IngressMutateFunc namespace serviceName tls ports"
  let ?i = "siddhi_ingress namespace serviceName tls ports"
  have obj: "kind_of (OIngress ?i) = KIngress" "key_of (OIngress ?i) = nn IngressName namespace"
    by (simp_all add: key_of_new)
  have fresh: "is_Rules (ing_Spec ?i) = [siddhi_rule (ingress_paths serviceName ports)]"
    by (simp add: siddhi_ingress_def)
  have cov: "covers ingress_ok (look w) (OIngress ?i)"
    using ok fresh obj unfolding covers_def by (auto simp: ingress_ok_def kind_of_eqs)
  from CreateOrUpdate_no_panic [OF mutates_Ingress cov w] obtain op err w'
    where run: "CreateOrUpdate c (OIngress ?i) ?f w = Some ((op, err), w')" by force
  have res: "?Q (result_of ?f base) \<and> ?Q (adm (result_of ?f base))"
    if k: "ingress_ok base" and b: "base = (case look w (kind_of (OIngress ?i)) (key_of (OIngress ?i)) of
      None \<Rightarrow> OIngress ?i | Some srv \<Rightarrow> srv)" for base
  proof -
    from k obtain i where i: "base = OIngress i" "rules_ok (is_Rules (ing_Spec i))"
      by (auto simp: ingress_ok_def split: kobject.splits)
    let ?m = "merged_ingress serviceName tls ports i"
    from i have r: "result_of ?f base = OIngress ?m" by (simp add: result_of_def IngressMutateFunc_eq)
    have "ing_Spec ?m = ingress_spec_of tls (merged_rules (ingress_paths serviceName ports)
           (case look w KIngress (nn IngressName namespace) of
              Some (OIngress i0) \<Rightarrow> is_Rules (ing_Spec i0) | _ \<Rightarrow> []))"
      using b i(1) obj fresh
      by (cases "look w KIngress (nn IngressName namespace)")
        (auto simp: merged_ingress_def merged_rules_def [of _ "[]"])
    with adm_ingress [of ?m] r show ?thesis by auto
  qed
  from CreateOrUpdate_result [OF mutates_Ingress cov w run res] obj run assms(1)
  show ?thesis by (simp add: CreateOrUpdateIngress_def)
qed

lemma PVC_denied:
  assumes "kc_Client k = c" and w: "inv w"
    and denied: "pvcs_AccessModes pvcSpec \<noteq> None"
      "ReadWriteOnce \<notin> set (elems (pvcs_AccessModes pvcSpec))"
      "ReadWriteMany \<notin> set (elems (pvcs_AccessModes pvcSpec))"
  shows "\<exists>err w'. CreateOrUpdatePVC k name namespace pvcSpec owner w = Some (err, w') \<and> inv w' \<and>
    look w' = look w \<and> (look w KPVC (nn name namespace) = None \<longrightarrow> err \<noteq> None)"
proof -
  obtain r w1 where get: "cl_Get c KPVC (nn name namespace) w = (r, w1)" by force
  from get_look [OF get w] denied assms(1) get get_found [of KPVC "nn name namespace" w _ w1] w
  show ?thesis by (cases r) (auto simp: CreateOrUpdatePVC_def)
qed

lemma PVC_found:
  assumes "kc_Client k = c" and w: "inv w" and "look w KPVC (nn name namespace) \<noteq> None"
  shows "\<exists>err w'. CreateOrUpdatePVC k name namespace pvcSpec owner w = Some (err, w') \<and> inv w' \<and> look w' = look w"
proof -
  obtain r w1 where get: "cl_Get c KPVC (nn name namespace) w = (r, w1)" by force
  from get_look [OF get w] assms(1,3) get get_missing [of KPVC "nn name namespace" w _ w1] w
  show ?thesis by (cases r) (auto simp: CreateOrUpdatePVC_def)
qed

lemma PVC_created:
  assumes "kc_Client k = c" and w: "inv w"
    and granted: "pvcs_AccessModes pvcSpec = None \<or>
      ReadWriteOnce \<in> set (elems (pvcs_AccessModes pvcSpec)) \<or>
      ReadWriteMany \<in> set (elems (pvcs_AccessModes pvcSpec))"
    and none: "look w KPVC (nn name namespace) = None"
  shows "\<exists>err w'. CreateOrUpdatePVC k name namespace pvcSpec owner w = Some (err, w') \<and> inv w' \<and>
    outcome (look w) (look w') KPVC (nn name namespace)
      (\<lambda>obj. \<exists>p. obj = OPVC p \<and> pvcs_AccessModes (pvc_Spec p) = pvcs_AccessModes pvcSpec \<and>
         pvcs_Resources (pvc_Spec p) = pvcs_Resources pvcSpec) err"
    (is "\<exists>err w'. _ \<and> _ \<and> outcome _ _ _ _ ?Q _")
proof -
  let ?f = "PVCMutateFunc pvcSpec"
  obtain r w1 where get: "cl_Get c KPVC (nn name namespace) w = (r, w1)" by force
  obtain e obj where own: "SetControllerReference owner (OPVC (pvc_object name namespace pvcSpec)) (kc_Scheme k) = (e, obj)"
    by force
  from get_look [OF get w] have w1: "inv w1" "look w1 = look w" by auto
  show ?thesis
  proof (cases "\<exists>e. r = Inl e \<and> IsNotFound e")
    case False
    with get get_found [of KPVC "nn name namespace" w _ w1] w none obtain e where "r = Inl e" "\<not> IsNotFound e"
      by (cases r) auto
    with get w1 assms(1) show ?thesis by (auto simp: CreateOrUpdatePVC_def outcome_def)
  next
    case True
    from set_owner_object [OF own] have obj: "kind_of obj = KPVC" "key_of obj = nn name namespace"
      by (simp_all add: key_of_new)
    then have cov: "covers (\<lambda>obj. kind_of obj = KPVC) (look w1) obj" by simp
    from CreateOrUpdate_no_panic [OF mutates_PVC [of pvcSpec] cov w1(1)] obtain op err w'
      where run: "CreateOrUpdate c obj ?f w1 = Some ((op, err), w')" by force
    have res: "?Q (result_of ?f base) \<and> ?Q (adm (result_of ?f base))" if "kind_of base = KPVC" for base
    proof -
      from that obtain p where "base = OPVC p" by (auto simp: kind_of_eqs)
      then obtain p' where "result_of ?f base = OPVC p'" "pvc_Spec p' = pvcSpec"
        by (auto simp: result_of_def mutate_defs)
      with adm_pvc [of p'] show ?thesis by auto
    qed
    from CreateOrUpdate_result [OF mutates_PVC cov w1(1) run res] obj w1(2) get own run assms(1) True granted
    show ?thesis by (auto simp: CreateOrUpdatePVC_def)
  qed
qed

end

context kube_api
begin

lemma get_or_create_result:
  assumes w: "inv w" and run: "get_or_create c obj w = (err, w')"
  shows "inv w' \<and> same_except (look w) (look w') (kind_of obj) (key_of obj) \<and>
    (err = None \<longrightarrow> look w' (kind_of obj) (key_of obj) =
       Some (case look w (kind_of obj) (key_of obj) of None \<Rightarrow> adm obj | Some srv \<Rightarrow> srv)) \<and>
    (err \<noteq> None \<longrightarrow> look w' = look w)"
proof -
  obtain r w1 where get: "cl_Get c (kind_of obj) (key_of obj) w = (r, w1)" by force
  from get_look [OF get w] have w1: "inv w1" "look w1 = look w" by auto
  show ?thesis
  proof (cases r)
    case (Inr srv)
    with w1 get_found [OF get [unfolded Inr] w] get run show ?thesis by (auto simp: get_or_create_def)
  next
    case (Inl e)
    show ?thesis
    proof (cases "IsNotFound e")
      case True
      from get_missing [OF get [unfolded Inl] w True] have none: "look w (kind_of obj) (key_of obj) = None" .
      from True Inl get run have cr: "cl_Create c obj w1 = (err, w')" by (simp add: get_or_create_def)
      from create_inv [OF cr w1(1)] create_ok [of obj w1 w'] create_fail [of obj w1 _ w'] cr w1 none
      show ?thesis by (cases err) (auto simp: same_except_def)
    next
      case False
      with Inl get run w1 show ?thesis by (auto simp: get_or_create_def)
    qed
  qed
qed

lemma key_of_nats:
  "key_of (ONatsCluster (nats_object ns)) = nn NATSClusterName ns"
  "key_of (OStanCluster (stan_object ns)) = nn STANClusterName ns"
  by (simp_all add: key_of_def nn_def new_meta_def nats_object_def stan_object_def)

lemma NATS_result:
  assumes k: "kc_Client k = c" and w: "inv w" and run: "CreateNATS k namespace w = (err, w')"
  defines "n \<equiv> nn NATSClusterName namespace" and "s \<equiv> nn STANClusterName namespace"
  shows "inv w' \<and>
    (\<forall>kd m. (kd, m) \<notin> {(KNatsCluster, n), (KStanCluster, s)} \<longrightarrow> look w' kd m = look w kd m) \<and>
    (err = None \<longrightarrow>
       look w' KNatsCluster n =
         Some (case look w KNatsCluster n of None \<Rightarrow> adm (ONatsCluster (nats_object namespace)) | Some srv \<Rightarrow> srv) \<and>
       look w' KStanCluster s =
         Some (case look w KStanCluster s of None \<Rightarrow> adm (OStanCluster (stan_object namespace)) | Some srv \<Rightarrow> srv)) \<and>
    (look w' KStanCluster s \<noteq> look w KStanCluster s \<longrightarrow> look w' KNatsCluster n \<noteq> None)"
proof -
  obtain err1 w1 where step1: "get_or_create c (ONatsCluster (nats_object namespace)) w = (err1, w1)" by force
  note one = get_or_create_result [OF w step1, unfolded key_of_nats kind_of.simps, folded n_def]
  show ?thesis
  proof (cases err1)
    case (Some e)
    with run step1 have "err = Some e" "w' = w1" by (auto simp: CreateNATS_def k)
    with one Some show ?thesis by simp
  next
    case None
    with run step1 have step2: "get_or_create c (OStanCluster (stan_object namespace)) w1 = (err, w')"
      by (simp add: CreateNATS_def k)
    from one have w1: "inv w1" by simp
    note two = get_or_create_result [OF w1 step2, unfolded key_of_nats kind_of.simps, folded s_def]
    have "look w1 kd m = look w kd m" if "(kd, m) \<noteq> (KNatsCluster, n)" for kd m
      using one that by (simp add: same_except_def)
    moreover have "look w' kd m = look w1 kd m" if "(kd, m) \<noteq> (KStanCluster, s)" for kd m
      using two that by (simp add: same_except_def)
    ultimately show ?thesis using one two None by simp
  qed
qed

lemma delete_result:
  assumes k: "kc_Client k = c" and w: "inv w" and run: "delete_kind kd k name namespace w = (err, w')"
  shows "inv w' \<and> same_except (look w) (look w') kd (nn name namespace) \<and>
    look w' kd (nn name namespace) \<in> {look w kd (nn name namespace), None} \<and>
    (err \<noteq> None \<longrightarrow> look w' = look w)"
proof -
  obtain r w1 where get: "cl_Get c kd (nn name namespace) w = (r, w1)" by force
  from get_look [OF get w] have w1: "inv w1" "look w1 = look w" by auto
  show ?thesis
  proof (cases r)
    case (Inl e)
    with run k get w1 show ?thesis by (simp add: delete_kind_def)
  next
    case (Inr obj)
    with run k get have del: "cl_Delete c obj w1 = (err, w')" by (simp add: delete_kind_def)
    from get_found [OF get [unfolded Inr] w] have obj: "kind_of obj = kd" "key_of obj = nn name namespace" by auto
    from delete_inv [OF del w1(1)] delete_ok [of obj w1 w'] delete_fail [of obj w1 _ w'] del w1 obj
    show ?thesis by (cases err) (auto simp: same_except_def)
  qed
qed

end

context kube_store
begin

lemma delete_kind_total:
  assumes k: "kc_Client k = c" and w: "inv w"
  shows "\<exists>w'. delete_kind kd k name namespace w = (None, w') \<and> inv w' \<and>
    look w' = (look w)(kd := (look w kd)(nn name namespace := None))"
proof (cases "look w kd (nn name namespace)")
  case None
  from get_none [OF w None] obtain e w1 where get: "cl_Get c kd (nn name namespace) w = (Inl e, w1)" by blast
  from get_look [OF get w] get k None show ?thesis by (auto simp: delete_kind_def fun_eq_iff)
next
  case (Some obj)
  from get_total [OF w Some] obtain w1 where get: "cl_Get c kd (nn name namespace) w = (Inr obj, w1)" by blast
  from get_look [OF get w] have w1: "inv w1" "look w1 = look w" by auto
  from get_found [OF get w] have obj: "kind_of obj = kd" "key_of obj = nn name namespace" by auto
  from delete_total [OF w1(1), of obj] w1 obj Some obtain w2 where del: "cl_Delete c obj w1 = (None, w2)" by auto
  from delete_inv [OF del w1(1)] delete_ok [OF del w1(1)] get del k w1 obj
  show ?thesis by (auto simp: delete_kind_def)
qed

end

context kube_store
begin

lemma Ingress_panics:
  assumes k: "kc_Client k = c" and w: "inv w"
    and srv: "look w KIngress (nn IngressName namespace) = Some (OIngress i)"
  shows "CreateOrUpdateIngress k namespace serviceName tls ports w = None \<longleftrightarrow>
    ports \<noteq> [] \<and> \<not> rules_ok (is_Rules (ing_Spec i))"
proof -
  let ?o = "OIngress (siddhi_ingress namespace serviceName tls ports)"
  let ?ps = "ingress_paths serviceName ports"
  have obj: "kind_of ?o = KIngress" "key_of ?o = nn IngressName namespace" by (simp_all add: key_of_new)
  from get_total [OF w srv] obtain w1 where get: "cl_Get c KIngress (nn IngressName namespace) w = (Inr (OIngress i), w1)"
    by blast
  have ps: "?ps = [] \<longleftrightarrow> ports = []" by (simp add: ingress_paths_def)
  show ?thesis
  proof (cases "update_rules ?ps (is_Rules (ing_Spec i))")
    case None
    then have "ports \<noteq> [] \<and> \<not> rules_ok (is_Rules (ing_Spec i))"
      unfolding update_rules_panics ps .
    with None get obj k show ?thesis
      by (simp add: CreateOrUpdateIngress_def CreateOrUpdate_def IngressMutateFunc_def Let_def)
  next
    case (Some rules)
    then have "update_rules ?ps (is_Rules (ing_Spec i)) \<noteq> None" by simp
    with Some get obj k ps show ?thesis
      unfolding update_rules_panics
      by (auto simp: CreateOrUpdateIngress_def CreateOrUpdate_def IngressMutateFunc_def Let_def split: prod.splits)
  qed
qed

lemma Ingress_again:
  assumes k: "kc_Client k = c" and w: "inv w"
    and srv: "look w KIngress (nn IngressName namespace) = Some (OIngress i)"
    and ok: "rules_ok rules"
    and spec: "ing_Spec i = ingress_spec_of tls (merged_rules (ingress_paths serviceName ports) rules)"
  shows "\<exists>w'. CreateOrUpdateIngress k namespace serviceName tls ports w = Some ((OperationResultNone, None), w') \<and>
    look w' = look w"
proof -
  let ?o = "OIngress (siddhi_ingress namespace serviceName tls ports)"
  have obj: "kind_of ?o = KIngress" "key_of ?o = nn IngressName namespace" by (simp_all add: key_of_new)
  have settled: "look w (kind_of ?o) (key_of ?o) = Some (OIngress i)" using obj srv by simp
  have ri: "rules_ok (is_Rules (ing_Spec i))" using spec ok by simp
  then have cov: "covers ingress_ok (look w) ?o"
    using srv obj by (simp add: covers_def ingress_ok_def siddhi_ingress_def)
  have "merged_ingress serviceName tls ports i = i"
    using spec by (simp add: merged_ingress_def)
  then have "result_of (IngressMutateFunc namespace serviceName tls ports) (OIngress i) = OIngress i"
    by (simp add: result_of_def IngressMutateFunc_eq [OF ri])
  from CreateOrUpdate_again [OF mutates_Ingress cov w settled this] k show ?thesis
    by (simp add: CreateOrUpdateIngress_def)
qed

end

section \<open>Properties\<close>

text \<open>Concrete inputs: a process \<open>app\<close> in the namespace \<open>ns\<close>, on the store client.\<close>

definition sample_scheme :: scheme where
  "sample_scheme kd = Inr \<lparr>gvk_Group = ''siddhi.io'', gvk_Version = ''v1alpha2'', gvk_Kind = ''SiddhiProcess''\<rparr>"

definition sample_kube :: "tracker kube_client" where
  "sample_kube = \<lparr>kc_Client = cached_client, kc_Scheme = sample_scheme\<rparr>"

definition sample_process :: siddhi_process where
  "sample_process = zero_siddhi_process\<lparr>sp_ObjectMeta := new_meta ''app'' ''ns''\<rparr>"

definition sample_port :: "int32 \<Rightarrow> container_port" where
  "sample_port p = \<lparr>cp_Name = ''p'', cp_ContainerPort = p, cp_Protocol = ''TCP'', cp_rest = []\<rparr>"

definition sample_ingress :: "ingress_rule list \<Rightarrow> tracker" where
  "sample_ingress rules = empty_tracker(KIngress :=
     [OIngress ((siddhi_ingress ''ns'' ''a'' [] [])\<lparr>ing_Spec := ingress_spec_of [] rules\<rparr>)])"

lemma tracker_inv_sample_ingress [simp]: "tracker_inv (sample_ingress rules)"
  by (simp add: tracker_inv_def sample_ingress_def empty_tracker_def)

lemma look_sample_ingress:
  "tracker_look (sample_ingress rules) KIngress (nn IngressName ''ns'') =
     Some (OIngress ((siddhi_ingress ''ns'' ''a'' [] [])\<lparr>ing_Spec := ingress_spec_of [] rules\<rparr>))"
  by (simp add: tracker_look_def sample_ingress_def objs_map_Cons objs_map_Nil key_of_def nn_def
      siddhi_ingress_def new_meta_def)

lemma look_empty [simp]: "tracker_look empty_tracker k n = None"
  by (simp add: tracker_look_def empty_tracker_def objs_map_Nil)

lemma sample_kube_client [simp]: "kc_Client sample_kube = cached_client"
  by (simp add: sample_kube_def)

lemma sample_default: "kube_defaulting (kc_Client sample_kube) tracker_look (\<lambda>obj. obj) tracker_inv"
  by (simp add: cached_def.kube_defaulting_axioms)

text \<open>
  \<open>CreateOrUpdateCM\<close> never panics; when it returns nil the server has a config map of the name
  with exactly the given data and nothing else has changed; when it returns an error the server is
  as it was.
\<close>

theorem ConfigMap_written:
  assumes "kube_defaulting (kc_Client k) look adm valid" and "valid w"
  shows "\<exists>err w'. CreateOrUpdateCM k name namespace data owner w = Some (err, w') \<and> valid w' \<and>
    outcome (look w) (look w') KConfigMap (nn name namespace)
      (\<lambda>obj. \<exists>cm. obj = OConfigMap cm \<and> cm_Data cm = data) err"
  using kube_defaulting.CM_result [OF assms(1) refl assms(2)] .

theorem ConfigMap_written_witness:
  "\<exists>err w'. CreateOrUpdateCM sample_kube ''app0'' ''ns'' (mput ''a'' ''b'' []) (OSiddhiProcess sample_process)
      empty_tracker = Some (err, w') \<and> tracker_inv w' \<and>
    outcome (tracker_look empty_tracker) (tracker_look w') KConfigMap (nn ''app0'' ''ns'')
      (\<lambda>obj. \<exists>cm. obj = OConfigMap cm \<and> cm_Data cm = mput ''a'' ''b'' []) err"
  by (rule ConfigMap_written [OF sample_default, OF tracker_inv_empty])

text \<open>
  \<open>CreateOrUpdateService\<close> never panics; when it returns no error the server has a service of
  the name with the given selector and one port for every container port, of its name and number,
  in order; otherwise the server is as it was.
\<close>

theorem Service_written:
  assumes "kube_defaulting (kc_Client k) look adm valid" and "valid w"
  shows "\<exists>op err w'. CreateOrUpdateService k name namespace ports selectors owner w = Some ((op, err), w') \<and>
    valid w' \<and>
    outcome (look w) (look w') KService (nn name namespace)
      (\<lambda>obj. \<exists>s. obj = OService s \<and> svs_Selector (svc_Spec s) = selectors \<and>
         map (\<lambda>p. (svp_Name p, svp_Port p)) (svs_Ports (svc_Spec s)) =
           map (\<lambda>p. (cp_Name p, cp_ContainerPort p)) ports) err"
  using kube_defaulting.Service_result [OF assms(1) refl assms(2)] .

theorem Service_written_witness:
  "\<exists>op err w'. CreateOrUpdateService sample_kube ''app'' ''ns'' [sample_port 8080] []
      (OSiddhiProcess sample_process) empty_tracker = Some ((op, err), w') \<and> tracker_inv w' \<and>
    outcome (tracker_look empty_tracker) (tracker_look w') KService (nn ''app'' ''ns'')
      (\<lambda>obj. \<exists>s. obj = OService s \<and> svs_Selector (svc_Spec s) = [] \<and>
         map (\<lambda>p. (svp_Name p, svp_Port p)) (svs_Ports (svc_Spec s)) =
           map (\<lambda>p. (cp_Name p, cp_ContainerPort p)) [sample_port 8080]) err"
  by (rule Service_written [OF sample_default, OF tracker_inv_empty])

text \<open>
  \<open>CreateOrUpdateDeployment\<close> never panics; when it returns no error the server's deployment has
  the given container (with the health port after the given ports) and volumes. A deployment that
  was there keeps its replicas, selector and template labels: the arguments of these names reach a
  new deployment only. On an error the server is as it was.
\<close>

theorem Deployment_written:
  assumes "kube_defaulting (kc_Client k) look adm valid" and "valid w"
  shows "\<exists>op err w'. CreateOrUpdateDeployment k name namespace replicas labels img containerName command args
      ports volumeMounts envs sc ipp secrets volumes strategy owner w = Some ((op, err), w') \<and> valid w' \<and>
    outcome (look w) (look w') KDeployment (nn name namespace)
      (\<lambda>obj. \<exists>d. obj = ODeployment d \<and>
         pod_core (ds_TemplateSpec (dep_Spec d)) =
           ([\<lparr>cc_Name = containerName, cc_Image = img, cc_Command = command, cc_Args = args,
              cc_Ports = map cp_ContainerPort ports @ [HealthPort],
              cc_Env = map (\<lambda>e. (ev_Name e, ev_Value e)) (elems envs),
              cc_Mounts = map (\<lambda>m. (vm_Name m, vm_MountPath m)) volumeMounts\<rparr>], map vol_Name volumes) \<and>
         (case look w KDeployment (nn name namespace) of
            Some (ODeployment d0) \<Rightarrow>
              (\<forall>n. ds_Replicas (dep_Spec d0) = Some n \<longrightarrow> ds_Replicas (dep_Spec d) = Some n) \<and>
              ds_Selector (dep_Spec d) = ds_Selector (dep_Spec d0) \<and>
              ds_TemplateLabels (dep_Spec d) = ds_TemplateLabels (dep_Spec d0)
          | _ \<Rightarrow> ds_Replicas (dep_Spec d) = Some replicas \<and> ds_Selector (dep_Spec d) = Some labels \<and>
              ds_TemplateLabels (dep_Spec d) = labels)) err"
  using kube_defaulting.Deployment_result [OF assms(1) refl assms(2)] .

definition sample_strategy :: deployment_strategy where
  "sample_strategy = \<lparr>dst_Type = ''RollingUpdate'', dst_RollingUpdate = None\<rparr>"

theorem Deployment_written_witness:
  "\<exists>op err w'. CreateOrUpdateDeployment sample_kube ''app'' ''ns'' 1 [] ''img'' ''c'' [''sh''] []
      [sample_port 8080] [] None \<lparr>sctx_RunAsUser = None, sctx_rest = []\<rparr> ''Always'' [] []
      sample_strategy (OSiddhiProcess sample_process) empty_tracker = Some ((op, err), w') \<and> tracker_inv w'"
  using Deployment_written [OF sample_default, OF tracker_inv_empty,
    of "''app''" "''ns''" 1 "[]" "''img''" "''c''" "[''sh'']" "[]" "[sample_port 8080]" "[]" None
      "\<lparr>sctx_RunAsUser = None, sctx_rest = []\<rparr>" "''Always''" "[]" "[]" sample_strategy
      "OSiddhiProcess sample_process"] by blast

definition mode_granted :: "pvc_spec \<Rightarrow> bool" where
  "mode_granted pvcSpec \<longleftrightarrow> pvcs_AccessModes pvcSpec = None \<or>
     ReadWriteOnce \<in> set (elems (pvcs_AccessModes pvcSpec)) \<or>
     ReadWriteMany \<in> set (elems (pvcs_AccessModes pvcSpec))"

text \<open>
  Persistent volume claims are created, never changed: an existing claim is left alone whatever
  the spec; a spec that lists access modes without \<open>ReadWriteOnce\<close> and \<open>ReadWriteMany\<close> gives an
  error and no claim; any other spec gives a claim with its access modes and resources.
\<close>

theorem PVC_guarded:
  assumes api: "kube_defaulting (kc_Client k) look adm valid" and w: "valid w"
  shows "\<exists>err w'. CreateOrUpdatePVC k name namespace pvcSpec owner w = Some (err, w') \<and> valid w' \<and>
    (if look w KPVC (nn name namespace) \<noteq> None then look w' = look w
     else if \<not> mode_granted pvcSpec then look w' = look w \<and> err \<noteq> None
     else outcome (look w) (look w') KPVC (nn name namespace)
       (\<lambda>obj. \<exists>p. obj = OPVC p \<and> pvcs_AccessModes (pvc_Spec p) = pvcs_AccessModes pvcSpec \<and>
          pvcs_Resources (pvc_Spec p) = pvcs_Resources pvcSpec) err)"
proof (cases "look w KPVC (nn name namespace) = None")
  case False
  with kube_defaulting.PVC_found [OF api refl w] show ?thesis by simp
next
  case True
  show ?thesis
  proof (cases "mode_granted pvcSpec")
    case True
    with kube_defaulting.PVC_created [OF api refl w] \<open>look w KPVC (nn name namespace) = None\<close>
    show ?thesis by (simp add: mode_granted_def)
  next
    case False
    with kube_defaulting.PVC_denied [OF api refl w, of pvcSpec name namespace owner] True
    show ?thesis by (auto simp: mode_granted_def)
  qed
qed

theorem PVC_guarded_witness:
  "\<exists>err w'. CreateOrUpdatePVC sample_kube ''app-pvc'' ''ns'' (zero_pvc_spec\<lparr>pvcs_AccessModes := Some []\<rparr>)
      (OSiddhiProcess sample_process) empty_tracker = Some (err, w') \<and> tracker_inv w' \<and>
    tracker_look w' = tracker_look empty_tracker \<and> err \<noteq> None"
  using PVC_guarded [OF sample_default, OF tracker_inv_empty, of
    "''app-pvc''" "''ns''" "zero_pvc_spec\<lparr>pvcs_AccessModes := Some []\<rparr>" "OSiddhiProcess sample_process"]
  by (simp add: mode_granted_def)

subsection \<open>Ingress\<close>

text \<open>The rules of other hosts stay, those of every host keep their paths, and rules may be added at the end.\<close>

definition routes_kept :: "ingress_rule list \<Rightarrow> ingress_rule list \<Rightarrow> bool" where
  "routes_kept old new \<longleftrightarrow>
     (\<exists>more. filter (\<lambda>rule. ir_Host rule \<noteq> IngressName) new = filter (\<lambda>rule. ir_Host rule \<noteq> IngressName) old \<and>
        list_all2 (\<lambda>r r'. ir_Host r' = ir_Host r \<and> set (elems (ir_HTTP r)) \<subseteq> set (elems (ir_HTTP r'))) old
          (take (length old) new) \<and> new = take (length old) new @ more)"

lemma updated_rule_other: "ir_Host rule \<noteq> IngressName \<Longrightarrow> updated_rule ps rule = rule"
  by (simp add: updated_rule_def)

lemma filter_updated_rules:
  "filter (\<lambda>rule. ir_Host rule \<noteq> IngressName) (map (updated_rule ps) rules) =
     filter (\<lambda>rule. ir_Host rule \<noteq> IngressName) rules"
  by (induction rules) (simp_all add: updated_rule_other)

lemma updated_rule_keeps: "set (elems (ir_HTTP rule)) \<subseteq> set (elems (ir_HTTP (updated_rule ps rule)))"
  by (cases "ir_HTTP rule") (auto simp: updated_rule_def set_add_paths)

lemma merged_rules_kept: "routes_kept rules (merged_rules ps rules)"
  unfolding routes_kept_def merged_rules_def
  by (rule exI [of _ "if \<exists>rule \<in> set rules. ir_Host rule = IngressName then [] else [siddhi_rule ps]"])
    (simp add: filter_updated_rules list.rel_map list.rel_refl updated_rule_keeps)

text \<open>
  C29: when \<open>CreateOrUpdateIngress\<close> returns no error, the ingress \<open>siddhi\<close> of the namespace routes every
  given port of the service: it has a rule for the operator's host, every such rule has all the
  paths of the service, the rules of other hosts are the ones that were there, and the paths that
  were there are still there. Nothing else on the server changes.
\<close>

theorem Ingress_routes_added:
  assumes api: "kube_defaulting (kc_Client k) look adm valid" and w: "valid w"
    and old: "rules_ok rules"
      "(case look w KIngress (nn IngressName namespace) of
          Some (OIngress i) \<Rightarrow> is_Rules (ing_Spec i) | _ \<Rightarrow> []) = rules"
  shows "\<exists>op err w'. CreateOrUpdateIngress k namespace serviceName tls ports w = Some ((op, err), w') \<and> valid w' \<and>
    outcome (look w) (look w') KIngress (nn IngressName namespace)
      (\<lambda>obj. \<exists>i. obj = OIngress i \<and>
         (\<exists>rule \<in> set (is_Rules (ing_Spec i)). ir_Host rule = IngressName) \<and>
         (\<forall>rule \<in> set (is_Rules (ing_Spec i)). ir_Host rule = IngressName \<longrightarrow>
            set (ingress_paths serviceName ports) \<subseteq> set (elems (ir_HTTP rule))) \<and>
         routes_kept rules (is_Rules (ing_Spec i))) err"
proof -
  from old have "\<And>i. look w KIngress (nn IngressName namespace) = Some (OIngress i) \<Longrightarrow> rules_ok (is_Rules (ing_Spec i))"
    by auto
  from kube_defaulting.Ingress_result [OF api refl w, where namespace = namespace, OF this, where serviceName = serviceName and tls = tls and ports = ports] old(2)
  obtain op err w' where run: "CreateOrUpdateIngress k namespace serviceName tls ports w = Some ((op, err), w')"
    "valid w'" and out: "outcome (look w) (look w') KIngress (nn IngressName namespace)
      (\<lambda>obj. \<exists>i. obj = OIngress i \<and>
         ing_Spec i = ingress_spec_of tls (merged_rules (ingress_paths serviceName ports) rules)) err"
    by auto
  have "set ps \<subseteq> set (elems (ir_HTTP rule))"
    if "rule \<in> set (merged_rules ps rules)" "ir_Host rule = IngressName" for rule ps
    using merged_rules_paths [OF that old(1)] by auto
  with merged_rules_exists merged_rules_kept have
    "outcome (look w) (look w') KIngress (nn IngressName namespace)
      (\<lambda>obj. \<exists>i. obj = OIngress i \<and>
         (\<exists>rule \<in> set (is_Rules (ing_Spec i)). ir_Host rule = IngressName) \<and>
         (\<forall>rule \<in> set (is_Rules (ing_Spec i)). ir_Host rule = IngressName \<longrightarrow>
            set (ingress_paths serviceName ports) \<subseteq> set (elems (ir_HTTP rule))) \<and>
         routes_kept rules (is_Rules (ing_Spec i))) err"
    by (intro outcome_mono [OF out]) auto
  with run show ?thesis by blast
qed

theorem Ingress_routes_added_witness:
  "\<exists>op err w'. CreateOrUpdateIngress sample_kube ''ns'' ''app-1'' [] [sample_port 8080]
      (sample_ingress [siddhi_rule []]) = Some ((op, err), w') \<and> tracker_inv w'"
  using Ingress_routes_added [OF sample_default, OF tracker_inv_sample_ingress, OF rules_ok_siddhi [of "[]"],
    where namespace = "''ns''" and serviceName = "''app-1''" and tls = "[]" and ports = "[sample_port 8080]"]
  by (auto simp: look_sample_ingress)

text \<open>
  C40: the operator crashes on an ingress \<open>siddhi\<close> of the namespace that has a rule for its host
  without an \<open>http\<close> value (which the API allows): the mutate function dereferences a nil pointer.
  On a server that answers it happens exactly then, when there is a port to route.
\<close>

theorem Ingress_update_panics:
  assumes "kube_store (kc_Client k) look adm valid" and "valid w"
    and "look w KIngress (nn IngressName namespace) = Some (OIngress i)"
  shows "CreateOrUpdateIngress k namespace serviceName tls ports w = None \<longleftrightarrow>
    ports \<noteq> [] \<and> \<not> rules_ok (is_Rules (ing_Spec i))"
  using kube_store.Ingress_panics [OF assms(1) refl assms(2,3)] .

lemma sample_store: "kube_store (kc_Client sample_kube) tracker_look (\<lambda>obj. obj) tracker_inv"
  by (simp add: cached.kube_store_axioms)

theorem Ingress_update_panics_witness:
  "CreateOrUpdateIngress sample_kube ''ns'' ''app-1'' [] [sample_port 8080]
     (sample_ingress [\<lparr>ir_Host = IngressName, ir_HTTP = None\<rparr>]) = None"
  using Ingress_update_panics [OF sample_store, OF tracker_inv_sample_ingress, OF look_sample_ingress [of "[\<lparr>ir_Host = IngressName, ir_HTTP = None\<rparr>]"],
    where serviceName = "''app-1''" and tls = "[]" and ports = "[sample_port 8080]"]
  by (simp add: rules_ok_def ingress_spec_of_def)

text \<open>
  Routing the same ports again is idle. After a call that reported no error, a second call with
  the same arguments, on a server that answers, reports \<open>unchanged\<close> and changes nothing; the
  server's defaulting, as long as it keeps the spec, does not matter.
\<close>

theorem Ingress_settles:
  assumes api: "kube_defaulting (kc_Client k) look adm valid" and store: "kube_store (kc_Client k) look adm valid"
    and w: "valid w"
    and old: "\<And>i. look w KIngress (nn IngressName namespace) = Some (OIngress i) \<Longrightarrow> rules_ok (is_Rules (ing_Spec i))"
    and run: "CreateOrUpdateIngress k namespace serviceName tls ports w = Some ((op, None), w1)"
  shows "\<exists>w2. CreateOrUpdateIngress k namespace serviceName tls ports w1 = Some ((OperationResultNone, None), w2) \<and>
    look w2 = look w1"
proof -
  let ?n = "nn IngressName namespace"
  let ?rules = "case look w KIngress ?n of Some (OIngress i0) \<Rightarrow> is_Rules (ing_Spec i0) | _ \<Rightarrow> []"
  from kube_defaulting.Ingress_result [OF api refl w, where namespace = namespace, OF old, where serviceName = serviceName and tls = tls and ports = ports] run
  obtain i where i: "valid w1" "look w1 KIngress ?n = Some (OIngress i)"
    "ing_Spec i = ingress_spec_of tls (merged_rules (ingress_paths serviceName ports) ?rules)"
    by (auto simp: outcome_def)
  have "rules_ok ?rules" using old by (auto split: option.splits kobject.splits)
  from kube_store.Ingress_again [OF store refl i(1,2) this i(3)] show ?thesis .
qed

theorem Ingress_settles_witness:
  "\<exists>op w1 w2. CreateOrUpdateIngress sample_kube ''ns'' ''app-1'' [] [sample_port 8080] empty_tracker = Some ((op, None), w1) \<and>
     CreateOrUpdateIngress sample_kube ''ns'' ''app-1'' [] [sample_port 8080] w1 = Some ((OperationResultNone, None), w2)"
proof -
  have "covers ingress_ok (tracker_look empty_tracker) (OIngress (siddhi_ingress ''ns'' ''app-1'' [] [sample_port 8080]))"
    by (simp add: covers_def ingress_ok_def siddhi_ingress_def)
  from cached.CreateOrUpdate_total [OF mutates_Ingress this tracker_inv_empty, of "''ns''" "''app-1''" "[]" "[sample_port 8080]"] obtain op w1 where
    run: "CreateOrUpdateIngress sample_kube ''ns'' ''app-1'' [] [sample_port 8080] empty_tracker = Some ((op, None), w1)"
    by (auto simp: CreateOrUpdateIngress_def)
  from Ingress_settles [OF sample_default, OF sample_store, OF tracker_inv_empty _ run] run
  show ?thesis by auto
qed

text \<open>
  An ingress path is the name of the service (in lower case) and the port, below the root, so
  two routes of the ingress are the same only if service and port are: no two ports share a path.
\<close>

theorem Ingress_path_unique:
  assumes "plain (ToLower svc1)" and "plain (ToLower svc2)"
  shows "hip_Path (ingress_path svc1 p1) = hip_Path (ingress_path svc2 p2) \<longleftrightarrow>
    ToLower svc1 = ToLower svc2 \<and> cp_ContainerPort p1 = cp_ContainerPort p2"
proof -
  have plain: "plain (Itoa i @ ''('')" "plain ''|$)(.*)''" for i
    by (auto simp: plain_def)
  have path: "hip_Path (ingress_path svc p) =
      CHR ''/'' # ToLower svc @ CHR ''/'' # Itoa (sint (cp_ContainerPort p)) @ ''(/|$)(.*)''"
    if "plain (ToLower svc)" for svc p
    using path_Join_rooted [OF that, of "Itoa (sint (cp_ContainerPort p)) @ ''(''" "[''|$)(.*)'']"] plain
    by (simp add: ingress_path_def)
  have split: "a = b \<and> x = y" if "a @ CHR ''/'' # x = b @ CHR ''/'' # y" "plain a" "plain b" for a b x y
    using that by (auto simp: plain_def append_eq_append_conv2 append_eq_Cons_conv Cons_eq_append_conv)
  have num: "Itoa (sint (cp_ContainerPort p1)) = Itoa (sint (cp_ContainerPort p2)) \<longleftrightarrow>
      cp_ContainerPort p1 = cp_ContainerPort p2"
    by (metis Itoa_inj word_eq_iff_signed)
  from assms num show ?thesis by (auto simp: path dest: split)
qed

theorem Ingress_path_unique_witness:
  "hip_Path (ingress_path ''app-1'' (sample_port 80)) \<noteq> hip_Path (ingress_path ''app-1'' (sample_port 81))"
  using Ingress_path_unique [of "''app-1''" "''app-1''" "sample_port 80" "sample_port 81"]
  by (simp add: plain_def ToLower_id is_upper_def sample_port_def)

subsection \<open>NATS clusters and deletion\<close>

text \<open>
  \<open>CreateNATS\<close> is get-or-create, in order. When it returns nil both clusters exist, the ones that
  were there as they were; it changes nothing else; and it never creates the streaming cluster
  while there is no NATS cluster.
\<close>

theorem NATS_ensured:
  assumes "kube_api (kc_Client k) look adm valid" and "valid w"
    and "CreateNATS k namespace w = (err, w')"
  shows "valid w' \<and>
    (\<forall>kd m. (kd, m) \<notin> {(KNatsCluster, nn NATSClusterName namespace), (KStanCluster, nn STANClusterName namespace)} \<longrightarrow>
       look w' kd m = look w kd m) \<and>
    (err = None \<longrightarrow>
       look w' KNatsCluster (nn NATSClusterName namespace) =
         Some (case look w KNatsCluster (nn NATSClusterName namespace) of
           None \<Rightarrow> adm (ONatsCluster (nats_object namespace)) | Some srv \<Rightarrow> srv) \<and>
       look w' KStanCluster (nn STANClusterName namespace) =
         Some (case look w KStanCluster (nn STANClusterName namespace) of
           None \<Rightarrow> adm (OStanCluster (stan_object namespace)) | Some srv \<Rightarrow> srv)) \<and>
    (look w' KStanCluster (nn STANClusterName namespace) \<noteq> look w KStanCluster (nn STANClusterName namespace) \<longrightarrow>
       look w' KNatsCluster (nn NATSClusterName namespace) \<noteq> None)"
  using kube_api.NATS_result [OF assms(1) refl assms(2,3)] .

lemma sample_api: "kube_api (kc_Client sample_kube) tracker_look (\<lambda>obj. obj) tracker_inv"
  by (simp add: cached.kube_api_axioms)

theorem NATS_ensured_witness:
  "fst (CreateNATS sample_kube ''ns'' empty_tracker) = None \<and>
   tracker_look (snd (CreateNATS sample_kube ''ns'' empty_tracker)) KStanCluster (nn STANClusterName ''ns'') =
     Some (OStanCluster (stan_object ''ns''))"
proof -
  have "fst (CreateNATS sample_kube ''ns'' empty_tracker) = None" by code_simp
  with NATS_ensured [OF sample_api, OF tracker_inv_empty, OF prod.collapse [symmetric], of "''ns''"] show ?thesis
    by (simp add: tracker_look_def empty_tracker_def objs_map_def)
qed

text \<open>
  On a server that answers, the delete functions remove exactly the named object of their kind,
  whether it is there or not, and report no error.
\<close>

theorem Delete_removes:
  assumes "kube_store (kc_Client k) look adm valid" and "valid w"
    and "(del, kd) \<in> {(DeleteService, KService), (DeleteDeployment, KDeployment), (DeletePVC, KPVC),
      (DeleteConfigMap, KConfigMap)}"
  shows "\<exists>w'. del k name namespace w = (None, w') \<and> valid w' \<and>
    look w' = (look w)(kd := (look w kd)(nn name namespace := None))"
  using kube_store.delete_kind_total [OF assms(1) refl assms(2)] assms(3)
  by (auto simp: DeleteService_def DeleteDeployment_def DeletePVC_def DeleteConfigMap_def)

theorem Delete_removes_witness:
  "\<exists>w'. DeletePVC sample_kube ''app-pvc'' ''ns'' empty_tracker = (None, w') \<and> tracker_inv w' \<and>
    tracker_look w' = (tracker_look empty_tracker)(KPVC := (tracker_look empty_tracker KPVC)(nn ''app-pvc'' ''ns'' := None))"
  by (rule Delete_removes [OF sample_store, OF tracker_inv_empty]) simp

text \<open>
  A delete function that cannot read the object reports success and leaves it there: with one
  fault injected into the call of \<open>Get\<close>, deleting an existing object returns nil and the object
  remains, whatever its name.
\<close>

theorem Delete_hides_read_errors:
  "delete_kind kd \<lparr>kc_Client = faulty cached_client, kc_Scheme = sch\<rparr> name namespace (t, [Some msg]) =
     (None, (t, []))"
  by (simp add: delete_kind_def faulty_def inject_def)

end
