(* ===== verification/DeployManager.thy ===== *)
theory DeployManager
  imports Artifact
begin

text \<open>
  The deploy manager (\<open>pkg/controller/siddhiprocess/deploymanager/application.go\<close>): from an
  application (the output of the parser) to its deployment, with the claim, the config maps, the
  volumes and mounts, the arguments of the runner and the labels.

  Two library functions are parameters: \<open>yaml\<close> is \<open>yaml.Unmarshal\<close> into \<open>Config\<close> (from the text to the
  location of the state persistence, or an error).
\<close>

section \<open>Constants\<close>

definition OperatorName :: string where "OperatorName = ''siddhi-operator''"
definition OperatorVersion :: string where "OperatorVersion = ''0.2.2''"
definition CRDName :: string where "CRDName = ''SiddhiProcess''"
definition PVCExtension :: string where "PVCExtension = ''-pvc''"
definition DepCMExtension :: string where "DepCMExtension = ''-depyml''"
definition SiddhiExtension :: string where "SiddhiExtension = ''.siddhi''"
definition DepConfMountPath :: string where "DepConfMountPath = ''tmp/configs/''"
definition SiddhiFilesDir :: string where "SiddhiFilesDir = ''siddhi-files/''"
definition DepConfParameter :: string where "DepConfParameter = ''-Dconfig=''"
definition AppConfParameter :: string where "AppConfParameter = ''-Dapps=''"
definition ParserParameter :: string where "ParserParameter = ''-Dsiddhi-parser ''"
definition ContainerName :: string where "ContainerName = ''siddhi-runner-runtime''"
definition Shell :: string where "Shell = ''sh''"
definition SiddhiBin :: string where "SiddhiBin = ''bin''"
definition MaxUnavailable :: int32 where "MaxUnavailable = 0"
definition MaxSurge :: int32 where "MaxSurge = 2"
definition WSO2Dir :: string where "WSO2Dir = ''wso2''"
definition FilePersistentDir :: string where "FilePersistentDir = ''siddhi-app-persistence''"

definition newline :: string where "newline = [CHR 0x0A]"

definition StatePersistenceConf :: string where
  "StatePersistenceConf =
     newline @ ''statePersistence:'' @
     newline @ ''  enabled: true'' @
     newline @ ''  intervalInMin: 1'' @
     newline @ ''  revisionsToKeep: 2'' @
     newline @ ''  persistenceStore: io.siddhi.distribution.core.persistence.FileSystemPersistenceStore'' @
     newline @ ''  config:'' @
     newline @ ''    location: siddhi-app-persistence'' @ newline"

section \<open>Data\<close>

record application =
  ap_Name :: string
  ap_ContainerPorts :: "container_port list"
  ap_Apps :: "string gomap"
  ap_ServiceEnabled :: bool
  ap_PersistenceEnabled :: bool
  ap_Replicas :: int32

record docker_image =
  im_Name :: string
  im_Home :: string
  im_Secret :: string
  im_Profile :: string

text \<open>\<open>DeployManager.SiddhiProcess\<close> is a pointer; here it is the value it points to during the call.\<close>

record 'w deploy_manager =
  dm_Application :: application
  dm_KubeClient :: "'w kube_client"
  dm_Labels :: "string gomap"
  dm_Image :: docker_image
  dm_SiddhiProcess :: siddhi_process

text \<open>\<open>Config\<close>, of which the code reads the location only.\<close>

record persistence_config =
  pc_Location :: string

type_synonym yaml_unmarshal = "string \<Rightarrow> goerror + persistence_config"

section \<open>Volumes, paths and labels\<close>

definition application_labels :: "string \<Rightarrow> string gomap" where
  "application_labels name = map_literal
     [(''siddhi.io/name'', CRDName), (''siddhi.io/instance'', name),
      (''siddhi.io/version'', OperatorVersion), (''siddhi.io/part-of'', OperatorName)]"

definition CreateLabels :: "'w deploy_manager \<Rightarrow> 'w deploy_manager" where
  "CreateLabels d = d\<lparr>dm_Labels := application_labels (ap_Name (dm_Application d))\<rparr>"

definition createLocalObjectReference :: "string \<Rightarrow> string" where
  "createLocalObjectReference secret = secret"

definition populateMountPath :: "yaml_unmarshal \<Rightarrow> siddhi_process \<Rightarrow> string \<Rightarrow> string \<Rightarrow> goerror + string" where
  "populateMountPath yaml sp home profile =
     (case yaml (sps_SiddhiConfig (sp_Spec sp)) of
        Inl err \<Rightarrow> Inl err
      | Inr config \<Rightarrow>
          if pc_Location config \<noteq> [] \<and> IsAbs (pc_Location config) then Inr (pc_Location config)
          else if pc_Location config \<noteq> [] then
            Inr (path_Join [home, WSO2Dir, profile, pc_Location config])
          else Inr (path_Join [home, WSO2Dir, profile, FilePersistentDir]))"

definition createCMVolumes :: "string \<Rightarrow> string \<Rightarrow> volume \<times> volume_mount" where
  "createCMVolumes configMapName mountPath =
     (\<lparr>vol_Name = configMapName, vol_ConfigMap = Some configMapName, vol_PersistentVolumeClaim = None,
       vol_rest = []\<rparr>,
      \<lparr>vm_Name = configMapName, vm_MountPath = mountPath, vm_rest = []\<rparr>)"

definition createPVCVolumes :: "string \<Rightarrow> string \<Rightarrow> volume \<times> volume_mount" where
  "createPVCVolumes pvcName mountPath =
     (\<lparr>vol_Name = pvcName, vol_ConfigMap = None, vol_PersistentVolumeClaim = Some pvcName, vol_rest = []\<rparr>,
      \<lparr>vm_Name = pvcName, vm_MountPath = mountPath, vm_rest = []\<rparr>)"

section \<open>Deploy\<close>

text \<open>
  The local variables of \<open>Deploy\<close> that its branches fill in: the volumes with their mounts (they
  are appended in pairs) and the two arguments.
\<close>

type_synonym mounts = "(volume \<times> volume_mount) list"

text \<open>
  Every step returns an error, which ends \<open>Deploy\<close>, or its contribution. The claim of a stateful
  application, when the process specifies one:
\<close>

definition deploy_pvc :: "yaml_unmarshal \<Rightarrow> 'w deploy_manager \<Rightarrow> 'w \<Rightarrow> ((goerror + mounts) \<times> 'w) option" where
  "deploy_pvc yaml d w =
     (let sp = dm_SiddhiProcess d; pvc = sps_PVC (sp_Spec sp)
      in if EqualsPVCSpec pvc zero_pvc_spec then Some (Inr [], w)
         else (let pvcName = ap_Name (dm_Application d) @ PVCExtension
               in do {
                 (err, w1) \<leftarrow> CreateOrUpdatePVC (dm_KubeClient d) pvcName (sp_Namespace sp) pvc (OSiddhiProcess sp) w;
                 case err of
                   Some e \<Rightarrow> Some (Inl e, w1)
                 | None \<Rightarrow>
                     (case populateMountPath yaml sp (im_Home (dm_Image d)) (im_Profile (dm_Image d)) of
                        Inl e \<Rightarrow> Some (Inl e, w1)
                      | Inr mountPath \<Rightarrow> Some (Inr [createPVCVolumes pvcName mountPath], w1))
               }))"

text \<open>The config map with the runner's configuration, and the argument that names it.\<close>

definition deploy_config :: "'w deploy_manager \<Rightarrow> string \<Rightarrow> string \<Rightarrow> 'w \<Rightarrow>
    ((goerror + mounts \<times> string) \<times> 'w) option" where
  "deploy_config d deployYAMLCMName siddhiConfig w =
     (let sp = dm_SiddhiProcess d
      in do {
        (err, w1) \<leftarrow> CreateOrUpdateCM (dm_KubeClient d) deployYAMLCMName (sp_Namespace sp)
          (map_literal [(deployYAMLCMName, siddhiConfig)]) (OSiddhiProcess sp) w;
        case err of
          Some e \<Rightarrow> Some (Inl e, w1)
        | None \<Rightarrow>
            (let mountPath = im_Home (dm_Image d) @ DepConfMountPath
             in Some (Inr ([createCMVolumes deployYAMLCMName mountPath],
                           DepConfParameter @ mountPath @ deployYAMLCMName), w1))
      })"

text \<open>The first block of \<open>Deploy\<close>: persistence, or a configuration alone, or neither.\<close>

definition deploy_persistence :: "yaml_unmarshal \<Rightarrow> 'w deploy_manager \<Rightarrow> 'w \<Rightarrow>
    ((goerror + mounts \<times> string) \<times> 'w) option" where
  "deploy_persistence yaml d w =
     (let sp = dm_SiddhiProcess d; config = sps_SiddhiConfig (sp_Spec sp)
      in if ap_PersistenceEnabled (dm_Application d) then do {
           (r, w1) \<leftarrow> deploy_pvc yaml d w;
           case r of
             Inl e \<Rightarrow> Some (Inl e, w1)
           | Inr ms \<Rightarrow> do {
               (r2, w2) \<leftarrow> deploy_config d (ap_Name (dm_Application d) @ DepCMExtension)
                 (if config \<noteq> [] then config else StatePersistenceConf) w1;
               case r2 of
                 Inl e \<Rightarrow> Some (Inl e, w2)
               | Inr (ms2, param) \<Rightarrow> Some (Inr (ms @ ms2, param), w2)
             }
         }
         else if config \<noteq> [] then deploy_config d (sp_Name sp @ DepCMExtension) config w
         else Some (Inr ([], []), w))"

definition rolling_strategy :: deployment_strategy where
  "rolling_strategy =
     \<lparr>dst_Type = ''RollingUpdate'',
      dst_RollingUpdate = Some \<lparr>ru_MaxUnavailable = Some (int_port MaxUnavailable),
        ru_MaxSurge = Some (int_port MaxSurge)\<rparr>\<rparr>"

text \<open>The config map with the Siddhi apps, and the argument that names their directory.\<close>

definition apps_map :: "string gomap \<Rightarrow> string gomap" where
  "apps_map apps = map_literal (map (\<lambda>(k, v). (k @ SiddhiExtension, v)) apps)"

definition apps_cm_name :: "'w deploy_manager \<Rightarrow> string" where
  "apps_cm_name d = ap_Name (dm_Application d) @ Itoa (sint (st_CurrentVersion (sp_Status (dm_SiddhiProcess d))))"

definition deploy_apps :: "'w deploy_manager \<Rightarrow> 'w \<Rightarrow> ((goerror + mounts \<times> string) \<times> 'w) option" where
  "deploy_apps d w =
     (let sp = dm_SiddhiProcess d; apps = ap_Apps (dm_Application d)
      in if apps \<noteq> [] then do {
           (err, w1) \<leftarrow> CreateOrUpdateCM (dm_KubeClient d) (apps_cm_name d) (sp_Namespace sp) (apps_map apps)
             (OSiddhiProcess sp) w;
           case err of
             Some e \<Rightarrow> Some (Inl e, w1)
           | None \<Rightarrow>
               (let appsPath = im_Home (dm_Image d) @ SiddhiFilesDir
                in Some (Inr ([createCMVolumes (apps_cm_name d) appsPath], AppConfParameter @ appsPath @ '' ''), w1))
         }
         else Some (Inr ([], ParserParameter), w))"

text \<open>The last call of \<open>Deploy\<close>; the error of \<open>CreateOrUpdateDeployment\<close> is thrown away.\<close>

definition deploy_deployment :: "'w deploy_manager \<Rightarrow> mounts \<Rightarrow> string \<Rightarrow> string \<Rightarrow> 'w \<Rightarrow>
    (operation_result \<times> 'w) option" where
  "deploy_deployment d ms appParameter configParameter w =
     (let app = dm_Application d; sp = dm_SiddhiProcess d; img = dm_Image d;
          imagePullSecrets = (if im_Secret img \<noteq> [] then [createLocalObjectReference (im_Secret img)] else [])
      in do {
        ((op, _), w1) \<leftarrow> CreateOrUpdateDeployment (dm_KubeClient d) (ap_Name app) (sp_Namespace sp)
          (ap_Replicas app) (dm_Labels d) (im_Name img) ContainerName [Shell]
          [path_Join [im_Home img, SiddhiBin, im_Profile img @ ''.sh''], appParameter, configParameter]
          (ap_ContainerPorts app) (map snd ms) (ct_Env (sps_Container (sp_Spec sp)))
          \<lparr>sctx_RunAsUser = Some 802, sctx_rest = []\<rparr> ''Always'' imagePullSecrets (map fst ms)
          rolling_strategy (OSiddhiProcess sp) w;
        Some (op, w1)
      })"

text \<open>
  The result is the operation on the deployment (None is the zero value of its type, on an early
  return), the error, and the manager with its labels.
\<close>

definition Deploy :: "yaml_unmarshal \<Rightarrow> 'w deploy_manager \<Rightarrow> 'w \<Rightarrow>
    ((operation_result option \<times> goerror option \<times> 'w deploy_manager) \<times> 'w) option" where
  "Deploy yaml d0 w =
     (let d = CreateLabels d0
      in do {
        (r1, w1) \<leftarrow> deploy_persistence yaml d w;
        case r1 of
          Inl e \<Rightarrow> Some ((None, Some e, d), w1)
        | Inr (ms1, configParameter) \<Rightarrow> do {
            (r2, w2) \<leftarrow> deploy_apps d w1;
            case r2 of
              Inl e \<Rightarrow> Some ((None, Some e, d), w2)
            | Inr (ms2, appParameter) \<Rightarrow> do {
                (op, w3) \<leftarrow> deploy_deployment d (ms1 @ ms2) appParameter configParameter w2;
                Some ((Some op, None, d), w3)
              }
          }
      })"

section \<open>What Deploy does to the server\<close>

text \<open>The objects outside a set are left alone, and no process goes away.\<close>

definition touches :: "(kind \<Rightarrow> namespaced_name \<Rightarrow> kobject option) \<Rightarrow>
    (kind \<Rightarrow> namespaced_name \<Rightarrow> kobject option) \<Rightarrow> (kind \<times> namespaced_name) set \<Rightarrow> bool" where
  "touches l l' S \<longleftrightarrow> (\<forall>kd n. (kd, n) \<notin> S \<longrightarrow> l' kd n = l kd n) \<and>
     (\<forall>n. l KSiddhiProcess n \<noteq> None \<longrightarrow> l' KSiddhiProcess n \<noteq> None)"

lemma touches_refl [simp]: "touches l l S"
  by (simp add: touches_def)

lemma touches_trans: "touches l l' S \<Longrightarrow> touches l' l'' T \<Longrightarrow> S \<subseteq> U \<Longrightarrow> T \<subseteq> U \<Longrightarrow> touches l l'' U"
  unfolding touches_def by (metis subsetD)

lemma touches_mono: "touches l l' S \<Longrightarrow> S \<subseteq> T \<Longrightarrow> touches l l' T"
  unfolding touches_def by blast

lemma touches_same_except: "kd \<noteq> KSiddhiProcess \<Longrightarrow> touches l l' {(kd, n)} \<longleftrightarrow> same_except l l' kd n"
  by (auto simp: touches_def same_except_def)

lemma outcome_touches: "outcome l l' kd n Q err \<Longrightarrow> touches l l' {(kd, n)}"
  unfolding outcome_def touches_def same_except_def by (auto split: option.splits) (metis option.distinct(1))

lemma touches_process: "touches l l' S \<Longrightarrow> l KSiddhiProcess n \<noteq> None \<Longrightarrow> l' KSiddhiProcess n \<noteq> None"
  by (simp add: touches_def)

lemma touchesD: "touches l l' S \<Longrightarrow> (kd, n) \<notin> S \<Longrightarrow> l' kd n = l kd n"
  by (simp add: touches_def)

text \<open>Every mount names its volume.\<close>

definition mounts_ok :: "mounts \<Rightarrow> bool" where
  "mounts_ok ms \<longleftrightarrow> map (vm_Name \<circ> snd) ms = map (vol_Name \<circ> fst) ms"

lemma mounts_ok_simps [simp]:
  "mounts_ok []" "mounts_ok [createCMVolumes n p]" "mounts_ok [createPVCVolumes n p]"
  by (simp_all add: mounts_ok_def createCMVolumes_def createPVCVolumes_def)

lemma mounts_ok_append [simp]: "mounts_ok xs \<Longrightarrow> mounts_ok ys \<Longrightarrow> mounts_ok (xs @ ys)"
  by (simp add: mounts_ok_def)

text \<open>The names \<open>Deploy\<close> gives to the objects of an application.\<close>

definition config_cm_name :: "'w deploy_manager \<Rightarrow> string" where
  "config_cm_name d =
     (if ap_PersistenceEnabled (dm_Application d) then ap_Name (dm_Application d)
      else sp_Name (dm_SiddhiProcess d)) @ DepCMExtension"

definition config_text :: "'w deploy_manager \<Rightarrow> string" where
  "config_text d =
     (let config = sps_SiddhiConfig (sp_Spec (dm_SiddhiProcess d))
      in if ap_PersistenceEnabled (dm_Application d) \<and> config = [] then StatePersistenceConf else config)"

definition deploy_targets :: "'w deploy_manager \<Rightarrow> (kind \<times> namespaced_name) set" where
  "deploy_targets d =
     (let ns = sp_Namespace (dm_SiddhiProcess d); name = ap_Name (dm_Application d)
      in {(KPVC, nn (name @ PVCExtension) ns), (KConfigMap, nn (config_cm_name d) ns),
          (KConfigMap, nn (apps_cm_name d) ns), (KDeployment, nn name ns)})"

lemma nn_eq [simp]: "nn a ns = nn b ns' \<longleftrightarrow> a = b \<and> ns = ns'"
  by (auto simp: nn_def)

lemma last_Itoa: "is_digit (last (Itoa i))"
  by (metis Itoa_def Itoa_not_Nil append_Cons append_Nil itoa_nat_digits itoa_nat_not_Nil last.simps last_in_set)

lemma cm_names_differ [simp]: "apps_cm_name d \<noteq> config_cm_name d"
proof
  assume "apps_cm_name d = config_cm_name d"
  then have "last (apps_cm_name d) = last (config_cm_name d)" by simp
  with last_Itoa [of "sint (st_CurrentVersion (sp_Status (dm_SiddhiProcess d)))"] have "is_digit (CHR ''l'')"
    by (simp add: apps_cm_name_def config_cm_name_def DepCMExtension_def)
  then show False using is_digit_range by fastforce
qed

lemma map_of_apps_map:
  assumes "minv apps"
  shows "map_of (apps_map apps) k' = (if \<exists>k. k' = k @ SiddhiExtension then
      map_of apps (take (length k' - length SiddhiExtension) k') else None)"
proof -
  have "map_of (apps_map apps) k' = map_of (map (\<lambda>(k, v). (k @ SiddhiExtension, v)) (rev apps)) k'"
    by (simp add: apps_map_def map_of_map_literal rev_map)
  also have "\<dots> = (if \<exists>k. k' = k @ SiddhiExtension then
      map_of (rev apps) (take (length k' - length SiddhiExtension) k') else None)"
    by (induction apps rule: rev_induct) auto
  also have "map_of (rev apps) = map_of apps"
    using minv_distinct [OF assms]
    by (intro map_of_inject_set [THEN iffD2]) (simp_all add: distinct_map)
  finally show ?thesis .
qed

text \<open>The config map of a name holds some data.\<close>

definition holds_data :: "(kind \<Rightarrow> namespaced_name \<Rightarrow> kobject option) \<Rightarrow> namespaced_name \<Rightarrow> string gomap \<Rightarrow> bool" where
  "holds_data l n data \<longleftrightarrow> (\<exists>cm. l KConfigMap n = Some (OConfigMap cm) \<and> cm_Data cm = data)"

text \<open>The mounts and the argument that hand the configuration and the apps to the runner.\<close>

definition config_mounted :: "'w deploy_manager \<Rightarrow> mounts \<Rightarrow> string \<Rightarrow> bool" where
  "config_mounted d ms p \<longleftrightarrow>
     (let mountPath = im_Home (dm_Image d) @ DepConfMountPath
      in if config_text d = [] then p = []
         else p = DepConfParameter @ mountPath @ config_cm_name d \<and>
           createCMVolumes (config_cm_name d) mountPath \<in> set ms)"

definition apps_mounted :: "'w deploy_manager \<Rightarrow> mounts \<Rightarrow> string \<Rightarrow> bool" where
  "apps_mounted d ms p \<longleftrightarrow>
     (let appsPath = im_Home (dm_Image d) @ SiddhiFilesDir
      in if ap_Apps (dm_Application d) = [] then p = ParserParameter
         else p = AppConfParameter @ appsPath @ '' '' \<and> createCMVolumes (apps_cm_name d) appsPath \<in> set ms)"

lemma config_mounted_more: "config_mounted d ms p \<Longrightarrow> config_mounted d (ms' @ ms) p"
  by (auto simp: config_mounted_def Let_def split: if_splits)

text \<open>The claim of an application with persistence, when the process has one, and its mount.\<close>

definition claim_mounted :: "'w deploy_manager \<Rightarrow> (kind \<Rightarrow> namespaced_name \<Rightarrow> kobject option) \<Rightarrow> mounts \<Rightarrow> bool" where
  "claim_mounted d l ms \<longleftrightarrow>
     (let name = ap_Name (dm_Application d) @ PVCExtension
      in ap_PersistenceEnabled (dm_Application d) \<and> \<not> EqualsPVCSpec (sps_PVC (sp_Spec (dm_SiddhiProcess d))) zero_pvc_spec \<longrightarrow>
         l KPVC (nn name (sp_Namespace (dm_SiddhiProcess d))) \<noteq> None \<and> (\<exists>mountPath. createPVCVolumes name mountPath \<in> set ms))"

lemma claim_mounted_more: "claim_mounted d l ms \<Longrightarrow> claim_mounted d l (ms @ ms')"
  by (auto simp: claim_mounted_def Let_def)

lemma claim_mounted_kept:
  "claim_mounted d l ms \<Longrightarrow>
     l' KPVC (nn (ap_Name (dm_Application d) @ PVCExtension) (sp_Namespace (dm_SiddhiProcess d))) =
       l KPVC (nn (ap_Name (dm_Application d) @ PVCExtension) (sp_Namespace (dm_SiddhiProcess d))) \<Longrightarrow>
     claim_mounted d l' ms"
  by (simp add: claim_mounted_def Let_def)

text \<open>What \<open>Deploy\<close> promises: the config maps and the claim, and the deployment that mounts them.\<close>

definition deploy_maps_written :: "'w deploy_manager \<Rightarrow> (kind \<Rightarrow> namespaced_name \<Rightarrow> kobject option) \<Rightarrow> bool" where
  "deploy_maps_written d l \<longleftrightarrow>
     (let ns = sp_Namespace (dm_SiddhiProcess d); apps = ap_Apps (dm_Application d)
      in (apps \<noteq> [] \<longrightarrow> holds_data l (nn (apps_cm_name d) ns) (apps_map apps)) \<and>
         (config_text d \<noteq> [] \<longrightarrow> holds_data l (nn (config_cm_name d) ns) [(config_cm_name d, config_text d)]))"

definition deployed_container :: "'w deploy_manager \<Rightarrow> mounts \<Rightarrow> string \<Rightarrow> string \<Rightarrow> container_core" where
  "deployed_container d ms appParameter configParameter =
     \<lparr>cc_Name = ContainerName, cc_Image = im_Name (dm_Image d), cc_Command = [Shell],
      cc_Args = [path_Join [im_Home (dm_Image d), SiddhiBin, im_Profile (dm_Image d) @ ''.sh''],
        appParameter, configParameter],
      cc_Ports = map cp_ContainerPort (ap_ContainerPorts (dm_Application d)) @ [HealthPort],
      cc_Env = map (\<lambda>e. (ev_Name e, ev_Value e)) (elems (ct_Env (sps_Container (sp_Spec (dm_SiddhiProcess d))))),
      cc_Mounts = map (\<lambda>m. (vm_Name m, vm_MountPath m)) (map snd ms)\<rparr>"

definition deployment_holds :: "'w deploy_manager \<Rightarrow> (kind \<Rightarrow> namespaced_name \<Rightarrow> kobject option) \<Rightarrow>
    mounts \<Rightarrow> string \<Rightarrow> string \<Rightarrow> bool" where
  "deployment_holds d l ms appParameter configParameter \<longleftrightarrow>
     (\<exists>dep. l KDeployment (nn (ap_Name (dm_Application d)) (sp_Namespace (dm_SiddhiProcess d))) = Some (ODeployment dep) \<and>
        pod_core (ds_TemplateSpec (dep_Spec dep)) =
          ([deployed_container d ms appParameter configParameter], map (vol_Name \<circ> fst) ms))"

definition deployed :: "'w deploy_manager \<Rightarrow> (kind \<Rightarrow> namespaced_name \<Rightarrow> kobject option) \<Rightarrow> bool" where
  "deployed d l \<longleftrightarrow>
     (\<exists>ms1 ms2 appParameter configParameter.
        deployment_holds d l (ms1 @ ms2) appParameter configParameter \<and> mounts_ok (ms1 @ ms2) \<and>
        config_mounted d ms1 configParameter \<and> apps_mounted d ms2 appParameter \<and> claim_mounted d l ms1)"

lemma CreateOrUpdate_op:
  "CreateOrUpdate c obj f w = Some ((op, err), w') \<Longrightarrow> op \<noteq> OperationResultNone \<Longrightarrow> err = None"
  by (auto simp: CreateOrUpdate_def Let_def bind_eq_Some_conv
      split: prod.splits option.splits if_splits sum.splits)

lemma CreateOrUpdateDeployment_op:
  "CreateOrUpdateDeployment k name namespace replicas labels img containerName command args ports volumeMounts
     envs sc ipp secrets volumes strategy owner w = Some ((op, err), w') \<Longrightarrow> op \<noteq> OperationResultNone \<Longrightarrow> err = None"
  by (auto simp: CreateOrUpdateDeployment_def Let_def split: prod.splits dest: CreateOrUpdate_op)

context kube_defaulting
begin

lemma PVC_touches:
  assumes "kc_Client k = c" and "inv w"
  shows "\<exists>err w'. CreateOrUpdatePVC k name namespace pvcSpec owner w = Some (err, w') \<and> inv w' \<and>
    touches (look w) (look w') {(KPVC, nn name namespace)} \<and> (err = None \<longrightarrow> look w' KPVC (nn name namespace) \<noteq> None)"
proof (cases "look w KPVC (nn name namespace) = None")
  case False
  from PVC_found [OF assms False, of pvcSpec owner] False show ?thesis by (metis touches_refl)
next
  case True
  show ?thesis
  proof (cases "mode_granted pvcSpec")
    case False
    then have "pvcs_AccessModes pvcSpec \<noteq> None"
      "ReadWriteOnce \<notin> set (elems (pvcs_AccessModes pvcSpec))"
      "ReadWriteMany \<notin> set (elems (pvcs_AccessModes pvcSpec))" by (simp_all add: mode_granted_def)
    from PVC_denied [OF assms this, of name namespace owner] True show ?thesis by (metis touches_refl)
  next
    case g: True
    from PVC_created [OF assms _ True, of pvcSpec owner] g obtain err w' Q where
      "CreateOrUpdatePVC k name namespace pvcSpec owner w = Some (err, w')" "inv w'"
      and out: "outcome (look w) (look w') KPVC (nn name namespace) Q err" unfolding mode_granted_def by blast
    with outcome_touches [OF out] show ?thesis by (cases err) (auto simp: outcome_def)
  qed
qed

lemma deploy_pvc_result:
  assumes "kc_Client (dm_KubeClient d) = c" and "inv w"
  shows "\<exists>r w'. deploy_pvc yaml d w = Some (r, w') \<and> inv w' \<and>
    touches (look w) (look w')
      {(KPVC, nn (ap_Name (dm_Application d) @ PVCExtension) (sp_Namespace (dm_SiddhiProcess d)))} \<and>
    (\<forall>ms. r = Inr ms \<longrightarrow> mounts_ok ms \<and> claim_mounted d (look w') ms)"
proof -
  let ?sp = "dm_SiddhiProcess d"
  from PVC_touches [OF assms, of "ap_Name (dm_Application d) @ PVCExtension" "sp_Namespace ?sp"
      "sps_PVC (sp_Spec ?sp)" "OSiddhiProcess ?sp"]
  show ?thesis using assms(2)
    by (auto simp: deploy_pvc_def claim_mounted_def Let_def split: option.splits sum.splits)
qed

lemma deploy_config_result:
  assumes k: "kc_Client (dm_KubeClient d) = c" and w: "inv w" and conf: "config_text d \<noteq> []"
  defines "n \<equiv> nn (config_cm_name d) (sp_Namespace (dm_SiddhiProcess d))"
  shows "\<exists>r w'. deploy_config d (config_cm_name d) (config_text d) w = Some (r, w') \<and> inv w' \<and>
    touches (look w) (look w') {(KConfigMap, n)} \<and>
    (\<forall>ms p. r = Inr (ms, p) \<longrightarrow> mounts_ok ms \<and> config_mounted d ms p \<and>
       holds_data (look w') n [(config_cm_name d, config_text d)])"
proof -
  let ?sp = "dm_SiddhiProcess d" and ?data = "[(config_cm_name d, config_text d)]"
  have lit: "map_literal ?data = ?data" by (simp add: map_literal_def)
  from CM_result [OF k w, of "config_cm_name d" "sp_Namespace ?sp" ?data "OSiddhiProcess ?sp"]
  obtain err w' where cm: "CreateOrUpdateCM (dm_KubeClient d) (config_cm_name d) (sp_Namespace ?sp) ?data
      (OSiddhiProcess ?sp) w = Some (err, w')" "inv w'"
    and out: "outcome (look w) (look w') KConfigMap n
      (\<lambda>obj. \<exists>cm. obj = OConfigMap cm \<and> cm_Data cm = ?data) err" unfolding n_def by blast
  from cm outcome_touches [OF out] out conf show ?thesis
    by (cases err) (auto simp: deploy_config_def Let_def lit outcome_def holds_data_def config_mounted_def)
qed

lemma Deployment_pod:
  assumes k: "kc_Client k = c" and w: "inv w"
  shows "\<exists>op err w'. CreateOrUpdateDeployment k name namespace replicas labels img containerName command args
      ports volumeMounts envs sc ipp secrets volumes strategy owner w = Some ((op, err), w') \<and> inv w' \<and>
    outcome (look w) (look w') KDeployment (nn name namespace)
      (\<lambda>obj. \<exists>dep. obj = ODeployment dep \<and> pod_core (ds_TemplateSpec (dep_Spec dep)) =
         ([\<lparr>cc_Name = containerName, cc_Image = img, cc_Command = command, cc_Args = args,
            cc_Ports = map cp_ContainerPort ports @ [HealthPort],
            cc_Env = map (\<lambda>e. (ev_Name e, ev_Value e)) (elems envs),
            cc_Mounts = map (\<lambda>m. (vm_Name m, vm_MountPath m)) volumeMounts\<rparr>], map vol_Name volumes)) err"
  by (insert Deployment_result [OF k w, of name namespace replicas labels img containerName command args ports
        volumeMounts envs sc ipp secrets volumes strategy owner], elim exE conjE, intro exI conjI, assumption,
      assumption, erule outcome_mono) blast

lemma deploy_deployment_result:
  assumes k: "kc_Client (dm_KubeClient d) = c" and w: "inv w"
  shows "\<exists>op w'. deploy_deployment (CreateLabels d) ms p2 p1 w = Some (op, w') \<and> inv w' \<and>
    touches (look w) (look w') {(KDeployment, nn (ap_Name (dm_Application d)) (sp_Namespace (dm_SiddhiProcess d)))} \<and>
    (op \<noteq> OperationResultNone \<longrightarrow> deployment_holds d (look w') ms p2 p1)"
proof -
  let ?app = "dm_Application d" and ?sp = "dm_SiddhiProcess d" and ?img = "dm_Image d"
  let ?secrets = "if im_Secret ?img \<noteq> [] then [createLocalObjectReference (im_Secret ?img)] else []"
  let ?args = "[path_Join [im_Home ?img, SiddhiBin, im_Profile ?img @ ''.sh''], p2, p1]"
  from Deployment_pod [OF k w, of "ap_Name ?app" "sp_Namespace ?sp" "ap_Replicas ?app"
      "dm_Labels (CreateLabels d)" "im_Name ?img" ContainerName "[Shell]" ?args "ap_ContainerPorts ?app"
      "map snd ms" "ct_Env (sps_Container (sp_Spec ?sp))" "\<lparr>sctx_RunAsUser = Some 802, sctx_rest = []\<rparr>"
      "''Always''" ?secrets "map fst ms" rolling_strategy "OSiddhiProcess ?sp"]
  obtain op err w' where call: "CreateOrUpdateDeployment (dm_KubeClient d) (ap_Name ?app) (sp_Namespace ?sp)
      (ap_Replicas ?app) (dm_Labels (CreateLabels d)) (im_Name ?img) ContainerName [Shell] ?args
      (ap_ContainerPorts ?app) (map snd ms) (ct_Env (sps_Container (sp_Spec ?sp)))
      \<lparr>sctx_RunAsUser = Some 802, sctx_rest = []\<rparr> ''Always'' ?secrets (map fst ms) rolling_strategy
      (OSiddhiProcess ?sp) w = Some ((op, err), w')" "inv w'"
    and out: "outcome (look w) (look w') KDeployment (nn (ap_Name ?app) (sp_Namespace ?sp))
      (\<lambda>obj. \<exists>dep. obj = ODeployment dep \<and> pod_core (ds_TemplateSpec (dep_Spec dep)) =
         ([deployed_container d ms p2 p1], map (vol_Name \<circ> fst) ms)) err"
    unfolding deployed_container_def by (auto simp: o_def)
  from call(1) have run: "deploy_deployment (CreateLabels d) ms p2 p1 w = Some (op, w')"
    by (simp add: deploy_deployment_def Let_def CreateLabels_def)
  from CreateOrUpdateDeployment_op [OF call(1)] out have "op \<noteq> OperationResultNone \<longrightarrow> deployment_holds d (look w') ms p2 p1"
    by (auto simp: outcome_def deployment_holds_def)
  with run call(2) outcome_touches [OF out] show ?thesis by blast
qed

lemma deploy_persistence_result:
  assumes k: "kc_Client (dm_KubeClient d) = c" and w: "inv w"
  defines "ns \<equiv> sp_Namespace (dm_SiddhiProcess d)"
  shows "\<exists>r w'. deploy_persistence yaml d w = Some (r, w') \<and> inv w' \<and>
    touches (look w) (look w')
      {(KPVC, nn (ap_Name (dm_Application d) @ PVCExtension) ns), (KConfigMap, nn (config_cm_name d) ns)} \<and>
    (\<forall>ms p. r = Inr (ms, p) \<longrightarrow> mounts_ok ms \<and> config_mounted d ms p \<and> claim_mounted d (look w') ms \<and>
       (config_text d \<noteq> [] \<longrightarrow> holds_data (look w') (nn (config_cm_name d) ns) [(config_cm_name d, config_text d)]))"
proof (cases "ap_PersistenceEnabled (dm_Application d)")
  case False
  show ?thesis
  proof (cases "sps_SiddhiConfig (sp_Spec (dm_SiddhiProcess d)) = []")
    case True
    with False w show ?thesis
      by (simp add: deploy_persistence_def Let_def config_mounted_def config_text_def claim_mounted_def)
  next
    case conf: False
    with False have n: "config_cm_name d = sp_Name (dm_SiddhiProcess d) @ DepCMExtension"
      "config_text d = sps_SiddhiConfig (sp_Spec (dm_SiddhiProcess d))" "config_text d \<noteq> []"
      by (simp_all add: config_cm_name_def config_text_def Let_def)
    from deploy_config_result [OF k w n(3)] obtain r w' where
      "deploy_config d (config_cm_name d) (config_text d) w = Some (r, w')" "inv w'" and
      t: "touches (look w) (look w') {(KConfigMap, nn (config_cm_name d) ns)}" and
      m: "\<And>ms p. r = Inr (ms, p) \<Longrightarrow> mounts_ok ms \<and> config_mounted d ms p \<and>
         holds_data (look w') (nn (config_cm_name d) ns) [(config_cm_name d, config_text d)]"
      unfolding ns_def by blast
    moreover have "touches (look w) (look w')
        {(KPVC, nn (ap_Name (dm_Application d) @ PVCExtension) ns), (KConfigMap, nn (config_cm_name d) ns)}"
      by (rule touches_mono [OF t]) simp
    moreover from False conf n(1,2)
    have "deploy_persistence yaml d w = deploy_config d (config_cm_name d) (config_text d) w"
      by (simp add: deploy_persistence_def Let_def)
    ultimately show ?thesis using False by (auto simp: claim_mounted_def)
  qed
next
  case True
  from deploy_pvc_result [OF k w, of yaml] obtain r1 w1 where
    one: "deploy_pvc yaml d w = Some (r1, w1)" "inv w1" and
    t1: "touches (look w) (look w1) {(KPVC, nn (ap_Name (dm_Application d) @ PVCExtension) ns)}" and
    m1: "\<And>ms. r1 = Inr ms \<Longrightarrow> mounts_ok ms \<and> claim_mounted d (look w1) ms"
    unfolding ns_def by blast
  show ?thesis
  proof (cases r1)
    case (Inl e)
    with one True t1 show ?thesis
      by (auto simp: deploy_persistence_def Let_def elim: touches_mono)
  next
    case (Inr ms)
    from True have "config_text d \<noteq> []"
      by (simp add: config_text_def StatePersistenceConf_def newline_def Let_def)
    from deploy_config_result [OF k one(2) this] obtain r2 w2 where
      two: "deploy_config d (config_cm_name d) (config_text d) w1 = Some (r2, w2)" "inv w2" and
      t2: "touches (look w1) (look w2) {(KConfigMap, nn (config_cm_name d) ns)}" and
      m2: "\<And>ms p. r2 = Inr (ms, p) \<Longrightarrow> mounts_ok ms \<and> config_mounted d ms p \<and>
         holds_data (look w2) (nn (config_cm_name d) ns) [(config_cm_name d, config_text d)]"
      unfolding ns_def by blast
    have call: "deploy_persistence yaml d w =
        Some (case r2 of Inl e \<Rightarrow> Inl e | Inr (ms2, param) \<Rightarrow> Inr (ms @ ms2, param), w2)"
      using one(1) two(1) Inr True
      by (auto simp: deploy_persistence_def Let_def config_cm_name_def config_text_def split: sum.splits)
    have "touches (look w) (look w2)
      {(KPVC, nn (ap_Name (dm_Application d) @ PVCExtension) ns), (KConfigMap, nn (config_cm_name d) ns)}"
      by (rule touches_trans [OF t1 t2]) auto
    moreover have "claim_mounted d (look w2) ms"
      by (rule claim_mounted_kept [OF conjunct2 [OF m1 [OF Inr]]]) (simp add: touchesD [OF t2])
    ultimately show ?thesis
      using call two(2) m1 [OF Inr] m2 config_mounted_more claim_mounted_more by (auto split: sum.splits)
  qed
qed

lemma deploy_apps_result:
  assumes k: "kc_Client (dm_KubeClient d) = c" and w: "inv w"
  defines "ns \<equiv> sp_Namespace (dm_SiddhiProcess d)"
  shows "\<exists>r w'. deploy_apps d w = Some (r, w') \<and> inv w' \<and>
    touches (look w) (look w') {(KConfigMap, nn (apps_cm_name d) ns)} \<and>
    (\<forall>ms p. r = Inr (ms, p) \<longrightarrow> mounts_ok ms \<and> apps_mounted d ms p \<and>
       (ap_Apps (dm_Application d) \<noteq> [] \<longrightarrow>
          holds_data (look w') (nn (apps_cm_name d) ns) (apps_map (ap_Apps (dm_Application d)))))"
proof (cases "ap_Apps (dm_Application d) = []")
  case True
  with w show ?thesis by (auto simp: deploy_apps_def Let_def apps_mounted_def)
next
  case False
  let ?sp = "dm_SiddhiProcess d" and ?data = "apps_map (ap_Apps (dm_Application d))"
  from CM_result [OF k w, of "apps_cm_name d" ns ?data "OSiddhiProcess ?sp"]
  obtain err w' where cm: "CreateOrUpdateCM (dm_KubeClient d) (apps_cm_name d) ns ?data (OSiddhiProcess ?sp) w =
      Some (err, w')" "inv w'"
    and out: "outcome (look w) (look w') KConfigMap (nn (apps_cm_name d) ns)
      (\<lambda>obj. \<exists>cm. obj = OConfigMap cm \<and> cm_Data cm = ?data) err" by blast
  from cm outcome_touches [OF out] out False show ?thesis
    by (cases err) (auto simp: deploy_apps_def Let_def outcome_def ns_def apps_mounted_def holds_data_def)
qed

lemma Deploy_result:
  assumes k: "kc_Client (dm_KubeClient d) = c" and w: "inv w"
  shows "\<exists>op err w'. Deploy yaml d w = Some ((op, err, CreateLabels d), w') \<and> inv w' \<and>
    touches (look w) (look w') (deploy_targets d) \<and>
    (err = None \<longrightarrow> deploy_maps_written d (look w')) \<and>
    (op \<in> {Some OperationResultCreated, Some OperationResultUpdated} \<longrightarrow> deployed d (look w'))"
proof -
  let ?d = "CreateLabels d" and ?ns = "sp_Namespace (dm_SiddhiProcess d)"
  have d: "dm_KubeClient ?d = dm_KubeClient d" "dm_SiddhiProcess ?d = dm_SiddhiProcess d"
    "dm_Application ?d = dm_Application d" "dm_Image ?d = dm_Image d"
    "apps_cm_name ?d = apps_cm_name d" "config_cm_name ?d = config_cm_name d" "config_text ?d = config_text d"
    "apps_mounted ?d = apps_mounted d" "config_mounted ?d = config_mounted d" "claim_mounted ?d = claim_mounted d"
    by (simp_all add: CreateLabels_def apps_cm_name_def config_cm_name_def config_text_def apps_mounted_def
        config_mounted_def claim_mounted_def fun_eq_iff)
  from deploy_persistence_result [of ?d w yaml, unfolded d, OF k w] obtain r1 w1 where
    one: "deploy_persistence yaml ?d w = Some (r1, w1)" "inv w1" and
    t1: "touches (look w) (look w1)
      {(KPVC, nn (ap_Name (dm_Application d) @ PVCExtension) ?ns), (KConfigMap, nn (config_cm_name d) ?ns)}" and
    c1: "\<And>ms p. r1 = Inr (ms, p) \<Longrightarrow> mounts_ok ms \<and> config_mounted d ms p \<and> claim_mounted d (look w1) ms \<and> (config_text d \<noteq> [] \<longrightarrow>
       holds_data (look w1) (nn (config_cm_name d) ?ns) [(config_cm_name d, config_text d)])"
    by blast
  have sub: "{(KPVC, nn (ap_Name (dm_Application d) @ PVCExtension) ?ns), (KConfigMap, nn (config_cm_name d) ?ns)} \<subseteq>
      deploy_targets d" "{(KConfigMap, nn (apps_cm_name d) ?ns)} \<subseteq> deploy_targets d"
      "{(KDeployment, nn (ap_Name (dm_Application d)) ?ns)} \<subseteq> deploy_targets d"
    by (auto simp: deploy_targets_def Let_def)
  show ?thesis
  proof (cases r1)
    case (Inl e)
    with one touches_mono [OF t1 sub(1)] show ?thesis by (simp add: Deploy_def Let_def)
  next
    case (Inr x)
    then obtain ms1 p1 where r1: "r1 = Inr (ms1, p1)" by (cases x) auto
    from deploy_apps_result [of ?d w1, unfolded d, OF k one(2)] obtain r2 w2 where
      two: "deploy_apps ?d w1 = Some (r2, w2)" "inv w2" and
      t2: "touches (look w1) (look w2) {(KConfigMap, nn (apps_cm_name d) ?ns)}" and
      c2: "\<And>ms p. r2 = Inr (ms, p) \<Longrightarrow> mounts_ok ms \<and> apps_mounted d ms p \<and> (ap_Apps (dm_Application d) \<noteq> [] \<longrightarrow>
         holds_data (look w2) (nn (apps_cm_name d) ?ns) (apps_map (ap_Apps (dm_Application d))))"
      by blast
    note t12 = touches_trans [OF t1 t2 sub(1,2)]
    show ?thesis
    proof (cases r2)
      case (Inl e)
      with one two r1 t12 show ?thesis by (simp add: Deploy_def Let_def)
    next
      case (Inr x)
      then obtain ms2 p2 where r2: "r2 = Inr (ms2, p2)" by (cases x) auto
      from deploy_deployment_result [OF k two(2), of "ms1 @ ms2" p2 p1] obtain op w3 where
        three: "deploy_deployment ?d (ms1 @ ms2) p2 p1 w2 = Some (op, w3)" "inv w3" and
        t3: "touches (look w2) (look w3) {(KDeployment, nn (ap_Name (dm_Application d)) ?ns)}" and
        c3: "op \<noteq> OperationResultNone \<Longrightarrow> deployment_holds d (look w3) (ms1 @ ms2) p2 p1"
        by blast
      have call: "Deploy yaml d w = Some ((Some op, None, ?d), w3)"
        using one(1) two(1) r1 r2 three(1) by (simp add: Deploy_def Let_def d)
      have "holds_data (look w3) n data" if "holds_data (look w2) n data" for n data
        using that t3 by (simp add: touches_def holds_data_def)
      moreover have "holds_data (look w2) (nn (config_cm_name d) ?ns) data"
        if "holds_data (look w1) (nn (config_cm_name d) ?ns) data" for data
        using that touchesD [OF t2, of KConfigMap "nn (config_cm_name d) ?ns"] cm_names_differ [of d]
        by (simp add: holds_data_def eq_commute)
      ultimately have "deploy_maps_written d (look w3)"
        using c1 [OF r1] c2 [OF r2] by (simp add: deploy_maps_written_def)
      moreover have "claim_mounted d (look w3) ms1"
        by (rule claim_mounted_kept [of d "look w1"]) (use c1 [OF r1] touchesD [OF t2] touchesD [OF t3] in simp_all)
      then have "op \<noteq> OperationResultNone \<longrightarrow> deployed d (look w3)"
        unfolding deployed_def using c1 [OF r1] c2 [OF r2] c3 mounts_ok_append by blast
      ultimately show ?thesis
        using call three(2) touches_trans [OF t12 t3 subset_refl sub(3)] by auto
    qed
  qed
qed

end

section \<open>Paths of the mounts\<close>

lemma split_slash_append_slash: "split_slash (a @ CHR ''/'' # b) = split_slash a @ split_slash b"
proof (induction a)
  case (Cons x a)
  then show ?case by (cases "split_slash a") (auto simp: split_slash_not_Nil)
qed simp

definition dirs :: "string \<Rightarrow> string list" where
  "dirs p = filter (\<lambda>c. c \<noteq> []) (split_slash p)"

definition clean_dirs :: "string \<Rightarrow> bool" where
  "clean_dirs p \<longleftrightarrow> (\<forall>c \<in> set (split_slash p). c \<noteq> ''.'' \<and> c \<noteq> ''..'')"

lemma fold_clean_dirs:
  "\<forall>c \<in> set cs. c \<noteq> ''.'' \<and> c \<noteq> ''..'' \<Longrightarrow>
     fold (clean_step r) cs out = rev (filter (\<lambda>c. c \<noteq> []) cs) @ out"
  by (induction cs arbitrary: out) (auto simp: clean_step_def)

lemma dirs_append_slash: "dirs (a @ CHR ''/'' # b) = dirs a @ dirs b"
  by (simp add: dirs_def split_slash_append_slash)

lemma clean_dirs_append_slash: "clean_dirs (a @ CHR ''/'' # b) \<longleftrightarrow> clean_dirs a \<and> clean_dirs b"
  by (auto simp: clean_dirs_def split_slash_append_slash)

lemma plain_dirs: "plain c \<Longrightarrow> dirs c = [c] \<and> clean_dirs c"
  by (simp add: dirs_def clean_dirs_def plain_def split_slash_no_slash)

lemma path_Clean_dirs: "HasPrefix p ''/'' \<Longrightarrow> clean_dirs p \<Longrightarrow> path_Clean p = CHR ''/'' # join_slash (dirs p)"
  using fold_clean_dirs [of "split_slash p" True "[]"]
  by (simp add: path_Clean_def clean_dirs_def dirs_def Let_def)

lemma path_Join_dirs:
  assumes "HasPrefix home ''/''" and "clean_dirs home" and "plain a" and "plain b" and "clean_dirs loc"
  shows "path_Join [home, a, b, loc] = CHR ''/'' # join_slash (dirs home @ [a, b] @ dirs loc)"
proof -
  have "home \<noteq> []" and pre: "HasPrefix (join_slash [home, a, b, loc]) ''/''"
    using assms(1) by (cases home; simp add: HasPrefix_def)+
  have cl: "clean_dirs (join_slash [home, a, b, loc])"
    using assms by (simp add: clean_dirs_append_slash plain_dirs)
  have "dirs (join_slash [home, a, b, loc]) = dirs home @ [a, b] @ dirs loc"
    using plain_dirs [OF assms(3)] plain_dirs [OF assms(4)] by (simp add: dirs_append_slash)
  with path_Clean_dirs [OF pre cl] \<open>home \<noteq> []\<close> show ?thesis by (simp add: path_Join_def)
qed

section \<open>Properties\<close>

definition sample_app :: application where
  "sample_app = \<lparr>ap_Name = ''app-0'', ap_ContainerPorts = [sample_port 8080], ap_Apps = [(''a'', ''x'')],
     ap_ServiceEnabled = True, ap_PersistenceEnabled = True, ap_Replicas = 1\<rparr>"

definition sample_image :: docker_image where
  "sample_image = \<lparr>im_Name = ''img'', im_Home = ''/home/siddhi_user/siddhi-runner/'', im_Secret = [],
     im_Profile = ''runner''\<rparr>"

definition sample_manager :: "tracker deploy_manager" where
  "sample_manager = \<lparr>dm_Application = sample_app, dm_KubeClient = sample_kube, dm_Labels = [],
     dm_Image = sample_image, dm_SiddhiProcess = sample_process\<rparr>"

definition sample_yaml :: yaml_unmarshal where
  "sample_yaml s = Inr \<lparr>pc_Location = s\<rparr>"

text \<open>
  C9: \<open>Deploy\<close> never panics and touches at most four objects: the application's claim, its two config
  maps and its deployment. When it returns nil the config maps hold exactly the configuration and
  the scripts of the apps; when it reports that the deployment was created or updated, the
  deployment runs the image with the health port, every mount names one of its volumes, and the
  arguments point at the directories where the config maps are mounted, and the claim of a persistent
  application is there and mounted.
\<close>

theorem Deploy_correct:
  assumes "kube_defaulting (kc_Client (dm_KubeClient d)) look adm valid" and "valid w"
  shows "\<exists>op err w'. Deploy yaml d w = Some ((op, err, CreateLabels d), w') \<and> valid w' \<and>
    touches (look w) (look w') (deploy_targets d) \<and>
    (err = None \<longrightarrow> deploy_maps_written d (look w')) \<and>
    (op \<in> {Some OperationResultCreated, Some OperationResultUpdated} \<longrightarrow> deployed d (look w'))"
  using kube_defaulting.Deploy_result [OF assms(1) refl assms(2)] .

theorem Deploy_correct_witness:
  "\<exists>op w'. Deploy sample_yaml sample_manager empty_tracker = Some ((op, None, CreateLabels sample_manager), w') \<and>
    tracker_inv w' \<and> deploy_maps_written sample_manager (tracker_look w')"
proof -
  have "kube_defaulting (kc_Client (dm_KubeClient sample_manager)) tracker_look (\<lambda>obj. obj) tracker_inv"
    using sample_default by (simp add: sample_manager_def)
  from Deploy_correct [OF this, OF tracker_inv_empty, of sample_yaml] obtain op err w' where
    run: "Deploy sample_yaml sample_manager empty_tracker = Some ((op, err, CreateLabels sample_manager), w')"
    "tracker_inv w'" "err = None \<longrightarrow> deploy_maps_written sample_manager (tracker_look w')" by blast
  have "case Deploy sample_yaml sample_manager empty_tracker of Some ((op, err, d), w) \<Rightarrow> err = None | None \<Rightarrow> False"
    by code_simp
  with run show ?thesis by simp
qed



text \<open>
  The persistent volume is mounted at the configured location when that is an absolute path, and
  otherwise below the runner's home, at \<open>wso2/<profile>/<location>\<close> (the default location when none
  is configured), with no \<open>.\<close>, no \<open>..\<close> and no doubled slash left in the path.
\<close>

theorem mount_path_of_location:
  assumes "yaml (sps_SiddhiConfig (sp_Spec sp)) = Inr config"
    and "HasPrefix home ''/''" and "clean_dirs home" and "plain profile" and "clean_dirs (pc_Location config)"
  shows "populateMountPath yaml sp home profile = Inr
    (if IsAbs (pc_Location config) then pc_Location config
     else CHR ''/'' # join_slash (dirs home @ [WSO2Dir, profile] @
       (if pc_Location config = [] then [FilePersistentDir] else dirs (pc_Location config))))"
proof -
  have "plain WSO2Dir" and "plain FilePersistentDir" by (simp_all add: plain_def WSO2Dir_def FilePersistentDir_def)
  then show ?thesis
    using assms path_Join_dirs [OF assms(2,3) \<open>plain WSO2Dir\<close> assms(4)] plain_dirs [of FilePersistentDir]
    by (auto simp: populateMountPath_def IsAbs_def HasPrefix_def)
qed

theorem mount_path_of_location_witness:
  "populateMountPath sample_yaml sample_process ''/home/runner/'' ''runner'' =
     Inr ''/home/runner/wso2/runner/siddhi-app-persistence''"
  using mount_path_of_location [of sample_yaml sample_process "\<lparr>pc_Location = []\<rparr>" "''/home/runner/''" "''runner''"]
  by (simp add: sample_yaml_def sample_process_def zero_siddhi_process_def zero_siddhi_process_spec_def
      HasPrefix_def clean_dirs_def plain_def IsAbs_def dirs_def WSO2Dir_def FilePersistentDir_def)

text \<open>
  The files of the apps. The config map of the apps has the script of app \<open>a\<close> under \<open>a.siddhi\<close>, and
  no other entry.
\<close>

theorem apps_map_files:
  assumes "minv apps"
  shows "map_of (apps_map apps) file = (if \<exists>a. file = a @ SiddhiExtension
    then map_of apps (take (length file - length SiddhiExtension) file) else None)"
  by (rule map_of_apps_map [OF assms])

theorem apps_map_files_witness: "map_of (apps_map [(''a'', ''x'')]) ''a.siddhi'' = Some ''x''"
  using apps_map_files [of "[(''a'', ''x'')]" "''a.siddhi''"] by (simp add: minv_def SiddhiExtension_def)

text \<open>
  The config maps of two applications of one version have different names, but the name is the
  application's followed by the version without a separator, so across versions they collide:
  application 11 of version 1 and application 1 of version 11 share the name of their config map.
\<close>

theorem apps_cm_name_clash:
  "(st_CurrentVersion (sp_Status (dm_SiddhiProcess d)) = st_CurrentVersion (sp_Status (dm_SiddhiProcess d')) \<longrightarrow>
      (apps_cm_name d = apps_cm_name d' \<longleftrightarrow> ap_Name (dm_Application d) = ap_Name (dm_Application d'))) \<and>
   (ap_Name (dm_Application d) = p @ ''-11'' \<and> st_CurrentVersion (sp_Status (dm_SiddhiProcess d)) = 1 \<and>
    ap_Name (dm_Application d') = p @ ''-1'' \<and> st_CurrentVersion (sp_Status (dm_SiddhiProcess d')) = 11 \<longrightarrow>
      apps_cm_name d = apps_cm_name d')"
proof -
  have "Itoa 11 = ''11''" "Itoa 1 = ''1''" by code_simp+
  then show ?thesis by (auto simp: apps_cm_name_def)
qed

theorem apps_cm_name_clash_witness:
  "apps_cm_name (sample_manager\<lparr>dm_Application := sample_app\<lparr>ap_Name := ''p-11''\<rparr>,
      dm_SiddhiProcess := sample_process\<lparr>sp_Status := zero_siddhi_process_status\<lparr>st_CurrentVersion := 1\<rparr>\<rparr>\<rparr>) =
   apps_cm_name (sample_manager\<lparr>dm_Application := sample_app\<lparr>ap_Name := ''p-1''\<rparr>,
      dm_SiddhiProcess := sample_process\<lparr>sp_Status := zero_siddhi_process_status\<lparr>st_CurrentVersion := 11\<rparr>\<rparr>\<rparr>)"
  by (rule apps_cm_name_clash [where p = "''p''", THEN conjunct2, THEN mp]) simp

end
