(* ===== verification/Messaging.thy ===== *)
theory Messaging
  imports DeployManager
begin

text \<open>
  The messaging component (\<open>pkg/controller/siddhiprocess/messaging/messaging.go\<close>): the NATS
  clusters are created when the process asks for a messaging system without configuring it and one
  of its applications is stateful, provided both NATS operators run in the namespace.
\<close>

definition NATSOperatorName :: string where "NATSOperatorName = ''nats-operator''"
definition STANOperatorName :: string where "STANOperatorName = ''nats-streaming-operator''"

record 'w messaging =
  mg_KubeClient :: "'w kube_client"
  mg_SiddhiProcess :: siddhi_process

definition CheckMessagingSystem :: "'w messaging \<Rightarrow> 'w \<Rightarrow> bool \<times> 'w" where
  "CheckMessagingSystem m w =
     (let ns = sp_Namespace (mg_SiddhiProcess m);
          (nats, w1) = GetDeployment (mg_KubeClient m) NATSOperatorName ns w;
          (stan, w2) = GetDeployment (mg_KubeClient m) STANOperatorName ns w1
      in (nats \<noteq> None \<and> stan \<noteq> None, w2))"

definition persistence_wanted :: "application list \<Rightarrow> bool" where
  "persistence_wanted applications = (\<exists>a \<in> set applications. ap_PersistenceEnabled a)"

definition CreateMessagingSystem :: "'w messaging \<Rightarrow> application list \<Rightarrow> 'w \<Rightarrow> goerror option \<times> 'w" where
  "CreateMessagingSystem m applications w =
     (let sp = mg_SiddhiProcess m; ms = sps_MessagingSystem (sp_Spec sp)
      in if TypeDefined ms \<and> EmptyConfig ms \<and> persistence_wanted applications then
           (let (ok, w1) = CheckMessagingSystem m w
            in if \<not> ok then
                 (Some (Failure ''Automatic NATS creation fails. NATS not configured in the cluster''), w1)
               else CreateNATS (mg_KubeClient m) (sp_Namespace sp) w1)
         else (None, w))"

section \<open>Reading deployments\<close>

context kube_api
begin

lemma GetDeployment_result:
  assumes "kc_Client k = c" and "inv w" and "GetDeployment k name namespace w = (r, w')"
  shows "inv w' \<and> look w' = look w \<and>
    (\<forall>d. r = Some d \<longrightarrow> look w KDeployment (nn (ToLower name) namespace) = Some (ODeployment d))"
proof -
  obtain g w1 where get: "cl_Get c KDeployment (nn (ToLower name) namespace) w = (g, w1)" by force
  from get_look [OF get assms(2)] have "inv w1" "look w1 = look w" by auto
  moreover have "look w KDeployment (nn (ToLower name) namespace) = Some obj" if "g = Inr obj" for obj
    using get_found get that assms(2) by blast
  ultimately show ?thesis
    using assms(1,3) get by (auto simp: GetDeployment_def split: sum.splits kobject.splits)
qed

lemma CheckMessagingSystem_result:
  assumes "kc_Client (mg_KubeClient m) = c" and "inv w" and "CheckMessagingSystem m w = (ok, w')"
  shows "inv w' \<and> look w' = look w \<and>
    (ok \<longrightarrow> (\<forall>name \<in> {NATSOperatorName, STANOperatorName}.
       look w KDeployment (nn name (sp_Namespace (mg_SiddhiProcess m))) \<noteq> None))"
proof -
  let ?ns = "sp_Namespace (mg_SiddhiProcess m)"
  obtain nats w1 where one: "GetDeployment (mg_KubeClient m) NATSOperatorName ?ns w = (nats, w1)" by force
  obtain stan w2 where two: "GetDeployment (mg_KubeClient m) STANOperatorName ?ns w1 = (stan, w2)" by force
  have low: "ToLower NATSOperatorName = NATSOperatorName" "ToLower STANOperatorName = STANOperatorName"
    by (simp_all add: ToLower_id NATSOperatorName_def STANOperatorName_def is_upper_def)
  from GetDeployment_result [OF assms(1,2) one] GetDeployment_result [OF assms(1) _ two] assms(3) one two
  show ?thesis by (auto simp: CheckMessagingSystem_def low)
qed

end

context kube_store
begin

lemma GetDeployment_total:
  assumes k: "kc_Client k = c" and w: "inv w"
  shows "\<exists>w'. GetDeployment k name namespace w =
    (case look w KDeployment (nn (ToLower name) namespace) of Some (ODeployment d) \<Rightarrow> Some d | _ \<Rightarrow> None, w')
    \<and> inv w' \<and> look w' = look w"
proof (cases "look w KDeployment (nn (ToLower name) namespace)")
  case None
  from get_none [OF w None] obtain e w' where get: "cl_Get c KDeployment (nn (ToLower name) namespace) w = (Inl e, w')"
    by blast
  with get_look [OF get w] None k show ?thesis by (simp add: GetDeployment_def)
next
  case (Some obj)
  from get_total [OF w Some] obtain w' where get: "cl_Get c KDeployment (nn (ToLower name) namespace) w = (Inr obj, w')"
    by blast
  with get_look [OF get w] Some k show ?thesis by (simp add: GetDeployment_def split: kobject.splits)
qed

end

section \<open>Properties\<close>



end
