(* ===== verification/SiddhiController.thy ===== *)
theory SiddhiController
  imports DeployManager Messaging
begin

text \<open>
  The controller of one SiddhiProcess (\<open>pkg/controller/siddhiprocess/siddhicontroller\<close>): the status
  and the versions of the process, the creation and clean-up of its artifacts, the checks of its
  deployments and the operator's configuration.

  The Go code works on a \<^emph>\<open>pointer\<close> to the process that it shares with its caller, and some of it saves
  and restores that pointer. The state therefore has a heap of processes and the controller holds
  an address. Events are a log, and log lines are left out. The order in which Go ranges over a
  map is a parameter, indexed by the loop.
\<close>

section \<open>Status values and configuration\<close>

definition status_names :: "string list" where
  "status_names = [''Pending'', ''Ready'', ''Running'', ''Error'', ''Warning'', ''Normal'', ''Not Ready'']"

definition PENDING :: nat where "PENDING = 0"
definition READY :: nat where "READY = 1"
definition RUNNING :: nat where "RUNNING = 2"
definition ERROR :: nat where "ERROR = 3"
definition WARNING :: nat where "WARNING = 4"
definition NORMAL :: nat where "NORMAL = 5"
definition NOTREADY :: nat where "NOTREADY = 6"

definition getStatus :: "nat \<Rightarrow> string" where
  "getStatus n = status_names ! n"

lemma getStatus_simps [simp]:
  "getStatus PENDING = ''Pending''" "getStatus READY = ''Ready''" "getStatus ERROR = ''Error''"
  "getStatus WARNING = ''Warning''" "getStatus NORMAL = ''Normal''" "getStatus NOTREADY = ''Not Ready''"
  by (simp_all add: getStatus_def status_names_def PENDING_def READY_def ERROR_def WARNING_def NORMAL_def NOTREADY_def)

definition OperatorCMName :: string where "OperatorCMName = ''siddhi-operator-config''"
definition SiddhiHome :: string where "SiddhiHome = ''/home/siddhi_user/siddhi-runner/''"
definition SiddhiImage :: string where "SiddhiImage = ''siddhiio/siddhi-runner-alpine:5.1.2''"
definition SiddhiProfile :: string where "SiddhiProfile = ''runner''"
definition AutoCreateIngress :: bool where "AutoCreateIngress = True"

section \<open>State\<close>

record ev_entry =
  ee_Type :: string
  ee_Reason :: string
  ee_Message :: string

record 'w ctl =
  ctl_SiddhiProcess :: nat
  ctl_KubeClient :: "'w kube_client"
  ctl_Image :: docker_image
  ctl_AutoCreateIngress :: bool
  ctl_TLS :: string
  ctl_heap :: "nat \<Rightarrow> siddhi_process"
  ctl_events :: "ev_entry list"
  ctl_cluster :: 'w

text \<open>\<open>*sc.SiddhiProcess\<close>, and an assignment through the pointer.\<close>

definition the_sp :: "'w ctl \<Rightarrow> siddhi_process" where
  "the_sp s = ctl_heap s (ctl_SiddhiProcess s)"

definition upd_sp :: "(siddhi_process \<Rightarrow> siddhi_process) \<Rightarrow> 'w ctl \<Rightarrow> 'w ctl" where
  "upd_sp f s = s\<lparr>ctl_heap := (ctl_heap s)(ctl_SiddhiProcess s := f (the_sp s))\<rparr>"

definition upd_status :: "(siddhi_process_status \<Rightarrow> siddhi_process_status) \<Rightarrow> 'w ctl \<Rightarrow> 'w ctl" where
  "upd_status f s = upd_sp (\<lambda>sp. sp\<lparr>sp_Status := f (sp_Status sp)\<rparr>) s"

definition record_event :: "string \<Rightarrow> string \<Rightarrow> string \<Rightarrow> 'w ctl \<Rightarrow> 'w ctl" where
  "record_event t reason message s =
     s\<lparr>ctl_events := ctl_events s @ [\<lparr>ee_Type = t, ee_Reason = reason, ee_Message = message\<rparr>]\<rparr>"

text \<open>\<open>Client.Status().Update(ctx, sc.SiddhiProcess)\<close>: the answer is decoded into the object.\<close>

definition push_status :: "'w ctl \<Rightarrow> goerror option \<times> 'w ctl" where
  "push_status s =
     (let (r, w) = cl_StatusUpdate (kc_Client (ctl_KubeClient s)) (OSiddhiProcess (the_sp s)) (ctl_cluster s);
          s' = s\<lparr>ctl_cluster := w\<rparr>
      in case r of
           Inl err \<Rightarrow> (Some err, s')
         | Inr (OSiddhiProcess sp) \<Rightarrow> (None, upd_sp (\<lambda>_. sp) s')
         | Inr _ \<Rightarrow> (None, s'))"

text \<open>\<open>s := sc.SiddhiProcess; ...; if err != nil { sc.SiddhiProcess = s }\<close>\<close>

definition push_or_restore :: "nat \<Rightarrow> 'w ctl \<Rightarrow> 'w ctl" where
  "push_or_restore ptr s =
     (let (err, s') = push_status s in if err \<noteq> None then s'\<lparr>ctl_SiddhiProcess := ptr\<rparr> else s')"

definition set_status :: "string \<Rightarrow> 'w ctl \<Rightarrow> 'w ctl" where
  "set_status st = upd_status (\<lambda>t. t\<lparr>st_Status := st\<rparr>)"

section \<open>Status updates\<close>

definition UpdateErrorStatus :: "string \<Rightarrow> goerror \<Rightarrow> 'w ctl \<Rightarrow> 'w ctl" where
  "UpdateErrorStatus reason er sc =
     push_or_restore (ctl_SiddhiProcess sc)
       (record_event (getStatus WARNING) reason (error_text er) (set_status (getStatus ERROR) sc))"

definition UpdateWarningStatus :: "string \<Rightarrow> string \<Rightarrow> 'w ctl \<Rightarrow> 'w ctl" where
  "UpdateWarningStatus reason message sc = snd (push_status (record_event (getStatus WARNING) reason message sc))"

definition UpdateRunningStatus :: "string \<Rightarrow> string \<Rightarrow> 'w ctl \<Rightarrow> 'w ctl" where
  "UpdateRunningStatus reason message sc =
     push_or_restore (ctl_SiddhiProcess sc)
       (if reason \<noteq> [] \<and> message \<noteq> [] then record_event (getStatus NORMAL) reason message sc else sc)"

definition partial_apps :: "(nat \<Rightarrow> string gomap \<Rightarrow> string gomap) \<Rightarrow> application list \<Rightarrow> partial_app list" where
  "partial_apps order applications =
     map (\<lambda>(i, a). \<lparr>pa_DeploymentName = ap_Name a, pa_Apps = map snd (order i (ap_Apps a))\<rparr>)
       (zip [0..<length applications] applications)"

definition UpdatePartialAppStatus ::
  "(nat \<Rightarrow> string gomap \<Rightarrow> string gomap) \<Rightarrow> application list \<Rightarrow> 'w ctl \<Rightarrow> 'w ctl" where
  "UpdatePartialAppStatus order applications sc =
     push_or_restore (ctl_SiddhiProcess sc)
       (upd_status (\<lambda>t. t\<lparr>st_PartialApps := partial_apps order applications\<rparr>) sc)"

definition UpdatePendingStatus :: "'w ctl \<Rightarrow> 'w ctl" where
  "UpdatePendingStatus sc = push_or_restore (ctl_SiddhiProcess sc) (set_status (getStatus PENDING) sc)"

definition UpdateNotReadytatus :: "'w ctl \<Rightarrow> 'w ctl" where
  "UpdateNotReadytatus sc = push_or_restore (ctl_SiddhiProcess sc) (set_status (getStatus NOTREADY) sc)"

definition UpdateReadyStatus :: "'w ctl \<Rightarrow> 'w ctl" where
  "UpdateReadyStatus sc = push_or_restore (ctl_SiddhiProcess sc) (set_status (getStatus READY) sc)"

definition UpdateReadyDeployments :: "goint \<Rightarrow> goint \<Rightarrow> 'w ctl \<Rightarrow> 'w ctl" where
  "UpdateReadyDeployments available need sc =
     push_or_restore (ctl_SiddhiProcess sc)
       (upd_status (\<lambda>t. t\<lparr>st_Ready := Itoa (sint available) @ ''/'' @ Itoa (sint need)\<rparr>) sc)"

section \<open>Versions\<close>

definition getEventType :: "int64 \<Rightarrow> int64 \<Rightarrow> operation_result" where
  "getEventType currentVersion previousVersion =
     (if currentVersion = 0 then OperationResultCreated
      else if lt64 previousVersion currentVersion then OperationResultUpdated
      else OperationResultNone)"

definition event_type :: "'w ctl \<Rightarrow> operation_result" where
  "event_type sc = (let st = sp_Status (the_sp sc) in getEventType (st_CurrentVersion st) (st_PreviousVersion st))"

definition SyncVersion :: "'w ctl \<Rightarrow> 'w ctl" where
  "SyncVersion sc = snd (push_status (upd_status (\<lambda>t. t\<lparr>st_PreviousVersion := st_CurrentVersion t\<rparr>) sc))"

definition UpgradeVersion :: "'w ctl \<Rightarrow> 'w ctl" where
  "UpgradeVersion sc = snd (push_status (upd_status (\<lambda>t. t\<lparr>st_CurrentVersion := st_CurrentVersion t + 1\<rparr>) sc))"

definition SetDefaultPendingState :: "'w ctl \<Rightarrow> 'w ctl" where
  "SetDefaultPendingState sc =
     (if event_type sc = OperationResultCreated \<and> st_Status (sp_Status (the_sp sc)) = []
      then UpdatePendingStatus sc else sc)"

definition SetNotReadyState :: "'w ctl \<Rightarrow> 'w ctl" where
  "SetNotReadyState sc = (if event_type sc = OperationResultUpdated then UpdateNotReadytatus sc else sc)"

section \<open>Artifacts\<close>

definition with_cluster :: "'w \<Rightarrow> 'w ctl \<Rightarrow> 'w ctl" where
  "with_cluster w sc = sc\<lparr>ctl_cluster := w\<rparr>"

definition manager_of :: "'w ctl \<Rightarrow> application \<Rightarrow> 'w deploy_manager" where
  "manager_of sc a =
     \<lparr>dm_Application = a, dm_KubeClient = ctl_KubeClient sc, dm_Labels = [], dm_Image = ctl_Image sc,
      dm_SiddhiProcess = the_sp sc\<rparr>"

text \<open>The event for a deployment or a service, when the operation was the one the version asks for.\<close>

definition announce :: "operation_result \<Rightarrow> operation_result \<Rightarrow> string \<Rightarrow> string \<Rightarrow> string \<Rightarrow> string \<Rightarrow> string \<Rightarrow>
    'w ctl \<Rightarrow> 'w ctl" where
  "announce eventType op createdReason createdText updatedReason updatedText name sc =
     (if eventType = OperationResultCreated \<and> op = OperationResultCreated
      then UpdateRunningStatus createdReason (name @ createdText) sc
      else if eventType = OperationResultUpdated \<and> op = OperationResultUpdated
      then UpdateRunningStatus updatedReason (name @ updatedText) sc
      else sc)"

text \<open>The service of an application, then its ingress rules.\<close>

definition create_ingress :: "application \<Rightarrow> 'w ctl \<Rightarrow> 'w ctl option" where
  "create_ingress a sc =
     (if \<not> ctl_AutoCreateIngress sc then Some sc
      else do {
        ((op, err), w) \<leftarrow> CreateOrUpdateIngress (ctl_KubeClient sc) (sp_Namespace (the_sp sc)) (ap_Name a)
          (ctl_TLS sc) (ap_ContainerPorts a) (ctl_cluster sc);
        let sc1 = with_cluster w sc;
        Some (case err of Some e \<Rightarrow> UpdateErrorStatus ''IngressCreationError'' e sc1 | None \<Rightarrow> sc1)
      })"

definition create_service :: "operation_result \<Rightarrow> application \<Rightarrow> string gomap \<Rightarrow> 'w ctl \<Rightarrow> 'w ctl option" where
  "create_service eventType a labels sc =
     (if \<not> ap_ServiceEnabled a then Some sc
      else do {
        ((op, err), w) \<leftarrow> CreateOrUpdateService (ctl_KubeClient sc) (ap_Name a) (sp_Namespace (the_sp sc))
          (ap_ContainerPorts a) labels (OSiddhiProcess (the_sp sc)) (ctl_cluster sc);
        let sc1 = with_cluster w sc;
        case err of
          Some e \<Rightarrow> Some (UpdateErrorStatus ''ServiceCreationError'' e sc1)
        | None \<Rightarrow>
            create_ingress a (announce eventType op ''ServiceCreated'' '' service created successfully''
              ''ServiceUpdated'' '' service updated successfully'' (ap_Name a) sc1)
      })"

text \<open>The body of the loop over the applications.\<close>

definition create_artifact :: "yaml_unmarshal \<Rightarrow> operation_result \<Rightarrow> application \<Rightarrow> 'w ctl \<Rightarrow> 'w ctl option" where
  "create_artifact yaml eventType a sc = do {
     ((op, err, d), w) \<leftarrow> Deploy yaml (manager_of sc a) (ctl_cluster sc);
     let sc1 = with_cluster w sc;
     case err of
       Some e \<Rightarrow> Some (UpdateErrorStatus ''AppDeploymentError'' e sc1)
     | None \<Rightarrow>
         create_service eventType a (dm_Labels d)
           (announce eventType (case op of None \<Rightarrow> OperationResultNone | Some r \<Rightarrow> r)
              ''DeploymentCreated'' '' deployment created successfully''
              ''DeploymentUpdated'' '' deployment updated successfully'' (ap_Name a) sc1)
   }"

fun create_artifacts :: "yaml_unmarshal \<Rightarrow> operation_result \<Rightarrow> application list \<Rightarrow> 'w ctl \<Rightarrow> 'w ctl option" where
  "create_artifacts yaml eventType [] sc = Some sc"
| "create_artifacts yaml eventType (a # as) sc = do {
     sc1 \<leftarrow> create_artifact yaml eventType a sc;
     create_artifacts yaml eventType as sc1
   }"

text \<open>\<open>availableDep\<close> is counted and never used; the number written as ready is 0.\<close>

definition CreateArtifacts :: "yaml_unmarshal \<Rightarrow> (nat \<Rightarrow> string gomap \<Rightarrow> string gomap) \<Rightarrow> application list \<Rightarrow>
    'w ctl \<Rightarrow> 'w ctl option" where
  "CreateArtifacts yaml order applications sc =
     (let eventType = event_type sc;
          active = (eventType = OperationResultCreated \<or> eventType = OperationResultUpdated);
          needDep = (if active then of_nat (length applications) else 0);
          sc1 = UpdatePartialAppStatus order applications sc
      in do {
        sc2 \<leftarrow> (if active then create_artifacts yaml eventType applications sc1 else Some sc1);
        let sc3 = SyncVersion sc2;
        Some (if active then UpdateReadyDeployments 0 needDep sc3 else sc3)
      })"

section \<open>Checks\<close>

text \<open>\<open>Get\<close> of the deployment of an application; reading the replicas of one that has none panics.\<close>

definition get_deployment :: "application \<Rightarrow> 'w ctl \<Rightarrow> deployment option \<times> 'w ctl" where
  "get_deployment a sc =
     (let (r, w) = cl_Get (kc_Client (ctl_KubeClient sc)) KDeployment
            (nn (ToLower (ap_Name a)) (sp_Namespace (the_sp sc))) (ctl_cluster sc)
      in (case r of Inr (ODeployment d) \<Rightarrow> Some d | _ \<Rightarrow> None, with_cluster w sc))"

definition check_deployment :: "application \<Rightarrow> 'w ctl \<Rightarrow> 'w ctl option" where
  "check_deployment a sc =
     (let (r, sc1) = get_deployment a sc
      in case r of
           None \<Rightarrow> Some sc1
         | Some d \<Rightarrow>
             (case ds_Replicas (dep_Spec d) of
                None \<Rightarrow> None
              | Some n \<Rightarrow>
                  if n = ap_Replicas a then Some sc1
                  else (let (err, w) = cl_Update (kc_Client (ctl_KubeClient sc1))
                              (ODeployment (d\<lparr>dep_Spec := (dep_Spec d)\<lparr>ds_Replicas := Some (ap_Replicas a)\<rparr>\<rparr>))
                              (ctl_cluster sc1);
                            sc2 = with_cluster w sc1
                        in case err of
                             Some e \<Rightarrow> Some (UpdateErrorStatus ''DeploymentUpdationError'' e sc2)
                           | None \<Rightarrow> Some sc2)))"

fun CheckDeployments :: "application list \<Rightarrow> 'w ctl \<Rightarrow> 'w ctl option" where
  "CheckDeployments [] sc = Some sc"
| "CheckDeployments (a # as) sc = do { sc1 \<leftarrow> check_deployment a sc; CheckDeployments as sc1 }"

text \<open>The counters of \<open>CheckAvailableDeployments\<close>.\<close>

record availability =
  av_available :: goint
  av_need :: goint
  av_isStatelessReady :: bool
  av_needStateful :: goint
  av_availableStateful :: goint

definition zero_availability :: availability where
  "zero_availability = \<lparr>av_available = 0, av_need = 0, av_isStatelessReady = True, av_needStateful = 0,
     av_availableStateful = 0\<rparr>"

definition count_deployment :: "application \<Rightarrow> deployment option \<Rightarrow> availability \<Rightarrow> availability" where
  "count_deployment a r v =
     (let need = int_of_int32 (ap_Replicas a);
          avail = (case r of Some d \<Rightarrow> int_of_int32 (dstat_AvailableReplicas (dep_Status d)) | None \<Rightarrow> 0);
          v1 = v\<lparr>av_need := av_need v + need, av_available := av_available v + avail\<rparr>
      in if ap_PersistenceEnabled a
         then v1\<lparr>av_needStateful := av_needStateful v1 + need, av_availableStateful := av_availableStateful v1 + avail\<rparr>
         else (if r \<noteq> None \<and> avail = 0 then v1\<lparr>av_isStatelessReady := False\<rparr> else v1))"

fun count_deployments :: "application list \<Rightarrow> availability \<Rightarrow> 'w ctl \<Rightarrow> availability \<times> 'w ctl" where
  "count_deployments [] v sc = (v, sc)"
| "count_deployments (a # as) v sc =
     (let (r, sc1) = get_deployment a sc in count_deployments as (count_deployment a r v) sc1)"

definition CheckAvailableDeployments :: "application list \<Rightarrow> 'w ctl \<Rightarrow> bool \<times> 'w ctl" where
  "CheckAvailableDeployments applications sc =
     (let (v, sc1) = count_deployments applications zero_availability sc;
          sc2 = UpdateReadyDeployments (av_available v) (av_need v) sc1
      in if av_need v = av_available v then (True, UpdateReadyStatus sc2)
         else if av_isStatelessReady v \<and> av_needStateful v = av_availableStateful v
         then (False, UpdateReadyStatus sc2)
         else if st_Status (sp_Status (the_sp sc2)) \<noteq> getStatus ERROR then (False, UpdateNotReadytatus sc2)
         else (False, sc2))"

definition GetDeploymentCount :: "application list \<Rightarrow> 'w ctl \<Rightarrow> nat \<times> 'w ctl" where
  "GetDeploymentCount applications sc =
     fold (\<lambda>a (n, s).
         let (r, w) = GetDeployment (ctl_KubeClient s) (ap_Name a) (sp_Namespace (the_sp s)) (ctl_cluster s)
         in (if r \<noteq> None then n + 1 else n, with_cluster w s)) applications (0, sc)"

section \<open>Clean-up\<close>

text \<open>The body of the loop, with the early return of the first error.\<close>

definition clean_artifact :: "nat \<Rightarrow> 'w ctl \<Rightarrow> goerror option \<times> 'w ctl" where
  "clean_artifact i sc =
     (let name = sp_Name (the_sp sc) @ ''-'' @ Itoa (int i); ns = sp_Namespace (the_sp sc);
          k = ctl_KubeClient sc;
          (err1, w1) = DeleteDeployment k name ns (ctl_cluster sc); sc1 = with_cluster w1 sc
      in if err1 \<noteq> None then (err1, sc1)
         else (let sc2 = UpdateRunningStatus ''DeploymentDeleted'' (name @ '' deployment deleted successfully'') sc1;
                   (err2, w2) = DeleteService k name ns (ctl_cluster sc2); sc3 = with_cluster w2 sc2
               in if err2 \<noteq> None then (err2, sc3)
                  else (let sc4 = UpdateRunningStatus ''ServiceDeleted'' (name @ '' service deleted successfully'') sc3;
                            (err3, w3) = DeletePVC k (name @ PVCExtension) ns (ctl_cluster sc4);
                            sc5 = with_cluster w3 sc4
                        in if err3 \<noteq> None then (err3, sc5)
                           else (let cmName = name @ Itoa (sint (st_PreviousVersion (sp_Status (the_sp sc5))));
                                     (err4, w4) = DeleteConfigMap k cmName ns (ctl_cluster sc5)
                                 in (err4, with_cluster w4 sc5)))))"

fun clean_artifacts :: "nat list \<Rightarrow> 'w ctl \<Rightarrow> goerror option \<times> 'w ctl" where
  "clean_artifacts [] sc = (None, sc)"
| "clean_artifacts (i # is) sc =
     (let (err, sc1) = clean_artifact i sc
      in if err \<noteq> None then (err, sc1) else clean_artifacts is sc1)"

definition CleanArtifacts :: "application list \<Rightarrow> application list \<Rightarrow> 'w ctl \<Rightarrow> goerror option \<times> 'w ctl" where
  "CleanArtifacts oldApps newApps sc = clean_artifacts [length newApps..<length oldApps] sc"

section \<open>The operator's configuration\<close>

definition set_config :: "string gomap \<Rightarrow> 'w ctl \<Rightarrow> 'w ctl" where
  "set_config data sc =
     (let get = (\<lambda>key old. case map_of data key of Some v \<Rightarrow> v | None \<Rightarrow> old); im = ctl_Image sc
      in sc\<lparr>ctl_Image := im\<lparr>im_Home := get ''siddhiHome'' (im_Home im), im_Name := get ''siddhiImage'' (im_Name im),
                           im_Secret := get ''siddhiImageSecret'' (im_Secret im),
                           im_Profile := get ''siddhiProfile'' (im_Profile im)\<rparr>,
            ctl_AutoCreateIngress :=
              (case map_of data ''autoIngressCreation'' of Some v \<Rightarrow> v = ''true'' | None \<Rightarrow> ctl_AutoCreateIngress sc),
            ctl_TLS := get ''ingressTLS'' (ctl_TLS sc)\<rparr>)"

text \<open>The end of \<open>UpdateDefaultConfigs\<close>: what the process itself names.\<close>

definition user_config :: "'w ctl \<Rightarrow> 'w ctl" where
  "user_config sc =
     (let spec = sp_Spec (the_sp sc);
          sc1 = (if ct_Image (sps_Container spec) \<noteq> []
                 then sc\<lparr>ctl_Image := (ctl_Image sc)\<lparr>im_Name := ct_Image (sps_Container spec)\<rparr>\<rparr> else sc)
      in if sps_ImagePullSecret spec \<noteq> []
         then sc1\<lparr>ctl_Image := (ctl_Image sc1)\<lparr>im_Secret := sps_ImagePullSecret spec\<rparr>\<rparr> else sc1)"

definition UpdateDefaultConfigs :: "(string \<Rightarrow> string) \<Rightarrow> 'w ctl \<Rightarrow> 'w ctl" where
  "UpdateDefaultConfigs getenv sc =
     (let env = getenv ''OPERATOR_CONFIGMAP'';
          cmName = (if env \<noteq> [] then env else OperatorCMName);
          sc1 = sc\<lparr>ctl_Image := (ctl_Image sc)\<lparr>im_Home := SiddhiHome, im_Name := SiddhiImage, im_Profile := SiddhiProfile\<rparr>,
                   ctl_AutoCreateIngress := AutoCreateIngress\<rparr>;
          (r, w) = cl_Get (kc_Client (ctl_KubeClient sc1)) KConfigMap (nn cmName (sp_Namespace (the_sp sc1)))
            (ctl_cluster sc1);
          sc2 = with_cluster w sc1;
          sc3 = (case r of Inr (OConfigMap cm) \<Rightarrow> set_config (cm_Data cm) sc2 | _ \<Rightarrow> sc2)
      in user_config sc3)"

section \<open>What the controller keeps\<close>

text \<open>
  What the operator relies on in a status update: one that succeeds answers with the status and
  the spec it was sent (a spec that changed in the meantime is a conflict, hence an error).
\<close>

locale kube_status = kube_defaulting +
  assumes status_kept: "cl_StatusUpdate c (OSiddhiProcess sp) w = (Inr (OSiddhiProcess sp'), w') \<Longrightarrow> inv w \<Longrightarrow>
    sp_Status sp' = sp_Status sp \<and> sp_Spec sp' = sp_Spec sp"

interpretation cached_stat: kube_status cached_client tracker_look "\<lambda>obj. obj" tracker_inv
  by unfold_locales (auto simp: cached_client_def split: prod.splits option.splits)

interpretation faulty_stat: kube_status "faulty cached_client" "\<lambda>p. tracker_look (fst p)" "\<lambda>obj. obj"
    "\<lambda>p. tracker_inv (fst p)"
  by unfold_locales
    (auto simp: faulty_def cached_client_def elim!: inject_cases split: prod.splits option.splits)

definition sp_key :: "'w ctl \<Rightarrow> namespaced_name" where
  "sp_key s = nn (sp_Name (the_sp s)) (sp_Namespace (the_sp s))"

text \<open>
  The fields of the controller's state that no operation on artifacts changes: the pointer, the
  configuration, and of the process everything but its status, of which the current version stays.
\<close>

definition same_ctl :: "'w ctl \<Rightarrow> 'w ctl \<Rightarrow> bool" where
  "same_ctl s s' \<longleftrightarrow>
     ctl_SiddhiProcess s' = ctl_SiddhiProcess s \<and> ctl_KubeClient s' = ctl_KubeClient s \<and> ctl_Image s' = ctl_Image s \<and>
     ctl_AutoCreateIngress s' = ctl_AutoCreateIngress s \<and> ctl_TLS s' = ctl_TLS s \<and>
     sp_Spec (the_sp s') = sp_Spec (the_sp s) \<and> sp_key s' = sp_key s \<and>
     st_CurrentVersion (sp_Status (the_sp s')) = st_CurrentVersion (sp_Status (the_sp s))"

lemma same_ctl_refl [simp]: "same_ctl s s"
  by (simp add: same_ctl_def)

lemma same_ctl_trans: "same_ctl s s' \<Longrightarrow> same_ctl s' s'' \<Longrightarrow> same_ctl s s''"
  by (simp add: same_ctl_def)

lemma ctl_same_key: "same_ctl s s' \<Longrightarrow> sp_key s' = sp_key s"
  by (simp add: same_ctl_def)

lemma the_sp_upd_sp [simp]: "the_sp (upd_sp f s) = f (the_sp s)"
  by (simp add: the_sp_def upd_sp_def)

lemma upd_sp_fields [simp]:
  "ctl_SiddhiProcess (upd_sp f s) = ctl_SiddhiProcess s" "ctl_KubeClient (upd_sp f s) = ctl_KubeClient s"
  "ctl_Image (upd_sp f s) = ctl_Image s" "ctl_AutoCreateIngress (upd_sp f s) = ctl_AutoCreateIngress s"
  "ctl_TLS (upd_sp f s) = ctl_TLS s" "ctl_cluster (upd_sp f s) = ctl_cluster s" "ctl_events (upd_sp f s) = ctl_events s"
  by (simp_all add: upd_sp_def)

lemma the_sp_upd_status [simp]: "the_sp (upd_status f s) = (the_sp s)\<lparr>sp_Status := f (sp_Status (the_sp s))\<rparr>"
  by (simp add: upd_status_def)

lemma upd_status_fields [simp]:
  "ctl_SiddhiProcess (upd_status f s) = ctl_SiddhiProcess s" "ctl_KubeClient (upd_status f s) = ctl_KubeClient s"
  "ctl_cluster (upd_status f s) = ctl_cluster s" "ctl_events (upd_status f s) = ctl_events s"
  by (simp_all add: upd_status_def)

lemma record_event_fields [simp]:
  "the_sp (record_event t r m s) = the_sp s" "ctl_SiddhiProcess (record_event t r m s) = ctl_SiddhiProcess s"
  "ctl_KubeClient (record_event t r m s) = ctl_KubeClient s" "ctl_cluster (record_event t r m s) = ctl_cluster s"
  by (simp_all add: record_event_def the_sp_def)

lemma with_cluster_fields [simp]:
  "the_sp (with_cluster w s) = the_sp s" "ctl_SiddhiProcess (with_cluster w s) = ctl_SiddhiProcess s"
  "ctl_KubeClient (with_cluster w s) = ctl_KubeClient s" "ctl_cluster (with_cluster w s) = w"
  "same_ctl s (with_cluster w s)" "sp_key (with_cluster w s) = sp_key s"
  by (simp_all add: with_cluster_def the_sp_def same_ctl_def sp_key_def)

lemma with_cluster_twice [simp]: "with_cluster w2 (with_cluster w1 s) = with_cluster w2 s"
  by (simp add: with_cluster_def)

lemma same_ctl_upd_status:
  "(\<And>t. st_CurrentVersion (f t) = st_CurrentVersion t) \<Longrightarrow> same_ctl s (upd_status f s)"
  by (simp add: same_ctl_def sp_key_def upd_status_def)

lemma same_ctl_set_status [simp]: "same_ctl s (set_status st s)"
  by (simp add: set_status_def same_ctl_upd_status)

lemma same_ctl_record_event [simp]: "same_ctl s (record_event t r m s)"
  by (simp add: same_ctl_def sp_key_def) (simp add: record_event_def)

lemma same_ctl_event: "same_ctl s s1 \<Longrightarrow> same_ctl s (record_event t r m s1)"
  using same_ctl_record_event same_ctl_trans by blast

lemma set_status_fields [simp]:
  "the_sp (set_status st s) = (the_sp s)\<lparr>sp_Status := (sp_Status (the_sp s))\<lparr>st_Status := st\<rparr>\<rparr>"
  "ctl_cluster (set_status st s) = ctl_cluster s" "ctl_SiddhiProcess (set_status st s) = ctl_SiddhiProcess s"
  "ctl_KubeClient (set_status st s) = ctl_KubeClient s"
  by (simp_all add: set_status_def)

lemma key_of_process: "key_of (OSiddhiProcess sp) = nn (sp_Name sp) (sp_Namespace sp)"
  by (simp add: key_of_def nn_def)

text \<open>One step of the controller on the server, within a set of objects.\<close>

definition ctl_step :: "('w \<Rightarrow> kind \<Rightarrow> namespaced_name \<Rightarrow> kobject option) \<Rightarrow> ('w \<Rightarrow> bool) \<Rightarrow>
    (kind \<times> namespaced_name) set \<Rightarrow> 'w ctl \<Rightarrow> 'w ctl \<Rightarrow> bool" where
  "ctl_step l ok S s s' \<longleftrightarrow> same_ctl s s' \<and> ok (ctl_cluster s') \<and> touches (l (ctl_cluster s)) (l (ctl_cluster s')) S"

lemma ctl_step_refl: "ok (ctl_cluster s) \<Longrightarrow> ctl_step l ok S s s"
  by (simp add: ctl_step_def)

lemma ctl_step_trans:
  "ctl_step l ok S s s' \<Longrightarrow> ctl_step l ok T s' s'' \<Longrightarrow> S \<subseteq> U \<Longrightarrow> T \<subseteq> U \<Longrightarrow> ctl_step l ok U s s''"
  unfolding ctl_step_def by (blast intro: same_ctl_trans touches_trans)

lemma ctl_step_mono: "ctl_step l ok S s s' \<Longrightarrow> S \<subseteq> T \<Longrightarrow> ctl_step l ok T s s'"
  unfolding ctl_step_def by (blast intro: touches_mono)

lemma ctl_step_same:
  "ctl_step l ok S s s' \<Longrightarrow> ctl_KubeClient s' = ctl_KubeClient s \<and> sp_key s' = sp_key s \<and> ok (ctl_cluster s') \<and>
     same_ctl s s'"
  by (simp add: ctl_step_def same_ctl_def)

context kube_status
begin

abbreviation "sp_step s s' \<equiv> ctl_step look inv {(KSiddhiProcess, sp_key s)} s s'"

lemma push_status_step:
  assumes "kc_Client (ctl_KubeClient s) = c" and w: "inv (ctl_cluster s)" and run: "push_status s = (err, s')"
  shows "sp_step s s' \<and> sp_Status (the_sp s') = sp_Status (the_sp s) \<and> ctl_events s' = ctl_events s"
proof -
  obtain r w' where upd: "cl_StatusUpdate c (OSiddhiProcess (the_sp s)) (ctl_cluster s) = (r, w')" by force
  from status_inv [OF upd w] have w': "inv w'" .
  show ?thesis
  proof (cases r)
    case (Inl e)
    with status_fail [OF upd [unfolded Inl] w] run upd w' assms(1) show ?thesis
      by (auto simp: push_status_def ctl_step_def same_ctl_def the_sp_def sp_key_def)
  next
    case (Inr obj)
    from status_ok [OF upd [unfolded Inr] w] have obj: "kind_of obj = KSiddhiProcess"
      "key_of obj = key_of (OSiddhiProcess (the_sp s))" and
      l: "look w' = (look (ctl_cluster s))(KSiddhiProcess := (look (ctl_cluster s) KSiddhiProcess)
            (key_of (OSiddhiProcess (the_sp s)) \<mapsto> obj))" by auto
    from obj(1) obtain sp where sp: "obj = OSiddhiProcess sp" by (auto simp: kind_of_eqs)
    from status_kept [OF upd [unfolded Inr sp] w] have st: "sp_Status sp = sp_Status (the_sp s)"
      "sp_Spec sp = sp_Spec (the_sp s)" by auto
    have s': "s' = upd_sp (\<lambda>_. sp) (s\<lparr>ctl_cluster := w'\<rparr>)"
      using run upd Inr sp assms(1) by (simp add: push_status_def)
    then have "the_sp s' = sp" by simp
    moreover have "nn (sp_Name sp) (sp_Namespace sp) = sp_key s"
      using obj(2) sp by (simp add: key_of_process sp_key_def)
    moreover have "touches (look (ctl_cluster s)) (look w') {(KSiddhiProcess, sp_key s)}"
      using l by (simp add: touches_def key_of_process sp_key_def)
    ultimately show ?thesis
      using s' st w' by (simp add: ctl_step_def same_ctl_def sp_key_def)
  qed
qed

lemma push_or_restore_step:
  assumes k: "kc_Client (ctl_KubeClient s) = c" and w: "inv (ctl_cluster s)" and ptr: "ptr = ctl_SiddhiProcess s"
  shows "sp_step s (push_or_restore ptr s) \<and> sp_Status (the_sp (push_or_restore ptr s)) = sp_Status (the_sp s)"
proof -
  obtain err s' where run: "push_status s = (err, s')" by force
  from push_status_step [OF k w run] have step: "sp_step s s'" "sp_Status (the_sp s') = sp_Status (the_sp s)"
    by auto
  then have "ctl_SiddhiProcess s' = ptr" by (simp add: ctl_step_def same_ctl_def ptr)
  then have "push_or_restore ptr s = s'" using run by (simp add: push_or_restore_def)
  with step show ?thesis by simp
qed

text \<open>A status update after a change of the status in memory.\<close>

lemma push_after:
  assumes k: "kc_Client (ctl_KubeClient s) = c" and w: "inv (ctl_cluster s)"
    and same: "same_ctl s s1" and cl: "ctl_cluster s1 = ctl_cluster s"
  shows "sp_step s (push_or_restore (ctl_SiddhiProcess s) s1) \<and>
    sp_Status (the_sp (push_or_restore (ctl_SiddhiProcess s) s1)) = sp_Status (the_sp s1)"
proof -
  from same have "kc_Client (ctl_KubeClient s1) = c" "ctl_SiddhiProcess s = ctl_SiddhiProcess s1" "sp_key s1 = sp_key s"
    using k by (simp_all add: same_ctl_def)
  with push_or_restore_step [of s1 "ctl_SiddhiProcess s"] w cl same show ?thesis
    by (auto simp: ctl_step_def intro: same_ctl_trans)
qed

lemma status_steps:
  assumes k: "kc_Client (ctl_KubeClient s) = c" and w: "inv (ctl_cluster s)"
  shows "sp_step s (UpdateErrorStatus reason e s)" and "sp_step s (UpdateRunningStatus reason message s)"
    and "sp_step s (UpdatePartialAppStatus order applications s)" and "sp_step s (UpdatePendingStatus s)"
    and "sp_step s (UpdateNotReadytatus s)" and "sp_step s (UpdateReadyStatus s)"
    and "sp_step s (UpdateReadyDeployments available need s)"
proof -
  note step = push_after [OF k w, THEN conjunct1]
  show "sp_step s (UpdateErrorStatus reason e s)"
    unfolding UpdateErrorStatus_def by (rule step) (simp_all add: same_ctl_event)
  show "sp_step s (UpdateRunningStatus reason message s)"
    unfolding UpdateRunningStatus_def by (rule step) simp_all
  show "sp_step s (UpdatePartialAppStatus order applications s)"
    unfolding UpdatePartialAppStatus_def by (rule step) (simp_all add: same_ctl_upd_status)
  show "sp_step s (UpdatePendingStatus s)" "sp_step s (UpdateNotReadytatus s)" "sp_step s (UpdateReadyStatus s)"
    unfolding UpdatePendingStatus_def UpdateNotReadytatus_def UpdateReadyStatus_def by (rule step; simp)+
  show "sp_step s (UpdateReadyDeployments available need s)"
    unfolding UpdateReadyDeployments_def by (rule step) (simp_all add: same_ctl_upd_status)
qed

end

section \<open>The artifacts of an application\<close>

definition keeps_key :: "mutate_fn \<Rightarrow> bool" where
  "keeps_key f \<longleftrightarrow> (\<forall>obj e obj'. f obj = Some (e, obj') \<longrightarrow> kind_of obj' = kind_of obj \<and> key_of obj' = key_of obj)"

lemma keeps_key_Ingress: "keeps_key (IngressMutateFunc namespace serviceName tls ports)"
  by (auto simp: keeps_key_def IngressMutateFunc_def Let_def bind_eq_Some_conv key_of_def split: kobject.splits)

context kube_api
begin

text \<open>Whatever the mutate function does beyond that, a call that returns touches one object only.\<close>

lemma create_present: "cl_Create c obj w = (e, w') \<Longrightarrow> inv w \<Longrightarrow> look w k n \<noteq> None \<Longrightarrow> look w' k n \<noteq> None"
  using create_ok [of obj w w'] create_fail [of obj w "the e" w'] by (cases e) auto

lemma update_present: "cl_Update c obj w = (e, w') \<Longrightarrow> inv w \<Longrightarrow> look w k n \<noteq> None \<Longrightarrow> look w' k n \<noteq> None"
  using update_ok [of obj w w'] update_fail [of obj w "the e" w'] by (cases e) auto

lemma CreateOrUpdate_frame:
  assumes f: "keeps_key f" and w: "inv w" and run: "CreateOrUpdate c obj f w = Some ((op, err), w')"
  shows "inv w' \<and> touches (look w) (look w') {(kind_of obj, key_of obj)}"
proof -
  obtain r w1 where get: "cl_Get c (kind_of obj) (key_of obj) w = (r, w1)" by force
  from get_look [OF get w] have w1: "inv w1" "look w1 = look w" by auto
  let ?base = "case r of Inr srv \<Rightarrow> srv | Inl err \<Rightarrow> obj"
  have base: "kind_of ?base = kind_of obj \<and> key_of ?base = key_of obj"
    using get_found [of "kind_of obj" "key_of obj" w _ w1] get w by (cases r) auto
  from run get obtain e obj2 where obj2: "f ?base = Some (e, obj2)"
    by (auto simp: CreateOrUpdate_def Let_def bind_eq_Some_conv)
  with f base have key: "kind_of obj2 = kind_of obj" "key_of obj2 = key_of obj"
    unfolding keeps_key_def by metis+
  have "w' = w1 \<or> (\<exists>eo. cl_Create c obj2 w1 = (eo, w')) \<or> (\<exists>eo. cl_Update c obj2 w1 = (eo, w'))"
    using run get obj2
    by (auto simp: CreateOrUpdate_def Let_def split: prod.splits option.splits if_splits sum.splits)
  then show ?thesis
  proof (elim disjE exE)
    fix eo assume "cl_Create c obj2 w1 = (eo, w')"
    from create_inv [OF this w1(1)] create_other [OF this w1(1)] create_present [OF this w1(1)] w1 key
    show ?thesis by (simp add: touches_def)
  next
    fix eo assume "cl_Update c obj2 w1 = (eo, w')"
    from update_inv [OF this w1(1)] update_other [OF this w1(1)] update_present [OF this w1(1)] w1 key
    show ?thesis by (simp add: touches_def)
  qed (use w1 in simp)
qed

end

text \<open>The objects the loop may touch for one application.\<close>

definition artifact_targets :: "'w ctl \<Rightarrow> application \<Rightarrow> (kind \<times> namespaced_name) set" where
  "artifact_targets s a =
     (let ns = sp_Namespace (the_sp s)
      in deploy_targets (manager_of s a) \<union>
         {(KService, nn (ap_Name a) ns), (KIngress, nn IngressName ns), (KSiddhiProcess, sp_key s)})"

lemma artifact_targets_same: "same_ctl s s' \<Longrightarrow> artifact_targets s' a = artifact_targets s a"
  by (simp add: artifact_targets_def same_ctl_def sp_key_def deploy_targets_def manager_of_def config_cm_name_def
      apps_cm_name_def)

context kube_status
begin

text \<open>A change of the cluster followed by a step of the controller.\<close>

lemma then_step:
  assumes t: "touches (look (ctl_cluster s)) (look w) S" and "ctl_step look inv T (with_cluster w s) s'"
    and "S \<subseteq> U" and "T \<subseteq> U"
  shows "ctl_step look inv U s s'"
  using assms unfolding ctl_step_def
  by (auto intro: same_ctl_trans [OF with_cluster_fields(5)] touches_trans)

lemma announce_step:
  assumes "kc_Client (ctl_KubeClient s) = c" and "inv (ctl_cluster s)"
  shows "sp_step s (announce ev op r1 t1 r2 t2 name s)"
  using status_steps(2) [OF assms] assms(2) by (simp add: announce_def ctl_step_refl)

lemma create_ingress_step:
  assumes k: "kc_Client (ctl_KubeClient s) = c" and w: "inv (ctl_cluster s)" and run: "create_ingress a s = Some s'"
  shows "ctl_step look inv (artifact_targets s a) s s'"
proof (cases "ctl_AutoCreateIngress s")
  case False
  with run w show ?thesis by (simp add: create_ingress_def ctl_step_refl)
next
  case True
  with run obtain op err w1 where call: "CreateOrUpdateIngress (ctl_KubeClient s) (sp_Namespace (the_sp s)) (ap_Name a)
      (ctl_TLS s) (ap_ContainerPorts a) (ctl_cluster s) = Some ((op, err), w1)"
    and s': "s' = (case err of Some e \<Rightarrow> UpdateErrorStatus ''IngressCreationError'' e (with_cluster w1 s)
      | None \<Rightarrow> with_cluster w1 s)"
    by (auto simp: create_ingress_def bind_eq_Some_conv Let_def)
  from call k have "CreateOrUpdate c (OIngress (siddhi_ingress (sp_Namespace (the_sp s)) (ap_Name a) (ctl_TLS s) (ap_ContainerPorts a)))
      (IngressMutateFunc (sp_Namespace (the_sp s)) (ap_Name a) (ctl_TLS s) (ap_ContainerPorts a)) (ctl_cluster s) =
      Some ((op, err), w1)" by (simp add: CreateOrUpdateIngress_def)
  from CreateOrUpdate_frame [OF keeps_key_Ingress w this]
  have t: "inv w1" "touches (look (ctl_cluster s)) (look w1) {(KIngress, nn IngressName (sp_Namespace (the_sp s)))}"
    by (simp_all add: key_of_new)
  have "sp_step (with_cluster w1 s) s'"
    unfolding s' using status_steps(1) [of "with_cluster w1 s"] k t(1) by (cases err) (simp_all add: ctl_step_refl)
  then show ?thesis
    by (rule then_step [OF t(2)]) (auto simp: artifact_targets_def Let_def)
qed

lemma create_service_step:
  assumes k: "kc_Client (ctl_KubeClient s) = c" and w: "inv (ctl_cluster s)"
    and run: "create_service ev a labels s = Some s'"
  shows "ctl_step look inv (artifact_targets s a) s s'"
proof (cases "ap_ServiceEnabled a")
  case False
  with run w show ?thesis by (simp add: create_service_def ctl_step_refl)
next
  case True
  from Service_result [OF k w, of "ap_Name a" "sp_Namespace (the_sp s)" "ap_ContainerPorts a" labels "OSiddhiProcess (the_sp s)"]
  obtain op err w1 where call: "CreateOrUpdateService (ctl_KubeClient s) (ap_Name a) (sp_Namespace (the_sp s))
      (ap_ContainerPorts a) labels (OSiddhiProcess (the_sp s)) (ctl_cluster s) = Some ((op, err), w1)" "inv w1"
    and t: "touches (look (ctl_cluster s)) (look w1) {(KService, nn (ap_Name a) (sp_Namespace (the_sp s)))}"
    by (blast dest: outcome_touches)
  let ?s1 = "with_cluster w1 s"
  have sub: "{(KService, nn (ap_Name a) (sp_Namespace (the_sp s)))} \<subseteq> artifact_targets s a"
    "{(KSiddhiProcess, sp_key ?s1)} \<subseteq> artifact_targets s a"
    by (auto simp: artifact_targets_def Let_def)
  have k1: "kc_Client (ctl_KubeClient ?s1) = c" "inv (ctl_cluster ?s1)" using k call by simp_all
  show ?thesis
  proof (cases err)
    case (Some e)
    with run True call have "s' = UpdateErrorStatus ''ServiceCreationError'' e ?s1"
      by (simp add: create_service_def Let_def)
    with then_step [OF t status_steps(1) [OF k1] sub] show ?thesis by simp
  next
    case None
    let ?s2 = "announce ev op ''ServiceCreated'' '' service created successfully''
              ''ServiceUpdated'' '' service updated successfully'' (ap_Name a) ?s1"
    from None run True call have run2: "create_ingress a ?s2 = Some s'"
      by (simp add: create_service_def Let_def)
    note step2 = announce_step [OF k1]
    from ctl_step_same [OF step2] k1 have k2: "kc_Client (ctl_KubeClient ?s2) = c" "inv (ctl_cluster ?s2)" by auto
    from ctl_step_same [OF step2] have "artifact_targets ?s2 a = artifact_targets s a"
      by (intro artifact_targets_same) (blast intro: same_ctl_trans with_cluster_fields(5))
    with create_ingress_step [OF k2 run2]
    have "ctl_step look inv (artifact_targets s a) ?s2 s'" by simp
    from ctl_step_trans [OF step2 this sub(2) subset_refl] then_step [OF t _ sub(1) subset_refl]
    show ?thesis by blast
  qed
qed

lemma create_artifact_step:
  assumes k: "kc_Client (ctl_KubeClient s) = c" and w: "inv (ctl_cluster s)"
    and run: "create_artifact yaml ev a s = Some s'"
  shows "ctl_step look inv (artifact_targets s a) s s'"
proof -
  let ?d = "manager_of s a"
  have d: "dm_KubeClient ?d = ctl_KubeClient s" by (simp add: manager_of_def)
  from Deploy_result [of ?d "ctl_cluster s" yaml, unfolded d, OF k w] obtain op err w1 where
    call: "Deploy yaml ?d (ctl_cluster s) = Some ((op, err, CreateLabels ?d), w1)" "inv w1"
    and t: "touches (look (ctl_cluster s)) (look w1) (deploy_targets ?d)" by blast
  let ?s1 = "with_cluster w1 s"
  have sub: "deploy_targets ?d \<subseteq> artifact_targets s a" "{(KSiddhiProcess, sp_key ?s1)} \<subseteq> artifact_targets s a"
    by (auto simp: artifact_targets_def Let_def)
  have k1: "kc_Client (ctl_KubeClient ?s1) = c" "inv (ctl_cluster ?s1)" using k call by simp_all
  show ?thesis
  proof (cases err)
    case (Some e)
    with run call have "s' = UpdateErrorStatus ''AppDeploymentError'' e ?s1"
      by (simp add: create_artifact_def Let_def)
    with then_step [OF t status_steps(1) [OF k1] sub] show ?thesis by simp
  next
    case None
    let ?s2 = "announce ev (case op of None \<Rightarrow> OperationResultNone | Some r \<Rightarrow> r)
              ''DeploymentCreated'' '' deployment created successfully''
              ''DeploymentUpdated'' '' deployment updated successfully'' (ap_Name a) ?s1"
    from None run call have run2: "create_service ev a (dm_Labels (CreateLabels ?d)) ?s2 = Some s'"
      by (simp add: create_artifact_def Let_def)
    note step2 = announce_step [OF k1]
    from ctl_step_same [OF step2] k1 have k2: "kc_Client (ctl_KubeClient ?s2) = c" "inv (ctl_cluster ?s2)" by auto
    from ctl_step_same [OF step2] have "artifact_targets ?s2 a = artifact_targets s a"
      by (intro artifact_targets_same) (blast intro: same_ctl_trans with_cluster_fields(5))
    with create_service_step [OF k2 run2]
    have "ctl_step look inv (artifact_targets s a) ?s2 s'" by simp
    from ctl_step_trans [OF step2 this sub(2) subset_refl] then_step [OF t _ sub(1) subset_refl]
    show ?thesis by blast
  qed
qed

lemma create_artifacts_step:
  assumes "kc_Client (ctl_KubeClient s) = c" and "inv (ctl_cluster s)"
    and "create_artifacts yaml ev as s = Some s'"
  shows "ctl_step look inv (\<Union>a \<in> set as. artifact_targets s a) s s'"
  using assms
proof (induction as arbitrary: s)
  case Nil
  then show ?case by (simp add: ctl_step_refl)
next
  case (Cons a as)
  from Cons.prems(3) obtain s1 where one: "create_artifact yaml ev a s = Some s1"
    and two: "create_artifacts yaml ev as s1 = Some s'" by (auto simp: bind_eq_Some_conv)
  note step1 = create_artifact_step [OF Cons.prems(1,2) one]
  from ctl_step_same [OF step1] Cons.prems have k1: "kc_Client (ctl_KubeClient s1) = c" "inv (ctl_cluster s1)" by auto
  from ctl_step_same [OF step1] have "artifact_targets s1 = artifact_targets s"
    by (auto simp: artifact_targets_same)
  with Cons.IH [OF k1 two] have "ctl_step look inv (\<Union>a \<in> set as. artifact_targets s a) s1 s'" by simp
  from ctl_step_trans [OF step1 this] show ?case by auto
qed

lemma SyncVersion_step:
  assumes k: "kc_Client (ctl_KubeClient s) = c" and w: "inv (ctl_cluster s)"
  shows "sp_step s (SyncVersion s) \<and>
    st_PreviousVersion (sp_Status (the_sp (SyncVersion s))) = st_CurrentVersion (sp_Status (the_sp s))"
proof -
  let ?s1 = "upd_status (\<lambda>t. t\<lparr>st_PreviousVersion := st_CurrentVersion t\<rparr>) s"
  have same: "same_ctl s ?s1" by (rule same_ctl_upd_status) simp
  obtain err s' where run: "push_status ?s1 = (err, s')" by force
  from push_status_step [OF _ _ run] k w have "ctl_step look inv {(KSiddhiProcess, sp_key ?s1)} ?s1 s'"
    "sp_Status (the_sp s') = sp_Status (the_sp ?s1)" by auto
  moreover from same have "sp_key ?s1 = sp_key s" by (simp add: same_ctl_def)
  ultimately show ?thesis
    using same run by (auto simp: SyncVersion_def ctl_step_def intro: same_ctl_trans)
qed

lemma UpgradeVersion_step:
  assumes k: "kc_Client (ctl_KubeClient s) = c" and w: "inv (ctl_cluster s)"
  shows "sp_Status (the_sp (UpgradeVersion s)) =
      (sp_Status (the_sp s))\<lparr>st_CurrentVersion := st_CurrentVersion (sp_Status (the_sp s)) + 1\<rparr> \<and>
    ctl_events (UpgradeVersion s) = ctl_events s \<and>
    touches (look (ctl_cluster s)) (look (ctl_cluster (UpgradeVersion s))) {(KSiddhiProcess, sp_key s)}"
proof -
  let ?s1 = "upd_status (\<lambda>t. t\<lparr>st_CurrentVersion := st_CurrentVersion t + 1\<rparr>) s"
  obtain err s' where run: "push_status ?s1 = (err, s')" by force
  have "sp_key ?s1 = sp_key s" by (simp add: sp_key_def)
  with push_status_step [OF _ _ run] k w run show ?thesis
    by (simp add: UpgradeVersion_def ctl_step_def)
qed

lemma CreateArtifacts_version:
  assumes k: "kc_Client (ctl_KubeClient s) = c" and w: "inv (ctl_cluster s)"
    and run: "CreateArtifacts yaml order as s = Some s'"
  shows "st_PreviousVersion (sp_Status (the_sp s')) = st_CurrentVersion (sp_Status (the_sp s'))"
proof -
  let ?s1 = "UpdatePartialAppStatus order as s"
  note step1 = status_steps(3) [OF k w, of order as]
  from ctl_step_same [OF step1] k have k1: "kc_Client (ctl_KubeClient ?s1) = c" "inv (ctl_cluster ?s1)" by auto
  from run obtain s2 where "create_artifacts yaml (event_type s) as ?s1 = Some s2 \<or> s2 = ?s1"
    and s': "s' = SyncVersion s2 \<or> s' = UpdateReadyDeployments 0 (of_nat (length as)) (SyncVersion s2)"
    by (auto simp: CreateArtifacts_def Let_def bind_eq_Some_conv split: if_splits)
  with create_artifacts_step [OF k1] ctl_step_same k1 have k2: "kc_Client (ctl_KubeClient s2) = c" "inv (ctl_cluster s2)"
    by metis+
  note step3 = SyncVersion_step [OF k2]
  from step3 have same: "same_ctl s2 (SyncVersion s2)" by (simp add: ctl_step_def)
  from ctl_step_same [OF step3 [THEN conjunct1]] k2 have
    k3: "kc_Client (ctl_KubeClient (SyncVersion s2)) = c" "inv (ctl_cluster (SyncVersion s2))" by auto
  have settled: "st_PreviousVersion (sp_Status (the_sp (SyncVersion s2))) = st_CurrentVersion (sp_Status (the_sp (SyncVersion s2)))"
    using step3 same by (simp add: same_ctl_def)
  have "sp_Status (the_sp (UpdateReadyDeployments 0 n (SyncVersion s2))) =
      (sp_Status (the_sp (SyncVersion s2)))\<lparr>st_Ready := Itoa 0 @ ''/'' @ Itoa (sint n)\<rparr>" for n
    unfolding UpdateReadyDeployments_def by (simp add: push_after [OF k3] same_ctl_upd_status)
  with settled s' show ?thesis by auto
qed

lemma create_artifacts_total:
  assumes "kc_Client (ctl_KubeClient s) = c" and "inv (ctl_cluster s)" and "\<not> ctl_AutoCreateIngress s"
  shows "create_artifacts yaml ev as s \<noteq> None"
  using assms
proof (induction as arbitrary: s)
  case Nil
  then show ?case by simp
next
  case (Cons a as)
  let ?d = "manager_of s a"
  from Deploy_result [of ?d "ctl_cluster s" yaml] Cons.prems obtain op err w1 where
    call: "Deploy yaml ?d (ctl_cluster s) = Some ((op, err, CreateLabels ?d), w1)" "inv w1"
    by (auto simp: manager_of_def)
  have service: "create_service ev a labels s1 \<noteq> None"
    if k1: "kc_Client (ctl_KubeClient s1) = c" "inv (ctl_cluster s1)" and off: "\<not> ctl_AutoCreateIngress s1" for labels s1
  proof -
    obtain op' err' w2 where svc: "CreateOrUpdateService (ctl_KubeClient s1) (ap_Name a) (sp_Namespace (the_sp s1))
        (ap_ContainerPorts a) labels (OSiddhiProcess (the_sp s1)) (ctl_cluster s1) = Some ((op', err'), w2)" "inv w2"
      using Service_result [OF k1] by blast
    let ?s2 = "announce ev op' ''ServiceCreated'' '' service created successfully''
          ''ServiceUpdated'' '' service updated successfully'' (ap_Name a) (with_cluster w2 s1)"
    have "sp_step (with_cluster w2 s1) ?s2" using k1 svc by (intro announce_step) simp_all
    with off have "\<not> ctl_AutoCreateIngress ?s2" by (simp add: ctl_step_def same_ctl_def with_cluster_def)
    with svc(1) show ?thesis
      by (simp add: create_service_def create_ingress_def Let_def split: option.splits)
  qed
  have "create_artifact yaml ev a s \<noteq> None"
  proof (cases err)
    case (Some e)
    with call show ?thesis by (simp add: create_artifact_def Let_def)
  next
    case None
    let ?s2 = "announce ev (case op of None \<Rightarrow> OperationResultNone | Some r \<Rightarrow> r)
              ''DeploymentCreated'' '' deployment created successfully''
              ''DeploymentUpdated'' '' deployment updated successfully'' (ap_Name a) (with_cluster w1 s)"
    have "sp_step (with_cluster w1 s) ?s2" using Cons.prems call by (intro announce_step) simp_all
    then have "kc_Client (ctl_KubeClient ?s2) = c" "inv (ctl_cluster ?s2)" "\<not> ctl_AutoCreateIngress ?s2"
      using Cons.prems by (simp_all add: ctl_step_def same_ctl_def with_cluster_def)
    from service [OF this] None call show ?thesis
      by (simp add: create_artifact_def Let_def)
  qed
  then obtain s1 where one: "create_artifact yaml ev a s = Some s1" by blast
  from create_artifact_step [OF Cons.prems(1,2) one] Cons.prems
  have "kc_Client (ctl_KubeClient s1) = c" "inv (ctl_cluster s1)" "\<not> ctl_AutoCreateIngress s1"
    by (simp_all add: ctl_step_def same_ctl_def)
  from Cons.IH [OF this] one show ?case by simp
qed

lemma CreateArtifacts_total:
  assumes k: "kc_Client (ctl_KubeClient s) = c" and w: "inv (ctl_cluster s)" and off: "\<not> ctl_AutoCreateIngress s"
  shows "CreateArtifacts yaml order as s \<noteq> None"
proof -
  let ?s1 = "UpdatePartialAppStatus order as s"
  from status_steps(3) [OF k w, of order as] k off have
    "kc_Client (ctl_KubeClient ?s1) = c" "inv (ctl_cluster ?s1)" "\<not> ctl_AutoCreateIngress ?s1"
    by (simp_all add: ctl_step_def same_ctl_def)
  from create_artifacts_total [OF this, of yaml "event_type s" as] show ?thesis
    by (auto simp: CreateArtifacts_def Let_def)
qed

lemma CreateArtifacts_step:
  assumes k: "kc_Client (ctl_KubeClient s) = c" and w: "inv (ctl_cluster s)"
    and run: "CreateArtifacts yaml order as s = Some s'"
  shows "ctl_step look inv (insert (KSiddhiProcess, sp_key s)
    (if event_type s = OperationResultNone then {} else \<Union>a \<in> set as. artifact_targets s a)) s s'"
    (is "ctl_step look inv ?T s s'")
proof -
  define active where "active \<longleftrightarrow> event_type s = OperationResultCreated \<or> event_type s = OperationResultUpdated"
  have act: "active \<longleftrightarrow> event_type s \<noteq> OperationResultNone"
    by (cases "event_type s") (simp_all add: active_def)
  let ?s1 = "UpdatePartialAppStatus order as s"
  note step1 = status_steps(3) [OF k w, of order as]
  from ctl_step_same [OF step1] k have k1: "kc_Client (ctl_KubeClient ?s1) = c" "inv (ctl_cluster ?s1)"
    and key1: "sp_key ?s1 = sp_key s" and same1: "same_ctl s ?s1" by auto
  from run obtain s2 where two: "(if active then create_artifacts yaml (event_type s) as ?s1 else Some ?s1) = Some s2"
    and s': "s' = (let s3 = SyncVersion s2 in if active then UpdateReadyDeployments 0 (of_nat (length as)) s3 else s3)"
    by (auto simp: CreateArtifacts_def Let_def bind_eq_Some_conv active_def [symmetric])
  have "artifact_targets ?s1 = artifact_targets s" using same1 by (auto simp: artifact_targets_same)
  with two create_artifacts_step [OF k1, of yaml "event_type s" as s2] k1
  have "ctl_step look inv (if active then \<Union>a \<in> set as. artifact_targets s a else {}) ?s1 s2"
    by (auto simp: ctl_step_refl split: if_splits)
  moreover have "(if active then \<Union>a \<in> set as. artifact_targets s a else {}) \<subseteq> ?T" using act by auto
  ultimately have step2: "ctl_step look inv ?T s s2" by (intro ctl_step_trans [OF step1]) simp_all
  from ctl_step_same [OF step2] k have k2: "kc_Client (ctl_KubeClient s2) = c" "inv (ctl_cluster s2)"
    and key2: "sp_key s2 = sp_key s" by auto
  note step3 = SyncVersion_step [OF k2, THEN conjunct1]
  from ctl_step_trans [OF step2 step3, of ?T] key2 have step23: "ctl_step look inv ?T s (SyncVersion s2)" by simp
  from ctl_step_same [OF step23] k have k3: "kc_Client (ctl_KubeClient (SyncVersion s2)) = c" "inv (ctl_cluster (SyncVersion s2))"
    and key3: "sp_key (SyncVersion s2) = sp_key s" by auto
  from ctl_step_trans [OF step23 status_steps(7) [OF k3], of ?T] key3 step23 show ?thesis
    by (simp add: s' Let_def)
qed

end

section \<open>On a server that answers\<close>

locale kube_live = kube_store + kube_status

interpretation cached_live: kube_live cached_client tracker_look "\<lambda>obj. obj" tracker_inv
  by unfold_locales

text \<open>The deployment of an application, as the checks look it up.\<close>

definition deployment_of :: "(kind \<Rightarrow> namespaced_name \<Rightarrow> kobject option) \<Rightarrow> string \<Rightarrow> application \<Rightarrow> deployment option" where
  "deployment_of l ns a =
     (case l KDeployment (nn (ToLower (ap_Name a)) ns) of Some (ODeployment d) \<Rightarrow> Some d | _ \<Rightarrow> None)"

definition count_all :: "(application \<Rightarrow> deployment option) \<Rightarrow> application list \<Rightarrow> availability \<Rightarrow> availability" where
  "count_all dep as v = fold (\<lambda>a. count_deployment a (dep a)) as v"

definition available :: "deployment option \<Rightarrow> goint" where
  "available r = (case r of Some d \<Rightarrow> int_of_int32 (dstat_AvailableReplicas (dep_Status d)) | None \<Rightarrow> 0)"

definition wanted :: "application \<Rightarrow> goint" where
  "wanted a = int_of_int32 (ap_Replicas a)"

lemma count_all_fields:
  "av_need (count_all dep as v) = av_need v + sum_list (map wanted as)"
  "av_available (count_all dep as v) = av_available v + sum_list (map (available \<circ> dep) as)"
  "av_needStateful (count_all dep as v) =
     av_needStateful v + sum_list (map wanted (filter ap_PersistenceEnabled as))"
  "av_availableStateful (count_all dep as v) =
     av_availableStateful v + sum_list (map (available \<circ> dep) (filter ap_PersistenceEnabled as))"
  "av_isStatelessReady (count_all dep as v) \<longleftrightarrow> av_isStatelessReady v \<and>
     (\<forall>a \<in> set as. \<not> ap_PersistenceEnabled a \<longrightarrow> dep a = None \<or> available (dep a) \<noteq> 0)"
  by (induction as arbitrary: v)
    (auto simp: count_all_def count_deployment_def Let_def wanted_def available_def add.assoc split: option.splits)

text \<open>Cleaning: one index removes four objects.\<close>

definition clean_targets :: "string \<Rightarrow> string \<Rightarrow> int64 \<Rightarrow> nat \<Rightarrow> (kind \<times> namespaced_name) set" where
  "clean_targets spName ns version i =
     (let name = spName @ ''-'' @ Itoa (int i)
      in {(KDeployment, nn name ns), (KService, nn name ns), (KPVC, nn (name @ PVCExtension) ns),
          (KConfigMap, nn (name @ Itoa (sint version)) ns)})"

definition removed :: "(kind \<Rightarrow> namespaced_name \<Rightarrow> kobject option) \<Rightarrow> (kind \<times> namespaced_name) set \<Rightarrow> namespaced_name \<Rightarrow>
    (kind \<Rightarrow> namespaced_name \<Rightarrow> kobject option) \<Rightarrow> bool" where
  "removed l S key l' \<longleftrightarrow>
     (\<forall>kd n. (kd, n) \<noteq> (KSiddhiProcess, key) \<longrightarrow> l' kd n = (if (kd, n) \<in> S then None else l kd n))"

lemma removed_trans: "removed l S key l' \<Longrightarrow> removed l' T key l'' \<Longrightarrow> removed l (S \<union> T) key l''"
  by (auto simp: removed_def)

lemma removed_empty: "touches l l' {(KSiddhiProcess, key)} \<Longrightarrow> removed l {} key l'"
  by (simp add: removed_def touches_def)

lemma removed_one: "l' = l(kd := (l kd)(n := None)) \<Longrightarrow> removed l {(kd, n)} key l'"
  by (simp add: removed_def)

context kube_live
begin

lemma get_deployment_live:
  assumes k: "kc_Client (ctl_KubeClient s) = c" and w: "inv (ctl_cluster s)"
  shows "\<exists>w1. get_deployment a s = (deployment_of (look (ctl_cluster s)) (sp_Namespace (the_sp s)) a, with_cluster w1 s) \<and>
    inv w1 \<and> look w1 = look (ctl_cluster s)"
proof (cases "look (ctl_cluster s) KDeployment (nn (ToLower (ap_Name a)) (sp_Namespace (the_sp s)))")
  case None
  from get_none [OF w None] obtain e w1 where
    get: "cl_Get c KDeployment (nn (ToLower (ap_Name a)) (sp_Namespace (the_sp s))) (ctl_cluster s) = (Inl e, w1)" by blast
  with get_look [OF get w] None k show ?thesis
    by (intro exI [of _ w1]) (simp add: get_deployment_def deployment_of_def)
next
  case (Some obj)
  from get_total [OF w Some] obtain w1 where
    get: "cl_Get c KDeployment (nn (ToLower (ap_Name a)) (sp_Namespace (the_sp s))) (ctl_cluster s) = (Inr obj, w1)" by blast
  with get_look [OF get w] Some k show ?thesis
    by (intro exI [of _ w1]) (simp add: get_deployment_def deployment_of_def split: kobject.splits)
qed

lemma count_deployments_live:
  assumes "kc_Client (ctl_KubeClient s) = c" and "inv (ctl_cluster s)"
  shows "\<exists>w1. count_deployments as v s =
      (count_all (deployment_of (look (ctl_cluster s)) (sp_Namespace (the_sp s))) as v, with_cluster w1 s) \<and>
    inv w1 \<and> look w1 = look (ctl_cluster s)"
  using assms
proof (induction as arbitrary: s v)
  case Nil
  then show ?case by (intro exI [of _ "ctl_cluster s"]) (simp add: count_all_def with_cluster_def)
next
  case (Cons a as)
  from get_deployment_live [OF Cons.prems, of a] obtain w1 where
    one: "get_deployment a s = (deployment_of (look (ctl_cluster s)) (sp_Namespace (the_sp s)) a, with_cluster w1 s)"
    "inv w1" "look w1 = look (ctl_cluster s)" by blast
  let ?dep = "deployment_of (look (ctl_cluster s)) (sp_Namespace (the_sp s))"
  from Cons.IH [of "with_cluster w1 s" "count_deployment a (?dep a) v"] Cons.prems(1) one(2,3) obtain w2 where
    "count_deployments as (count_deployment a (deployment_of (look (ctl_cluster s)) (sp_Namespace (the_sp s)) a) v)
        (with_cluster w1 s) =
      (count_all (deployment_of (look (ctl_cluster s)) (sp_Namespace (the_sp s))) as
        (count_deployment a (deployment_of (look (ctl_cluster s)) (sp_Namespace (the_sp s)) a) v), with_cluster w2 s)"
    "inv w2" "look w2 = look (ctl_cluster s)"
    by auto
  with one(1) show ?case by (auto simp: count_all_def)
qed

lemma set_status_push:
  assumes k: "kc_Client (ctl_KubeClient s) = c" and w: "inv (ctl_cluster s)"
  shows "sp_Status (the_sp (UpdateReadyStatus s)) = (sp_Status (the_sp s))\<lparr>st_Status := ''Ready''\<rparr>"
    and "sp_Status (the_sp (UpdateNotReadytatus s)) = (sp_Status (the_sp s))\<lparr>st_Status := ''Not Ready''\<rparr>"
    and "sp_Status (the_sp (UpdateReadyDeployments av need s)) =
      (sp_Status (the_sp s))\<lparr>st_Ready := Itoa (sint av) @ ''/'' @ Itoa (sint need)\<rparr>"
  unfolding UpdateReadyStatus_def UpdateNotReadytatus_def UpdateReadyDeployments_def
  by (simp_all add: push_after [OF k w] same_ctl_upd_status)

lemma CheckAvailable_live:
  fixes as :: "application list"
  assumes k: "kc_Client (ctl_KubeClient s) = c" and w: "inv (ctl_cluster s)"
  defines "v \<equiv> count_all (deployment_of (look (ctl_cluster s)) (sp_Namespace (the_sp s))) as zero_availability"
  shows "case CheckAvailableDeployments as s of (terminate, s') \<Rightarrow>
    (terminate \<longleftrightarrow> av_need v = av_available v) \<and> sp_step s s' \<and>
    sp_Status (the_sp s') = (sp_Status (the_sp s))
      \<lparr>st_Ready := Itoa (sint (av_available v)) @ ''/'' @ Itoa (sint (av_need v)),
       st_Status :=
         (if av_need v = av_available v \<or> av_isStatelessReady v \<and> av_needStateful v = av_availableStateful v
          then ''Ready'' else if st_Status (sp_Status (the_sp s)) = ''Error'' then ''Error'' else ''Not Ready'')\<rparr>"
proof -
  from count_deployments_live [OF k w, of as zero_availability] obtain w1 where
    cnt: "count_deployments as zero_availability s = (v, with_cluster w1 s)" "inv w1" "look w1 = look (ctl_cluster s)"
    unfolding v_def by blast
  let ?s1 = "with_cluster w1 s"
  define s2 where "s2 = UpdateReadyDeployments (av_available v) (av_need v) ?s1"
  define ready where "ready = Itoa (sint (av_available v)) @ ''/'' @ Itoa (sint (av_need v))"
  have k1: "kc_Client (ctl_KubeClient ?s1) = c" "inv (ctl_cluster ?s1)" using k cnt by simp_all
  have st2: "sp_Status (the_sp s2) = (sp_Status (the_sp s))\<lparr>st_Ready := ready\<rparr>"
    using set_status_push(3) [OF k1] by (simp add: s2_def ready_def)
  have "touches (look (ctl_cluster s)) (look w1) {(KSiddhiProcess, sp_key s)}" using cnt(3) by simp
  from then_step [OF this status_steps(7) [OF k1]] have step2: "sp_step s s2" by (simp add: s2_def)
  from ctl_step_same [OF step2] k have k2: "kc_Client (ctl_KubeClient s2) = c" "inv (ctl_cluster s2)"
    and key2: "sp_key s2 = sp_key s" by auto
  have "sp_step s (UpdateReadyStatus s2)" "sp_step s (UpdateNotReadytatus s2)"
    using ctl_step_trans [OF step2, of "{(KSiddhiProcess, sp_key s)}"] status_steps(5,6) [OF k2] key2 by auto
  moreover have "(sp_Status (the_sp s))\<lparr>st_Ready := ready, st_Status := ''Error''\<rparr> = (sp_Status (the_sp s))\<lparr>st_Ready := ready\<rparr>"
    if "st_Status (sp_Status (the_sp s)) = ''Error''"
    using that by (cases "sp_Status (the_sp s)") simp
  moreover have "CheckAvailableDeployments as s =
      (if av_need v = av_available v then (True, UpdateReadyStatus s2)
         else if av_isStatelessReady v \<and> av_needStateful v = av_availableStateful v
         then (False, UpdateReadyStatus s2)
         else if st_Status (sp_Status (the_sp s2)) \<noteq> ''Error'' then (False, UpdateNotReadytatus s2)
         else (False, s2))"
    by (simp add: CheckAvailableDeployments_def cnt(1) Let_def s2_def)
  ultimately show ?thesis
    unfolding ready_def [symmetric] using step2 st2 set_status_push(1,2) [OF k2] by simp
qed

text \<open>Scaling: every deployment found gets the replicas of its application.\<close>

lemma check_deployment_live:
  assumes k: "kc_Client (ctl_KubeClient s) = c" and w: "inv (ctl_cluster s)"
    and has: "\<And>d. deployment_of (look (ctl_cluster s)) (sp_Namespace (the_sp s)) a = Some d \<Longrightarrow> ds_Replicas (dep_Spec d) \<noteq> None"
  defines "n \<equiv> nn (ToLower (ap_Name a)) (sp_Namespace (the_sp s))"
  shows "\<exists>s'. check_deployment a s = Some s' \<and> ctl_step look inv {(KDeployment, n)} s s' \<and>
    (\<forall>d. deployment_of (look (ctl_cluster s)) (sp_Namespace (the_sp s)) a = Some d \<longrightarrow>
       (\<exists>d'. look (ctl_cluster s') KDeployment n = Some (ODeployment d') \<and> ds_Replicas (dep_Spec d') = Some (ap_Replicas a)))"
proof -
  let ?l = "look (ctl_cluster s)" and ?ns = "sp_Namespace (the_sp s)"
  from get_deployment_live [OF k w, of a] obtain w1 where
    one: "get_deployment a s = (deployment_of ?l ?ns a, with_cluster w1 s)" "inv w1" "look w1 = ?l" by blast
  have step1: "ctl_step look inv {(KDeployment, n)} s (with_cluster w1 s)"
    using one(2,3) by (simp add: ctl_step_def)
  show ?thesis
  proof (cases "deployment_of ?l ?ns a")
    case None
    with one(1) step1 show ?thesis by (simp add: check_deployment_def)
  next
    case (Some d)
    then have lk: "?l KDeployment n = Some (ODeployment d)"
      by (simp add: deployment_of_def n_def split: option.splits kobject.splits)
    from has [OF Some] obtain m where m: "ds_Replicas (dep_Spec d) = Some m" by blast
    show ?thesis
    proof (cases "m = ap_Replicas a")
      case True
      with one step1 Some m lk show ?thesis by (simp add: check_deployment_def)
    next
      case False
      let ?d' = "d\<lparr>dep_Spec := (dep_Spec d)\<lparr>ds_Replicas := Some (ap_Replicas a)\<rparr>\<rparr>"
      have key: "key_of (ODeployment ?d') = n"
        using look_obj [OF w lk] by (simp add: key_of_def)
      from update_total [of w1 "ODeployment ?d'"] one(2,3) lk key obtain w2 where
        upd: "cl_Update c (ODeployment ?d') w1 = (None, w2)" by auto
      from update_ok [OF upd one(2)] update_inv [OF upd one(2)] one(3) key
      have w2: "inv w2" "look w2 = ?l(KDeployment := (?l KDeployment)(n \<mapsto> adm (ODeployment ?d')))" by auto
      from adm_deployment [of ?d'] obtain d2 where
        d2: "adm (ODeployment ?d') = ODeployment d2" "ds_Replicas (dep_Spec d2) = Some (ap_Replicas a)" by auto
      have "check_deployment a s = Some (with_cluster w2 s)"
        using one(1) Some m False upd k by (simp add: check_deployment_def)
      moreover have "ctl_step look inv {(KDeployment, n)} s (with_cluster w2 s)"
        using w2 by (simp add: ctl_step_def touches_def)
      ultimately show ?thesis using w2(2) d2 by (intro exI [of _ "with_cluster w2 s"]) simp
    qed
  qed
qed

lemma CheckDeployments_live:
  assumes "kc_Client (ctl_KubeClient s) = c" and "inv (ctl_cluster s)"
    and "\<And>a d. a \<in> set as \<Longrightarrow> deployment_of (look (ctl_cluster s)) (sp_Namespace (the_sp s)) a = Some d \<Longrightarrow>
      ds_Replicas (dep_Spec d) \<noteq> None"
    and "distinct (map (ToLower \<circ> ap_Name) as)"
  shows "\<exists>s'. CheckDeployments as s = Some s' \<and>
    ctl_step look inv ((\<lambda>a. (KDeployment, nn (ToLower (ap_Name a)) (sp_Namespace (the_sp s)))) ` set as) s s' \<and>
    (\<forall>a \<in> set as. \<forall>d. deployment_of (look (ctl_cluster s)) (sp_Namespace (the_sp s)) a = Some d \<longrightarrow>
       (\<exists>d'. deployment_of (look (ctl_cluster s')) (sp_Namespace (the_sp s)) a = Some d' \<and>
          ds_Replicas (dep_Spec d') = Some (ap_Replicas a)))"
  using assms
proof (induction as arbitrary: s)
  case Nil
  then show ?case by (simp add: ctl_step_refl)
next
  case (Cons a as)
  let ?ns = "sp_Namespace (the_sp s)" and ?n = "\<lambda>a. nn (ToLower (ap_Name a)) (sp_Namespace (the_sp s))"
  note has = Cons.prems(3) [OF list.set_intros(1)]
  from check_deployment_live [OF Cons.prems(1,2) has] obtain s1 where
    one: "check_deployment a s = Some s1" "ctl_step look inv {(KDeployment, ?n a)} s s1"
    "\<And>d. deployment_of (look (ctl_cluster s)) ?ns a = Some d \<Longrightarrow>
       \<exists>d'. look (ctl_cluster s1) KDeployment (?n a) = Some (ODeployment d') \<and> ds_Replicas (dep_Spec d') = Some (ap_Replicas a)"
    by blast
  from ctl_step_same [OF one(2)] Cons.prems(1) have k1: "kc_Client (ctl_KubeClient s1) = c" "inv (ctl_cluster s1)"
    and ns: "sp_Namespace (the_sp s1) = ?ns"
    by (auto simp: same_ctl_def sp_key_def)
  have other: "deployment_of (look (ctl_cluster s1)) ?ns b = deployment_of (look (ctl_cluster s)) ?ns b"
    if "b \<in> set as" for b
  proof -
    from Cons.prems(4) that have "?n b \<noteq> ?n a" by (auto simp: image_iff)
    then have "look (ctl_cluster s1) KDeployment (?n b) = look (ctl_cluster s) KDeployment (?n b)"
      using one(2) by (simp add: ctl_step_def touches_def)
    then show ?thesis by (simp add: deployment_of_def)
  qed
  have "\<exists>s'. CheckDeployments as s1 = Some s' \<and> ctl_step look inv ((\<lambda>a. (KDeployment, ?n a)) ` set as) s1 s' \<and>
    (\<forall>b \<in> set as. \<forall>d. deployment_of (look (ctl_cluster s1)) ?ns b = Some d \<longrightarrow>
       (\<exists>d'. deployment_of (look (ctl_cluster s')) ?ns b = Some d' \<and> ds_Replicas (dep_Spec d') = Some (ap_Replicas b)))"
  proof (rule Cons.IH [OF k1, unfolded ns])
    show "ds_Replicas (dep_Spec d) \<noteq> None" if "b \<in> set as" "deployment_of (look (ctl_cluster s1)) ?ns b = Some d" for b d
      using Cons.prems(3) [of b d] that other by simp
    show "distinct (map (ToLower \<circ> ap_Name) as)" using Cons.prems(4) by (simp add: o_def)
  qed
  then obtain s' where two: "CheckDeployments as s1 = Some s'"
    "ctl_step look inv ((\<lambda>a. (KDeployment, ?n a)) ` set as) s1 s'"
    "\<forall>b \<in> set as. \<forall>d. deployment_of (look (ctl_cluster s)) ?ns b = Some d \<longrightarrow>
       (\<exists>d'. deployment_of (look (ctl_cluster s')) ?ns b = Some d' \<and> ds_Replicas (dep_Spec d') = Some (ap_Replicas b))"
    using other by auto
  have "(KDeployment, ?n a) \<notin> (\<lambda>a. (KDeployment, ?n a)) ` set as" using Cons.prems(4) by (auto simp: image_iff)
  with two(2) have "look (ctl_cluster s') KDeployment (?n a) = look (ctl_cluster s1) KDeployment (?n a)"
    unfolding ctl_step_def touches_def by blast
  with one(3) have "\<forall>d. deployment_of (look (ctl_cluster s)) ?ns a = Some d \<longrightarrow>
       (\<exists>d'. deployment_of (look (ctl_cluster s')) ?ns a = Some d' \<and> ds_Replicas (dep_Spec d') = Some (ap_Replicas a))"
    by (fastforce simp: deployment_of_def)
  moreover from ctl_step_trans [OF one(2) two(2)]
  have "ctl_step look inv ((\<lambda>a. (KDeployment, ?n a)) ` set (a # as)) s s'" by auto
  ultimately show ?case using one(1) two(1,3) by simp
qed

text \<open>The state after a deletion, and after the status update that follows it.\<close>

lemma delete_then:
  assumes k: "kc_Client (ctl_KubeClient s) = c" and w: "inv (ctl_cluster s)"
  shows "\<exists>w1. delete_kind kd (ctl_KubeClient s) name ns (ctl_cluster s) = (None, w1) \<and> inv w1 \<and>
    removed (look (ctl_cluster s)) {(kd, nn name ns)} key (look w1)"
  using delete_kind_total [OF k w, of kd name ns] removed_one by blast

lemma running_then:
  assumes k: "kc_Client (ctl_KubeClient s) = c" and w: "inv (ctl_cluster s)"
  shows "same_ctl s (UpdateRunningStatus r m s) \<and> inv (ctl_cluster (UpdateRunningStatus r m s)) \<and>
    sp_Status (the_sp (UpdateRunningStatus r m s)) = sp_Status (the_sp s) \<and>
    removed (look (ctl_cluster s)) {} (sp_key s) (look (ctl_cluster (UpdateRunningStatus r m s)))"
proof -
  let ?s1 = "if r \<noteq> [] \<and> m \<noteq> [] then record_event (getStatus NORMAL) r m s else s"
  have "sp_Status (the_sp (UpdateRunningStatus r m s)) = sp_Status (the_sp s)"
    using push_after [OF k w, of ?s1] by (simp add: UpdateRunningStatus_def)
  with status_steps(2) [OF k w, of r m] show ?thesis
    by (simp add: ctl_step_def removed_empty)
qed

lemma clean_artifact_live:
  assumes k: "kc_Client (ctl_KubeClient s) = c" and w: "inv (ctl_cluster s)"
  shows "\<exists>s'. clean_artifact i s = (None, s') \<and> same_ctl s s' \<and> inv (ctl_cluster s') \<and>
    sp_Status (the_sp s') = sp_Status (the_sp s) \<and>
    removed (look (ctl_cluster s)) (clean_targets (sp_Name (the_sp s)) (sp_Namespace (the_sp s))
      (st_PreviousVersion (sp_Status (the_sp s))) i) (sp_key s) (look (ctl_cluster s'))"
proof -
  define name where "name = sp_Name (the_sp s) @ ''-'' @ Itoa (int i)"
  let ?ns = "sp_Namespace (the_sp s)"
  define k' where "k' = ctl_KubeClient s"
  define key where "key = sp_key s"
  obtain w1 where d1: "delete_kind KDeployment k' name ?ns (ctl_cluster s) = (None, w1)" "inv w1"
    "removed (look (ctl_cluster s)) {(KDeployment, nn name ?ns)} key (look w1)"
    using delete_then [OF k w] unfolding k'_def by blast
  define s1 where "s1 = with_cluster w1 s"
  define s2 where "s2 = UpdateRunningStatus ''DeploymentDeleted'' (name @ '' deployment deleted successfully'') s1"
  have s1: "kc_Client (ctl_KubeClient s1) = c" "inv (ctl_cluster s1)" "same_ctl s s1" "sp_key s1 = key"
    using k d1(2) by (simp_all add: s1_def key_def)
  note u2 = running_then [OF s1(1,2), of "''DeploymentDeleted''" "name @ '' deployment deleted successfully''", folded s2_def]
  from u2 s1(3) have same2: "same_ctl s s2" by (blast intro: same_ctl_trans)
  then have k2: "kc_Client (ctl_KubeClient s2) = c" "ctl_KubeClient s2 = k'" using k by (simp_all add: same_ctl_def k'_def)
  obtain w3 where d3: "delete_kind KService k' name ?ns (ctl_cluster s2) = (None, w3)" "inv w3"
    "removed (look (ctl_cluster s2)) {(KService, nn name ?ns)} key (look w3)"
    using delete_then [OF k2(1)] u2 k2(2) by metis
  define s3 where "s3 = with_cluster w3 s2"
  define s4 where "s4 = UpdateRunningStatus ''ServiceDeleted'' (name @ '' service deleted successfully'') s3"
  have s3: "kc_Client (ctl_KubeClient s3) = c" "inv (ctl_cluster s3)" "same_ctl s s3" "sp_key s3 = key"
    using k2 d3(2) ctl_same_key [OF same2] same_ctl_trans [OF same2 with_cluster_fields(5)]
    by (simp_all add: s3_def key_def)
  note u4 = running_then [OF s3(1,2), of "''ServiceDeleted''" "name @ '' service deleted successfully''", folded s4_def]
  from u4 s3(3) have same4: "same_ctl s s4" by (blast intro: same_ctl_trans)
  then have k4: "kc_Client (ctl_KubeClient s4) = c" "ctl_KubeClient s4 = k'" using k by (simp_all add: same_ctl_def k'_def)
  obtain w5 where d5: "delete_kind KPVC k' (name @ PVCExtension) ?ns (ctl_cluster s4) = (None, w5)" "inv w5"
    "removed (look (ctl_cluster s4)) {(KPVC, nn (name @ PVCExtension) ?ns)} key (look w5)"
    using delete_then [OF k4(1)] u4 k4(2) by metis
  define s5 where "s5 = with_cluster w5 s4"
  have st5: "sp_Status (the_sp s5) = sp_Status (the_sp s)"
    using u2 u4 by (simp add: s5_def s3_def s1_def)
  let ?cm = "name @ Itoa (sint (st_PreviousVersion (sp_Status (the_sp s))))"
  have k5: "kc_Client (ctl_KubeClient s5) = c" "inv (ctl_cluster s5)" "ctl_KubeClient s5 = k'"
    using k4 d5(2) by (simp_all add: s5_def)
  obtain w6 where d6: "delete_kind KConfigMap k' ?cm ?ns (ctl_cluster s5) = (None, w6)" "inv w6"
    "removed (look (ctl_cluster s5)) {(KConfigMap, nn ?cm ?ns)} key (look w6)"
    using delete_then [OF k5(1,2)] k5(3) by metis
  have run: "clean_artifact i s = (None, with_cluster w6 s5)"
    unfolding clean_artifact_def name_def [symmetric] DeleteDeployment_def DeleteService_def DeletePVC_def
      DeleteConfigMap_def Let_def k'_def [symmetric] d1(1) prod.case s1_def [symmetric] s2_def [symmetric]
    using d3(1) d5(1) d6(1) st5
    by (simp add: s3_def [symmetric] s4_def [symmetric] s5_def)
  have rem: "removed (look (ctl_cluster s)) ({(KDeployment, nn name ?ns)} \<union> {} \<union> {(KService, nn name ?ns)} \<union> {} \<union>
      {(KPVC, nn (name @ PVCExtension) ?ns)} \<union> {(KConfigMap, nn ?cm ?ns)}) key (look w6)"
  proof (intro removed_trans)
    show "removed (look (ctl_cluster s)) {(KDeployment, nn name ?ns)} key (look (ctl_cluster s1))"
      using d1(3) by (simp add: s1_def)
    show "removed (look (ctl_cluster s1)) {} key (look (ctl_cluster s2))" using u2 s1(4) by simp
    show "removed (look (ctl_cluster s2)) {(KService, nn name ?ns)} key (look (ctl_cluster s3))"
      using d3(3) by (simp add: s3_def)
    show "removed (look (ctl_cluster s3)) {} key (look (ctl_cluster s4))" using u4 s3(4) by simp
    show "removed (look (ctl_cluster s4)) {(KPVC, nn (name @ PVCExtension) ?ns)} key (look (ctl_cluster s5))"
      using d5(3) by (simp add: s5_def)
    show "removed (look (ctl_cluster s5)) {(KConfigMap, nn ?cm ?ns)} key (look w6)" by (rule d6(3))
  qed
  have "same_ctl s (with_cluster w6 s5)"
    using same4 by (auto simp: s5_def intro: same_ctl_trans)
  moreover have "clean_targets (sp_Name (the_sp s)) ?ns (st_PreviousVersion (sp_Status (the_sp s))) i =
      {(KDeployment, nn name ?ns)} \<union> {} \<union> {(KService, nn name ?ns)} \<union> {} \<union>
      {(KPVC, nn (name @ PVCExtension) ?ns)} \<union> {(KConfigMap, nn ?cm ?ns)}"
    unfolding clean_targets_def Let_def name_def [symmetric] by auto
  ultimately show ?thesis
    using run d6(2) st5 rem by (simp add: key_def)
qed

lemma clean_artifacts_live:
  assumes "kc_Client (ctl_KubeClient s) = c" and "inv (ctl_cluster s)"
  shows "\<exists>s'. clean_artifacts is s = (None, s') \<and> same_ctl s s' \<and> inv (ctl_cluster s') \<and>
    removed (look (ctl_cluster s)) (\<Union>i \<in> set is. clean_targets (sp_Name (the_sp s)) (sp_Namespace (the_sp s))
      (st_PreviousVersion (sp_Status (the_sp s))) i) (sp_key s) (look (ctl_cluster s'))"
  using assms
proof (induction "is" arbitrary: s)
  case Nil
  then show ?case by (simp add: removed_def)
next
  case (Cons i "is")
  from clean_artifact_live [OF Cons.prems, of i] obtain s1 where
    one: "clean_artifact i s = (None, s1)" "same_ctl s s1" "inv (ctl_cluster s1)"
    "sp_Status (the_sp s1) = sp_Status (the_sp s)"
    "removed (look (ctl_cluster s)) (clean_targets (sp_Name (the_sp s)) (sp_Namespace (the_sp s))
      (st_PreviousVersion (sp_Status (the_sp s))) i) (sp_key s) (look (ctl_cluster s1))" by blast
  from one(2) Cons.prems(1) have k1: "kc_Client (ctl_KubeClient s1) = c" and
    keys: "sp_key s1 = sp_key s" "sp_Name (the_sp s1) = sp_Name (the_sp s)"
    "sp_Namespace (the_sp s1) = sp_Namespace (the_sp s)"
    by (auto simp: same_ctl_def sp_key_def)
  from Cons.IH [OF k1 one(3)] one(4) keys obtain s' where
    two: "clean_artifacts is s1 = (None, s')" "same_ctl s1 s'" "inv (ctl_cluster s')"
    "removed (look (ctl_cluster s1)) (\<Union>i \<in> set is. clean_targets (sp_Name (the_sp s)) (sp_Namespace (the_sp s))
      (st_PreviousVersion (sp_Status (the_sp s))) i) (sp_key s) (look (ctl_cluster s'))" by auto
  from removed_trans [OF one(5) two(4)] same_ctl_trans [OF one(2) two(2)] one(1) two(1,3) show ?case by simp
qed

end

lemma lt64_succ: "lt64 v (v + 1) \<longleftrightarrow> v \<noteq> 0x7FFFFFFFFFFFFFFF"
proof (cases "v = 0x7FFFFFFFFFFFFFFF")
  case False
  have "sint (0x7FFFFFFFFFFFFFFF :: int64) = 2 ^ 63 - 1" by simp
  with False have "sint v \<noteq> 2 ^ 63 - 1" by (metis word_eq_iff_signed)
  moreover have "sint v < 2 ^ 63" "- (2 ^ 63) \<le> sint v" using sint_less [of v] sint_ge [of v] by simp_all
  ultimately have "sint (v + 1) = sint v + 1"
    by (simp add: sint_word_add signed_take_bit_int_eq_self)
  with False show ?thesis by (simp add: lt64_def)
qed (simp add: lt64_def)

section \<open>Sample inputs\<close>

definition sample_deployment :: "string \<Rightarrow> int32 \<Rightarrow> int32 \<Rightarrow> deployment" where
  "sample_deployment name replicas avail =
     (case deployment_object name ''ns'' replicas []
        (deployment_pod ''img'' ''c'' [''sh''] [] [] [] None \<lparr>sctx_RunAsUser = None, sctx_rest = []\<rparr> ''Always'' [] []
          readyProbe liveProbe) sample_strategy
      of d \<Rightarrow> d\<lparr>dep_Status := (dep_Status d)\<lparr>dstat_AvailableReplicas := avail\<rparr>\<rparr>)"

definition sample_ctl :: "'w client \<Rightarrow> 'w \<Rightarrow> 'w ctl" where
  "sample_ctl cl w =
     \<lparr>ctl_SiddhiProcess = 0, ctl_KubeClient = \<lparr>kc_Client = cl, kc_Scheme = sample_scheme\<rparr>, ctl_Image = sample_image,
      ctl_AutoCreateIngress = False, ctl_TLS = [], ctl_heap = (\<lambda>_. sample_process), ctl_events = [], ctl_cluster = w\<rparr>"

lemma sample_ctl_simps [simp]:
  "kc_Client (ctl_KubeClient (sample_ctl cl w)) = cl" "the_sp (sample_ctl cl w) = sample_process"
  "ctl_cluster (sample_ctl cl w) = w" "ctl_AutoCreateIngress (sample_ctl cl w) = False"
  "sp_Status sample_process = zero_siddhi_process_status" "sp_Name sample_process = ''app''"
  "sp_Namespace sample_process = ''ns''"
  by (simp_all add: sample_ctl_def the_sp_def sample_process_def zero_siddhi_process_def new_meta_def)

section \<open>Properties\<close>

text \<open>
  C10: \<open>CreateArtifacts\<close>. A call that returns writes only the status of the process and, when the
  version asks for it (created or updated), the objects of its applications and the shared ingress;
  it keeps the current version and leaves the previous version equal to it, also when a deployment
  failed, so that a second call writes nothing but the status. It returns whenever ingress creation is off.
\<close>

theorem CreateArtifacts_settles:
  assumes api: "kube_status (kc_Client (ctl_KubeClient s)) look adm valid" and w: "valid (ctl_cluster s)"
  shows "(\<not> ctl_AutoCreateIngress s \<longrightarrow> (\<exists>s'. CreateArtifacts yaml order as s = Some s')) \<and>
    (\<forall>s'. CreateArtifacts yaml order as s = Some s' \<longrightarrow>
       ctl_step look valid (insert (KSiddhiProcess, sp_key s)
         (if event_type s = OperationResultNone then {} else \<Union>a \<in> set as. artifact_targets s a)) s s' \<and>
       st_PreviousVersion (sp_Status (the_sp s')) = st_CurrentVersion (sp_Status (the_sp s')) \<and>
       (st_CurrentVersion (sp_Status (the_sp s)) \<noteq> 0 \<longrightarrow> event_type s' = OperationResultNone))"
proof (intro conjI impI allI)
  assume "\<not> ctl_AutoCreateIngress s"
  then show "\<exists>s'. CreateArtifacts yaml order as s = Some s'"
    using kube_status.CreateArtifacts_total [OF api refl w] by blast
next
  fix s' assume run: "CreateArtifacts yaml order as s = Some s'"
  note step = kube_status.CreateArtifacts_step [OF api refl w run]
  note version = kube_status.CreateArtifacts_version [OF api refl w run]
  show "ctl_step look valid (insert (KSiddhiProcess, sp_key s)
      (if event_type s = OperationResultNone then {} else \<Union>a \<in> set as. artifact_targets s a)) s s'" by (rule step)
  show "st_PreviousVersion (sp_Status (the_sp s')) = st_CurrentVersion (sp_Status (the_sp s'))" by (rule version)
  assume "st_CurrentVersion (sp_Status (the_sp s)) \<noteq> 0"
  with ctl_step_same [OF step] have "st_CurrentVersion (sp_Status (the_sp s')) \<noteq> 0" by (simp add: same_ctl_def)
  with version show "event_type s' = OperationResultNone" by (simp add: event_type_def getEventType_def Let_def)
qed

theorem CreateArtifacts_settles_witness:
  "\<exists>s'. CreateArtifacts sample_yaml (\<lambda>_ m. m) [sample_app] (sample_ctl cached_client empty_tracker) = Some s'"
  using CreateArtifacts_settles [of "sample_ctl cached_client empty_tracker", unfolded sample_ctl_simps,
      OF cached_stat.kube_status_axioms, OF tracker_inv_empty, of sample_yaml "\<lambda>_ m. m" "[sample_app]"] by blast

text \<open>
  C33: versions. From a settled state (previous and current version equal) an upgrade makes the next
  event an update; only an upgrade that wraps the 64-bit counter does not, to 0 (created) or to the
  least number (nothing).
\<close>

theorem UpgradeVersion_updates:
  assumes api: "kube_status (kc_Client (ctl_KubeClient s)) look adm valid" and w: "valid (ctl_cluster s)"
    and settled: "st_PreviousVersion (sp_Status (the_sp s)) = st_CurrentVersion (sp_Status (the_sp s))"
  defines "v \<equiv> st_CurrentVersion (sp_Status (the_sp s))"
  shows "event_type (UpgradeVersion s) =
    (if v = -1 then OperationResultCreated
     else if v = 0x7FFFFFFFFFFFFFFF then OperationResultNone else OperationResultUpdated)"
proof -
  have "v + 1 = 0 \<longleftrightarrow> v = -1" by (metis add.commute eq_neg_iff_add_eq_0)
  then show ?thesis
    using kube_status.UpgradeVersion_step [OF api refl w] settled lt64_succ [of v]
    by (simp add: event_type_def getEventType_def Let_def v_def)
qed

theorem UpgradeVersion_updates_witness:
  "event_type (UpgradeVersion (sample_ctl cached_client empty_tracker)) = OperationResultUpdated"
  using UpgradeVersion_updates [of "sample_ctl cached_client empty_tracker", unfolded sample_ctl_simps,
      OF cached_stat.kube_status_axioms, OF tracker_inv_empty]
  by (simp add: zero_siddhi_process_status_def)

text \<open>
  The copy kept for a failed status update is a copy of the pointer, so that nothing is rolled
  back: when the server refuses the update, the process in memory has the new status all the same.
\<close>

theorem Status_not_restored:
  assumes "(update, text) \<in> {(UpdatePendingStatus, ''Pending''), (UpdateNotReadytatus, ''Not Ready''),
      (UpdateReadyStatus, ''Ready''), (UpdateErrorStatus reason e, ''Error'')}"
    and "\<And>obj. \<exists>err w. cl_StatusUpdate (kc_Client (ctl_KubeClient s)) obj (ctl_cluster s) = (Inl err, w)"
  shows "the_sp (update s) = (the_sp s)\<lparr>sp_Status := (sp_Status (the_sp s))\<lparr>st_Status := text\<rparr>\<rparr> \<and>
    ctl_SiddhiProcess (update s) = ctl_SiddhiProcess s"
proof -
  have push: "the_sp (push_or_restore (ctl_SiddhiProcess s) s1) = the_sp s1 \<and>
      ctl_SiddhiProcess (push_or_restore (ctl_SiddhiProcess s) s1) = ctl_SiddhiProcess s"
    if "ctl_SiddhiProcess s1 = ctl_SiddhiProcess s" "ctl_KubeClient s1 = ctl_KubeClient s" "ctl_cluster s1 = ctl_cluster s"
    for s1
  proof -
    from assms(2) [of "OSiddhiProcess (the_sp s1)"] that show ?thesis
      by (auto simp: push_or_restore_def push_status_def the_sp_def)
  qed
  from assms(1) push show ?thesis
    by (auto simp: UpdatePendingStatus_def UpdateNotReadytatus_def UpdateReadyStatus_def UpdateErrorStatus_def)
qed

theorem Status_not_restored_witness:
  "st_Status (sp_Status (the_sp (UpdateReadyStatus (sample_ctl (faulty cached_client) (empty_tracker, [Some ''conflict'']))))) = ''Ready''"
  using Status_not_restored [of UpdateReadyStatus "''Ready''" "[]" "Failure []"
      "sample_ctl (faulty cached_client) (empty_tracker, [Some ''conflict''])"]
  by (simp add: faulty_def inject_def)

text \<open>
  C20: scaling. On a server that answers, with deployments that state their replicas and applications
  with different names in lower case, \<open>CheckDeployments\<close> never panics, touches only the applications'
  deployments, and gives every one that exists the replicas of its application.
\<close>

theorem CheckDeployments_scales:
  assumes "kube_live (kc_Client (ctl_KubeClient s)) look adm valid" and "valid (ctl_cluster s)"
    and "\<And>a d. a \<in> set as \<Longrightarrow> deployment_of (look (ctl_cluster s)) (sp_Namespace (the_sp s)) a = Some d \<Longrightarrow>
      ds_Replicas (dep_Spec d) \<noteq> None"
    and "distinct (map (ToLower \<circ> ap_Name) as)"
  shows "\<exists>s'. CheckDeployments as s = Some s' \<and>
    ctl_step look valid ((\<lambda>a. (KDeployment, nn (ToLower (ap_Name a)) (sp_Namespace (the_sp s)))) ` set as) s s' \<and>
    (\<forall>a \<in> set as. \<forall>d. deployment_of (look (ctl_cluster s)) (sp_Namespace (the_sp s)) a = Some d \<longrightarrow>
       (\<exists>d'. deployment_of (look (ctl_cluster s')) (sp_Namespace (the_sp s)) a = Some d' \<and>
          ds_Replicas (dep_Spec d') = Some (ap_Replicas a)))"
  by (rule kube_live.CheckDeployments_live [OF assms(1) refl assms(2,3,4)])

definition sample_deployed :: "int32 \<Rightarrow> int32 \<Rightarrow> tracker" where
  "sample_deployed replicas avail =
     empty_tracker(KDeployment := [ODeployment (sample_deployment ''app-0'' replicas avail)])"

lemma sample_deployed_inv [simp]: "tracker_inv (sample_deployed replicas avail)"
  by (simp add: tracker_inv_def sample_deployed_def empty_tracker_def sample_deployment_def)

lemma deployment_of_sample:
  "deployment_of (tracker_look (sample_deployed replicas avail)) ''ns'' sample_app =
     Some (sample_deployment ''app-0'' replicas avail)"
  by (simp add: deployment_of_def sample_deployed_def sample_app_def ToLower_id is_upper_def tracker_look_def
      objs_map_def sample_deployment_def deployment_object_def key_of_def new_meta_def nn_def)

theorem CheckDeployments_scales_witness:
  "\<exists>s' d. CheckDeployments [sample_app] (sample_ctl cached_client (sample_deployed 3 0)) = Some s' \<and>
     deployment_of (tracker_look (ctl_cluster s')) ''ns'' sample_app = Some d \<and>
     ds_Replicas (dep_Spec d) = Some (ap_Replicas sample_app)"
proof -
  have "ds_Replicas (dep_Spec d) \<noteq> None"
    if "a \<in> set [sample_app]" "deployment_of (tracker_look (sample_deployed 3 0)) ''ns'' a = Some d" for a d
    using that by (auto simp: deployment_of_sample sample_deployment_def deployment_object_def)
  from CheckDeployments_scales [of "sample_ctl cached_client (sample_deployed 3 0)", unfolded sample_ctl_simps,
      OF cached_live.kube_live_axioms, OF sample_deployed_inv, OF this] deployment_of_sample [of 3 0]
  show ?thesis by fastforce
qed

text \<open>
  C19: the status a check of the deployments writes. With the sums over the applications of the
  replicas wanted and available (missing deployments count as none), as 64-bit integers:
  \<open>available/wanted\<close> is the ready text, the check ends the timer exactly when the sums are equal,
  the status is \<open>Ready\<close> when they are or when no stateless deployment that was found is down and the
  stateful sums are equal, and otherwise \<open>Not Ready\<close> unless it was \<open>Error\<close>. Only the process is written.
\<close>

theorem CheckAvailableDeployments_status:
  fixes as :: "application list"
  assumes "kube_live (kc_Client (ctl_KubeClient s)) look adm valid" and "valid (ctl_cluster s)"
  defines "dep \<equiv> deployment_of (look (ctl_cluster s)) (sp_Namespace (the_sp s))"
  defines "need \<equiv> sum_list (map wanted as)" and "avail \<equiv> sum_list (map (available \<circ> dep) as)"
    and "stateful \<equiv> filter ap_PersistenceEnabled as"
    and "stateless_up \<equiv> (\<forall>a \<in> set as. \<not> ap_PersistenceEnabled a \<longrightarrow> dep a = None \<or> available (dep a) \<noteq> 0)"
  shows "case CheckAvailableDeployments as s of (terminate, s') \<Rightarrow>
    (terminate \<longleftrightarrow> need = avail) \<and> ctl_step look valid {(KSiddhiProcess, sp_key s)} s s' \<and>
    sp_Status (the_sp s') = (sp_Status (the_sp s))
      \<lparr>st_Ready := Itoa (sint avail) @ ''/'' @ Itoa (sint need),
       st_Status :=
         (if need = avail \<or> stateless_up \<and> sum_list (map wanted stateful) = sum_list (map (available \<circ> dep) stateful)
          then ''Ready'' else if st_Status (sp_Status (the_sp s)) = ''Error'' then ''Error'' else ''Not Ready'')\<rparr>"
  using kube_live.CheckAvailable_live [OF assms(1) refl assms(2), of as]
  by (simp add: count_all_fields zero_availability_def dep_def need_def avail_def stateful_def stateless_up_def)

theorem CheckAvailableDeployments_status_witness:
  "case CheckAvailableDeployments [sample_app] (sample_ctl cached_client (sample_deployed 3 0)) of (terminate, s') \<Rightarrow>
     \<not> terminate \<and> st_Status (sp_Status (the_sp s')) = ''Not Ready''"
proof -
  have "sum_list (map wanted [sample_app]) = 1" "ap_PersistenceEnabled sample_app"
    by (simp_all add: wanted_def sample_app_def int_of_int32_def)
  moreover have "available (Some (sample_deployment ''app-0'' 3 0)) = 0"
    by (simp add: available_def sample_deployment_def int_of_int32_def)
  ultimately show ?thesis
    using CheckAvailableDeployments_status [of "sample_ctl cached_client (sample_deployed 3 0)", unfolded sample_ctl_simps,
        OF cached_live.kube_live_axioms, OF sample_deployed_inv, of "[sample_app]"]
    by (auto simp: deployment_of_sample zero_siddhi_process_status_def split: prod.splits)
qed

text \<open>
  C38: a process of stateless applications none of which is deployed is reported \<open>Ready\<close>: deployments
  that are missing are passed over, not counted as down.
\<close>

theorem Ready_without_deployments:
  assumes "kube_live (kc_Client (ctl_KubeClient s)) look adm valid" and "valid (ctl_cluster s)"
    and "\<And>a. a \<in> set as \<Longrightarrow> \<not> ap_PersistenceEnabled a"
    and none: "\<And>a. a \<in> set as \<Longrightarrow> look (ctl_cluster s) KDeployment (nn (ToLower (ap_Name a)) (sp_Namespace (the_sp s))) = None"
  shows "st_Status (sp_Status (the_sp (snd (CheckAvailableDeployments as s)))) = ''Ready''"
proof -
  let ?dep = "deployment_of (look (ctl_cluster s)) (sp_Namespace (the_sp s))"
  have "\<forall>a \<in> set as. \<not> ap_PersistenceEnabled a \<longrightarrow> ?dep a = None \<or> available (?dep a) \<noteq> 0"
    using none by (simp add: deployment_of_def)
  moreover have "filter ap_PersistenceEnabled as = []" using assms(3) by simp
  ultimately show ?thesis
    using kube_live.CheckAvailable_live [OF assms(1) refl assms(2), of as]
    by (simp add: count_all_fields zero_availability_def split: prod.splits)
qed

theorem Ready_without_deployments_witness:
  "st_Status (sp_Status (the_sp (snd (CheckAvailableDeployments [sample_app\<lparr>ap_PersistenceEnabled := False\<rparr>]
     (sample_ctl cached_client empty_tracker))))) = ''Ready''"
  using Ready_without_deployments [of "sample_ctl cached_client empty_tracker", unfolded sample_ctl_simps,
      OF cached_live.kube_live_axioms, OF tracker_inv_empty, of "[sample_app\<lparr>ap_PersistenceEnabled := False\<rparr>]"]
  by simp

text \<open>
  C21: \<open>CleanArtifacts\<close>. When a process shrinks from \<open>n\<close> to \<open>m\<close> applications, then on a server that
  answers exactly the deployment, service, claim and config map of the indices \<open>m..<n\<close> go (the config
  map of the previous version); beside the process itself every other object stays as it is. It
  reports no error.
\<close>

theorem CleanArtifacts_removes:
  assumes "kube_live (kc_Client (ctl_KubeClient s)) look adm valid" and "valid (ctl_cluster s)"
  shows "\<exists>s'. CleanArtifacts old new s = (None, s') \<and> same_ctl s s' \<and> valid (ctl_cluster s') \<and>
    removed (look (ctl_cluster s))
      (\<Union>i \<in> {length new..<length old}. clean_targets (sp_Name (the_sp s)) (sp_Namespace (the_sp s))
        (st_PreviousVersion (sp_Status (the_sp s))) i)
      (sp_key s) (look (ctl_cluster s'))"
  using kube_live.clean_artifacts_live [OF assms(1) refl assms(2), of "[length new..<length old]"]
  by (simp add: CleanArtifacts_def)

theorem CleanArtifacts_removes_witness:
  "\<exists>s'. CleanArtifacts [sample_app] [] (sample_ctl cached_client (sample_deployed 1 1)) = (None, s') \<and>
     tracker_look (ctl_cluster s') KDeployment (nn ''app-0'' ''ns'') = None"
proof -
  obtain s' where "CleanArtifacts [sample_app] [] (sample_ctl cached_client (sample_deployed 1 1)) = (None, s')"
    "removed (tracker_look (sample_deployed 1 1))
      (\<Union>i \<in> {length ([] :: application list)..<length [sample_app]}.
         clean_targets ''app'' ''ns'' (st_PreviousVersion zero_siddhi_process_status) i)
      (sp_key (sample_ctl cached_client (sample_deployed 1 1))) (tracker_look (ctl_cluster s'))"
    using CleanArtifacts_removes [of "sample_ctl cached_client (sample_deployed 1 1)", unfolded sample_ctl_simps,
        OF cached_live.kube_live_axioms, OF sample_deployed_inv, of "[sample_app]" "[]"] by blast
  moreover have "(KDeployment, nn ''app-0'' ''ns'') \<in> clean_targets ''app'' ''ns'' (st_PreviousVersion zero_siddhi_process_status) 0"
    by (simp add: clean_targets_def Let_def Itoa_def itoa_nat.simps digit_def char_of_def bit_0)
  ultimately show ?thesis by (auto simp: removed_def)
qed

text \<open>The value of a key of the operator's config map.\<close>

definition config_of :: "kobject option \<Rightarrow> string \<Rightarrow> string \<Rightarrow> string" where
  "config_of r key dflt =
     (case r of Some (OConfigMap cm) \<Rightarrow> (case map_of (cm_Data cm) key of Some v \<Rightarrow> v | None \<Rightarrow> dflt) | _ \<Rightarrow> dflt)"

lemma config_fields:
  "the_sp (sc\<lparr>ctl_Image := im\<rparr>) = the_sp sc" "the_sp (sc\<lparr>ctl_AutoCreateIngress := b\<rparr>) = the_sp sc"
  "ctl_Image (with_cluster w sc) = ctl_Image sc" "ctl_TLS (with_cluster w sc) = ctl_TLS sc"
  "ctl_AutoCreateIngress (with_cluster w sc) = ctl_AutoCreateIngress sc"
  by (simp_all add: the_sp_def with_cluster_def)

lemma set_config_fields:
  "ctl_Image (set_config (cm_Data cm) sc) =
     (ctl_Image sc)\<lparr>im_Home := config_of (Some (OConfigMap cm)) ''siddhiHome'' (im_Home (ctl_Image sc)),
       im_Name := config_of (Some (OConfigMap cm)) ''siddhiImage'' (im_Name (ctl_Image sc)),
       im_Secret := config_of (Some (OConfigMap cm)) ''siddhiImageSecret'' (im_Secret (ctl_Image sc)),
       im_Profile := config_of (Some (OConfigMap cm)) ''siddhiProfile'' (im_Profile (ctl_Image sc))\<rparr>"
  "ctl_AutoCreateIngress sc \<Longrightarrow> ctl_AutoCreateIngress (set_config (cm_Data cm) sc) \<longleftrightarrow>
     config_of (Some (OConfigMap cm)) ''autoIngressCreation'' ''true'' = ''true''"
  "ctl_TLS (set_config (cm_Data cm) sc) = config_of (Some (OConfigMap cm)) ''ingressTLS'' (ctl_TLS sc)"
  "the_sp (set_config (cm_Data cm) sc) = the_sp sc" "ctl_cluster (set_config (cm_Data cm) sc) = ctl_cluster sc"
  by (simp_all add: set_config_def config_of_def the_sp_def Let_def split: option.split)

lemma user_config_fields:
  "ctl_Image (user_config sc) = (ctl_Image sc)\<lparr>
     im_Name := if ct_Image (sps_Container (sp_Spec (the_sp sc))) \<noteq> []
       then ct_Image (sps_Container (sp_Spec (the_sp sc))) else im_Name (ctl_Image sc),
     im_Secret := if sps_ImagePullSecret (sp_Spec (the_sp sc)) \<noteq> []
       then sps_ImagePullSecret (sp_Spec (the_sp sc)) else im_Secret (ctl_Image sc)\<rparr>"
  "ctl_AutoCreateIngress (user_config sc) = ctl_AutoCreateIngress sc" "ctl_TLS (user_config sc) = ctl_TLS sc"
  "the_sp (user_config sc) = the_sp sc" "ctl_cluster (user_config sc) = ctl_cluster sc"
  by (simp_all add: user_config_def the_sp_def Let_def)

text \<open>
  C32: where the configuration comes from. The image and the pull secret are those of the process
  when it names them; then those of the operator's config map in the process's namespace (named by
  \<open>OPERATOR_CONFIGMAP\<close> or by default); then the built-in ones. Home, profile and ingress creation
  come from the config map or are built in; a secret or TLS name nobody gives stays as it was.
\<close>

theorem UpdateDefaultConfigs_precedence:
  fixes getenv :: "string \<Rightarrow> string"
  assumes store: "kube_store (kc_Client (ctl_KubeClient s)) look adm valid" and w: "valid (ctl_cluster s)"
  defines "cmName \<equiv> if getenv ''OPERATOR_CONFIGMAP'' \<noteq> [] then getenv ''OPERATOR_CONFIGMAP'' else ''siddhi-operator-config''"
    and "spec \<equiv> sp_Spec (the_sp s)" and "s' \<equiv> UpdateDefaultConfigs getenv s"
  defines "conf \<equiv> config_of (look (ctl_cluster s) KConfigMap (nn cmName (sp_Namespace (the_sp s))))"
  shows "im_Name (ctl_Image s') = (if ct_Image (sps_Container spec) \<noteq> [] then ct_Image (sps_Container spec)
      else conf ''siddhiImage'' ''siddhiio/siddhi-runner-alpine:5.1.2'') \<and>
    im_Secret (ctl_Image s') = (if sps_ImagePullSecret spec \<noteq> [] then sps_ImagePullSecret spec
      else conf ''siddhiImageSecret'' (im_Secret (ctl_Image s))) \<and>
    im_Home (ctl_Image s') = conf ''siddhiHome'' ''/home/siddhi_user/siddhi-runner/'' \<and>
    im_Profile (ctl_Image s') = conf ''siddhiProfile'' ''runner'' \<and>
    (ctl_AutoCreateIngress s' \<longleftrightarrow> conf ''autoIngressCreation'' ''true'' = ''true'') \<and>
    ctl_TLS s' = conf ''ingressTLS'' (ctl_TLS s) \<and>
    the_sp s' = the_sp s \<and> look (ctl_cluster s') = look (ctl_cluster s)"
proof -
  let ?n = "nn cmName (sp_Namespace (the_sp s))"
  obtain r w1 where get: "cl_Get (kc_Client (ctl_KubeClient s)) KConfigMap ?n (ctl_cluster s) = (r, w1)" by force
  from kube_api.get_look [OF kube_store.axioms(1) [OF store], OF get w] have w1: "look w1 = look (ctl_cluster s)" by simp
  define sc2 where "sc2 = with_cluster w1 (s\<lparr>ctl_Image := (ctl_Image s)\<lparr>im_Home := SiddhiHome, im_Name := SiddhiImage,
      im_Profile := SiddhiProfile\<rparr>, ctl_AutoCreateIngress := AutoCreateIngress\<rparr>)"
  have sc2: "ctl_Image sc2 = (ctl_Image s)\<lparr>im_Home := ''/home/siddhi_user/siddhi-runner/'',
      im_Name := ''siddhiio/siddhi-runner-alpine:5.1.2'', im_Profile := ''runner''\<rparr>"
    "ctl_AutoCreateIngress sc2" "ctl_TLS sc2 = ctl_TLS s" "the_sp sc2 = the_sp s" "look (ctl_cluster sc2) = look (ctl_cluster s)"
    using w1 by (simp_all add: sc2_def config_fields SiddhiImage_def SiddhiHome_def SiddhiProfile_def AutoCreateIngress_def)
  have s': "s' = user_config (case r of Inr (OConfigMap cm) \<Rightarrow> set_config (cm_Data cm) sc2 | _ \<Rightarrow> sc2)"
    using get unfolding s'_def UpdateDefaultConfigs_def Let_def cmName_def OperatorCMName_def sc2_def
    by (simp add: config_fields)
  show ?thesis
  proof (cases "look (ctl_cluster s) KConfigMap ?n")
    case None
    then obtain e where "r = Inl e"
      using kube_store.get_none [OF store, OF w None] get by auto
    with None sc2 show ?thesis
      by (simp add: s' user_config_fields conf_def config_of_def spec_def)
  next
    case (Some obj)
    with kube_store.get_total [OF store, OF w Some] get have r: "r = Inr obj" by auto
    from kube_api.look_obj [OF kube_store.axioms(1) [OF store], OF w Some] obtain cm where cm: "obj = OConfigMap cm"
      by (auto simp: kind_of_eqs)
    show ?thesis
      using sc2 by (simp add: s' r cm user_config_fields set_config_fields conf_def Some spec_def)
  qed
qed

theorem UpdateDefaultConfigs_precedence_witness:
  "im_Name (ctl_Image (UpdateDefaultConfigs (\<lambda>_. []) (sample_ctl cached_client empty_tracker))) =
     ''siddhiio/siddhi-runner-alpine:5.1.2''"
  using UpdateDefaultConfigs_precedence [of "sample_ctl cached_client empty_tracker", unfolded sample_ctl_simps,
      OF cached.kube_store_axioms, OF tracker_inv_empty, of "\<lambda>_. []"]
  by (simp add: sample_process_def zero_siddhi_process_def zero_siddhi_process_spec_def zero_container_def
      config_of_def tracker_look_def objs_map_def empty_tracker_def)

end
