(* ===== verification/GoRegexp.thy ===== *)
theory GoRegexp
  imports GoStrings
begin

text \<open>
  The part of Go's \<open>regexp\<close> package behind \<open>getAppName\<close>: patterns that are a sequence of
  single-character classes, starred character classes and one capturing group, matched as
  \<open>FindStringSubmatch\<close> matches them: at the leftmost position where a match exists, and there
  with the choices a backtracking search finds first, a star taking as many characters as
  it can. The lemmas relate the search to the declarative reading of a pattern.
\<close>

section \<open>Patterns and the search\<close>

datatype atom =
    One "char \<Rightarrow> bool"   \<comment> \<open>one character of the class\<close>
  | Many "char \<Rightarrow> bool"  \<comment> \<open>a greedy star over the class\<close>
  | Open                 \<comment> \<open>the group begins\<close>
  | Close                \<comment> \<open>the group ends\<close>

text \<open>
  \<open>rmatch as s inside cap\<close> matches \<open>as\<close> at the start of \<open>s\<close>; \<open>inside\<close> says whether the group
  is open and \<open>cap\<close> is its text so far, reversed. The result is the text of the group.
\<close>

function (sequential) rmatch :: "atom list \<Rightarrow> string \<Rightarrow> bool \<Rightarrow> string \<Rightarrow> string option" where
  "rmatch [] s inside cap = Some (rev cap)"
| "rmatch (Open # as) s inside cap = rmatch as s True []"
| "rmatch (Close # as) s inside cap = rmatch as s False cap"
| "rmatch (One p # as) [] inside cap = None"
| "rmatch (One p # as) (c # cs) inside cap =
     (if p c then rmatch as cs inside (if inside then c # cap else cap) else None)"
| "rmatch (Many p # as) [] inside cap = rmatch as [] inside cap"
| "rmatch (Many p # as) (c # cs) inside cap =
     (if p c
      then (case rmatch (Many p # as) cs inside (if inside then c # cap else cap) of
              Some m \<Rightarrow> Some m
            | None \<Rightarrow> rmatch as (c # cs) inside cap)
      else rmatch as (c # cs) inside cap)"
  by pat_completeness auto
termination
  by (relation "measure (\<lambda>(as, s, _, _). length as + length s)") auto

fun find_submatch :: "atom list \<Rightarrow> string \<Rightarrow> string option" where
  "find_submatch as [] = rmatch as [] False []"
| "find_submatch as (c # cs) =
     (case rmatch as (c # cs) False [] of Some m \<Rightarrow> Some m | None \<Rightarrow> find_submatch as cs)"

definition lit :: "string \<Rightarrow> atom list" where
  "lit s = map (\<lambda>c. One (\<lambda>d. d = c)) s"

text \<open>The classes of \<open>.\<close> (any character but a newline) and of \<open>\s\<close>.\<close>

definition dot :: "char \<Rightarrow> bool" where
  "dot c \<longleftrightarrow> c \<noteq> CHR 0x0A"

definition perl_space :: "char \<Rightarrow> bool" where
  "perl_space c \<longleftrightarrow> c \<in> {CHR 0x09, CHR 0x0A, CHR 0x0C, CHR 0x0D, CHR '' ''}"

section \<open>What a pattern means\<close>

text \<open>
  \<open>matches as t cap cap'\<close>: the pattern, started with the group's text \<open>cap\<close> (reversed) and
  the group open or not, can read exactly \<open>t\<close> and then has the group's text \<open>cap'\<close>.
\<close>

inductive matches :: "atom list \<Rightarrow> string \<Rightarrow> bool \<Rightarrow> string \<Rightarrow> string \<Rightarrow> bool" where
  Nil: "matches [] [] inside cap cap"
| Open: "matches as t True [] cap' \<Longrightarrow> matches (Open # as) t inside cap cap'"
| Close: "matches as t False cap cap' \<Longrightarrow> matches (Close # as) t inside cap cap'"
| One: "p c \<Longrightarrow> matches as t inside (if inside then c # cap else cap) cap' \<Longrightarrow>
    matches (One p # as) (c # t) inside cap cap'"
| Many_stop: "matches as t inside cap cap' \<Longrightarrow> matches (Many p # as) t inside cap cap'"
| Many_step: "p c \<Longrightarrow> matches (Many p # as) t inside (if inside then c # cap else cap) cap' \<Longrightarrow>
    matches (Many p # as) (c # t) inside cap cap'"

inductive_cases matches_NilE: "matches [] t inside cap cap'"
inductive_cases matches_OpenE: "matches (Open # as) t inside cap cap'"
inductive_cases matches_CloseE: "matches (Close # as) t inside cap cap'"
inductive_cases matches_OneE: "matches (One p # as) t inside cap cap'"
inductive_cases matches_ManyE: "matches (Many p # as) t inside cap cap'"

lemma rmatch_sound:
  "rmatch as s inside cap = Some m \<Longrightarrow>
     \<exists>t rest cap'. s = t @ rest \<and> matches as t inside cap cap' \<and> m = rev cap'"
proof (induction as s inside cap rule: rmatch.induct)
  case (5 p as c cs inside cap)
  then obtain t rest cap' where "cs = t @ rest" "m = rev cap'" "p c"
    "matches as t inside (if inside then c # cap else cap) cap'"
    by (auto split: if_splits)
  then show ?case by (metis One append_Cons)
next
  case (7 p as c cs inside cap)
  show ?case
  proof (cases "p c \<and> rmatch (Many p # as) cs inside (if inside then c # cap else cap) \<noteq> None")
    case True
    with 7 obtain t rest cap' where "cs = t @ rest" "m = rev cap'" "p c"
      "matches (Many p # as) t inside (if inside then c # cap else cap) cap'"
      by auto
    then show ?thesis by (metis Many_step append_Cons)
  next
    case False
    with 7 have "\<exists>t rest cap'. c # cs = t @ rest \<and> matches as t inside cap cap' \<and> m = rev cap'"
      by (auto split: if_splits)
    then show ?thesis by (blast intro: Many_stop)
  qed
next
  case (1 s inside cap)
  then show ?case by (simp, metis append_Nil matches.Nil rev_rev_ident)
next
  case (2 as s inside cap)
  then show ?case by (fastforce intro: matches.Open)
next
  case (3 as s inside cap)
  then show ?case by (fastforce intro: matches.Close)
next
  case (4 p as inside cap)
  then show ?case by simp
next
  case (6 p as inside cap)
  then show ?case by (fastforce intro: Many_stop)
qed

lemma rmatch_complete:
  "matches as t inside cap cap' \<Longrightarrow> rmatch as (t @ rest) inside cap \<noteq> None"
proof (induction as t inside cap cap' rule: matches.induct)
  case (Many_stop as t inside cap cap' p)
  then show ?case by (cases "t @ rest") (auto split: option.splits)
qed (auto split: option.splits)

lemma find_submatch_sound:
  "find_submatch as s = Some m \<Longrightarrow>
     \<exists>pre t rest cap'. s = pre @ t @ rest \<and> matches as t False [] cap' \<and> m = rev cap'"
proof (induction as s rule: find_submatch.induct)
  case (1 as)
  then show ?case using rmatch_sound [of as "[]"] by fastforce
next
  case (2 as c cs)
  show ?case
  proof (cases "rmatch as (c # cs) False []")
    case None
    with 2 obtain pre t rest cap' where "cs = pre @ t @ rest" "matches as t False [] cap'" "m = rev cap'"
      by auto
    then show ?thesis by (metis append_Cons)
  next
    case (Some m')
    with 2 have "rmatch as (c # cs) False [] = Some m" by simp
    from rmatch_sound [OF this] show ?thesis by (metis append_Nil)
  qed
qed

lemma find_submatch_complete:
  assumes "matches as t False [] cap'"
  shows "find_submatch as (pre @ t @ rest) \<noteq> None"
proof (induction pre)
  case Nil
  have "rmatch as (t @ rest) False [] \<noteq> None" by (rule rmatch_complete [OF assms])
  then show ?case by (cases "t @ rest") auto
next
  case (Cons c pre)
  then show ?case by (auto split: option.splits)
qed

section \<open>Reading the pieces of a pattern\<close>

lemma matches_lit_iff:
  "matches (lit w @ as) t False cap cap' \<longleftrightarrow> (\<exists>t'. t = w @ t' \<and> matches as t' False cap cap')"
proof (induction w arbitrary: t)
  case Nil
  then show ?case by (simp add: lit_def)
next
  case (Cons c w)
  have "matches (lit (c # w) @ as) t False cap cap' \<longleftrightarrow>
      (\<exists>t''. t = c # t'' \<and> matches (lit w @ as) t'' False cap cap')"
    by (auto simp: lit_def elim: matches_OneE intro: matches.One)
  with Cons show ?case by auto
qed

lemma matches_Many_iff:
  "matches (Many p # as) t inside cap cap' \<longleftrightarrow>
     (\<exists>u t'. t = u @ t' \<and> (\<forall>c \<in> set u. p c) \<and>
        matches as t' inside (if inside then rev u @ cap else cap) cap')"
  (is "?L t cap \<longleftrightarrow> ?R t cap")
proof
  show "?L t cap \<Longrightarrow> ?R t cap"
  proof (induction t arbitrary: cap)
    case Nil
    then show ?case by (auto elim: matches_ManyE)
  next
    case (Cons c t)
    from Cons.prems consider
        (stop) "matches as (c # t) inside cap cap'"
      | (step) "p c" "matches (Many p # as) t inside (if inside then c # cap else cap) cap'"
      by (auto elim: matches_ManyE)
    then show ?case
    proof cases
      case stop
      then show ?thesis
        by - (rule exI [of _ "[]"], rule exI [of _ "c # t"], cases inside, simp_all)
    next
      case step
      then have "p c" and m: "matches (Many p # as) t inside (if inside then c # cap else cap) cap'"
        by simp_all
      from Cons.IH [OF m] obtain u v where "t = u @ v" "\<forall>c \<in> set u. p c"
        "matches as v inside (if inside then rev u @ c # cap else cap) cap'"
        by (auto split: if_splits)
      with \<open>p c\<close> show ?thesis
        by - (rule exI [of _ "c # u"], rule exI [of _ v], auto split: if_splits)
    qed
  qed
  show "?R t cap \<Longrightarrow> ?L t cap"
  proof -
    have "matches as t' inside (if inside then rev u @ cap else cap) cap' \<Longrightarrow>
        \<forall>c \<in> set u. p c \<Longrightarrow> matches (Many p # as) (u @ t') inside cap cap'" for u t'
      by (induction u arbitrary: cap) (auto intro: matches.intros split: if_splits)
    then show "?R t cap \<Longrightarrow> ?L t cap" by blast
  qed
qed

end
