(* ===== verification/ParserApi.thy ===== *)
theory ParserApi
  imports SiddhiTypes GoJson
begin

text \<open>
  What goes over the wire between the operator and the Siddhi parser (the types of
  \<open>pkg/controller/siddhiprocess/parser/parser.go\<close>): the request, the configurations of the answer, and
  their JSON by the tags of the structs. A slice that the model keeps as a list is the nil slice when it is
  empty, as a slice built with \<open>append\<close> is.
\<close>

section \<open>The data\<close>

record request =
  rq_Apps :: "string list"
  rq_PropertyMap :: "string gomap"
  rq_MessagingSystem :: "messaging_system option"

record deployment_config =
  dc_ServiceProtocol :: string
  dc_Secured :: bool
  dc_Port :: goint
  dc_IsPulling :: bool

record app_config =
  ac_SiddhiApp :: string
  ac_DeploymentConfigs :: "deployment_config list"
  ac_PersistenceEnabled :: bool
  ac_Replicas :: int32

section \<open>The request as JSON\<close>

definition messaging_system_type :: gotype where
  "messaging_system_type = TStruct
     [(''type'', False, TString),
      (''config'', False, TStruct
         [(''streamingClusterId'', False, TString), (''bootstrapServers'', False, TSlice TString)])]"

definition request_type :: gotype where
  "request_type = TStruct
     [(''siddhiApps'', False, TSlice TString),
      (''propertyMap'', False, TMap TString),
      (''messagingSystem'', True, TPtr messaging_system_type)]"

definition messaging_system_value :: "messaging_system \<Rightarrow> goval" where
  "messaging_system_value ms = VStruct
     [VString (ms_Type ms),
      VStruct [VString (mc_ClusterID (ms_Config ms)), slice_value VString (mc_BootstrapServers (ms_Config ms))]]"

definition request_value :: "request \<Rightarrow> goval" where
  "request_value rq = VStruct
     [slice_value VString (rq_Apps rq),
      VMap (map (\<lambda>(k, v). (k, VString v)) (rq_PropertyMap rq)),
      (case rq_MessagingSystem rq of None \<Rightarrow> VNil | Some ms \<Rightarrow> VPtr (messaging_system_value ms))]"

definition Marshal_request :: "request \<Rightarrow> string" where
  "Marshal_request rq = Marshal_value request_type (request_value rq)"

section \<open>The answer from JSON\<close>

definition deployment_config_type :: gotype where
  "deployment_config_type = TStruct
     [(''serviceProtocol'', False, TString), (''secured'', False, TBool), (''port'', False, TInt 64),
      (''isPulling'', False, TBool)]"

definition app_config_type :: gotype where
  "app_config_type = TStruct
     [(''siddhiApp'', False, TString),
      (''sourceDeploymentConfigs'', False, TSlice deployment_config_type),
      (''persistenceEnabled'', False, TBool),
      (''replicas'', False, TInt 32)]"

definition deployment_config_value :: "deployment_config \<Rightarrow> goval" where
  "deployment_config_value dc = VStruct
     [VString (dc_ServiceProtocol dc), VBool (dc_Secured dc), VInt (sint (dc_Port dc)), VBool (dc_IsPulling dc)]"

definition app_config_value :: "app_config \<Rightarrow> goval" where
  "app_config_value ac = VStruct
     [VString (ac_SiddhiApp ac), slice_value deployment_config_value (ac_DeploymentConfigs ac),
      VBool (ac_PersistenceEnabled ac), VInt (sint (ac_Replicas ac))]"

text \<open>The records of values of these types.\<close>

definition value_deployment_config :: "goval \<Rightarrow> deployment_config" where
  "value_deployment_config v =
     (case struct_fields v of
        [protocol, secured, port, pulling] \<Rightarrow>
          \<lparr>dc_ServiceProtocol = value_string protocol, dc_Secured = value_bool secured,
           dc_Port = word_of_int (value_int port), dc_IsPulling = value_bool pulling\<rparr>
      | _ \<Rightarrow> \<lparr>dc_ServiceProtocol = [], dc_Secured = False, dc_Port = 0, dc_IsPulling = False\<rparr>)"

definition value_app_config :: "goval \<Rightarrow> app_config" where
  "value_app_config v =
     (case struct_fields v of
        [app, configs, persistence, replicas] \<Rightarrow>
          \<lparr>ac_SiddhiApp = value_string app, ac_DeploymentConfigs = value_slice value_deployment_config configs,
           ac_PersistenceEnabled = value_bool persistence, ac_Replicas = word_of_int (value_int replicas)\<rparr>
      | _ \<Rightarrow> \<lparr>ac_SiddhiApp = [], ac_DeploymentConfigs = [], ac_PersistenceEnabled = False, ac_Replicas = 0\<rparr>)"

definition Decode_app_configs :: "string \<Rightarrow> app_config list option" where
  "Decode_app_configs body =
     map_option (value_slice value_app_config) (Decode_value (TSlice app_config_type) body VNil)"

text \<open>What the parser's side writes for some configurations, with the same names.\<close>

definition Marshal_app_configs :: "app_config list \<Rightarrow> string" where
  "Marshal_app_configs acs = Marshal_value (TSlice app_config_type) (slice_value app_config_value acs)"

section \<open>What arrives\<close>

text \<open>The same data with every string made valid UTF-8.\<close>

definition valid_messaging_system :: "messaging_system \<Rightarrow> messaging_system" where
  "valid_messaging_system ms =
     \<lparr>ms_Type = to_valid (ms_Type ms),
      ms_Config = \<lparr>mc_ClusterID = to_valid (mc_ClusterID (ms_Config ms)),
        mc_BootstrapServers = map to_valid (mc_BootstrapServers (ms_Config ms))\<rparr>\<rparr>"

definition valid_request :: "request \<Rightarrow> request" where
  "valid_request rq =
     \<lparr>rq_Apps = map to_valid (rq_Apps rq),
      rq_PropertyMap = fold (\<lambda>(k, v). mput (to_valid k) (to_valid v)) (rq_PropertyMap rq) [],
      rq_MessagingSystem = map_option valid_messaging_system (rq_MessagingSystem rq)\<rparr>"

definition valid_deployment_config :: "deployment_config \<Rightarrow> deployment_config" where
  "valid_deployment_config dc = dc\<lparr>dc_ServiceProtocol := to_valid (dc_ServiceProtocol dc)\<rparr>"

definition valid_app_config :: "app_config \<Rightarrow> app_config" where
  "valid_app_config ac = ac\<lparr>ac_SiddhiApp := to_valid (ac_SiddhiApp ac),
     ac_DeploymentConfigs := map valid_deployment_config (ac_DeploymentConfigs ac)\<rparr>"

lemma wf_request_type: "wf_type request_type"
  by (simp add: request_type_def messaging_system_type_def utf8_valid_def to_valid_ascii)

lemma wf_app_config_type: "wf_type (TSlice app_config_type)"
  by (simp add: app_config_type_def deployment_config_type_def utf8_valid_def to_valid_ascii)

lemma has_type_request: "has_type request_type (request_value rq)"
  by (auto simp: request_type_def request_value_def messaging_system_type_def messaging_system_value_def
      has_type_slice list_all_iff split: option.splits)

lemma has_type_app_configs: "has_type (TSlice app_config_type) (slice_value app_config_value acs)"
  by (simp add: has_type_slice app_config_type_def app_config_value_def deployment_config_type_def
      deployment_config_value_def list_all_iff in_bits_sint64 in_bits_sint32)

lemma mput_values: "mput k (f v) (map (\<lambda>(k, v). (k, f v)) m) = map (\<lambda>(k, v). (k, f v)) (mput k v m)"
  by (induction m) auto

lemma fold_mput_values:
  "fold (\<lambda>(k, v). mput (g k) (f (h v))) m (map (\<lambda>(k, v). (k, f v)) acc) =
     map (\<lambda>(k, v). (k, f v)) (fold (\<lambda>(k, v). mput (g k) (h v)) m acc)"
  by (induction m arbitrary: acc) (auto simp: mput_values)

lemma sent_request: "sent request_type (request_value rq) = request_value (valid_request rq)"
  using fold_mput_values [of to_valid VString to_valid "rq_PropertyMap rq" "[]"]
  by (auto simp: request_type_def request_value_def valid_request_def messaging_system_type_def
      messaging_system_value_def valid_messaging_system_def sent_slice slice_value_map empty_value_def fold_map comp_def case_prod_unfold
      split: option.splits)

lemma value_of_app_config [simp]: "value_app_config (sent app_config_type (app_config_value ac)) = valid_app_config ac"
  by (simp add: value_app_config_def app_config_type_def app_config_value_def valid_app_config_def
      deployment_config_type_def deployment_config_value_def value_deployment_config_def valid_deployment_config_def
      sent_slice value_slice_of)

lemma Decode_Marshal_app_configs:
  "Decode_app_configs (Marshal_app_configs acs @ rest) = Some (map valid_app_config acs)"
proof -
  have "self_delimiting (encode_value (TSlice app_config_type) (slice_value app_config_value acs))"
    by (cases acs) (simp_all add: slice_value_def self_delimiting_def)
  from Decode_Marshal [OF wf_app_config_type has_type_app_configs, of acs rest] this show ?thesis
    by (simp add: Decode_app_configs_def Marshal_app_configs_def sent_slice value_slice_of)
qed

section \<open>Properties\<close>



end
