(* ===== verification/Parser.thy ===== *)
theory Parser
  imports DeployManager GoRegexp ParserApi
begin

text \<open>
  The parser client (\<open>pkg/controller/siddhiprocess/parser/parser.go\<close>): deploys the Siddhi parser,
  sends it the apps, turns its answer into applications and removes it again.

  Outside the repository are the parser service itself and the HTTP client: \<open>parser_service\<close> is a
  record of the calls made to them.
\<close>

section \<open>Constants and data\<close>

definition NATSMessagingType :: string where "NATSMessagingType = ''nats''"
definition NATSDefaultURL :: string where "NATSDefaultURL = ''nats://siddhi-nats:4222''"
definition ParserName :: string where "ParserName = ''parser''"
definition ParserHTTP :: string where "ParserHTTP = ''http://''"
definition ParserExtension :: string where "ParserExtension = ''-parser''"
definition ParserHealth :: string where "ParserHealth = ''.svc.cluster.local:9090/health''"
definition ParserContext :: string where "ParserContext = ''.svc.cluster.local:9090/siddhi-parser/parse''"
definition ParserPort :: int32 where "ParserPort = 9090"
definition ParserReplicas :: int32 where "ParserReplicas = 1"

definition ParserMinWait :: int where "ParserMinWait = 3"
definition ParserMaxWait :: int where "ParserMaxWait = 10"
definition ParserMaxRetry :: int where "ParserMaxRetry = 6"

text \<open>The status and the body of an answer, and the settings of the retrying client (waits in nanoseconds).\<close>

record http_response =
  hr_StatusCode :: goint
  hr_Body :: string

record retry_client =
  rt_RetryWaitMin :: int
  rt_RetryWaitMax :: int
  rt_RetryMax :: int

text \<open>
  \<open>psv_get\<close> is the GET of a retrying client, \<open>psv_url_ok\<close> says whether \<open>http.NewRequest\<close> accepts a URL,
  \<open>psv_do\<close> sends a POST with a body, and \<open>psv_json_error\<close> is the text of the decoder's error for a body
  that does not decode. What the calls answer may depend on the state of the cluster (whether the parser
  runs); they do not change it. A body is read to its end.
\<close>

record 'w parser_service =
  psv_get :: "retry_client \<Rightarrow> string \<Rightarrow> 'w \<Rightarrow> goerror option"
  psv_url_ok :: "string \<Rightarrow> bool"
  psv_do :: "string \<Rightarrow> string \<Rightarrow> 'w \<Rightarrow> goerror + http_response"
  psv_json_error :: "string \<Rightarrow> goerror"

record 'w parser =
  pr_Name :: string
  pr_Namespace :: string
  pr_Apps :: "string list"
  pr_Env :: "string gomap"
  pr_MessagingSystem :: messaging_system
  pr_Request :: request
  pr_KubeClient :: "'w kube_client"
  pr_Image :: docker_image
  pr_SiddhiProcess :: siddhi_process

section \<open>Names of apps\<close>

text \<open>The pattern \<open>.*@App:name\("(.*)"\)\s*\n\<close> for either quote.\<close>

definition app_name_pattern :: "char \<Rightarrow> atom list" where
  "app_name_pattern quote =
     Many dot # lit (''@App:name('' @ [quote]) @ Open # Many dot # Close # lit (quote # '')'') @
     Many perl_space # lit newline @ []"

definition double_quote :: char where "double_quote = CHR 0x22"
definition single_quote :: char where "single_quote = CHR 0x27"

definition getAppName :: "string \<Rightarrow> goerror + string" where
  "getAppName app =
     (case find_submatch (app_name_pattern double_quote) app of
        Some m \<Rightarrow> Inr (TrimSpace m)
      | None \<Rightarrow>
          (case find_submatch (app_name_pattern single_quote) app of
             Some m \<Rightarrow> Inr (TrimSpace m)
           | None \<Rightarrow> Inl (Failure ''Siddhi app name extraction error'')))"

section \<open>From the answer to applications\<close>

fun ContainsInt :: "goint list \<Rightarrow> goint \<Rightarrow> bool" where
  "ContainsInt [] v = False"
| "ContainsInt (s # ss) v = (if s = v then True else ContainsInt ss v)"

definition app_port :: "deployment_config \<Rightarrow> container_port" where
  "app_port dc =
     \<lparr>cp_Name = ''p'' @ Itoa (sint (dc_Port dc)), cp_ContainerPort = int32_of_int (dc_Port dc),
      cp_Protocol = dc_ServiceProtocol dc, cp_rest = []\<rparr>"

text \<open>The loop over the sources of an app, with \<open>ports\<close> and \<open>portList\<close>.\<close>

fun collect_ports :: "deployment_config list \<Rightarrow> container_port list \<Rightarrow> goint list \<Rightarrow> container_port list" where
  "collect_ports [] ports portList = ports"
| "collect_ports (dc # dcs) ports portList =
     (if \<not> dc_IsPulling dc \<and> \<not> ContainsInt portList (dc_Port dc)
      then collect_ports dcs (ports @ [app_port dc]) (portList @ [dc_Port dc])
      else collect_ports dcs ports portList)"

definition make_application :: "string \<Rightarrow> nat \<Rightarrow> app_config \<Rightarrow> string \<Rightarrow> application" where
  "make_application spName i ac appName =
     (let ports = collect_ports (ac_DeploymentConfigs ac) [] []
      in \<lparr>ap_Name = spName @ ''-'' @ Itoa (int i), ap_ContainerPorts = ports,
          ap_Apps = map_literal [(appName, ac_SiddhiApp ac)], ap_ServiceEnabled = (length ports > 0),
          ap_PersistenceEnabled = ac_PersistenceEnabled ac, ap_Replicas = ac_Replicas ac\<rparr>)"

text \<open>The loop over the answer; the applications so far are returned with the error.\<close>

fun make_applications :: "string \<Rightarrow> nat \<Rightarrow> app_config list \<Rightarrow> application list \<Rightarrow>
    application list \<times> goerror option" where
  "make_applications spName i [] applications = (applications, None)"
| "make_applications spName i (ac # acs) applications =
     (case getAppName (ac_SiddhiApp ac) of
        Inl err \<Rightarrow> (applications, Some err)
      | Inr appName \<Rightarrow>
          make_applications spName (Suc i) acs (applications @ [make_application spName i ac appName]))"

section \<open>The calls\<close>

definition parser_ms :: "messaging_system \<Rightarrow> messaging_system option" where
  "parser_ms ms =
     (if TypeDefined ms then
        Some (if EmptyConfig ms then
                \<lparr>ms_Type = NATSMessagingType,
                 ms_Config = \<lparr>mc_ClusterID = STANClusterName, mc_BootstrapServers = [NATSDefaultURL]\<rparr>\<rparr>
              else ms)
      else None)"

definition createRequest :: "'w parser \<Rightarrow> 'w parser" where
  "createRequest p = p\<lparr>pr_Request :=
     \<lparr>rq_Apps = pr_Apps p, rq_PropertyMap = pr_Env p, rq_MessagingSystem = parser_ms (pr_MessagingSystem p)\<rparr>\<rparr>"

definition generatedParserName :: "'w parser \<Rightarrow> string" where
  "generatedParserName p = pr_Name p @ ParserExtension"

definition parser_ports :: "container_port list" where
  "parser_ports = [\<lparr>cp_Name = ParserName, cp_ContainerPort = ParserPort, cp_Protocol = ''TCP'', cp_rest = []\<rparr>]"

definition parser_manager :: "'w parser \<Rightarrow> 'w deploy_manager" where
  "parser_manager p =
     \<lparr>dm_Application =
        \<lparr>ap_Name = generatedParserName p, ap_ContainerPorts = parser_ports, ap_Apps = [],
         ap_ServiceEnabled = True, ap_PersistenceEnabled = False, ap_Replicas = ParserReplicas\<rparr>,
      dm_KubeClient = pr_KubeClient p, dm_Labels = [], dm_Image = pr_Image p,
      dm_SiddhiProcess = pr_SiddhiProcess p\<rparr>"

definition waitForParser :: "'w parser_service \<Rightarrow> string \<Rightarrow> 'w \<Rightarrow> goerror option" where
  "waitForParser svc url w =
     psv_get svc \<lparr>rt_RetryWaitMin = ParserMinWait * time_Second, rt_RetryWaitMax = ParserMaxWait * time_Second,
       rt_RetryMax = ParserMaxRetry\<rparr> url w"

definition parser_deploy :: "yaml_unmarshal \<Rightarrow> 'w parser_service \<Rightarrow> 'w parser \<Rightarrow> 'w \<Rightarrow>
    (goerror option \<times> 'w) option" where
  "parser_deploy yaml svc p w = do {
     ((_, err, d), w1) \<leftarrow> Deploy yaml (parser_manager p) w;
     case err of
       Some e \<Rightarrow> Some (Some e, w1)
     | None \<Rightarrow> do {
         ((_, err), w2) \<leftarrow> CreateOrUpdateService (pr_KubeClient p) (generatedParserName p)
           (sp_Namespace (pr_SiddhiProcess p)) parser_ports (dm_Labels d) (OSiddhiProcess (pr_SiddhiProcess p)) w1;
         case err of
           Some e \<Rightarrow> Some (Some e, w2)
         | None \<Rightarrow> Some (waitForParser svc (ParserHTTP @ generatedParserName p @ ''.'' @
             sp_Namespace (pr_SiddhiProcess p) @ ParserHealth) w2, w2)
       }
   }"

text \<open>The error of \<open>http.NewRequest\<close> is dropped, so a URL it rejects is a nil dereference.\<close>

definition parser_url :: "'w parser \<Rightarrow> string" where
  "parser_url p = ParserHTTP @ pr_Name p @ ParserExtension @ ''.'' @ sp_Namespace (pr_SiddhiProcess p) @ ParserContext"

definition invokeParser :: "'w parser_service \<Rightarrow> 'w parser \<Rightarrow> request \<Rightarrow> 'w \<Rightarrow> (goerror + app_config list) option" where
  "invokeParser svc p request w =
     (if \<not> psv_url_ok svc (parser_url p) then None
      else (case psv_do svc (parser_url p) (Marshal_request request) w of
              Inl err \<Rightarrow> Some (Inl err)
            | Inr resp \<Rightarrow>
                if hr_StatusCode resp \<noteq> 200 then
                  Some (Inl (Failure (parser_url p @ '' invalid HTTP response status '' @
                    Itoa (sint (hr_StatusCode resp)))))
                else
                  (case Decode_app_configs (hr_Body resp) of
                     None \<Rightarrow> Some (Inl (psv_json_error svc (hr_Body resp)))
                   | Some appConfigs \<Rightarrow> Some (Inr appConfigs))))"

definition cleanParser :: "'w parser \<Rightarrow> 'w \<Rightarrow> goerror option \<times> 'w" where
  "cleanParser p w =
     (let parserName = sp_Name (pr_SiddhiProcess p) @ ParserExtension; ns = sp_Namespace (pr_SiddhiProcess p);
          (err, w1) = DeleteDeployment (pr_KubeClient p) parserName ns w
      in case err of
           Some e \<Rightarrow> (Some e, w1)
         | None \<Rightarrow> DeleteService (pr_KubeClient p) parserName ns w1)"

text \<open>The error of \<open>deploy\<close> is overwritten by the next call.\<close>

definition Parse :: "yaml_unmarshal \<Rightarrow> 'w parser_service \<Rightarrow> 'w parser \<Rightarrow> 'w \<Rightarrow>
    ((application list \<times> goerror option) \<times> 'w) option" where
  "Parse yaml svc p0 w =
     (let p = createRequest p0
      in do {
        (_, w1) \<leftarrow> parser_deploy yaml svc p w;
        r \<leftarrow> invokeParser svc p (pr_Request p) w1;
        case r of
          Inl err \<Rightarrow> Some (([], Some err), w1)
        | Inr appConfigs \<Rightarrow>
            (let (applications, err) = make_applications (sp_Name (pr_SiddhiProcess p)) 0 appConfigs []
             in case err of
                  Some e \<Rightarrow> Some ((applications, Some e), w1)
                | None \<Rightarrow> (let (err, w2) = cleanParser p w1 in Some ((applications, err), w2)))
      })"

section \<open>What the names are\<close>

lemma app_name_matches:
  "matches (app_name_pattern q) t False [] cap \<longleftrightarrow>
     (\<exists>pre g ws. t = pre @ ''@App:name('' @ q # g @ q # '')'' @ ws @ newline \<and> cap = rev g \<and>
        (\<forall>c \<in> set pre. dot c) \<and> (\<forall>c \<in> set g. dot c) \<and> (\<forall>c \<in> set ws. perl_space c))"
  (is "?L \<longleftrightarrow> ?R")
proof -
  have o: "matches (Open # as) t' False c cap \<longleftrightarrow> matches as t' True [] cap"
    and c: "matches (Close # as) t' True c cap \<longleftrightarrow> matches as t' False c cap"
    and n: "matches [] t' False c cap \<longleftrightarrow> t' = [] \<and> cap = c" for as t' c
    by (auto elim: matches_OpenE matches_CloseE matches_NilE intro: matches.intros)
  show ?thesis
    unfolding app_name_pattern_def matches_Many_iff matches_lit_iff o c n by auto (metis append_Cons append_assoc)+
qed

text \<open>The annotation the patterns look for, and the text between its quotes.\<close>

definition annotated :: "char \<Rightarrow> string \<Rightarrow> string \<Rightarrow> bool" where
  "annotated q g app \<longleftrightarrow>
     (\<exists>pre ws post. app = pre @ ''@App:name('' @ q # g @ q # '')'' @ ws @ newline @ post \<and>
        (\<forall>c \<in> set g. dot c) \<and> (\<forall>c \<in> set ws. perl_space c))"

lemma find_app_name_sound: "find_submatch (app_name_pattern q) app = Some g \<Longrightarrow> annotated q g app"
proof -
  assume "find_submatch (app_name_pattern q) app = Some g"
  from find_submatch_sound [OF this] obtain pre t rest where app: "app = pre @ t @ rest"
    and "matches (app_name_pattern q) t False [] (rev g)" by (metis rev_rev_ident)
  then obtain pre' ws where t: "t = pre' @ ''@App:name('' @ q # g @ q # '')'' @ ws @ newline"
    and g: "\<forall>c \<in> set g. dot c" "\<forall>c \<in> set ws. perl_space c"
    by (auto simp: app_name_matches)
  show ?thesis
    unfolding annotated_def app t using g by (intro exI [of _ "pre @ pre'"] exI [of _ ws] exI [of _ rest]) simp
qed

lemma find_app_name_complete: "annotated q g app \<Longrightarrow> find_submatch (app_name_pattern q) app \<noteq> None"
proof -
  assume "annotated q g app"
  then obtain pre ws post where app: "app = pre @ (''@App:name('' @ q # g @ q # '')'' @ ws @ newline) @ post"
    and g: "\<forall>c \<in> set g. dot c" "\<forall>c \<in> set ws. perl_space c" by (auto simp: annotated_def)
  have "matches (app_name_pattern q) (''@App:name('' @ q # g @ q # '')'' @ ws @ newline) False [] (rev g)"
    unfolding app_name_matches using g by (intro exI [of _ "[]"] exI [of _ g] exI [of _ ws]) simp
  from find_submatch_complete [OF this] show ?thesis unfolding app .
qed

section \<open>What the applications are\<close>

lemma ContainsInt_iff [simp]: "ContainsInt ss v \<longleftrightarrow> v \<in> set ss"
  by (induction ss) auto

text \<open>The sources that give a port: those that do not pull, one for each port number.\<close>

lemma collect_ports_spec:
  "\<exists>new. collect_ports dcs ports portList = ports @ map app_port new \<and>
     distinct (map dc_Port new) \<and> set (map dc_Port new) \<inter> set portList = {} \<and>
     (\<forall>dc \<in> set new. dc \<in> set dcs \<and> \<not> dc_IsPulling dc) \<and>
     (\<forall>dc \<in> set dcs. \<not> dc_IsPulling dc \<longrightarrow> dc_Port dc \<in> set portList \<union> set (map dc_Port new))"
proof (induction dcs arbitrary: ports portList)
  case Nil
  then show ?case by simp
next
  case (Cons dc dcs)
  show ?case
  proof (cases "\<not> dc_IsPulling dc \<and> dc_Port dc \<notin> set portList")
    case True
    from Cons.IH [of "ports @ [app_port dc]" "portList @ [dc_Port dc]"] obtain new where
      "collect_ports dcs (ports @ [app_port dc]) (portList @ [dc_Port dc]) = (ports @ [app_port dc]) @ map app_port new"
      "distinct (map dc_Port new)" "set (map dc_Port new) \<inter> set (portList @ [dc_Port dc]) = {}"
      "\<forall>dc \<in> set new. dc \<in> set dcs \<and> \<not> dc_IsPulling dc"
      "\<forall>dc' \<in> set dcs. \<not> dc_IsPulling dc' \<longrightarrow> dc_Port dc' \<in> set (portList @ [dc_Port dc]) \<union> set (map dc_Port new)"
      by blast
    with True show ?thesis by (intro exI [of _ "dc # new"]) auto
  next
    case False
    from Cons.IH [of ports portList] obtain new where
      "collect_ports dcs ports portList = ports @ map app_port new"
      "distinct (map dc_Port new)" "set (map dc_Port new) \<inter> set portList = {}"
      "\<forall>dc \<in> set new. dc \<in> set dcs \<and> \<not> dc_IsPulling dc"
      "\<forall>dc' \<in> set dcs. \<not> dc_IsPulling dc' \<longrightarrow> dc_Port dc' \<in> set portList \<union> set (map dc_Port new)"
      by blast
    with False show ?thesis by (intro exI [of _ new]) auto
  qed
qed

lemma make_applications_spec:
  "make_applications spName i acs applications = (result, err) \<Longrightarrow>
     \<exists>names. result = applications @
         map (\<lambda>j. make_application spName (i + j) (acs ! j) (names ! j)) [0..<length names] \<and>
       length names \<le> length acs \<and>
       (\<forall>j < length names. getAppName (ac_SiddhiApp (acs ! j)) = Inr (names ! j)) \<and>
       (case err of
          None \<Rightarrow> length names = length acs
        | Some e \<Rightarrow> length names < length acs \<and> getAppName (ac_SiddhiApp (acs ! length names)) = Inl e)"
proof (induction acs arbitrary: i applications)
  case Nil
  then show ?case by auto
next
  case (Cons ac acs)
  show ?case
  proof (cases "getAppName (ac_SiddhiApp ac)")
    case (Inl e)
    with Cons.prems show ?thesis by (intro exI [of _ "[]"]) auto
  next
    case (Inr name)
    with Cons.prems have
      "make_applications spName (Suc i) acs (applications @ [make_application spName i ac name]) = (result, err)"
      by simp
    from Cons.IH [OF this] obtain names where
      r: "result = (applications @ [make_application spName i ac name]) @
        map (\<lambda>j. make_application spName (Suc i + j) (acs ! j) (names ! j)) [0..<length names]"
      and "length names \<le> length acs"
      "\<forall>j < length names. getAppName (ac_SiddhiApp (acs ! j)) = Inr (names ! j)"
      "case err of None \<Rightarrow> length names = length acs
        | Some e \<Rightarrow> length names < length acs \<and> getAppName (ac_SiddhiApp (acs ! length names)) = Inl e"
      by blast
    then show ?thesis
      using Inr by (intro exI [of _ "name # names"])
        (auto simp: map_upt_Suc less_Suc_eq_0_disj split: option.splits simp del: upt_Suc)
  qed
qed

section \<open>What Parse does to the server\<close>

definition parser_targets :: "'w parser \<Rightarrow> (kind \<times> namespaced_name) set" where
  "parser_targets p =
     (let ns = sp_Namespace (pr_SiddhiProcess p); clean = sp_Name (pr_SiddhiProcess p) @ ParserExtension
      in deploy_targets (parser_manager p) \<union>
         {(KService, nn (generatedParserName p) ns), (KDeployment, nn clean ns), (KService, nn clean ns)})"

context kube_api
begin

lemma delete_touches:
  assumes "kc_Client k = c" and "inv w" and "delete_kind kd k name namespace w = (err, w')" and "kd \<noteq> KSiddhiProcess"
  shows "inv w' \<and> touches (look w) (look w') {(kd, nn name namespace)}"
  using delete_result [OF assms(1-3)] assms(4) by (simp add: touches_same_except)

lemma cleanParser_result:
  assumes k: "kc_Client (pr_KubeClient p) = c" and w: "inv w" and run: "cleanParser p w = (err, w')"
  shows "inv w' \<and> touches (look w) (look w') (parser_targets p)"
proof -
  let ?n = "sp_Name (pr_SiddhiProcess p) @ ParserExtension" and ?ns = "sp_Namespace (pr_SiddhiProcess p)"
  obtain err1 w1 where one: "delete_kind KDeployment (pr_KubeClient p) ?n ?ns w = (err1, w1)" by force
  from delete_touches [OF k w one] have t1: "inv w1" "touches (look w) (look w1) {(KDeployment, nn ?n ?ns)}"
    by auto
  have sub: "{(KDeployment, nn ?n ?ns)} \<subseteq> parser_targets p" "{(KService, nn ?n ?ns)} \<subseteq> parser_targets p"
    by (auto simp: parser_targets_def Let_def)
  show ?thesis
  proof (cases err1)
    case (Some e)
    with run one t1(1) touches_mono [OF t1(2) sub(1)] show ?thesis
      by (simp add: cleanParser_def DeleteDeployment_def)
  next
    case None
    with run one have "delete_kind KService (pr_KubeClient p) ?n ?ns w1 = (err, w')"
      by (simp add: cleanParser_def DeleteDeployment_def DeleteService_def)
    from delete_touches [OF k t1(1) this] touches_trans [OF t1(2) _ sub] show ?thesis by auto
  qed
qed

end

context kube_defaulting
begin

lemma parser_deploy_result:
  assumes k: "kc_Client (pr_KubeClient p) = c" and w: "inv w"
  shows "\<exists>err w'. parser_deploy yaml svc p w = Some (err, w') \<and> inv w' \<and>
    touches (look w) (look w') (parser_targets p)"
proof -
  let ?d = "parser_manager p" and ?sp = "pr_SiddhiProcess p"
  have d: "dm_KubeClient ?d = pr_KubeClient p" by (simp add: parser_manager_def)
  from Deploy_result [of ?d w yaml, unfolded d, OF k w] obtain op err w1 where
    one: "Deploy yaml ?d w = Some ((op, err, CreateLabels ?d), w1)" "inv w1" "touches (look w) (look w1) (deploy_targets ?d)"
    by blast
  have sub: "deploy_targets ?d \<subseteq> parser_targets p"
    "{(KService, nn (generatedParserName p) (sp_Namespace ?sp))} \<subseteq> parser_targets p"
    by (auto simp: parser_targets_def Let_def)
  show ?thesis
  proof (cases err)
    case (Some e)
    with one touches_mono [OF one(3) sub(1)] show ?thesis by (simp add: parser_deploy_def)
  next
    case None
    from Service_result [OF k one(2), of "generatedParserName p" "sp_Namespace ?sp" parser_ports
        "dm_Labels (CreateLabels ?d)" "OSiddhiProcess ?sp"]
    obtain op2 err2 w2 where two: "CreateOrUpdateService (pr_KubeClient p) (generatedParserName p) (sp_Namespace ?sp)
        parser_ports (dm_Labels (CreateLabels ?d)) (OSiddhiProcess ?sp) w1 = Some ((op2, err2), w2)" "inv w2"
      "touches (look w1) (look w2) {(KService, nn (generatedParserName p) (sp_Namespace ?sp))}"
      by (blast dest: outcome_touches)
    from one(1) two(1) None touches_trans [OF one(3) two(3) sub] two(2) show ?thesis
      by (cases err2) (auto simp: parser_deploy_def)
  qed
qed

lemma createRequest_simps [simp]:
  "pr_KubeClient (createRequest p) = pr_KubeClient p" "pr_SiddhiProcess (createRequest p) = pr_SiddhiProcess p"
  "parser_targets (createRequest p) = parser_targets p" "parser_url (createRequest p) = parser_url p"
  by (simp_all add: createRequest_def parser_targets_def parser_manager_def generatedParserName_def parser_url_def)

lemma Parse_result:
  assumes k: "kc_Client (pr_KubeClient p) = c" and w: "inv w" and url: "psv_url_ok svc (parser_url p)"
  shows "\<exists>apps err w'. Parse yaml svc p w = Some ((apps, err), w') \<and> inv w' \<and>
    touches (look w) (look w') (parser_targets p) \<and>
    (err = None \<longrightarrow> (\<exists>w1 resp acs. psv_do svc (parser_url p) (Marshal_request (pr_Request (createRequest p))) w1 = Inr resp \<and>
       hr_StatusCode resp = 200 \<and> Decode_app_configs (hr_Body resp) = Some acs \<and>
       make_applications (sp_Name (pr_SiddhiProcess p)) 0 acs [] = (apps, None)))"
proof -
  let ?p = "createRequest p"
  from parser_deploy_result [of ?p w yaml svc] k w obtain err1 w1 where
    one: "parser_deploy yaml svc ?p w = Some (err1, w1)" "inv w1" "touches (look w) (look w1) (parser_targets p)"
    by auto
  from url have "invokeParser svc ?p (pr_Request ?p) w1 \<noteq> None"
    by (simp add: invokeParser_def split: sum.splits option.splits)
  then obtain r where r: "invokeParser svc ?p (pr_Request ?p) w1 = Some r" by blast
  show ?thesis
  proof (cases r)
    case (Inl e)
    with one r show ?thesis by (simp add: Parse_def Let_def)
  next
    case (Inr acs)
    with r url obtain resp where resp: "psv_do svc (parser_url p) (Marshal_request (pr_Request ?p)) w1 = Inr resp"
      "hr_StatusCode resp = 200" "Decode_app_configs (hr_Body resp) = Some acs"
      by (auto simp: invokeParser_def split: sum.splits if_splits option.splits)
    obtain apps err2 where apps: "make_applications (sp_Name (pr_SiddhiProcess p)) 0 acs [] = (apps, err2)" by force
    show ?thesis
    proof (cases err2)
      case (Some e)
      with one r Inr apps show ?thesis by (simp add: Parse_def Let_def)
    next
      case None
      obtain err3 w3 where clean: "cleanParser ?p w1 = (err3, w3)" by force
      from cleanParser_result [OF _ one(2) clean] k
      have t3: "inv w3" "touches (look w1) (look w3) (parser_targets p)" by auto
      have "Parse yaml svc p w = Some ((apps, err3), w3)"
        using one(1) r Inr apps None clean by (simp add: Parse_def Let_def)
      with t3(1) touches_trans [OF one(3) t3(2)] resp apps None show ?thesis by blast
    qed
  qed
qed

end

section \<open>Properties\<close>

text \<open>
  The name of an app. \<open>getAppName\<close> succeeds exactly when the text contains \<open>@App:name("...")\<close> or
  \<open>@App:name('...')\<close> followed by white space and a newline, with no newline in between; the name it
  returns is the text between the quotes of such an annotation, trimmed.
\<close>

theorem getAppName_annotation:
  "case getAppName app of
     Inr name \<Rightarrow> \<exists>q \<in> {double_quote, single_quote}. \<exists>g. annotated q g app \<and> name = TrimSpace g
   | Inl e \<Rightarrow> \<not> (\<exists>q \<in> {double_quote, single_quote}. \<exists>g. annotated q g app)"
proof (cases "find_submatch (app_name_pattern double_quote) app")
  case (Some g)
  with find_app_name_sound [OF Some] show ?thesis by (auto simp: getAppName_def)
next
  case d: None
  show ?thesis
  proof (cases "find_submatch (app_name_pattern single_quote) app")
    case (Some g)
    with d find_app_name_sound [OF Some] show ?thesis by (auto simp: getAppName_def)
  next
    case None
    with d have "\<not> annotated double_quote g app" "\<not> annotated single_quote g app" for g
      using find_app_name_complete by blast+
    with d None show ?thesis by (simp add: getAppName_def)
  qed
qed

text \<open>
  The group of the pattern is greedy, so an app whose annotations share a line gets a wrong name:
  the text up to the last closing quote and bracket of the line.
\<close>

theorem getAppName_greedy:
  "getAppName ([CHR ''@''] @ ''App:name('' @ [CHR 0x22] @ ''A'' @ [CHR 0x22] @ '') @App:description('' @
      [CHR 0x22] @ ''B'' @ [CHR 0x22] @ '')'' @ newline) =
   Inr (''A'' @ [CHR 0x22] @ '') @App:description('' @ [CHR 0x22] @ ''B'')"
  by code_simp

text \<open>
  The ports of an application. One port for every port number of a source that does not pull, in
  the order of the sources; the names of the ports are distinct. The service is enabled exactly when
  there is such a source.
\<close>

theorem ports_of_sources:
  defines "serving \<equiv> \<lambda>ac. filter (\<lambda>dc. \<not> dc_IsPulling dc) (ac_DeploymentConfigs ac)"
  shows "let app = make_application spName i ac appName; ports = ap_ContainerPorts app in
    (\<exists>new. ports = map app_port new \<and> distinct (map dc_Port new) \<and> set new \<subseteq> set (serving ac) \<and>
       set (map dc_Port new) = set (map dc_Port (serving ac))) \<and>
    distinct (map cp_Name ports) \<and> (ap_ServiceEnabled app \<longleftrightarrow> serving ac \<noteq> [])"
proof -
  from collect_ports_spec [of "ac_DeploymentConfigs ac" "[]" "[]"] obtain new where
    new: "collect_ports (ac_DeploymentConfigs ac) [] [] = map app_port new" "distinct (map dc_Port new)"
      "\<forall>dc \<in> set new. dc \<in> set (ac_DeploymentConfigs ac) \<and> \<not> dc_IsPulling dc"
      "\<forall>dc \<in> set (ac_DeploymentConfigs ac). \<not> dc_IsPulling dc \<longrightarrow> dc_Port dc \<in> set (map dc_Port new)"
    by auto
  have inj: "inj (\<lambda>p. ''p'' @ Itoa (sint p))" for p :: goint
    by (rule injI) (simp add: Itoa_inj signed_word_eqI)
  have "map (cp_Name \<circ> app_port) new = map (\<lambda>p. ''p'' @ Itoa (sint p)) (map dc_Port new)"
    by (simp add: app_port_def)
  moreover have "distinct (map (\<lambda>p. ''p'' @ Itoa (sint p)) (map dc_Port new))"
    by (subst distinct_map) (use new(2) inj in \<open>blast intro: inj_on_subset\<close>)
  ultimately have "distinct (map (cp_Name \<circ> app_port) new)" by metis
  moreover have "new = [] \<longleftrightarrow> serving ac = []"
    using new(3,4) by (cases new) (auto simp: serving_def filter_empty_conv)
  ultimately show ?thesis
    using new by (auto simp: make_application_def Let_def serving_def)
qed

text \<open>
  C31: the applications. When the answer is turned into applications without an error there is one for
  every element, in order: application \<open>i\<close> is called \<open><process>-<i>\<close> (so the names are distinct) and has
  the script of element \<open>i\<close> under its app name. The first element without a name ends the loop with
  the applications before it.
\<close>

theorem applications_of_answer:
  assumes "make_applications spName 0 acs [] = (applications, err)"
  shows "distinct (map ap_Name applications) \<and>
    (case err of None \<Rightarrow> length applications = length acs
     | Some e \<Rightarrow> length applications < length acs \<and> getAppName (ac_SiddhiApp (acs ! length applications)) = Inl e) \<and>
    (\<forall>i < length applications. \<exists>name. getAppName (ac_SiddhiApp (acs ! i)) = Inr name \<and>
       ap_Name (applications ! i) = spName @ ''-'' @ Itoa (int i) \<and>
       ap_Apps (applications ! i) = [(name, ac_SiddhiApp (acs ! i))] \<and>
       ap_PersistenceEnabled (applications ! i) = ac_PersistenceEnabled (acs ! i) \<and>
       ap_Replicas (applications ! i) = ac_Replicas (acs ! i))"
proof -
  from make_applications_spec [OF assms] obtain names where
    r: "applications = map (\<lambda>j. make_application spName j (acs ! j) (names ! j)) [0..<length names]" and
    n: "\<forall>j < length names. getAppName (ac_SiddhiApp (acs ! j)) = Inr (names ! j)" and
    e: "case err of None \<Rightarrow> length names = length acs
        | Some e \<Rightarrow> length names < length acs \<and> getAppName (ac_SiddhiApp (acs ! length names)) = Inl e"
    by auto
  have "distinct (map (\<lambda>j. spName @ ''-'' @ Itoa (int j)) [0..<m])" for m
    by (simp add: distinct_map inj_on_def Itoa_inj)
  then have "distinct (map ap_Name applications)" by (simp add: r make_application_def Let_def o_def)
  moreover have len: "length applications = length names" by (simp add: r)
  moreover have "\<exists>name. getAppName (ac_SiddhiApp (acs ! i)) = Inr name \<and>
       ap_Name (applications ! i) = spName @ ''-'' @ Itoa (int i) \<and>
       ap_Apps (applications ! i) = [(name, ac_SiddhiApp (acs ! i))] \<and>
       ap_PersistenceEnabled (applications ! i) = ac_PersistenceEnabled (acs ! i) \<and>
       ap_Replicas (applications ! i) = ac_Replicas (acs ! i)" if "i < length applications" for i
    using n that len by (simp add: r make_application_def Let_def map_literal_def)
  ultimately show ?thesis using e [folded len] by blast
qed

definition sample_script :: string where
  "sample_script = ''@App:name('' @ [CHR 0x27] @ ''a'' @ [CHR 0x27] @ '')'' @ newline"

definition sample_answer :: "app_config list" where
  "sample_answer = [\<lparr>ac_SiddhiApp = sample_script, ac_DeploymentConfigs = [], ac_PersistenceEnabled = False, ac_Replicas = 1\<rparr>]"

theorem applications_of_answer_witness:
  "\<exists>apps. make_applications ''sp'' 0 sample_answer [] = (apps, None) \<and> length apps = 1 \<and>
     ap_Apps (apps ! 0) = [(''a'', sample_script)]"
proof -
  have name: "getAppName sample_script = Inr ''a''" by code_simp
  obtain apps err where run: "make_applications ''sp'' 0 sample_answer [] = (apps, err)" by force
  with name have "err = None" by (simp add: sample_answer_def)
  with run applications_of_answer [OF run] name show ?thesis by (auto simp: sample_answer_def)
qed

text \<open>
  \<open>Parse\<close>, with a service whose URL is well formed, never panics and touches only the parser's
  deployment and service and the config map of the process; when it returns nil the applications are
  those of a well-formed answer of status 200.
\<close>

theorem Parse_result_of_answer:
  assumes "kube_defaulting (kc_Client (pr_KubeClient p)) look adm valid" and "valid w"
    and "psv_url_ok svc (parser_url p)"
  shows "\<exists>apps err w'. Parse yaml svc p w = Some ((apps, err), w') \<and> valid w' \<and>
    touches (look w) (look w') (parser_targets p) \<and>
    (err = None \<longrightarrow> (\<exists>w1 resp acs. psv_do svc (parser_url p) (Marshal_request (pr_Request (createRequest p))) w1 = Inr resp \<and>
       hr_StatusCode resp = 200 \<and> Decode_app_configs (hr_Body resp) = Some acs \<and>
       make_applications (sp_Name (pr_SiddhiProcess p)) 0 acs [] = (apps, None)))"
  using kube_defaulting.Parse_result [OF assms(1) refl assms(2,3)] .

definition sample_parser :: "tracker parser" where
  "sample_parser = \<lparr>pr_Name = ''app'', pr_Namespace = ''ns'', pr_Apps = [sample_script], pr_Env = [],
     pr_MessagingSystem = zero_messaging_system,
     pr_Request = \<lparr>rq_Apps = [], rq_PropertyMap = [], rq_MessagingSystem = None\<rparr>, pr_KubeClient = sample_kube,
     pr_Image = sample_image, pr_SiddhiProcess = sample_process\<rparr>"

definition sample_service :: "tracker parser_service" where
  "sample_service = \<lparr>psv_get = (\<lambda>client url w. None), psv_url_ok = (\<lambda>url. True),
     psv_do = (\<lambda>url body w. Inr \<lparr>hr_StatusCode = 200, hr_Body = Marshal_app_configs sample_answer @ newline\<rparr>),
     psv_json_error = (\<lambda>body. Failure ''json'')\<rparr>"

lemma sample_answer_valid: "map valid_app_config sample_answer = sample_answer"
proof -
  have "\<forall>c \<in> set sample_script. byte c < 128" by (simp add: sample_script_def newline_def)
  then show ?thesis
    by (simp add: sample_answer_def valid_app_config_def to_valid_ascii)
qed

lemma sample_decodes [simp]: "Decode_app_configs (Marshal_app_configs sample_answer @ rest) = Some sample_answer"
  using Decode_Marshal_app_configs sample_answer_valid by metis

theorem Parse_result_of_answer_witness:
  "\<exists>apps w'. Parse sample_yaml sample_service sample_parser empty_tracker = Some ((apps, None), w') \<and>
     tracker_inv w' \<and> make_applications ''app'' 0 sample_answer [] = (apps, None)"
proof -
  have k: "kube_defaulting (kc_Client (pr_KubeClient sample_parser)) tracker_look (\<lambda>obj. obj) tracker_inv"
    using sample_default by (simp add: sample_parser_def)
  have url: "psv_url_ok sample_service (parser_url p)" for p by (simp add: sample_service_def)
  from Parse_result_of_answer [OF k, OF tracker_inv_empty, OF url, of sample_yaml] obtain apps err w' where
    run: "Parse sample_yaml sample_service sample_parser empty_tracker = Some ((apps, err), w')" "tracker_inv w'"
    "err = None \<longrightarrow> make_applications ''app'' 0 sample_answer [] = (apps, None)"
    by (auto simp: sample_service_def sample_parser_def sample_process_def new_meta_def)
  let ?p = "createRequest sample_parser"
  have clean: "case parser_deploy sample_yaml sample_service ?p empty_tracker of
      Some (_, w1) \<Rightarrow> fst (cleanParser ?p w1) = None | None \<Rightarrow> False"
    by code_simp
  then obtain e w1 where w1: "parser_deploy sample_yaml sample_service ?p empty_tracker = Some (e, w1)"
    "fst (cleanParser ?p w1) = None" by (auto split: option.splits)
  have invoke: "invokeParser sample_service ?p (pr_Request ?p) w1 = Some (Inr sample_answer)"
    unfolding invokeParser_def using url by (simp add: sample_service_def)
  have name: "getAppName sample_script = Inr ''a''" by code_simp
  obtain w2 where "cleanParser ?p w1 = (None, w2)" using w1(2) by (cases "cleanParser ?p w1") auto
  with run(1) w1(1) invoke name have "err = None"
    by (auto simp: Parse_def Let_def sample_answer_def)
  with run show ?thesis by auto
qed

end
