(* ===== verification/Reconcile.thy ===== *)
theory Reconcile
  imports SiddhiController Parser
begin

text \<open>
  The reconciler (\<open>pkg/controller/siddhiprocess/siddhiprocess_controller.go\<close>): the predicates that
  filter the events of the watches, and \<open>Reconcile\<close>, which handles one request.

  The package's global variables are fields of \<open>op_state\<close>: the applications by name of the process
  (\<open>SPContainer\<close>), the config maps that are listened to (\<open>CMContainer\<close>) and the flag of the messaging
  warning. What lies outside the repository is in the record \<open>environment\<close>. Go passes pointers to one
  process from \<open>Reconcile\<close> to the controller, the parser and the messaging component; here they get
  the value the pointer has at the time.
\<close>

section \<open>Events\<close>

datatype EventType = CREATE | UPDATE | DELETE | GENERIC | TIMER

fun eventType_name :: "EventType \<Rightarrow> string" where
  "eventType_name CREATE = ''Create''"
| "eventType_name UPDATE = ''Update''"
| "eventType_name DELETE = ''Delete''"
| "eventType_name GENERIC = ''Generic''"
| "eventType_name TIMER = ''Timer''"

record cm_listener =
  cml_SiddhiProcess :: string
  cml_Changed :: bool

text \<open>A Go map whose missing entries read as the zero value.\<close>

definition listener :: "(string \<Rightarrow> cm_listener option) \<Rightarrow> string \<Rightarrow> cm_listener" where
  "listener m k = (case m k of Some l \<Rightarrow> l | None \<Rightarrow> \<lparr>cml_SiddhiProcess = [], cml_Changed = False\<rparr>)"

text \<open>A slice of applications is nil exactly when it is empty: only \<open>append\<close> makes one.\<close>

type_synonym sp_container = "string \<Rightarrow> application list option"
type_synonym cm_container = "string \<Rightarrow> cm_listener option"

text \<open>\<open>spPredicate\<close>. The update predicate changes both objects: the comparison sorts their servers.\<close>

definition sp_DeleteFunc :: "string \<Rightarrow> bool \<Rightarrow> sp_container \<Rightarrow> bool \<times> sp_container" where
  "sp_DeleteFunc name DeleteStateUnknown spc =
     (\<not> DeleteStateUnknown, if spc name \<noteq> None then spc(name := None) else spc)"

definition sp_UpdateFunc :: "siddhi_process \<Rightarrow> siddhi_process \<Rightarrow> bool \<times> siddhi_process \<times> siddhi_process" where
  "sp_UpdateFunc oldObject newObject =
     (let (eq, oldSpec, newSpec) = Spec_Equals (sp_Spec oldObject) (sp_Spec newObject);
          old' = oldObject\<lparr>sp_Spec := oldSpec\<rparr>; new' = newObject\<lparr>sp_Spec := newSpec\<rparr>; st = sp_Status new'
      in if \<not> eq
         then (True, old', new'\<lparr>sp_Status := st\<lparr>st_CurrentVersion := st_CurrentVersion st + 1,
                                                 st_EventType := eventType_name UPDATE\<rparr>\<rparr>)
         else (False, old', new'\<lparr>sp_Status := st\<lparr>st_EventType := eventType_name TIMER\<rparr>\<rparr>))"

definition sp_CreateFunc :: "siddhi_process \<Rightarrow> bool \<times> siddhi_process" where
  "sp_CreateFunc obj =
     (True, obj\<lparr>sp_Status := (sp_Status obj)\<lparr>st_CurrentVersion := 0, st_PreviousVersion := 0\<rparr>\<rparr>)"

definition sp_GenericFunc :: bool where "sp_GenericFunc = False"

text \<open>\<open>cmPredicate\<close>.\<close>

definition cm_UpdateFunc :: "string \<Rightarrow> cm_container \<Rightarrow> bool \<times> cm_container" where
  "cm_UpdateFunc name cmc =
     (if cmc name \<noteq> None then (True, cmc(name \<mapsto> (listener cmc name)\<lparr>cml_Changed := True\<rparr>)) else (False, cmc))"

definition cm_CreateFunc :: bool where "cm_CreateFunc = False"

section \<open>State and environment\<close>

definition ReconcileTime :: int where "ReconcileTime = 2"
definition ParserFailRetryTime :: int where "ParserFailRetryTime = 1"

text \<open>Durations are in nanoseconds.\<close>

definition time_Minute :: int where "time_Minute = 60 * time_Second"

record reconcile_result =
  rr_Requeue :: bool
  rr_RequeueAfter :: int

definition no_requeue :: reconcile_result where
  "no_requeue = \<lparr>rr_Requeue = False, rr_RequeueAfter = 0\<rparr>"

definition requeue_after :: "int \<Rightarrow> reconcile_result" where
  "requeue_after d = \<lparr>rr_Requeue = False, rr_RequeueAfter = d\<rparr>"

record 'w op_state =
  os_SPContainer :: sp_container
  os_CMContainer :: cm_container
  os_LoggedMessagingAvailability :: bool
  os_events :: "ev_entry list"
  os_cluster :: 'w

text \<open>\<open>env_data_order i m\<close> is the order in which the config map of the \<open>i\<close>th app is ranged over.\<close>

record 'w environment =
  env_KubeClient :: "'w kube_client"
  env_yaml :: yaml_unmarshal
  env_parser_service :: "'w parser_service"
  env_getenv :: "string \<Rightarrow> string"
  env_data_order :: "nat \<Rightarrow> string gomap \<Rightarrow> string gomap"
  env_apps_order :: "nat \<Rightarrow> string gomap \<Rightarrow> string gomap"

section \<open>The parts of Reconcile\<close>

definition new_controller :: "'w environment \<Rightarrow> siddhi_process \<Rightarrow> 'w op_state \<Rightarrow> 'w ctl" where
  "new_controller env sp st =
     \<lparr>ctl_SiddhiProcess = 0, ctl_KubeClient = env_KubeClient env,
      ctl_Image = \<lparr>im_Name = [], im_Home = [], im_Secret = [], im_Profile = []\<rparr>, ctl_AutoCreateIngress = False,
      ctl_TLS = [], ctl_heap = (\<lambda>_. sp), ctl_events = os_events st, ctl_cluster = os_cluster st\<rparr>"

text \<open>The loop over \<open>sp.Spec.Apps\<close>, with its early return.\<close>

fun read_siddhi_apps :: "'w environment \<Rightarrow> siddhi_process \<Rightarrow> nat \<Rightarrow> apps list \<Rightarrow> string list \<Rightarrow> cm_container \<Rightarrow> 'w \<Rightarrow>
    (string list \<times> goerror option) \<times> cm_container \<times> 'w" where
  "read_siddhi_apps env sp i [] siddhiApps cmc w = ((siddhiApps, None), cmc, w)"
| "read_siddhi_apps env sp i (app # as) siddhiApps cmc w =
     (let script = (if app_Script app \<noteq> [] then [app_Script app] else [])
      in if app_ConfigMap app \<noteq> [] then
           (let (r, w1) = cl_Get (kc_Client (env_KubeClient env)) KConfigMap
                  (nn (app_ConfigMap app) (sp_Namespace sp)) w
            in case r of
                 Inl err \<Rightarrow> ((siddhiApps, Some err), cmc, w1)
               | Inr obj \<Rightarrow>
                   read_siddhi_apps env sp (Suc i) as
                     (siddhiApps @ (case obj of OConfigMap cm \<Rightarrow> map snd (env_data_order env i (cm_Data cm)) | _ \<Rightarrow> [])
                       @ script)
                     (cmc(app_ConfigMap app \<mapsto> \<lparr>cml_SiddhiProcess = sp_Name sp, cml_Changed = False\<rparr>)) w1)
         else read_siddhi_apps env sp (Suc i) as (siddhiApps @ script) cmc w)"

definition getSiddhiApps :: "'w environment \<Rightarrow> siddhi_process \<Rightarrow> cm_container \<Rightarrow> 'w \<Rightarrow>
    (string list \<times> goerror option) \<times> cm_container \<times> 'w" where
  "getSiddhiApps env sp = read_siddhi_apps env sp 0 (sps_Apps (sp_Spec sp)) []"

definition populateUserEnvs :: "siddhi_process \<Rightarrow> string gomap" where
  "populateUserEnvs sp =
     fold (\<lambda>env envs. mput (ev_Name env) (ev_Value env) envs) (elems (ct_Env (sps_Container (sp_Spec sp)))) []"

definition new_parser :: "'w environment \<Rightarrow> string list \<Rightarrow> 'w ctl \<Rightarrow> 'w parser" where
  "new_parser env siddhiApps sc =
     (let sp = the_sp sc
      in \<lparr>pr_Name = sp_Name sp, pr_Namespace = sp_Namespace sp, pr_Apps = siddhiApps, pr_Env = populateUserEnvs sp,
          pr_MessagingSystem = sps_MessagingSystem (sp_Spec sp),
          pr_Request = \<lparr>rq_Apps = [], rq_PropertyMap = [], rq_MessagingSystem = None\<rparr>,
          pr_KubeClient = env_KubeClient env, pr_Image = ctl_Image sc, pr_SiddhiProcess = sp\<rparr>)"

text \<open>The value of a missing entry is the nil slice.\<close>

definition apps_of :: "sp_container \<Rightarrow> string \<Rightarrow> application list" where
  "apps_of spc name = (case spc name of Some as \<Rightarrow> as | None \<Rightarrow> [])"

definition populateSiddhiApps :: "'w environment \<Rightarrow> 'w parser \<Rightarrow> sp_container \<Rightarrow> 'w ctl \<Rightarrow>
    ((application list \<times> goerror option) \<times> sp_container \<times> 'w ctl) option" where
  "populateSiddhiApps env parser spc sc =
     (let sp = the_sp sc; name = sp_Name sp; st = sp_Status sp
      in if lt64 (st_PreviousVersion st) (st_CurrentVersion st) then do {
           ((newApps, err), w) \<leftarrow> Parse (env_yaml env) (env_parser_service env) parser (ctl_cluster sc);
           let sc1 = with_cluster w sc;
           if err \<noteq> None then Some ((newApps, err), spc, sc1)
           else (let oldApps = apps_of spc name; (err, sc2) = CleanArtifacts oldApps newApps sc1
                 in if err \<noteq> None then Some ((oldApps, err), spc, sc2)
                    else Some ((newApps, None), spc(name \<mapsto> newApps), sc2))
         }
         else (case spc name of
                 Some siddhiApps \<Rightarrow> Some ((siddhiApps, None), spc, sc)
               | None \<Rightarrow> do {
                   ((siddhiApps, err), w) \<leftarrow> Parse (env_yaml env) (env_parser_service env) parser (ctl_cluster sc);
                   let sc1 = with_cluster w sc;
                   if err \<noteq> None then Some ((siddhiApps, err), spc, sc1)
                   else Some ((siddhiApps, None), spc(name \<mapsto> siddhiApps), sc1)
                 }))"

section \<open>Reconcile\<close>

text \<open>What a return of \<open>Reconcile\<close> leaves behind.\<close>

definition leave :: "'w ctl \<Rightarrow> 'w op_state \<Rightarrow> 'w op_state" where
  "leave sc st = st\<lparr>os_events := ctl_events sc, os_cluster := ctl_cluster sc\<rparr>"

definition messaging_of :: "'w environment \<Rightarrow> 'w ctl \<Rightarrow> 'w messaging" where
  "messaging_of env sc = \<lparr>mg_KubeClient = env_KubeClient env, mg_SiddhiProcess = the_sp sc\<rparr>"

definition warn_messaging :: "'w environment \<Rightarrow> bool \<Rightarrow> 'w ctl \<Rightarrow> bool \<times> 'w ctl" where
  "warn_messaging env logged sc =
     (if logged then (logged, sc)
      else (let (ok, w) = CheckMessagingSystem (messaging_of env sc) (ctl_cluster sc); sc1 = with_cluster w sc
            in if ok then (logged, sc1)
               else (True, UpdateWarningStatus ''MessagingSystem''
                 ''Messaging system not configured. Now Siddhi operator only allows non-distributed deployments.'' sc1)))"

text \<open>From the applications on: messaging, artifacts, scaling.\<close>

definition deploy_all :: "'w environment \<Rightarrow> application list \<Rightarrow> 'w ctl \<Rightarrow> (goerror option \<times> 'w ctl) option" where
  "deploy_all env apps sc =
     (let (err, w) = CreateMessagingSystem (messaging_of env sc) apps (ctl_cluster sc); sc1 = with_cluster w sc
      in case err of
           Some e \<Rightarrow> Some (Some e, UpdateErrorStatus ''NATSCreationError'' e sc1)
         | None \<Rightarrow> do {
             sc2 \<leftarrow> CreateArtifacts (env_yaml env) (env_apps_order env) apps sc1;
             sc3 \<leftarrow> CheckDeployments apps sc2;
             Some (None, sc3)
           })"

text \<open>From the configuration on, when the event was no timer event.\<close>

definition reconcile_apps :: "'w environment \<Rightarrow> namespaced_name \<Rightarrow> bool \<Rightarrow> 'w ctl \<Rightarrow> 'w op_state \<Rightarrow>
    ((reconcile_result \<times> goerror option) \<times> 'w op_state) option" where
  "reconcile_apps env request siddhiProcessChanged sc st =
     (let sc1 = SetNotReadyState (SetDefaultPendingState sc);
          sc2 = (if siddhiProcessChanged then sc1 else UpgradeVersion sc1);
          ((siddhiApps, err), cmc, w) = getSiddhiApps env (the_sp sc2) (os_CMContainer st) (ctl_cluster sc2);
          st1 = st\<lparr>os_CMContainer := cmc\<rparr>; sc3 = with_cluster w sc2
      in case err of
           Some e \<Rightarrow> Some ((no_requeue, None), leave (UpdateErrorStatus ''AppReadError'' e sc3) st1)
         | None \<Rightarrow>
             (let (logged, sc4) = warn_messaging env (os_LoggedMessagingAvailability st1) sc3;
                  st2 = st1\<lparr>os_LoggedMessagingAvailability := logged\<rparr>
              in do {
                ((apps, err), spc, sc5) \<leftarrow> populateSiddhiApps env (new_parser env siddhiApps sc4) (os_SPContainer st2) sc4;
                let st3 = st2\<lparr>os_SPContainer := spc\<rparr>;
                case err of
                  Some e \<Rightarrow> Some ((requeue_after (time_Minute * ParserFailRetryTime), None),
                    leave (UpdateErrorStatus ''ParserFailed'' e sc5) st3)
                | None \<Rightarrow> do {
                    (err, sc6) \<leftarrow> deploy_all env apps sc5;
                    case err of
                      Some e \<Rightarrow> Some ((no_requeue, Some e), leave sc6 st3)
                    | None \<Rightarrow>
                        (let cmc = os_CMContainer st3; name = nn_Name request;
                             cmc' = (if siddhiProcessChanged then cmc
                                     else cmc(name \<mapsto> (listener cmc name)\<lparr>cml_Changed := False\<rparr>))
                         in Some ((requeue_after (time_Second * ReconcileTime), None),
                                  leave sc6 (st3\<lparr>os_CMContainer := cmc'\<rparr>)))
                  }
              }))"

text \<open>With the process read.\<close>

definition reconcile_process :: "'w environment \<Rightarrow> namespaced_name \<Rightarrow> bool \<Rightarrow> siddhi_process \<Rightarrow> 'w op_state \<Rightarrow>
    ((reconcile_result \<times> goerror option) \<times> 'w op_state) option" where
  "reconcile_process env request siddhiProcessChanged sp st =
     (let sc = UpdateDefaultConfigs (env_getenv env) (new_controller env sp st);
          apps = apps_of (os_SPContainer st) (sp_Name sp)
      in if st_EventType (sp_Status sp) = eventType_name TIMER \<and> apps \<noteq> [] then
           (let (terminate, sc1) = CheckAvailableDeployments apps sc
            in Some ((if terminate then no_requeue else requeue_after (time_Minute * ReconcileTime), None), leave sc1 st))
         else reconcile_apps env request siddhiProcessChanged sc st)"

definition Reconcile :: "'w environment \<Rightarrow> namespaced_name \<Rightarrow> 'w op_state \<Rightarrow>
    ((reconcile_result \<times> goerror option) \<times> 'w op_state) option" where
  "Reconcile env request st =
     (let c = kc_Client (env_KubeClient env);
          (r, w1) = cl_Get c KConfigMap request (os_cluster st);
          isConfigMap = (case r of Inr _ \<Rightarrow> True | Inl _ \<Rightarrow> False);
          siddhiProcessName = (if isConfigMap
            then request\<lparr>nn_Name := cml_SiddhiProcess (listener (os_CMContainer st) (nn_Name request))\<rparr> else request);
          (r, w2) = cl_Get c KSiddhiProcess siddhiProcessName w1;
          st1 = st\<lparr>os_cluster := w2\<rparr>
      in case r of
           Inl err \<Rightarrow> if IsNotFound err then Some ((no_requeue, None), st1) else Some ((no_requeue, Some err), st1)
         | Inr (OSiddhiProcess sp) \<Rightarrow> reconcile_process env request (\<not> isConfigMap) sp st1
         | Inr _ \<Rightarrow> None)"

section \<open>Where a request writes\<close>

text \<open>The names an operation derives from the name of a process, and from that of an application.\<close>

definition derived :: "string \<Rightarrow> string \<Rightarrow> bool" where
  "derived base s \<longleftrightarrow> HasPrefix s (base @ ''-'') \<or> HasPrefix s (ToLower base @ ''-'')"

definition app_object :: "string \<Rightarrow> string \<Rightarrow> bool" where
  "app_object a s \<longleftrightarrow> s \<in> {a, ToLower a, a @ PVCExtension, a @ DepCMExtension} \<or> (\<exists>v. s = a @ Itoa v)"

text \<open>
  The objects of a request for a process: the process, the shared ingress and NATS clusters of its namespace,
  and there the deployments, services, claims and config maps with a name derived from the process's or
  from one of the applications \<open>N\<close> stored for it.
\<close>

definition request_objects :: "namespaced_name \<Rightarrow> string set \<Rightarrow> (kind \<times> namespaced_name) set" where
  "request_objects key N =
     {(kd, n). nn_Namespace n = nn_Namespace key \<and>
        (kd = KSiddhiProcess \<and> n = key \<or> kd = KIngress \<and> nn_Name n = IngressName \<or>
         kd = KNatsCluster \<and> nn_Name n = NATSClusterName \<or> kd = KStanCluster \<and> nn_Name n = STANClusterName \<or>
         kd \<in> {KDeployment, KService, KPVC, KConfigMap} \<and>
           (derived (nn_Name key) (nn_Name n) \<or> (\<exists>a \<in> N. app_object a (nn_Name n))))}"

definition named :: "string \<Rightarrow> string set \<Rightarrow> application list \<Rightarrow> bool" where
  "named base N as \<longleftrightarrow> (\<forall>a \<in> set as. ap_Name a \<in> N \<or> derived base (ap_Name a))"

lemma HasPrefix_append: "HasPrefix s p \<Longrightarrow> HasPrefix (s @ t) p"
  unfolding HasPrefix_def by (metis append_take_drop_id append.assoc append_eq_conv_conj)

lemma HasPrefix_own [simp]: "HasPrefix (p @ t) p"
  by (simp add: HasPrefix_def)

lemma HasPrefix_ToLower: "HasPrefix s p \<Longrightarrow> HasPrefix (ToLower s) (ToLower p)"
  by (simp add: HasPrefix_def ToLower_def take_map)

lemma derived_append: "derived base a \<Longrightarrow> derived base (a @ t)"
  by (auto simp: derived_def HasPrefix_append)

lemma derived_own [simp]: "derived base (base @ CHR ''-'' # t)"
  using HasPrefix_own [of "base @ ''-''" t] by (simp add: derived_def)

lemma derived_ToLower: "derived base a \<Longrightarrow> derived base (ToLower a)"
proof -
  have "ToLower ''-'' = ''-''" by code_simp
  then show "derived base a \<Longrightarrow> derived base (ToLower a)"
    using HasPrefix_ToLower [of a "base @ ''-''"] HasPrefix_ToLower [of a "ToLower base @ ''-''"]
    by (auto simp: derived_def)
qed

lemma derived_not_base: "\<not> derived base base"
  by (auto simp: derived_def HasPrefix_def dest: arg_cong [where f = length])

lemma app_object_derived: "derived base a \<Longrightarrow> app_object a s \<Longrightarrow> derived base s"
  by (auto simp: app_object_def derived_append derived_ToLower)

lemma app_object_simps [simp]:
  "app_object a a" "app_object a (ToLower a)" "app_object a (a @ PVCExtension)" "app_object a (a @ DepCMExtension)"
  "app_object a (a @ Itoa v)"
  by (auto simp: app_object_def)

text \<open>A step that keeps the process's name and the client, and writes its objects only.\<close>

definition ns_step :: "string set \<Rightarrow> ('w \<Rightarrow> kind \<Rightarrow> namespaced_name \<Rightarrow> kobject option) \<Rightarrow> ('w \<Rightarrow> bool) \<Rightarrow>
    'w ctl \<Rightarrow> 'w ctl \<Rightarrow> bool" where
  "ns_step N l ok s s' \<longleftrightarrow> ctl_KubeClient s' = ctl_KubeClient s \<and> sp_key s' = sp_key s \<and> ok (ctl_cluster s') \<and>
     touches (l (ctl_cluster s)) (l (ctl_cluster s')) (request_objects (sp_key s) N)"

lemma nn_fields [simp]: "nn_Namespace (nn name ns) = ns" "nn_Name (nn name ns) = name"
  by (simp_all add: nn_def)

lemma sp_key_Namespace [simp]: "nn_Namespace (sp_key s) = sp_Namespace (the_sp s)"
  by (simp add: sp_key_def)

lemma ns_step_refl: "ok (ctl_cluster s) \<Longrightarrow> ns_step N l ok s s"
  by (simp add: ns_step_def)

lemma ns_step_trans: "ns_step N l ok s s' \<Longrightarrow> ns_step N l ok s' s'' \<Longrightarrow> ns_step N l ok s s''"
  unfolding ns_step_def by (auto intro: touches_trans)

lemma ctl_ns_step: "ctl_step l ok S s s' \<Longrightarrow> S \<subseteq> request_objects (sp_key s) N \<Longrightarrow> ns_step N l ok s s'"
  by (auto simp: ctl_step_def ns_step_def same_ctl_def intro: touches_mono)

lemma with_ns_step:
  "ok w \<Longrightarrow> touches (l (ctl_cluster s)) (l w) S \<Longrightarrow> S \<subseteq> request_objects (sp_key s) N \<Longrightarrow>
     ns_step N l ok s (with_cluster w s)"
  by (auto simp: ns_step_def intro: touches_mono)

lemma ns_step_keeps:
  "ns_step N l ok s s' \<Longrightarrow> kc_Client (ctl_KubeClient s) = c \<Longrightarrow>
     kc_Client (ctl_KubeClient s') = c \<and> ok (ctl_cluster s') \<and> sp_key s' = sp_key s"
  by (simp add: ns_step_def)

lemma named_object:
  "ap_Name a \<in> N \<or> derived (nn_Name key) (ap_Name a) \<Longrightarrow> app_object (ap_Name a) (nn_Name n) \<Longrightarrow>
     nn_Namespace n = nn_Namespace key \<Longrightarrow> kd \<in> {KDeployment, KService, KPVC, KConfigMap} \<Longrightarrow>
     (kd, n) \<in> request_objects key N"
  by (auto simp: request_objects_def dest: app_object_derived)

lemma sp_key_Name [simp]: "nn_Name (sp_key s) = sp_Name (the_sp s)"
  by (simp add: sp_key_def)

lemma request_objects_process [simp]: "(KSiddhiProcess, key) \<in> request_objects key N"
  by (simp add: request_objects_def)

lemma artifact_targets_ns:
  assumes "ap_Name a \<in> N \<or> derived (sp_Name (the_sp s)) (ap_Name a)"
  shows "artifact_targets s a \<subseteq> request_objects (sp_key s) N"
proof -
  let ?ns = "sp_Namespace (the_sp s)"
  have "(kd, nn x ?ns) \<in> request_objects (sp_key s) N"
    if "app_object (ap_Name a) x" "kd \<in> {KDeployment, KService, KPVC, KConfigMap}" for kd x
    using assms that by (intro named_object) simp_all
  then show ?thesis
    by (auto simp: artifact_targets_def deploy_targets_def manager_of_def config_cm_name_def apps_cm_name_def Let_def)
      (simp_all add: request_objects_def DepCMExtension_def)
qed

lemma parser_targets_ns:
  assumes "pr_Name p = sp_Name (pr_SiddhiProcess p)"
  shows "parser_targets p \<subseteq> request_objects (nn (sp_Name (pr_SiddhiProcess p)) (sp_Namespace (pr_SiddhiProcess p))) N"
  using assms derived_append [OF derived_own]
  by (auto simp: parser_targets_def deploy_targets_def parser_manager_def generatedParserName_def request_objects_def
      config_cm_name_def apps_cm_name_def PVCExtension_def DepCMExtension_def ParserExtension_def Let_def)

text \<open>The applications of a process: those stored for it, or an answer of the parser.\<close>

definition stored_names :: "sp_container \<Rightarrow> string \<Rightarrow> string set" where
  "stored_names spc name = ap_Name ` set (apps_of spc name)"

lemma make_applications_named:
  "make_applications base 0 acs [] = (apps, None) \<Longrightarrow> named base N apps"
  using make_applications_spec [of base 0 acs "[]" apps None]
  by (auto simp: named_def make_application_def Let_def)

lemma Parse_named:
  assumes "Parse yaml svc p w = Some ((apps, None), w')"
  shows "named (sp_Name (pr_SiddhiProcess p)) N apps"
proof -
  let ?p = "createRequest p" and ?name = "sp_Name (pr_SiddhiProcess p)"
  from assms obtain e w1 where one: "parser_deploy yaml svc ?p w = Some (e, w1)"
    by (auto simp: Parse_def Let_def bind_eq_Some_conv)
  from assms one obtain r where two: "invokeParser svc ?p (pr_Request ?p) w1 = Some r"
    by (cases "invokeParser svc ?p (pr_Request ?p) w1") (simp_all add: Parse_def Let_def)
  from assms one two have rest: "(case r of Inl err \<Rightarrow> Some (([], Some err), w1)
      | Inr acs \<Rightarrow> (case make_applications ?name 0 acs [] of (applications, err) \<Rightarrow>
          (case err of Some e \<Rightarrow> Some ((applications, Some e), w1)
             | None \<Rightarrow> (case cleanParser ?p w1 of (err, w2) \<Rightarrow> Some ((applications, err), w2))))) = Some ((apps, None), w')"
    by (simp add: Parse_def Let_def)
  then obtain acs where "r = Inr acs" by (cases r) simp_all
  with rest have "make_applications ?name 0 acs [] = (apps, None)"
    by (auto split: prod.splits option.splits)
  then show ?thesis by (rule make_applications_named)
qed

lemma populate_named:
  assumes "populateSiddhiApps env p spc s = Some ((apps, None), spc', s')" and "pr_SiddhiProcess p = the_sp s"
  shows "named (sp_Name (the_sp s)) (stored_names spc (sp_Name (the_sp s))) apps"
  using assms Parse_named [of "env_yaml env" "env_parser_service env" p "ctl_cluster s" apps _ "stored_names spc (sp_Name (the_sp s))"]
  by (auto simp: populateSiddhiApps_def Let_def bind_eq_Some_conv stored_names_def apps_of_def named_def
      split: if_splits option.splits prod.splits)

text \<open>The process a request is for: its own name, or that of the listener when a config map has its name.\<close>

definition request_key :: "(kind \<Rightarrow> namespaced_name \<Rightarrow> kobject option) \<Rightarrow> cm_container \<Rightarrow> namespaced_name \<Rightarrow>
    namespaced_name \<Rightarrow> bool" where
  "request_key l cmc request key \<longleftrightarrow>
     key = request \<or> l KConfigMap request \<noteq> None \<and> key = request\<lparr>nn_Name := cml_SiddhiProcess (listener cmc (nn_Name request))\<rparr>"

lemma request_key_Namespace: "request_key l cmc request key \<Longrightarrow> nn_Namespace key = nn_Namespace request"
  by (auto simp: request_key_def)

context kube_api
begin

abbreviation "step N \<equiv> ns_step N look inv"

lemma CreateMessagingSystem_step:
  assumes k: "kc_Client (mg_KubeClient m) = c" and w: "inv w" and run: "CreateMessagingSystem m apps w = (err, w')"
  shows "inv w' \<and> touches (look w) (look w') {(KNatsCluster, nn NATSClusterName (sp_Namespace (mg_SiddhiProcess m))),
    (KStanCluster, nn STANClusterName (sp_Namespace (mg_SiddhiProcess m)))}"
proof -
  obtain ok w1 where check: "CheckMessagingSystem m w = (ok, w1)" by force
  note one = CheckMessagingSystem_result [OF k w check]
  from run consider "w' = w" | "w' = w1" | "CreateNATS (mg_KubeClient m) (sp_Namespace (mg_SiddhiProcess m)) w1 = (err, w')"
    using check by (auto simp: CreateMessagingSystem_def Let_def split: if_splits)
  then show ?thesis
  proof cases
    case 3
    from one have w1: "inv w1" "look w1 = look w" by auto
    with w1 NATS_result [OF k w1(1) 3] show ?thesis by (simp add: touches_def)
  qed (use one w in auto)
qed

lemma read_siddhi_apps_frame:
  "kc_Client (env_KubeClient env) = c \<Longrightarrow> inv w \<Longrightarrow> read_siddhi_apps env sp i as acc cmc w = (r, cmc', w') \<Longrightarrow>
     inv w' \<and> look w' = look w"
proof (induction as arbitrary: i acc cmc w)
  case Nil
  then show ?case by simp
next
  case (Cons a as)
  show ?case
  proof (cases "app_ConfigMap a = []")
    case True
    from Cons.IH [OF Cons.prems(1,2)] Cons.prems(3) True show ?thesis
      by (simp add: Let_def)
  next
    case False
    obtain g w1 where get: "cl_Get c KConfigMap (nn (app_ConfigMap a) (sp_Namespace sp)) w = (g, w1)" by force
    from get_look [OF get Cons.prems(2)] have w1: "inv w1" "look w1 = look w" by auto
    from Cons.IH [OF Cons.prems(1) w1(1)] Cons.prems(1,3) False get w1 show ?thesis
      by (cases g) (simp_all add: Let_def)
  qed
qed

lemma UpdateDefaultConfigs_step:
  assumes k: "kc_Client (ctl_KubeClient s) = c" and w: "inv (ctl_cluster s)"
  shows "step N s (UpdateDefaultConfigs getenv s) \<and> look (ctl_cluster (UpdateDefaultConfigs getenv s)) = look (ctl_cluster s) \<and>
    the_sp (UpdateDefaultConfigs getenv s) = the_sp s"
proof -
  define n where "n = nn (if getenv ''OPERATOR_CONFIGMAP'' \<noteq> [] then getenv ''OPERATOR_CONFIGMAP'' else OperatorCMName)
    (sp_Namespace (the_sp s))"
  obtain r w1 where get: "cl_Get c KConfigMap n (ctl_cluster s) = (r, w1)" by force
  from get_look [OF get w] have w1: "inv w1" "look w1 = look (ctl_cluster s)" by auto
  define sc2 where "sc2 = with_cluster w1 (s\<lparr>ctl_Image := (ctl_Image s)\<lparr>im_Home := SiddhiHome, im_Name := SiddhiImage,
      im_Profile := SiddhiProfile\<rparr>, ctl_AutoCreateIngress := AutoCreateIngress\<rparr>)"
  have sc2: "the_sp sc2 = the_sp s" "ctl_cluster sc2 = w1" "ctl_KubeClient sc2 = ctl_KubeClient s"
    by (simp_all add: sc2_def config_fields)
  have run: "UpdateDefaultConfigs getenv s =
      user_config (case r of Inr (OConfigMap cm) \<Rightarrow> set_config (cm_Data cm) sc2 | _ \<Rightarrow> sc2)"
    using get k unfolding UpdateDefaultConfigs_def Let_def sc2_def n_def by (simp add: config_fields)
  have client: "ctl_KubeClient (user_config sc) = ctl_KubeClient sc"
    "ctl_KubeClient (set_config data sc) = ctl_KubeClient sc" for sc :: "'a ctl" and data
    by (simp_all add: user_config_def set_config_def Let_def)
  have "step N s (UpdateDefaultConfigs getenv s) \<and> ctl_cluster (UpdateDefaultConfigs getenv s) = w1 \<and>
      the_sp (UpdateDefaultConfigs getenv s) = the_sp s"
    using sc2 w1 unfolding run
    by (auto simp: ns_step_def sp_key_def user_config_fields set_config_fields client split: sum.split kobject.split)
  with w1 show ?thesis by simp
qed

end

text \<open>The loops of the controller on a server that may fail.\<close>

context kube_status
begin

lemma get_deployment_step:
  assumes "kc_Client (ctl_KubeClient s) = c" and "inv (ctl_cluster s)" and "get_deployment a s = (r, s')"
  shows "ctl_step look inv {} s s' \<and> the_sp s' = the_sp s \<and>
    (\<forall>d. r = Some d \<longrightarrow> look (ctl_cluster s) KDeployment (nn (ToLower (ap_Name a)) (sp_Namespace (the_sp s))) = Some (ODeployment d))"
proof -
  let ?n = "nn (ToLower (ap_Name a)) (sp_Namespace (the_sp s))"
  obtain g w1 where get: "cl_Get c KDeployment ?n (ctl_cluster s) = (g, w1)" by force
  from get_look [OF get assms(2)] get_found [of KDeployment ?n "ctl_cluster s" _ w1] get assms show ?thesis
    by (auto simp: get_deployment_def ctl_step_def split: sum.splits kobject.splits)
qed

lemma check_deployment_step:
  assumes k: "kc_Client (ctl_KubeClient s) = c" and w: "inv (ctl_cluster s)" and run: "check_deployment a s = Some s'"
    and a: "ap_Name a \<in> N \<or> derived (sp_Name (the_sp s)) (ap_Name a)"
  shows "step N s s'"
proof -
  obtain r s1 where get: "get_deployment a s = (r, s1)" by force
  note one = get_deployment_step [OF k w get]
  then have step1: "step N s s1" by (blast intro: ctl_ns_step)
  from ns_step_keeps [OF step1 k] have k1: "kc_Client (ctl_KubeClient s1) = c" "inv (ctl_cluster s1)" by auto
  show ?thesis
  proof (cases "s' = s1")
    case True
    with step1 show ?thesis by simp
  next
    case False
    with run get obtain d err w2 where d: "r = Some d" and
      upd: "cl_Update c (ODeployment (d\<lparr>dep_Spec := (dep_Spec d)\<lparr>ds_Replicas := Some (ap_Replicas a)\<rparr>\<rparr>)) (ctl_cluster s1) = (err, w2)"
      and s': "s' = (case err of Some e \<Rightarrow> UpdateErrorStatus ''DeploymentUpdationError'' e (with_cluster w2 s1)
        | None \<Rightarrow> with_cluster w2 s1)"
      using k1 by (auto simp: check_deployment_def Let_def split: option.splits if_splits prod.splits)
    let ?n = "nn (ToLower (ap_Name a)) (sp_Namespace (the_sp s))"
    from one d look_obj [OF w] have "key_of (ODeployment d) = ?n" by blast
    then have key: "key_of (ODeployment (d\<lparr>dep_Spec := (dep_Spec d)\<lparr>ds_Replicas := Some (ap_Replicas a)\<rparr>\<rparr>)) = ?n"
      by (simp add: key_of_def)
    from update_inv [OF upd k1(2)] have w2: "inv w2" .
    have "touches (look (ctl_cluster s1)) (look w2) {(KDeployment, ?n)}"
      using update_other [OF upd k1(2)] key by (simp add: touches_def)
    then have step2: "step N s1 (with_cluster w2 s1)"
      by (rule with_ns_step [where ok = inv, OF w2])
        (use one a in \<open>auto simp: sp_key_def intro!: named_object\<close>)
    have "step N (with_cluster w2 s1) s'"
    proof (cases err)
      case (Some e)
      from status_steps(1) [of "with_cluster w2 s1" "''DeploymentUpdationError''" e] k1 w2 Some show ?thesis
        unfolding s' by (auto intro: ctl_ns_step)
    qed (simp add: s' w2 ns_step_refl)
    with step1 step2 show ?thesis by (blast intro: ns_step_trans)
  qed
qed

lemmas check_deployment_self = check_deployment_step [where N = "{ap_Name a}" for a, OF _ _ _ disjI1 [OF singletonI]]

lemma CheckDeployments_step:
  "kc_Client (ctl_KubeClient s) = c \<Longrightarrow> inv (ctl_cluster s) \<Longrightarrow> CheckDeployments as s = Some s' \<Longrightarrow>
     named (sp_Name (the_sp s)) N as \<Longrightarrow> step N s s'"
proof (induction as arbitrary: s)
  case Nil
  then show ?case by (simp add: ns_step_refl)
next
  case (Cons a as)
  then obtain s1 where one: "check_deployment a s = Some s1" and two: "CheckDeployments as s1 = Some s'"
    by (auto simp: bind_eq_Some_conv)
  from Cons.prems(4) have a: "ap_Name a \<in> N \<or> derived (sp_Name (the_sp s)) (ap_Name a)"
    "named (sp_Name (the_sp s)) N as" by (simp_all add: named_def)
  note step1 = check_deployment_step [OF Cons.prems(1,2) one a(1)]
  note keep = ns_step_keeps [OF step1 Cons.prems(1)]
  then have "sp_Name (the_sp s1) = sp_Name (the_sp s)" by (metis sp_key_Name)
  with keep Cons.IH [OF _ _ two] a(2) step1 show ?case by (metis ns_step_trans)
qed

lemma count_deployments_step:
  "kc_Client (ctl_KubeClient s) = c \<Longrightarrow> inv (ctl_cluster s) \<Longrightarrow> count_deployments as v s = (v', s') \<Longrightarrow> step N s s'"
proof (induction as arbitrary: s v)
  case Nil
  then show ?case by (simp add: ns_step_refl)
next
  case (Cons a as)
  obtain r s1 where one: "get_deployment a s = (r, s1)" by force
  with get_deployment_step [OF Cons.prems(1,2) one] have step1: "step N s s1" by (blast intro: ctl_ns_step)
  from one Cons.prems(3) have two: "count_deployments as (count_deployment a r v) s1 = (v', s')" by simp
  from ns_step_keeps [OF step1 Cons.prems(1)] Cons.IH [OF _ _ two] step1 show ?case
    by (blast intro: ns_step_trans)
qed

text \<open>A status update.\<close>

lemma status_ns_step:
  assumes "sp_step s s'"
  shows "step N s s'"
  using assms by (rule ctl_ns_step) simp

lemma CheckAvailable_step:
  assumes k: "kc_Client (ctl_KubeClient s) = c" and w: "inv (ctl_cluster s)"
    and run: "CheckAvailableDeployments as s = (t, s')"
  shows "step N s s'"
proof -
  obtain v s1 where one: "count_deployments as zero_availability s = (v, s1)" by force
  note step1 = count_deployments_step [OF k w one]
  define s2 where "s2 = UpdateReadyDeployments (av_available v) (av_need v) s1"
  from ns_step_keeps [OF step1 k] have k1: "kc_Client (ctl_KubeClient s1) = c" "inv (ctl_cluster s1)" by auto
  have step2: "step N s1 s2" unfolding s2_def by (rule status_ns_step [OF status_steps(7) [OF k1]])
  from ns_step_keeps [OF step2 k1(1)] have k2: "kc_Client (ctl_KubeClient s2) = c" "inv (ctl_cluster s2)" by auto
  from run one have "s' \<in> {s2, UpdateReadyStatus s2, UpdateNotReadytatus s2}"
    by (auto simp: CheckAvailableDeployments_def s2_def Let_def split: if_splits)
  then have "step N s2 s'"
    using status_steps(5,6) [OF k2] k2 by (auto intro: status_ns_step ns_step_refl)
  with step1 step2 show ?thesis by (blast intro: ns_step_trans)
qed

end

context kube_status
begin

lemma delete_ns_step:
  assumes k: "kc_Client (ctl_KubeClient s) = c" and w: "inv (ctl_cluster s)"
    and run: "delete_kind kd (ctl_KubeClient s) name (sp_Namespace (the_sp s)) (ctl_cluster s) = (err, w')"
    and kd: "kd \<in> {KDeployment, KService, KPVC, KConfigMap}" and own: "derived (sp_Name (the_sp s)) name"
  shows "step N s (with_cluster w' s)"
proof -
  have "(kd, nn name (sp_Namespace (the_sp s))) \<in> request_objects (sp_key s) N"
    using kd own by (auto simp: request_objects_def)
  moreover have "kd \<noteq> KSiddhiProcess" using kd by auto
  ultimately show ?thesis using delete_touches [OF k w run] by (auto intro: with_ns_step)
qed

lemma clean_artifact_step:
  assumes k: "kc_Client (ctl_KubeClient s) = c" and w: "inv (ctl_cluster s)" and run: "clean_artifact i s = (err, s')"
  shows "step N s s'"
proof -
  define name where "name = sp_Name (the_sp s) @ ''-'' @ Itoa (int i)"
  let ?ns = "sp_Namespace (the_sp s)" and ?k = "ctl_KubeClient s"
  have keep: "kc_Client (ctl_KubeClient s1) = c \<and> inv (ctl_cluster s1) \<and> ctl_KubeClient s1 = ?k \<and>
      sp_Namespace (the_sp s1) = ?ns \<and> sp_Name (the_sp s1) = sp_Name (the_sp s)" if "step N s s1" for s1
    using that k by (simp add: ns_step_def sp_key_def)
  have own: "derived (sp_Name (the_sp s)) (name @ t)" "derived (sp_Name (the_sp s)) name" for t
    by (simp_all add: name_def)
  have running: "step N s (UpdateRunningStatus r m s1)" if "step N s s1" for r m s1
    using ns_step_trans [OF that] status_ns_step [OF status_steps(2)] keep [OF that] by blast
  have delete: "step N s (with_cluster w2 s1)"
    if "step N s s1" "delete_kind kd ?k n ?ns (ctl_cluster s1) = (e, w2)"
      "kd \<in> {KDeployment, KService, KPVC, KConfigMap}" "derived (sp_Name (the_sp s)) n" for s1 kd n e w2
    using ns_step_trans [OF that(1)] delete_ns_step [of s1] keep [OF that(1)] that(2-4) by metis
  obtain e1 w1 where d1: "delete_kind KDeployment ?k name ?ns (ctl_cluster s) = (e1, w1)" by force
  define s1 where "s1 = with_cluster w1 s"
  have step1: "step N s s1" unfolding s1_def by (rule delete [OF ns_step_refl [where ok = inv, OF w] d1]) (simp_all add: own)
  define s2 where "s2 = UpdateRunningStatus ''DeploymentDeleted'' (name @ '' deployment deleted successfully'') s1"
  obtain e2 w2 where d2: "delete_kind KService ?k name ?ns (ctl_cluster s2) = (e2, w2)" by force
  define s3 where "s3 = with_cluster w2 s2"
  have step3: "step N s s3" unfolding s3_def s2_def by (rule delete [OF running [OF step1] d2 [unfolded s2_def]]) (simp_all add: own)
  define s4 where "s4 = UpdateRunningStatus ''ServiceDeleted'' (name @ '' service deleted successfully'') s3"
  obtain e3 w3 where d3: "delete_kind KPVC ?k (name @ PVCExtension) ?ns (ctl_cluster s4) = (e3, w3)" by force
  define s5 where "s5 = with_cluster w3 s4"
  have step5: "step N s s5" unfolding s5_def s4_def by (rule delete [OF running [OF step3] d3 [unfolded s4_def]]) (simp_all add: own)
  obtain e4 w4 where d4: "delete_kind KConfigMap ?k (name @ Itoa (sint (st_PreviousVersion (sp_Status (the_sp s5)))))
      ?ns (ctl_cluster s5) = (e4, w4)" by force
  from delete [OF step5 d4] own have step6: "step N s (with_cluster w4 s5)" by simp
  have "clean_artifact i s = (if e1 \<noteq> None then (e1, s1) else if e2 \<noteq> None then (e2, s3) else if e3 \<noteq> None then (e3, s5)
      else (e4, with_cluster w4 s5))"
    unfolding clean_artifact_def name_def [symmetric] DeleteDeployment_def DeleteService_def DeletePVC_def
      DeleteConfigMap_def Let_def d1 prod.case s1_def [symmetric] s2_def [symmetric]
      d2 s3_def [symmetric] s4_def [symmetric] d3 s5_def [symmetric] d4 by (rule refl)
  with run step1 step3 step5 step6 show ?thesis by (auto split: if_splits)
qed

lemma clean_artifacts_step:
  "kc_Client (ctl_KubeClient s) = c \<Longrightarrow> inv (ctl_cluster s) \<Longrightarrow> clean_artifacts is s = (err, s') \<Longrightarrow> step N s s'"
proof (induction "is" arbitrary: s)
  case Nil
  then show ?case by (simp add: ns_step_refl)
next
  case (Cons i "is")
  obtain e s1 where one: "clean_artifact i s = (e, s1)" by force
  note step1 = clean_artifact_step [OF Cons.prems(1,2) one]
  show ?case
  proof (cases e)
    case None
    with one Cons.prems(3) have "clean_artifacts is s1 = (err, s')" by simp
    from ns_step_keeps [OF step1 Cons.prems(1)] Cons.IH [OF _ _ this] step1 show ?thesis
      by (blast intro: ns_step_trans)
  qed (use one Cons.prems(3) step1 in simp)
qed

lemma Parse_step:
  assumes k: "kc_Client (pr_KubeClient p) = c" and w: "inv w" and run: "Parse yaml svc p w = Some ((apps, err), w')"
  shows "inv w' \<and> touches (look w) (look w') (parser_targets p)"
proof (cases "psv_url_ok svc (parser_url p)")
  case True
  from Parse_result [OF k w True, of yaml] run show ?thesis by auto
next
  case False
  with parser_deploy_result [of "createRequest p" w yaml svc] k w run show ?thesis
    by (auto simp: Parse_def invokeParser_def Let_def bind_eq_Some_conv)
qed

lemma populateSiddhiApps_step:
  assumes k: "kc_Client (ctl_KubeClient s) = c" and w: "inv (ctl_cluster s)"
    and p: "pr_KubeClient p = ctl_KubeClient s" "pr_SiddhiProcess p = the_sp s" "pr_Name p = sp_Name (the_sp s)"
    and run: "populateSiddhiApps env p spc s = Some ((apps, err), spc', s')"
  shows "step N s s'"
proof (cases "s' = s")
  case True
  with w show ?thesis by (simp add: ns_step_refl)
next
  case False
  with run obtain apps1 err1 w1 where parse: "Parse (env_yaml env) (env_parser_service env) p (ctl_cluster s) = Some ((apps1, err1), w1)"
    and s': "s' = with_cluster w1 s \<or> s' = snd (CleanArtifacts (apps_of spc (sp_Name (the_sp s))) apps1 (with_cluster w1 s))"
    by (auto simp: populateSiddhiApps_def Let_def bind_eq_Some_conv split: if_splits option.splits prod.splits)
  from Parse_step [OF _ w parse] parser_targets_ns [of p N] k p have step1: "step N s (with_cluster w1 s)"
    by (auto simp: sp_key_def [of s] intro!: with_ns_step)
  from ns_step_keeps [OF step1 k] have k1: "kc_Client (ctl_KubeClient (with_cluster w1 s)) = c" "inv (ctl_cluster (with_cluster w1 s))"
    by auto
  from s' show ?thesis
    using step1 ns_step_trans [OF step1 clean_artifacts_step [OF k1 prod.collapse [symmetric]]]
    by (auto simp: CleanArtifacts_def)
qed

lemma set_states_step:
  assumes k: "kc_Client (ctl_KubeClient s) = c" and w: "inv (ctl_cluster s)"
  shows "step N s (SetDefaultPendingState s)" and "step N s (SetNotReadyState s)" and "step N s (UpgradeVersion s)"
    and "step N s (UpdateWarningStatus r m s)"
proof -
  show "step N s (SetDefaultPendingState s)" "step N s (SetNotReadyState s)"
    using status_steps(4,5) [OF k w] w by (auto simp: SetDefaultPendingState_def SetNotReadyState_def intro: status_ns_step ns_step_refl)
  let ?s1 = "upd_status (\<lambda>t. t\<lparr>st_CurrentVersion := st_CurrentVersion t + 1\<rparr>) s"
  obtain err s' where push: "push_status ?s1 = (err, s')" by force
  from push_status_step [OF _ _ push] k w have "sp_step ?s1 s'" by simp
  from status_ns_step [OF this] push show "step N s (UpgradeVersion s)"
    by (simp add: UpgradeVersion_def ns_step_def sp_key_def)
  let ?s2 = "record_event (getStatus WARNING) r m s"
  obtain err s' where push: "push_status ?s2 = (err, s')" by force
  from push_status_step [OF _ _ push] k w have "sp_step ?s2 s'" by simp
  from status_ns_step [OF this] push show "step N s (UpdateWarningStatus r m s)"
    by (simp add: UpdateWarningStatus_def ns_step_def sp_key_def)
qed

end

context kube_status
begin

lemma deploy_all_step:
  assumes k: "kc_Client (ctl_KubeClient s) = c" and env: "env_KubeClient env = ctl_KubeClient s" and w: "inv (ctl_cluster s)"
    and run: "deploy_all env apps s = Some (err, s')" and named: "named (sp_Name (the_sp s)) N apps"
  shows "step N s s'"
proof -
  obtain e1 w1 where nats: "CreateMessagingSystem (messaging_of env s) apps (ctl_cluster s) = (e1, w1)" by force
  from CreateMessagingSystem_step [OF _ w nats] k env have step1: "step N s (with_cluster w1 s)"
    by (auto simp: messaging_of_def request_objects_def intro!: with_ns_step)
  from ns_step_keeps [OF step1 k] have k1: "kc_Client (ctl_KubeClient (with_cluster w1 s)) = c" "inv (ctl_cluster (with_cluster w1 s))"
    by auto
  show ?thesis
  proof (cases e1)
    case (Some e)
    with run nats have "s' = UpdateErrorStatus ''NATSCreationError'' e (with_cluster w1 s)"
      by (simp add: deploy_all_def)
    with ns_step_trans [OF step1 status_ns_step [OF status_steps(1) [OF k1]]] show ?thesis by simp
  next
    case None
    with run nats obtain s2 where art: "CreateArtifacts (env_yaml env) (env_apps_order env) apps (with_cluster w1 s) = Some s2"
      and chk: "CheckDeployments apps s2 = Some s'" by (auto simp: deploy_all_def bind_eq_Some_conv)
    from CreateArtifacts_step [OF k1 art] have step2: "step N (with_cluster w1 s) s2"
      by (rule ctl_ns_step) (use artifact_targets_ns [of _ N "with_cluster w1 s"] named in \<open>auto simp: named_def\<close>)
    note keep = ns_step_keeps [OF step2 k1(1)]
    then have "sp_Name (the_sp s2) = sp_Name (the_sp s)" by (metis sp_key_Name with_cluster_fields(1))
    with keep CheckDeployments_step [OF _ _ chk] named step1 step2 show ?thesis by (metis ns_step_trans)
  qed
qed

lemma warn_messaging_step:
  assumes k: "kc_Client (ctl_KubeClient s) = c" and env: "env_KubeClient env = ctl_KubeClient s" and w: "inv (ctl_cluster s)"
    and run: "warn_messaging env logged s = (logged', s')"
  shows "step N s s'"
proof -
  obtain ok w1 where check: "CheckMessagingSystem (messaging_of env s) (ctl_cluster s) = (ok, w1)" by force
  from CheckMessagingSystem_result [OF _ w check] k env have w1: "inv w1" "look w1 = look (ctl_cluster s)"
    by (auto simp: messaging_of_def)
  then have step1: "step N s (with_cluster w1 s)" by (simp add: ns_step_def)
  from set_states_step(4) [of "with_cluster w1 s"] w1 k ns_step_trans [OF step1]
  have "step N s (UpdateWarningStatus r m (with_cluster w1 s))" for r m by simp
  with step1 run check w show ?thesis
    by (auto simp: warn_messaging_def Let_def ns_step_refl split: if_splits)
qed

lemma reconcile_apps_step:
  assumes k: "kc_Client (ctl_KubeClient s) = c" and env: "env_KubeClient env = ctl_KubeClient s" and w: "inv (ctl_cluster s)"
    and run: "reconcile_apps env request changed s st = Some (r, st')"
  defines "N \<equiv> stored_names (os_SPContainer st) (sp_Name (the_sp s))"
  shows "\<exists>s'. step N s s' \<and> os_cluster st' = ctl_cluster s'"
proof -
  have keep: "kc_Client (ctl_KubeClient s1) = c \<and> inv (ctl_cluster s1) \<and> env_KubeClient env = ctl_KubeClient s1" if "step N s s1" for s1
    using that k env by (simp add: ns_step_def)
  define s2 where "s2 = (let s1 = SetNotReadyState (SetDefaultPendingState s) in if changed then s1 else UpgradeVersion s1)"
  have "step N s (SetDefaultPendingState s)" by (rule set_states_step(1) [OF k w])
  then have step1: "step N s (SetNotReadyState (SetDefaultPendingState s))"
    using ns_step_trans set_states_step(2) keep by blast
  then have step2: "step N s s2"
    using ns_step_trans set_states_step(3) keep unfolding s2_def Let_def by (metis (full_types))
  obtain siddhiApps e1 cmc w3 where read: "getSiddhiApps env (the_sp s2) (os_CMContainer st) (ctl_cluster s2) = ((siddhiApps, e1), cmc, w3)"
    by (metis prod.collapse)
  define s3 where "s3 = with_cluster w3 s2"
  from read_siddhi_apps_frame [of env "ctl_cluster s2"] read keep [OF step2] have "inv w3 \<and> look w3 = look (ctl_cluster s2)"
    unfolding getSiddhiApps_def by metis
  then have "step N s2 s3" by (simp add: s3_def ns_step_def)
  with step2 have step3: "step N s s3" by (rule ns_step_trans)
  have error: "step N s (UpdateErrorStatus reason e s1)" if "step N s s1" for reason e s1
    using ns_step_trans [OF that] status_ns_step [OF status_steps(1)] keep [OF that] by blast
  show ?thesis
  proof (cases e1)
    case (Some e)
    with run read have "os_cluster st' = ctl_cluster (UpdateErrorStatus ''AppReadError'' e s3)"
      by (auto simp: reconcile_apps_def s2_def [unfolded Let_def, symmetric] s3_def leave_def Let_def)
    with error [OF step3] show ?thesis by blast
  next
    case None
    obtain logged s4 where warn: "warn_messaging env (os_LoggedMessagingAvailability st) s3 = (logged, s4)" by force
    from keep [OF step3] have step4: "step N s s4"
      using ns_step_trans [OF step3] warn_messaging_step [OF _ _ _ warn] by blast
    from run read None warn obtain apps e5 spc s5 where
      pop: "populateSiddhiApps env (new_parser env siddhiApps s4) (os_SPContainer st) s4 = Some ((apps, e5), spc, s5)"
      by (auto simp: reconcile_apps_def s2_def [unfolded Let_def, symmetric] s3_def [symmetric] leave_def Let_def bind_eq_Some_conv)
    from keep [OF step4] have step5: "step N s s5"
      using ns_step_trans [OF step4] populateSiddhiApps_step [OF _ _ _ _ _ pop] by (simp add: new_parser_def Let_def)
    show ?thesis
    proof (cases e5)
      case (Some e)
      with run read None warn pop have "os_cluster st' = ctl_cluster (UpdateErrorStatus ''ParserFailed'' e s5)"
        by (auto simp: reconcile_apps_def s2_def [unfolded Let_def, symmetric] s3_def [symmetric] leave_def Let_def)
      with error [OF step5] show ?thesis by blast
    next
      case e5: None
      with run read None warn pop obtain e6 s6 where dep: "deploy_all env apps s5 = Some (e6, s6)"
        and st': "os_cluster st' = ctl_cluster s6"
        by (auto simp: reconcile_apps_def s2_def [unfolded Let_def, symmetric] s3_def [symmetric] leave_def Let_def
            bind_eq_Some_conv split: option.splits if_splits)
      have names: "sp_Name (the_sp s4) = sp_Name (the_sp s)" "sp_Name (the_sp s5) = sp_Name (the_sp s)"
        using step4 step5 by (metis ns_step_def sp_key_Name)+
      from populate_named [OF pop [unfolded e5]] names have "named (sp_Name (the_sp s5)) N apps"
        by (simp add: N_def new_parser_def Let_def)
      with keep [OF step5] have "step N s s6"
        using ns_step_trans [OF step5] deploy_all_step [OF _ _ _ dep] by blast
      with st' show ?thesis by blast
    qed
  qed
qed

lemma new_controller_simps [simp]:
  "the_sp (new_controller env sp st) = sp" "ctl_KubeClient (new_controller env sp st) = env_KubeClient env"
  "ctl_cluster (new_controller env sp st) = os_cluster st"
  by (simp_all add: new_controller_def the_sp_def)

lemma reconcile_process_step:
  assumes k: "kc_Client (env_KubeClient env) = c" and w: "inv (os_cluster st)"
    and run: "reconcile_process env request changed sp st = Some (r, st')"
  shows "inv (os_cluster st') \<and> touches (look (os_cluster st)) (look (os_cluster st'))
    (request_objects (nn (sp_Name sp) (sp_Namespace sp)) (stored_names (os_SPContainer st) (sp_Name sp)))"
proof -
  define N where "N = stored_names (os_SPContainer st) (sp_Name sp)"
  let ?s0 = "new_controller env sp st"
  define s1 where "s1 = UpdateDefaultConfigs (env_getenv env) ?s0"
  from UpdateDefaultConfigs_step [of ?s0 N "env_getenv env"] k w have step1: "step N ?s0 s1" by (simp add: s1_def)
  then have k1: "kc_Client (ctl_KubeClient s1) = c" "env_KubeClient env = ctl_KubeClient s1" "inv (ctl_cluster s1)"
    using k by (simp_all add: ns_step_def)
  have "\<exists>s'. step N s1 s' \<and> os_cluster st' = ctl_cluster s'"
  proof (cases "st_EventType (sp_Status sp) = eventType_name TIMER \<and> apps_of (os_SPContainer st) (sp_Name sp) \<noteq> []")
    case True
    obtain t s2 where chk: "CheckAvailableDeployments (apps_of (os_SPContainer st) (sp_Name sp)) s1 = (t, s2)" by force
    with run True have "os_cluster st' = ctl_cluster s2"
      by (auto simp: reconcile_process_def s1_def [symmetric] leave_def Let_def)
    with CheckAvailable_step [OF k1(1,3) chk] show ?thesis by blast
  next
    case False
    with run have "reconcile_apps env request changed s1 st = Some (r, st')"
      by (simp only: reconcile_process_def s1_def [symmetric] Let_def if_False)
    moreover have "sp_Name (the_sp s1) = sp_Name sp" using step1 by (metis ns_step_def sp_key_Name new_controller_simps(1))
    ultimately show ?thesis using reconcile_apps_step [OF k1] by (simp add: N_def)
  qed
  then obtain s' where "step N s1 s'" "os_cluster st' = ctl_cluster s'" by blast
  with ns_step_trans [OF step1] have "step N ?s0 s'" by blast
  with \<open>os_cluster st' = ctl_cluster s'\<close> show ?thesis by (simp add: ns_step_def sp_key_def N_def)
qed

lemma Reconcile_step:
  assumes k: "kc_Client (env_KubeClient env) = c" and w: "inv (os_cluster st)"
    and run: "Reconcile env request st = Some (r, st')"
  shows "inv (os_cluster st') \<and>
    (\<exists>key. request_key (look (os_cluster st)) (os_CMContainer st) request key \<and>
       touches (look (os_cluster st)) (look (os_cluster st')) (request_objects key (stored_names (os_SPContainer st) (nn_Name key))))"
proof -
  obtain g1 w1 where one: "cl_Get c KConfigMap request (os_cluster st) = (g1, w1)" by force
  define fromCM where "fromCM = (case g1 of Inr _ \<Rightarrow> True | Inl _ \<Rightarrow> False)"
  define target where "target = (if fromCM
    then request\<lparr>nn_Name := cml_SiddhiProcess (listener (os_CMContainer st) (nn_Name request))\<rparr> else request)"
  obtain g2 w2 where two: "cl_Get c KSiddhiProcess target w1 = (g2, w2)" by force
  from get_look [OF one w] have w1: "inv w1" "look w1 = look (os_cluster st)" by auto
  from get_look [OF two w1(1)] w1 have w2: "inv w2" "look w2 = look (os_cluster st)" by auto
  have rec: "Reconcile env request st = (case g2 of
      Inl err \<Rightarrow> if IsNotFound err then Some ((no_requeue, None), st\<lparr>os_cluster := w2\<rparr>)
        else Some ((no_requeue, Some err), st\<lparr>os_cluster := w2\<rparr>)
    | Inr (OSiddhiProcess sp) \<Rightarrow> reconcile_process env request (\<not> fromCM) sp (st\<lparr>os_cluster := w2\<rparr>)
    | Inr _ \<Rightarrow> None)"
    unfolding Reconcile_def Let_def k one prod.case fromCM_def [symmetric] target_def [symmetric] two by (rule refl)
  show ?thesis
  proof (cases g2)
    case (Inl e)
    with rec run w2 show ?thesis by (auto simp: request_key_def split: if_splits)
  next
    case (Inr obj)
    with rec run obtain sp where obj: "obj = OSiddhiProcess sp" and
      go: "reconcile_process env request (\<not> fromCM) sp (st\<lparr>os_cluster := w2\<rparr>) = Some (r, st')"
      by (auto split: kobject.splits)
    from get_found [OF two [unfolded Inr obj] w1(1)] have "key_of (OSiddhiProcess sp) = target" by simp
    then have sp: "nn (sp_Name sp) (sp_Namespace sp) = target" "sp_Name sp = nn_Name target" by (auto simp: key_of_process)
    have "request_key (look (os_cluster st)) (os_CMContainer st) request target"
      using get_found [of KConfigMap request "os_cluster st" _ w1] one w
      by (auto simp: target_def fromCM_def request_key_def split: sum.splits)
    with reconcile_process_step [OF k _ go] w2 sp show ?thesis by auto
  qed
qed

end

section \<open>Reading the apps\<close>

text \<open>The texts of one app of the spec: the values of its config map and its script.\<close>

definition app_texts :: "(kind \<Rightarrow> namespaced_name \<Rightarrow> kobject option) \<Rightarrow> string \<Rightarrow> apps \<Rightarrow> string multiset" where
  "app_texts l ns a =
     (if app_ConfigMap a = [] then {#}
      else case l KConfigMap (nn (app_ConfigMap a) ns) of Some (OConfigMap cm) \<Rightarrow> image_mset snd (mset (cm_Data cm)) | _ \<Rightarrow> {#}) +
     (if app_Script a = [] then {#} else {#app_Script a#})"

definition maps_present :: "(kind \<Rightarrow> namespaced_name \<Rightarrow> kobject option) \<Rightarrow> string \<Rightarrow> apps list \<Rightarrow> bool" where
  "maps_present l ns as \<longleftrightarrow> (\<forall>a \<in> set as. app_ConfigMap a \<noteq> [] \<longrightarrow> l KConfigMap (nn (app_ConfigMap a) ns) \<noteq> None)"

text \<open>What reading the apps gives: the texts, the error and the listeners.\<close>

definition read_spec :: "(kind \<Rightarrow> namespaced_name \<Rightarrow> kobject option) \<Rightarrow> siddhi_process \<Rightarrow> apps list \<Rightarrow> string list \<Rightarrow> cm_container \<Rightarrow>
    string list \<Rightarrow> goerror option \<Rightarrow> cm_container \<Rightarrow> bool" where
  "read_spec l sp as acc cmc texts err cmc' \<longleftrightarrow>
     (err = None \<longleftrightarrow> maps_present l (sp_Namespace sp) as) \<and>
     (err = None \<longrightarrow> mset texts = mset acc + sum_list (map (app_texts l (sp_Namespace sp)) as)) \<and>
     (err = None \<longrightarrow> (\<forall>n. cmc' n =
        (if n \<noteq> [] \<and> n \<in> app_ConfigMap ` set as then Some \<lparr>cml_SiddhiProcess = sp_Name sp, cml_Changed = False\<rparr> else cmc n))) \<and>
     (\<forall>n. l KConfigMap (nn n (sp_Namespace sp)) = None \<longrightarrow> cmc' n = cmc n)"

lemma read_spec_script:
  assumes "read_spec l sp as acc1 cmc texts err cmc'" and "app_ConfigMap a = []"
    and "mset acc1 = mset acc + app_texts l (sp_Namespace sp) a"
  shows "read_spec l sp (a # as) acc cmc texts err cmc'"
  using assms unfolding read_spec_def maps_present_def by (auto simp: add.assoc)

lemma read_spec_map:
  assumes spec: "read_spec l sp as acc1 (cmc(app_ConfigMap a \<mapsto> \<lparr>cml_SiddhiProcess = sp_Name sp, cml_Changed = False\<rparr>)) texts err cmc'"
    and a: "app_ConfigMap a \<noteq> []" and l: "l KConfigMap (nn (app_ConfigMap a) (sp_Namespace sp)) \<noteq> None"
    and acc: "mset acc1 = mset acc + app_texts l (sp_Namespace sp) a"
  shows "read_spec l sp (a # as) acc cmc texts err cmc'"
proof -
  have "maps_present l (sp_Namespace sp) (a # as) \<longleftrightarrow> maps_present l (sp_Namespace sp) as"
    using l by (simp add: maps_present_def)
  moreover have "cmc' n = cmc n" if "l KConfigMap (nn n (sp_Namespace sp)) = None" for n
    using spec l that unfolding read_spec_def by (metis fun_upd_apply)
  ultimately show ?thesis using spec a acc unfolding read_spec_def by (auto simp: add.assoc)
qed

context kube_store
begin

lemma read_siddhi_apps_store:
  assumes k: "kc_Client (env_KubeClient env) = c" and "inv w"
    and order: "\<And>i m. mset (env_data_order env i m) = mset m"
  shows "\<exists>texts err cmc' w'. read_siddhi_apps env sp i as acc cmc w = ((texts, err), cmc', w') \<and> inv w' \<and> look w' = look w \<and>
    read_spec (look w) sp as acc cmc texts err cmc'"
  using assms(2)
proof (induction as arbitrary: i acc cmc w)
  case Nil
  then show ?case by (simp add: maps_present_def read_spec_def)
next
  case (Cons a as)
  let ?script = "if app_Script a \<noteq> [] then [app_Script a] else []"
  show ?case
  proof (cases "app_ConfigMap a = []")
    case True
    have run: "read_siddhi_apps env sp i (a # as) acc cmc w = read_siddhi_apps env sp (Suc i) as (acc @ ?script) cmc w"
      by (simp add: True Let_def)
    have "mset (acc @ ?script) = mset acc + app_texts (look w) (sp_Namespace sp) a" by (simp add: app_texts_def True)
    with Cons.IH [OF Cons.prems, of "Suc i" "acc @ ?script" cmc] read_spec_script [OF _ True] show ?thesis
      unfolding run by blast
  next
    case False
    let ?n = "nn (app_ConfigMap a) (sp_Namespace sp)"
    show ?thesis
    proof (cases "look w KConfigMap ?n")
      case None
      from get_none [OF Cons.prems None] obtain e w1 where get: "cl_Get c KConfigMap ?n w = (Inl e, w1)" by blast
      with get_look [OF get Cons.prems] None False k show ?thesis
        by (auto simp: maps_present_def read_spec_def Let_def)
    next
      case (Some obj)
      from get_total [OF Cons.prems Some] obtain w1 where get: "cl_Get c KConfigMap ?n w = (Inr obj, w1)" by blast
      from look_obj [OF Cons.prems Some] obtain cm where cm: "obj = OConfigMap cm" by (auto simp: kind_of_eqs)
      from get_look [OF get Cons.prems] have w1: "inv w1" "look w1 = look w" by auto
      let ?acc = "acc @ map snd (env_data_order env i (cm_Data cm)) @ ?script"
        and ?cmc = "cmc(app_ConfigMap a \<mapsto> \<lparr>cml_SiddhiProcess = sp_Name sp, cml_Changed = False\<rparr>)"
      have run: "read_siddhi_apps env sp i (a # as) acc cmc w = read_siddhi_apps env sp (Suc i) as ?acc ?cmc w1"
        using False get cm k by (simp add: Let_def)
      have "mset ?acc = mset acc + app_texts (look w) (sp_Namespace sp) a"
        using order by (simp add: app_texts_def False Some cm)
      with Cons.IH [OF w1(1), of "Suc i" ?acc ?cmc] read_spec_map [OF _ False] Some show ?thesis
        unfolding run w1(2) by blast
    qed
  qed
qed

end

section \<open>Requests on a server that answers\<close>

definition request_target :: "(kind \<Rightarrow> namespaced_name \<Rightarrow> kobject option) \<Rightarrow> cm_container \<Rightarrow> namespaced_name \<Rightarrow> namespaced_name" where
  "request_target l cmc request =
     (if l KConfigMap request \<noteq> None then request\<lparr>nn_Name := cml_SiddhiProcess (listener cmc (nn_Name request))\<rparr> else request)"

context kube_store
begin

lemma get_cases:
  assumes "inv w"
  shows "\<exists>r w1. cl_Get c kd n w = (r, w1) \<and> inv w1 \<and> look w1 = look w \<and>
    (case look w kd n of None \<Rightarrow> \<exists>e. r = Inl e \<and> IsNotFound e | Some obj \<Rightarrow> r = Inr obj)"
proof (cases "look w kd n")
  case None
  from get_none [OF assms None] obtain e w1 where get: "cl_Get c kd n w = (Inl e, w1)" "IsNotFound e" by blast
  with get_look [OF get(1) assms] None show ?thesis by simp
next
  case (Some obj)
  from get_total [OF assms Some] obtain w1 where get: "cl_Get c kd n w = (Inr obj, w1)" by blast
  with get_look [OF get assms] Some show ?thesis by simp
qed

lemma Reconcile_unfold:
  assumes k: "kc_Client (env_KubeClient env) = c" and w: "inv (os_cluster st)"
  shows "\<exists>w2. inv w2 \<and> look w2 = look (os_cluster st) \<and>
    Reconcile env request st =
      (case look (os_cluster st) KSiddhiProcess (request_target (look (os_cluster st)) (os_CMContainer st) request) of
         None \<Rightarrow> Some ((no_requeue, None), st\<lparr>os_cluster := w2\<rparr>)
       | Some (OSiddhiProcess sp) \<Rightarrow>
           reconcile_process env request (look (os_cluster st) KConfigMap request = None) sp (st\<lparr>os_cluster := w2\<rparr>)
       | Some _ \<Rightarrow> None)"
proof -
  from get_cases [OF w, of KConfigMap request] obtain g1 w1 where
    one: "cl_Get c KConfigMap request (os_cluster st) = (g1, w1)" "inv w1" "look w1 = look (os_cluster st)"
    "case look (os_cluster st) KConfigMap request of None \<Rightarrow> \<exists>e. g1 = Inl e \<and> IsNotFound e | Some obj \<Rightarrow> g1 = Inr obj"
    by blast
  then have cm: "(case g1 of Inr _ \<Rightarrow> True | Inl _ \<Rightarrow> False) \<longleftrightarrow> look (os_cluster st) KConfigMap request \<noteq> None"
    by (auto split: option.splits)
  define target where "target = request_target (look (os_cluster st)) (os_CMContainer st) request"
  from get_cases [OF one(2), of KSiddhiProcess target] obtain g2 w2 where
    two: "cl_Get c KSiddhiProcess target w1 = (g2, w2)" "inv w2" "look w2 = look (os_cluster st)"
    "case look (os_cluster st) KSiddhiProcess target of None \<Rightarrow> \<exists>e. g2 = Inl e \<and> IsNotFound e | Some obj \<Rightarrow> g2 = Inr obj"
    using one(3) by auto
  have "Reconcile env request st = (case g2 of
      Inl err \<Rightarrow> if IsNotFound err then Some ((no_requeue, None), st\<lparr>os_cluster := w2\<rparr>)
        else Some ((no_requeue, Some err), st\<lparr>os_cluster := w2\<rparr>)
    | Inr (OSiddhiProcess sp) \<Rightarrow>
        reconcile_process env request (\<not> look (os_cluster st) KConfigMap request \<noteq> None) sp (st\<lparr>os_cluster := w2\<rparr>)
    | Inr _ \<Rightarrow> None)"
    unfolding Reconcile_def Let_def k one prod.case cm request_target_def [symmetric] target_def [symmetric] two(1) by (rule refl)
  with two show ?thesis
    by (intro exI [of _ w2]) (auto simp: target_def [symmetric] split: option.splits kobject.splits)
qed

end

context kube_status
begin

lemma pending_notready:
  assumes k: "kc_Client (ctl_KubeClient s) = c" and w: "inv (ctl_cluster s)"
  shows "sp_step s (SetNotReadyState (SetDefaultPendingState s))"
proof -
  have one: "sp_step s (SetDefaultPendingState s)"
    using status_steps(4) [OF k w] w by (simp add: SetDefaultPendingState_def ctl_step_refl)
  from ctl_step_same [OF one] k have k1: "kc_Client (ctl_KubeClient (SetDefaultPendingState s)) = c"
    "inv (ctl_cluster (SetDefaultPendingState s))" "sp_key (SetDefaultPendingState s) = sp_key s" by auto
  have "sp_step (SetDefaultPendingState s) (SetNotReadyState (SetDefaultPendingState s))"
    using status_steps(5) [OF k1(1,2)] k1(2) by (simp add: SetNotReadyState_def ctl_step_refl)
  from ctl_step_trans [OF one this] k1(3) show ?thesis by simp
qed

end

section \<open>Sample inputs\<close>

definition sample_env :: "tracker environment" where
  "sample_env = \<lparr>env_KubeClient = sample_kube, env_yaml = sample_yaml, env_parser_service = sample_service,
     env_getenv = (\<lambda>_. []), env_data_order = (\<lambda>_ m. m), env_apps_order = (\<lambda>_ m. m)\<rparr>"

definition sample_state :: "tracker \<Rightarrow> tracker op_state" where
  "sample_state w = \<lparr>os_SPContainer = [''app'' \<mapsto> [sample_app]], os_CMContainer = Map.empty,
     os_LoggedMessagingAvailability = False, os_events = [], os_cluster = w\<rparr>"

definition sample_request :: namespaced_name where
  "sample_request = nn ''app'' ''ns''"

lemma sample_env_simps [simp]:
  "env_KubeClient sample_env = sample_kube" "os_cluster (sample_state w) = w"
  "env_data_order sample_env i m = m" "os_SPContainer (sample_state w) = [''app'' \<mapsto> [sample_app]]"
  "os_CMContainer (sample_state w) = Map.empty" "sample_request = nn ''app'' ''ns''"
  by (simp_all add: sample_env_def sample_state_def sample_request_def)

lemma tracker_empty: "tracker_look empty_tracker kd n = None"
  by (simp add: tracker_look_def empty_tracker_def objs_map_def)

lemma sample_live: "kube_live (kc_Client sample_kube) tracker_look (\<lambda>obj. obj) tracker_inv"
  by (simp add: cached_live.kube_live_axioms)

lemma sample_status: "kube_status (kc_Client sample_kube) tracker_look (\<lambda>obj. obj) tracker_inv"
  by (simp add: cached_stat.kube_status_axioms)

definition sample_hidden :: tracker where
  "sample_hidden = empty_tracker(KSiddhiProcess := [OSiddhiProcess sample_process],
     KConfigMap := [OConfigMap \<lparr>cm_TypeMeta = zero_type_meta, cm_ObjectMeta = new_meta ''app'' ''ns'', cm_Data = [], cm_rest = []\<rparr>])"

definition sample_timed :: siddhi_process where
  "sample_timed = sample_process\<lparr>sp_Status := zero_siddhi_process_status\<lparr>st_EventType := ''Timer''\<rparr>\<rparr>"

definition sample_timer :: tracker where
  "sample_timer = empty_tracker(KSiddhiProcess := [OSiddhiProcess sample_timed])"

lemma sample_timer_inv [simp]: "tracker_inv sample_timer"
  by (simp add: tracker_inv_def sample_timer_def empty_tracker_def)

lemma sample_timer_look:
  "tracker_look sample_timer kd n =
     (if kd = KSiddhiProcess \<and> n = nn ''app'' ''ns'' then Some (OSiddhiProcess sample_timed) else None)"
  by (simp add: sample_timer_def tracker_look_def objs_map_def key_of_def new_meta_def nn_def sample_process_def
      sample_timed_def zero_siddhi_process_def empty_tracker_def)

lemma sample_run: "Reconcile sample_env sample_request (sample_state sample_timer) \<noteq> None"
proof -
  from kube_store.Reconcile_unfold [of "kc_Client sample_kube" tracker_look "\<lambda>obj. obj" tracker_inv sample_env
      "sample_state sample_timer" sample_request] sample_store obtain w2 where
    "Reconcile sample_env sample_request (sample_state sample_timer) =
      reconcile_process sample_env sample_request True sample_timed ((sample_state sample_timer)\<lparr>os_cluster := w2\<rparr>)"
    by (auto simp: request_target_def sample_timer_look)
  then show ?thesis
    by (simp add: reconcile_process_def sample_timed_def apps_of_def Let_def split: prod.split)
qed

section \<open>Properties\<close>

text \<open>
  Ownership. Whatever the server answers and however often it fails, a request that returns has written
  objects of its process only: the process itself, the shared ingress and NATS clusters of its namespace,
  and there deployments, services, claims and config maps whose names derive from its name or from those
  of the applications stored for it. Every other object is as it was, and no process has gone away.
\<close>

theorem Reconcile_own_objects:
  assumes "kube_status (kc_Client (env_KubeClient env)) look adm valid" and "valid (os_cluster st)"
    and "Reconcile env request st = Some (r, st')"
  shows "\<exists>key. request_key (look (os_cluster st)) (os_CMContainer st) request key \<and> valid (os_cluster st') \<and>
    (\<forall>kd n. (kd, n) \<notin> request_objects key (stored_names (os_SPContainer st) (nn_Name key)) \<longrightarrow>
       look (os_cluster st') kd n = look (os_cluster st) kd n) \<and>
    (\<forall>n. look (os_cluster st) KSiddhiProcess n \<noteq> None \<longrightarrow> look (os_cluster st') KSiddhiProcess n \<noteq> None)"
  using kube_status.Reconcile_step [OF assms(1) refl assms(2,3)] unfolding touches_def by blast

text \<open>A request for the process app leaves the deployment of another one alone.\<close>

lemma other_not_owned:
  "(KDeployment, nn ''other'' ''ns'') \<notin> request_objects (nn ''app'' ''ns'') {''app-0''}"
proof -
  have "ToLower ''app'' = ''app''" "ToLower ''app-0'' = ''app-0''" by code_simp+
  then show ?thesis by (simp add: request_objects_def derived_def app_object_def HasPrefix_def PVCExtension_def DepCMExtension_def)
qed

theorem Reconcile_own_objects_witness:
  "tracker_look (os_cluster (snd (the (Reconcile sample_env sample_request (sample_state sample_timer)))))
     KDeployment (nn ''other'' ''ns'') = None"
proof -
  from sample_run obtain r st' where run: "Reconcile sample_env sample_request (sample_state sample_timer) = Some (r, st')" by auto
  have names: "stored_names (os_SPContainer (sample_state sample_timer)) ''app'' = {''app-0''}"
    by (simp add: stored_names_def apps_of_def sample_state_def sample_app_def)
  have "tracker_look sample_timer KConfigMap sample_request = None" by (simp add: sample_timer_look)
  with Reconcile_own_objects [OF _ _ run, of tracker_look "\<lambda>obj. obj" tracker_inv] sample_status
  have "\<forall>kd n. (kd, n) \<notin> request_objects sample_request (stored_names (os_SPContainer (sample_state sample_timer)) (nn_Name sample_request)) \<longrightarrow>
      tracker_look (os_cluster st') kd n = tracker_look sample_timer kd n"
    by (auto simp: request_key_def)
  with other_not_owned names run show ?thesis by (simp add: sample_timer_look)
qed

text \<open>A request writes in its own namespace only.\<close>

theorem Reconcile_namespace:
  assumes "kube_status (kc_Client (env_KubeClient env)) look adm valid" and "valid (os_cluster st)"
    and "Reconcile env request st = Some (r, st')" and "nn_Namespace n \<noteq> nn_Namespace request"
  shows "valid (os_cluster st') \<and> look (os_cluster st') kd n = look (os_cluster st) kd n"
proof -
  from kube_status.Reconcile_step [OF assms(1) refl assms(2,3)] obtain key where
    "valid (os_cluster st')" and key: "request_key (look (os_cluster st)) (os_CMContainer st) request key"
    and t: "touches (look (os_cluster st)) (look (os_cluster st')) (request_objects key (stored_names (os_SPContainer st) (nn_Name key)))"
    by blast
  with request_key_Namespace [OF key] assms(4) show ?thesis by (auto simp: request_objects_def dest: touchesD)
qed

text \<open>
  C37: a config map hides the process of the same name. When the namespace has a config map with the
  name of the request that no process listens to, the request ends at once and without an error,
  whatever process has that name: nothing is read, created or retried.
\<close>

theorem ConfigMap_hides_process:
  assumes "kube_store (kc_Client (env_KubeClient env)) look adm valid" and "valid (os_cluster st)"
    and "look (os_cluster st) KConfigMap request \<noteq> None"
    and "os_CMContainer st (nn_Name request) = None"
    and "look (os_cluster st) KSiddhiProcess (request\<lparr>nn_Name := []\<rparr>) = None"
  shows "\<exists>w. Reconcile env request st = Some ((no_requeue, None), st\<lparr>os_cluster := w\<rparr>) \<and> look w = look (os_cluster st)"
  using kube_store.Reconcile_unfold [OF assms(1) refl assms(2), of request] assms(3-5)
  by (auto simp: request_target_def listener_def)

theorem ConfigMap_hides_process_witness:
  "\<exists>w. Reconcile sample_env sample_request (sample_state sample_hidden) =
     Some ((no_requeue, None), (sample_state sample_hidden)\<lparr>os_cluster := w\<rparr>) \<and>
   tracker_look w KSiddhiProcess sample_request = Some (OSiddhiProcess sample_process)"
proof -
  have "tracker_inv sample_hidden"
    by (simp add: tracker_inv_def sample_hidden_def sample_timer_def empty_tracker_def)
  moreover have "tracker_look sample_hidden KConfigMap sample_request \<noteq> None"
    "tracker_look sample_hidden KSiddhiProcess (sample_request\<lparr>nn_Name := []\<rparr>) = None"
    "tracker_look sample_hidden KSiddhiProcess sample_request = Some (OSiddhiProcess sample_process)"
    by (simp_all add: sample_hidden_def tracker_look_def objs_map_def key_of_def new_meta_def nn_def sample_process_def
        zero_siddhi_process_def empty_tracker_def)
  ultimately show ?thesis
    using ConfigMap_hides_process [of sample_env, of tracker_look "\<lambda>obj. obj" tracker_inv "sample_state sample_hidden" sample_request]
      sample_store by auto
qed

text \<open>
  A request for a process whose last event was a timer event, with its applications known, only
  checks the deployments: it comes back in two minutes, or not at all once as many replicas are
  available as wanted; it writes the process and nothing else, and the global maps stay.
\<close>

theorem Timer_checks_only:
  assumes "kube_live (kc_Client (env_KubeClient env)) look adm valid" and "valid (os_cluster st)"
    and "look (os_cluster st) KConfigMap request = None"
    and "look (os_cluster st) KSiddhiProcess request = Some (OSiddhiProcess sp)"
    and "st_EventType (sp_Status sp) = ''Timer''" and "os_SPContainer st (sp_Name sp) = Some apps" and "apps \<noteq> []"
  defines "dep \<equiv> deployment_of (look (os_cluster st)) (nn_Namespace request)"
  shows "\<exists>st'. Reconcile env request st =
      Some ((if sum_list (map wanted apps) = sum_list (map (available \<circ> dep) apps) then no_requeue
        else requeue_after (120 * 1000000000), None), st') \<and>
    touches (look (os_cluster st)) (look (os_cluster st')) {(KSiddhiProcess, request)} \<and>
    os_SPContainer st' = os_SPContainer st \<and> os_CMContainer st' = os_CMContainer st"
proof -
  from kube_live.axioms(1) [OF assms(1)] have store: "kube_store (kc_Client (env_KubeClient env)) look adm valid" .
  from kube_store.Reconcile_unfold [OF store, OF refl assms(2), of request] obtain w2 where
    w2: "valid w2" "look w2 = look (os_cluster st)" and
    rec: "Reconcile env request st = reconcile_process env request True sp (st\<lparr>os_cluster := w2\<rparr>)"
    using assms(3,4) by (auto simp: request_target_def)
  let ?st = "st\<lparr>os_cluster := w2\<rparr>"
  define s where "s = UpdateDefaultConfigs (env_getenv env) (new_controller env sp ?st)"
  have key: "key_of (OSiddhiProcess sp) = request"
    using kube_api.look_obj [OF kube_store.axioms(1) [OF store], OF assms(2,4)] by simp
  from kube_api.UpdateDefaultConfigs_step [OF kube_store.axioms(1) [OF store], of "new_controller env sp ?st" _ "env_getenv env"] w2
  have s: "kc_Client (ctl_KubeClient s) = kc_Client (env_KubeClient env)" "valid (ctl_cluster s)" "the_sp s = sp"
    "look (ctl_cluster s) = look (os_cluster st)"
    by (simp_all add: s_def ns_step_def)
  obtain t s' where chk: "CheckAvailableDeployments apps s = (t, s')" by force
  from key have ns: "sp_Namespace sp = nn_Namespace request" "sp_key s = request"
    using s(3) by (auto simp: key_of_process sp_key_def)
  from kube_live.CheckAvailable_live [OF assms(1) s(1,2), of apps]
  have t: "t \<longleftrightarrow> sum_list (map wanted apps) = sum_list (map (available \<circ> dep) apps)"
    and touch: "touches (look (os_cluster st)) (look (ctl_cluster s')) {(KSiddhiProcess, request)}"
    unfolding chk s(3,4) ns prod.case by (simp_all add: count_all_fields zero_availability_def dep_def ctl_step_def s(4))
  have "Reconcile env request st =
      Some ((if t then no_requeue else requeue_after (120 * 1000000000), None), leave s' ?st)"
    using assms(5-7) chk by (simp add: rec reconcile_process_def s_def [symmetric] apps_of_def Let_def time_Minute_def
        time_Second_def ReconcileTime_def)
  with t touch show ?thesis by (intro exI [of _ "leave s' ?st"]) (simp add: leave_def)
qed

theorem Timer_checks_only_witness:
  "\<exists>st'. Reconcile sample_env sample_request (sample_state sample_timer) =
     Some ((requeue_after (120 * 1000000000), None), st')"
proof -
  have "sum_list (map wanted [sample_app]) = 1" by (simp add: wanted_def sample_app_def int_of_int32_def)
  moreover have "deployment_of (tracker_look sample_timer) ''ns'' sample_app = None"
    by (simp add: deployment_of_def sample_timer_look)
  ultimately show ?thesis
    using Timer_checks_only [of sample_env, of tracker_look "\<lambda>obj. obj" tracker_inv "sample_state sample_timer" sample_request
        sample_timed "[sample_app]"] sample_live
    by (auto simp: sample_timer_look sample_timed_def sample_process_def zero_siddhi_process_def new_meta_def available_def)
qed

text \<open>
  C27: an app whose config map is missing is never looked at again. The request ends without an
  error and without a retry, the applications and listeners stay, so that no listener waits for the
  missing map: when it is created or updated later, the predicates drop the event.
\<close>

theorem Missing_config_map_is_final:
  assumes "kube_live (kc_Client (env_KubeClient env)) look adm valid" and "valid (os_cluster st)"
    and order: "\<And>i m. mset (env_data_order env i m) = mset m"
    and "look (os_cluster st) KConfigMap request = None"
    and "look (os_cluster st) KSiddhiProcess request = Some (OSiddhiProcess sp)"
    and "st_EventType (sp_Status sp) \<noteq> ''Timer''"
    and app: "app \<in> set (sps_Apps (sp_Spec sp))" "app_ConfigMap app \<noteq> []"
    and missing: "look (os_cluster st) KConfigMap (nn (app_ConfigMap app) (nn_Namespace request)) = None"
    and "os_CMContainer st (app_ConfigMap app) = None"
  shows "\<exists>st'. Reconcile env request st = Some ((no_requeue, None), st') \<and> os_SPContainer st' = os_SPContainer st \<and>
    \<not> fst (cm_UpdateFunc (app_ConfigMap app) (os_CMContainer st')) \<and> \<not> cm_CreateFunc"
proof -
  from kube_live.axioms [OF assms(1)] have store: "kube_store (kc_Client (env_KubeClient env)) look adm valid"
    and stat: "kube_status (kc_Client (env_KubeClient env)) look adm valid" by auto
  note api = kube_store.axioms(1) [OF store]
  from kube_store.Reconcile_unfold [OF store, OF refl assms(2), of request] obtain w2 where
    w2: "valid w2" "look w2 = look (os_cluster st)" and
    rec: "Reconcile env request st = reconcile_process env request True sp (st\<lparr>os_cluster := w2\<rparr>)"
    using assms(4,5) by (auto simp: request_target_def)
  let ?st = "st\<lparr>os_cluster := w2\<rparr>"
  define s where "s = UpdateDefaultConfigs (env_getenv env) (new_controller env sp ?st)"
  have key: "key_of (OSiddhiProcess sp) = request"
    using kube_api.look_obj [OF api, OF assms(2,5)] by simp
  from kube_api.UpdateDefaultConfigs_step [OF api, of "new_controller env sp ?st" _ "env_getenv env"] w2
  have s: "kc_Client (ctl_KubeClient s) = kc_Client (env_KubeClient env)" "valid (ctl_cluster s)" "the_sp s = sp"
    "look (ctl_cluster s) = look (os_cluster st)"
    by (simp_all add: s_def ns_step_def)
  define s2 where "s2 = SetNotReadyState (SetDefaultPendingState s)"
  from kube_status.pending_notready [OF stat, OF s(1,2)]
  have s2: "ctl_step look valid {(KSiddhiProcess, sp_key s)} s s2" by (simp add: s2_def)
  then have sp2: "sp_Spec (the_sp s2) = sp_Spec sp" "sp_Namespace (the_sp s2) = nn_Namespace request" "valid (ctl_cluster s2)"
    "look (ctl_cluster s2) KConfigMap = look (os_cluster st) KConfigMap"
    using key s(3,4) by (auto simp: ctl_step_def same_ctl_def sp_key_def key_of_process touches_def fun_eq_iff)
  from kube_store.read_siddhi_apps_store [OF store, OF refl sp2(3) order, of "the_sp s2" 0 "sps_Apps (sp_Spec sp)" "[]" "os_CMContainer st"]
  obtain texts err cmc w3 where
    read: "getSiddhiApps env (the_sp s2) (os_CMContainer st) (ctl_cluster s2) = ((texts, err), cmc, w3)" and
    spec: "read_spec (look (ctl_cluster s2)) (the_sp s2) (sps_Apps (sp_Spec sp)) [] (os_CMContainer st) texts err cmc"
    by (auto simp: getSiddhiApps_def sp2(1))
  from spec app missing sp2 obtain e where e: "err = Some e"
    by (auto simp: read_spec_def maps_present_def)
  from spec missing sp2 assms(10) have cmc: "cmc (app_ConfigMap app) = None" by (simp add: read_spec_def)
  have "Reconcile env request st = Some ((no_requeue, None),
      leave (UpdateErrorStatus ''AppReadError'' e (with_cluster w3 s2)) (?st\<lparr>os_CMContainer := cmc\<rparr>))"
    using assms(6) read e
    by (simp add: rec reconcile_process_def s_def [symmetric] reconcile_apps_def s2_def [symmetric] Let_def)
  with cmc show ?thesis
    by (auto simp: leave_def cm_UpdateFunc_def cm_CreateFunc_def)
qed

definition sample_reading :: siddhi_process where
  "sample_reading = sample_process\<lparr>sp_Spec := zero_siddhi_process_spec\<lparr>sps_Apps := [\<lparr>app_ConfigMap = ''scripts'', app_Script = []\<rparr>]\<rparr>\<rparr>"

definition sample_unread :: tracker where
  "sample_unread = empty_tracker(KSiddhiProcess := [OSiddhiProcess sample_reading])"

lemma sample_unread_inv [simp]: "tracker_inv sample_unread"
  by (simp add: tracker_inv_def sample_unread_def empty_tracker_def)

lemma sample_unread_look:
  "tracker_look sample_unread kd n =
     (if kd = KSiddhiProcess \<and> n = nn ''app'' ''ns'' then Some (OSiddhiProcess sample_reading) else None)"
  by (simp add: sample_unread_def tracker_look_def objs_map_def key_of_def new_meta_def nn_def sample_process_def
      sample_reading_def zero_siddhi_process_def empty_tracker_def)

theorem Missing_config_map_is_final_witness:
  "\<exists>st'. Reconcile sample_env sample_request (sample_state sample_unread) = Some ((no_requeue, None), st')"
  using Missing_config_map_is_final [of sample_env, of tracker_look "\<lambda>obj. obj" tracker_inv "sample_state sample_unread"
      sample_request sample_reading "\<lparr>app_ConfigMap = ''scripts'', app_Script = []\<rparr>"] sample_live
  by (auto simp: sample_unread_look sample_reading_def zero_siddhi_process_status_def)

text \<open>
  C28: reading the apps. \<open>getSiddhiApps\<close> succeeds exactly when every config map named exists in the
  process's namespace; the texts are then, in some order, the values of the config maps and the
  scripts, and exactly the named config maps are now listened to for this process.
\<close>

theorem getSiddhiApps_reads:
  assumes store: "kube_store (kc_Client (env_KubeClient env)) look adm valid" and w: "valid w"
    and order: "\<And>i m. mset (env_data_order env i m) = mset m"
  shows "\<exists>texts err cmc' w'. getSiddhiApps env sp cmc w = ((texts, err), cmc', w') \<and> look w' = look w \<and>
    (err = None \<longleftrightarrow> (\<forall>a \<in> set (sps_Apps (sp_Spec sp)).
       app_ConfigMap a \<noteq> [] \<longrightarrow> look w KConfigMap (nn (app_ConfigMap a) (sp_Namespace sp)) \<noteq> None)) \<and>
    (err = None \<longrightarrow> mset texts = sum_list (map (app_texts (look w) (sp_Namespace sp)) (sps_Apps (sp_Spec sp))) \<and>
       (\<forall>n. cmc' n = (if n \<noteq> [] \<and> n \<in> app_ConfigMap ` set (sps_Apps (sp_Spec sp))
          then Some \<lparr>cml_SiddhiProcess = sp_Name sp, cml_Changed = False\<rparr> else cmc n)))"
  using kube_store.read_siddhi_apps_store [OF store, OF refl w order, of sp 0 "sps_Apps (sp_Spec sp)" "[]" cmc]
  unfolding getSiddhiApps_def read_spec_def maps_present_def by auto

theorem getSiddhiApps_reads_witness:
  "\<exists>err cmc' w'. getSiddhiApps sample_env (sample_process\<lparr>sp_Spec := zero_siddhi_process_spec\<lparr>sps_Apps :=
       [\<lparr>app_ConfigMap = [], app_Script = ''s''\<rparr>]\<rparr>\<rparr>) Map.empty empty_tracker = ((''s'' # [], err), cmc', w') \<and> err = None"
  using getSiddhiApps_reads [of sample_env, of tracker_look "\<lambda>obj. obj" tracker_inv empty_tracker
      "sample_process\<lparr>sp_Spec := zero_siddhi_process_spec\<lparr>sps_Apps := [\<lparr>app_ConfigMap = [], app_Script = ''s''\<rparr>]\<rparr>\<rparr>" Map.empty]
    sample_store by (auto simp: app_texts_def)

lemma populate_stores:
  assumes "populateSiddhiApps env p spc s = Some ((apps, err), spc', s')"
  shows "spc' = (if err = None then spc(sp_Name (the_sp s) \<mapsto> apps) else spc)"
  using assms
  by (auto simp: populateSiddhiApps_def Let_def bind_eq_Some_conv fun_upd_idem split: if_splits option.splits prod.splits)

lemma populate_cached:
  "spc (sp_Name (the_sp s)) = Some apps \<Longrightarrow>
     \<not> lt64 (st_PreviousVersion (sp_Status (the_sp s))) (st_CurrentVersion (sp_Status (the_sp s))) \<Longrightarrow>
     populateSiddhiApps env p spc s = Some ((apps, None), spc, s)"
  by (simp add: populateSiddhiApps_def Let_def)

text \<open>
  C14: the applications are parsed once for each version. A call of \<open>populateSiddhiApps\<close> without an
  error stores the applications it returns under the name of the process and changes no other entry;
  one with an error changes none. While the version is settled a later call for the same name returns
  the stored applications without a call to the server.
\<close>

theorem Applications_parsed_once:
  assumes "populateSiddhiApps env p spc s = Some ((apps, err), spc', s')"
  shows "(case err of
      None \<Rightarrow> spc' = spc(sp_Name (the_sp s) \<mapsto> apps) \<and>
        (\<forall>env2 p2 s2. sp_Name (the_sp s2) = sp_Name (the_sp s) \<and>
           st_PreviousVersion (sp_Status (the_sp s2)) = st_CurrentVersion (sp_Status (the_sp s2)) \<longrightarrow>
           populateSiddhiApps env2 p2 spc' s2 = Some ((apps, None), spc', s2))
    | Some e \<Rightarrow> spc' = spc)"
  using populate_stores [OF assms] by (auto split: option.splits intro!: populate_cached)

theorem Applications_parsed_once_witness:
  "populateSiddhiApps sample_env sample_parser [''app'' \<mapsto> [sample_app]] (sample_ctl cached_client empty_tracker) =
     Some (([sample_app], None), [''app'' \<mapsto> [sample_app]], sample_ctl cached_client empty_tracker)"
proof -
  have "populateSiddhiApps sample_env sample_parser [''app'' \<mapsto> [sample_app]] (sample_ctl cached_client empty_tracker) =
      Some (([sample_app], None), [''app'' \<mapsto> [sample_app]], sample_ctl cached_client empty_tracker)"
    by (simp add: populateSiddhiApps_def zero_siddhi_process_status_def Let_def)
  from Applications_parsed_once [OF this] have "\<forall>env2 p2 s2. sp_Name (the_sp s2) = ''app'' \<and>
      st_PreviousVersion (sp_Status (the_sp s2)) = st_CurrentVersion (sp_Status (the_sp s2)) \<longrightarrow>
      populateSiddhiApps env2 p2 [''app'' \<mapsto> [sample_app]] s2 =
        Some (([sample_app], None), [''app'' \<mapsto> [sample_app]], s2 :: tracker ctl)" by simp
  note this [rule_format, of "sample_ctl cached_client empty_tracker"]
  then show ?thesis by (simp add: zero_siddhi_process_status_def)
qed

text \<open>
  Processes of one name share their applications across namespaces. A new process, as the create
  predicate hands it on, gets the applications stored under its name, whatever its namespace and
  its own apps, and the parser is not asked.
\<close>

theorem Applications_shared_by_name:
  assumes "the_sp s = snd (sp_CreateFunc sp)" and "spc (sp_Name sp) = Some apps"
  shows "populateSiddhiApps env p spc s = Some ((apps, None), spc, s)"
  using assms by (simp add: populateSiddhiApps_def sp_CreateFunc_def Let_def)

theorem Applications_shared_by_name_witness:
  "populateSiddhiApps sample_env sample_parser [''app'' \<mapsto> [sample_app]]
     ((sample_ctl cached_client empty_tracker)\<lparr>ctl_heap := \<lambda>_. snd (sp_CreateFunc (sample_reading\<lparr>sp_ObjectMeta := new_meta ''app'' ''other''\<rparr>))\<rparr>) =
   Some (([sample_app], None), [''app'' \<mapsto> [sample_app]],
     (sample_ctl cached_client empty_tracker)\<lparr>ctl_heap := \<lambda>_. snd (sp_CreateFunc (sample_reading\<lparr>sp_ObjectMeta := new_meta ''app'' ''other''\<rparr>))\<rparr>)"
  by (rule Applications_shared_by_name [where sp = "sample_reading\<lparr>sp_ObjectMeta := new_meta ''app'' ''other''\<rparr>"])
    (simp_all add: the_sp_def new_meta_def)

text \<open>
  The update predicate. An update is reconciled exactly when the comparison of the specs finds a
  difference; the new object then has the next version and event \<open>Update\<close>, otherwise event \<open>Timer\<close> and
  its version. Name, ready text and the servers up to order are untouched; comparing sorts the servers.
\<close>

theorem Update_predicate:
  "case sp_UpdateFunc oldObject newObject of (reconcile, old', new') \<Rightarrow>
     (reconcile \<longleftrightarrow> \<not> fst (Spec_Equals (sp_Spec oldObject) (sp_Spec newObject))) \<and>
     sp_Status new' = (sp_Status newObject)
       \<lparr>st_CurrentVersion := st_CurrentVersion (sp_Status newObject) + (if reconcile then 1 else 0),
        st_EventType := if reconcile then ''Update'' else ''Timer''\<rparr> \<and>
     sp_ObjectMeta new' = sp_ObjectMeta newObject \<and>
     mset (mc_BootstrapServers (ms_Config (sps_MessagingSystem (sp_Spec new')))) =
       mset (mc_BootstrapServers (ms_Config (sps_MessagingSystem (sp_Spec newObject)))) \<and>
     fst (Spec_Equals (sp_Spec newObject) (sp_Spec new'))"
proof -
  obtain eq p q where cmp: "Spec_Equals (sp_Spec oldObject) (sp_Spec newObject) = (eq, p, q)" by (metis prod.collapse)
  have "q = sp_Spec newObject \<or>
      q = (sp_Spec newObject)\<lparr>sps_MessagingSystem := sort_servers (sps_MessagingSystem (sp_Spec newObject))\<rparr>"
    using cmp by (auto simp: Spec_Equals_def MessagingSystem_Equals_def Let_def split: if_splits)
  then have "fst (Spec_Equals (sp_Spec newObject) q) \<and>
      mset (mc_BootstrapServers (ms_Config (sps_MessagingSystem q))) =
        mset (mc_BootstrapServers (ms_Config (sps_MessagingSystem (sp_Spec newObject))))"
    by (auto simp: comparison_iffs)
  then show ?thesis by (simp add: sp_UpdateFunc_def cmp Let_def)
qed

end
