(* ===== verification/Deployed.thy ===== *)
theory Deployed
  imports Reconcile
begin

text \<open>
  What the operator achieves on a server that answers (\<open>kube_live\<close>): no operation on an artifact
  fails, \<open>Deploy\<close> returns nil with everything in place, and the loop over the applications leaves
  every one of them up, since no application overwrites what another one needs.
\<close>

section \<open>Operations that succeed\<close>

text \<open>
  What an application needs besides the server: when it is stateful and its process specifies a
  claim, an access mode that is granted (unless the claim is there already) and a configuration in
  which the location of the state can be read.
\<close>

definition can_deploy :: "yaml_unmarshal \<Rightarrow> (kind \<Rightarrow> namespaced_name \<Rightarrow> kobject option) \<Rightarrow> 'w deploy_manager \<Rightarrow> bool" where
  "can_deploy yaml l d \<longleftrightarrow>
     (let spec = sp_Spec (dm_SiddhiProcess d)
      in ap_PersistenceEnabled (dm_Application d) \<and> \<not> EqualsPVCSpec (sps_PVC spec) zero_pvc_spec \<longrightarrow>
         (l KPVC (nn (ap_Name (dm_Application d) @ PVCExtension) (sp_Namespace (dm_SiddhiProcess d))) \<noteq> None \<or>
          mode_granted (sps_PVC spec)) \<and>
         (\<exists>config. yaml (sps_SiddhiConfig spec) = Inr config))"

text \<open>The server fills in the replicas of every deployment.\<close>

definition replicas_set :: "(kind \<Rightarrow> namespaced_name \<Rightarrow> kobject option) \<Rightarrow> bool" where
  "replicas_set l \<longleftrightarrow> (\<forall>n d. l KDeployment n = Some (ODeployment d) \<longrightarrow> ds_Replicas (dep_Spec d) \<noteq> None)"

lemma replicas_set_same: "l' KDeployment = l KDeployment \<Longrightarrow> replicas_set l' = replicas_set l"
  by (simp add: replicas_set_def)

text \<open>A part of the objects depends on the objects of its kind only.\<close>

lemma touches_kind: "touches l l' S \<Longrightarrow> (\<And>n. (kd, n) \<notin> S) \<Longrightarrow> l' kd = l kd"
  by (auto simp: touches_def)

context kube_live
begin

lemma CM_live:
  assumes k: "kc_Client k = c" and w: "inv w"
  shows "\<exists>w'. CreateOrUpdateCM k name ns data owner w = Some (None, w')"
proof -
  let ?o = "OConfigMap \<lparr>cm_TypeMeta = type_meta_of ''v1'' ''ConfigMap'', cm_ObjectMeta = new_meta name ns,
    cm_Data = data, cm_rest = []\<rparr>"
  obtain r w1 where get: "cl_Get c KConfigMap (nn name ns) w = (r, w1)" by force
  obtain e obj where own: "SetControllerReference owner ?o (kc_Scheme k) = (e, obj)" by force
  from get_look [OF get w] have w1: "inv w1" by simp
  from set_owner_object [OF own] have "covers (\<lambda>obj. kind_of obj = KConfigMap) (look w1) obj" by simp
  from CreateOrUpdate_total [OF mutates_CM [of data] this w1] get own k show ?thesis
    by (auto simp: CreateOrUpdateCM_def)
qed

lemma Service_live:
  assumes k: "kc_Client k = c" and w: "inv w"
  shows "\<exists>op w'. CreateOrUpdateService k name ns ports selectors owner w = Some ((op, None), w')"
proof -
  obtain e obj where own: "SetControllerReference owner (OService (service_object name ns selectors (service_ports ports)))
      (kc_Scheme k) = (e, obj)" by force
  from set_owner_object [OF own] have "covers (\<lambda>obj. kind_of obj = KService) (look w) obj" by simp
  from CreateOrUpdate_total [OF mutates_Service this w] own k show ?thesis
    by (simp add: CreateOrUpdateService_def Let_def)
qed

lemma CreateOrUpdateDeployment_live:
  assumes k: "kc_Client k = c" and w: "inv w"
  shows "\<exists>op w'. CreateOrUpdateDeployment k name ns replicas labels img containerName command args ports volumeMounts
     envs sc ipp secrets volumes strategy owner w = Some ((op, None), w')"
proof -
  let ?pod = "deployment_pod img containerName command args (ports @ [defaultPort]) volumeMounts envs sc ipp
     secrets volumes readyProbe liveProbe"
  obtain e obj where own: "SetControllerReference owner
      (ODeployment (deployment_object name ns replicas labels ?pod strategy)) (kc_Scheme k) = (e, obj)" by force
  from set_owner_object [OF own] have "covers (\<lambda>obj. kind_of obj = KDeployment) (look w) obj" by simp
  from CreateOrUpdate_total [OF mutates_Deployment this w] own k show ?thesis
    by (simp add: CreateOrUpdateDeployment_def Let_def)
qed

lemma PVC_live:
  assumes k: "kc_Client k = c" and w: "inv w"
    and ok: "look w KPVC (nn name ns) \<noteq> None \<or> mode_granted spec"
  shows "\<exists>w'. CreateOrUpdatePVC k name ns spec owner w = Some (None, w')"
proof (cases "look w KPVC (nn name ns)")
  case (Some obj)
  from get_total [OF w Some] k show ?thesis by (auto simp: CreateOrUpdatePVC_def)
next
  case None
  from get_none [OF w None] obtain e w1 where get: "cl_Get c KPVC (nn name ns) w = (Inl e, w1)" and e: "IsNotFound e"
    by blast
  from get_look [OF get w] have w1: "inv w1" by simp
  obtain e2 obj where own: "SetControllerReference owner (OPVC (pvc_object name ns spec)) (kc_Scheme k) = (e2, obj)" by force
  from set_owner_object [OF own] have "covers (\<lambda>obj. kind_of obj = KPVC) (look w1) obj" by simp
  from CreateOrUpdate_total [OF mutates_PVC this w1, of spec] obtain op w2 where
    "CreateOrUpdate c obj (PVCMutateFunc spec) w1 = Some ((op, None), w2)" by blast
  with get e own k ok None show ?thesis
    by (auto simp: CreateOrUpdatePVC_def mode_granted_def Let_def)
qed

lemma Ingress_live:
  assumes k: "kc_Client k = c" and w: "inv w"
    and ok: "\<And>i. look w KIngress (nn IngressName ns) = Some (OIngress i) \<Longrightarrow> rules_ok (is_Rules (ing_Spec i))"
  shows "\<exists>op w'. CreateOrUpdateIngress k ns serviceName tls ports w = Some ((op, None), w')"
proof -
  have "covers ingress_ok (look w) (OIngress (siddhi_ingress ns serviceName tls ports))"
    using ok key_of_new(5) [of ns serviceName tls ports] unfolding covers_def
    by (auto simp: ingress_ok_def kind_of_eqs siddhi_ingress_def)
  from CreateOrUpdate_total [OF mutates_Ingress this w] k show ?thesis by (simp add: CreateOrUpdateIngress_def)
qed

text \<open>The steps of \<open>Deploy\<close>.\<close>

lemma deploy_pvc_live:
  assumes k: "kc_Client (dm_KubeClient d) = c" and w: "inv w" and ok: "can_deploy yaml (look w) d"
    and p: "ap_PersistenceEnabled (dm_Application d)"
  shows "\<exists>ms w'. deploy_pvc yaml d w = Some (Inr ms, w')"
proof (cases "EqualsPVCSpec (sps_PVC (sp_Spec (dm_SiddhiProcess d))) zero_pvc_spec")
  case True
  then show ?thesis by (simp add: deploy_pvc_def Let_def)
next
  case False
  let ?sp = "dm_SiddhiProcess d"
  from ok p False have "look w KPVC (nn (ap_Name (dm_Application d) @ PVCExtension) (sp_Namespace ?sp)) \<noteq> None \<or>
      mode_granted (sps_PVC (sp_Spec ?sp))" and yaml: "\<exists>config. yaml (sps_SiddhiConfig (sp_Spec ?sp)) = Inr config"
    by (simp_all add: can_deploy_def Let_def)
  from PVC_live [OF k w this(1), of "OSiddhiProcess ?sp"] yaml False show ?thesis
    by (auto simp: deploy_pvc_def populateMountPath_def Let_def)
qed

lemma deploy_config_live:
  assumes "kc_Client (dm_KubeClient d) = c" and "inv w"
  shows "\<exists>r w'. deploy_config d n text w = Some (Inr r, w')"
  using CM_live [OF assms, of n "sp_Namespace (dm_SiddhiProcess d)" "map_literal [(n, text)]"
      "OSiddhiProcess (dm_SiddhiProcess d)"]
  by (auto simp: deploy_config_def Let_def)

lemma deploy_persistence_live:
  assumes k: "kc_Client (dm_KubeClient d) = c" and w: "inv w" and ok: "can_deploy yaml (look w) d"
  shows "\<exists>ms p w'. deploy_persistence yaml d w = Some (Inr (ms, p), w')"
proof (cases "ap_PersistenceEnabled (dm_Application d)")
  case False
  with deploy_config_live [OF k w] show ?thesis by (fastforce simp: deploy_persistence_def Let_def)
next
  case True
  from deploy_pvc_live [OF k w ok True] obtain ms w1 where one: "deploy_pvc yaml d w = Some (Inr ms, w1)" by blast
  with deploy_pvc_result [OF k w, of yaml] have w1: "inv w1" by auto
  from deploy_config_live [OF k w1] obtain r w2 where
    "deploy_config d (ap_Name (dm_Application d) @ DepCMExtension)
       (if sps_SiddhiConfig (sp_Spec (dm_SiddhiProcess d)) \<noteq> [] then sps_SiddhiConfig (sp_Spec (dm_SiddhiProcess d))
        else StatePersistenceConf) w1 = Some (Inr r, w2)" by blast
  with True one show ?thesis by (cases r) (auto simp: deploy_persistence_def Let_def)
qed

lemma deploy_apps_live:
  assumes "kc_Client (dm_KubeClient d) = c" and "inv w"
  shows "\<exists>ms p w'. deploy_apps d w = Some (Inr (ms, p), w')"
  using CM_live [OF assms, of "apps_cm_name d" "sp_Namespace (dm_SiddhiProcess d)" "apps_map (ap_Apps (dm_Application d))"
      "OSiddhiProcess (dm_SiddhiProcess d)"]
  by (auto simp: deploy_apps_def Let_def)

end

text \<open>A deployment that is written has a number of replicas when the one it replaces has.\<close>

context kube_defaulting
begin

lemma Deployment_pod_replicas:
  assumes k: "kc_Client k = c" and w: "inv w"
  shows "\<exists>op err w'. CreateOrUpdateDeployment k name ns replicas labels img containerName command args
      ports volumeMounts envs sc ipp secrets volumes strategy owner w = Some ((op, err), w') \<and> inv w' \<and>
    outcome (look w) (look w') KDeployment (nn name ns)
      (\<lambda>obj. \<exists>dep. obj = ODeployment dep \<and> pod_core (ds_TemplateSpec (dep_Spec dep)) =
         ([\<lparr>cc_Name = containerName, cc_Image = img, cc_Command = command, cc_Args = args,
            cc_Ports = map cp_ContainerPort ports @ [HealthPort],
            cc_Env = map (\<lambda>e. (ev_Name e, ev_Value e)) (elems envs),
            cc_Mounts = map (\<lambda>m. (vm_Name m, vm_MountPath m)) volumeMounts\<rparr>], map vol_Name volumes) \<and>
         ((\<forall>d0. look w KDeployment (nn name ns) = Some (ODeployment d0) \<longrightarrow> ds_Replicas (dep_Spec d0) \<noteq> None) \<longrightarrow>
           ds_Replicas (dep_Spec dep) \<noteq> None)) err"
  by (insert Deployment_result [OF k w, of name ns replicas labels img containerName command args ports
        volumeMounts envs sc ipp secrets volumes strategy owner], elim exE conjE, intro exI conjI, assumption,
      assumption, erule outcome_mono) (fastforce split: option.splits kobject.splits)

end

text \<open>On a server that answers the deployment is there whatever the operation was.\<close>

context kube_live
begin

lemma deploy_deployment_live:
  assumes k: "kc_Client (dm_KubeClient d) = c" and w: "inv w"
    and run: "deploy_deployment (CreateLabels d) ms p2 p1 w = Some (op, w')"
  shows "deployment_holds d (look w') ms p2 p1 \<and> (replicas_set (look w) \<longrightarrow> replicas_set (look w'))"
proof -
  let ?app = "dm_Application d" and ?sp = "dm_SiddhiProcess d" and ?img = "dm_Image d"
  let ?secrets = "if im_Secret ?img \<noteq> [] then [createLocalObjectReference (im_Secret ?img)] else []"
  let ?args = "[path_Join [im_Home ?img, SiddhiBin, im_Profile ?img @ ''.sh''], p2, p1]"
  let ?n = "nn (ap_Name ?app) (sp_Namespace ?sp)"
  let ?call = "CreateOrUpdateDeployment (dm_KubeClient d) (ap_Name ?app) (sp_Namespace ?sp) (ap_Replicas ?app)
      (dm_Labels (CreateLabels d)) (im_Name ?img) ContainerName [Shell] ?args (ap_ContainerPorts ?app) (map snd ms)
      (ct_Env (sps_Container (sp_Spec ?sp))) \<lparr>sctx_RunAsUser = Some 802, sctx_rest = []\<rparr> ''Always'' ?secrets
      (map fst ms) rolling_strategy (OSiddhiProcess ?sp) w"
  have "\<exists>op' w1. ?call = Some ((op', None), w1)" by (rule CreateOrUpdateDeployment_live [OF k w])
  then obtain op' w1 where call: "?call = Some ((op', None), w1)" by blast
  from run call have "w' = w1" by (simp add: deploy_deployment_def Let_def CreateLabels_def)
  with call Deployment_pod_replicas [OF k w, of "ap_Name ?app" "sp_Namespace ?sp" "ap_Replicas ?app"
      "dm_Labels (CreateLabels d)" "im_Name ?img" ContainerName "[Shell]" ?args "ap_ContainerPorts ?app"
      "map snd ms" "ct_Env (sps_Container (sp_Spec ?sp))" "\<lparr>sctx_RunAsUser = Some 802, sctx_rest = []\<rparr>"
      "''Always''" ?secrets "map fst ms" rolling_strategy "OSiddhiProcess ?sp"]
  obtain dep where same: "same_except (look w) (look w') KDeployment ?n"
    and dep: "look w' KDeployment ?n = Some (ODeployment dep)"
    and pod: "pod_core (ds_TemplateSpec (dep_Spec dep)) = ([deployed_container d ms p2 p1], map (vol_Name \<circ> fst) ms)"
    and rep: "(\<forall>d0. look w KDeployment ?n = Some (ODeployment d0) \<longrightarrow> ds_Replicas (dep_Spec d0) \<noteq> None) \<longrightarrow>
      ds_Replicas (dep_Spec dep) \<noteq> None"
    by (auto simp: outcome_def deployed_container_def)
  have "replicas_set (look w')" if set: "replicas_set (look w)"
    unfolding replicas_set_def
  proof (intro allI impI)
    fix n x assume x: "look w' KDeployment n = Some (ODeployment x)"
    show "ds_Replicas (dep_Spec x) \<noteq> None"
    proof (cases "n = ?n")
      case True
      with x dep rep set show ?thesis by (simp add: replicas_set_def)
    next
      case False
      with same x have "look w KDeployment n = Some (ODeployment x)" by (simp add: same_except_def)
      with set show ?thesis by (simp add: replicas_set_def)
    qed
  qed
  with dep pod show ?thesis by (auto simp: deployment_holds_def)
qed

lemma Deploy_live:
  assumes k: "kc_Client (dm_KubeClient d) = c" and w: "inv w" and ok: "can_deploy yaml (look w) d"
  shows "\<exists>op w'. Deploy yaml d w = Some ((Some op, None, CreateLabels d), w') \<and> inv w' \<and>
    touches (look w) (look w') (deploy_targets d) \<and> deploy_maps_written d (look w') \<and> deployed d (look w') \<and>
    (replicas_set (look w) \<longrightarrow> replicas_set (look w'))"
proof -
  let ?d = "CreateLabels d"
  have d: "dm_KubeClient ?d = dm_KubeClient d" "dm_SiddhiProcess ?d = dm_SiddhiProcess d"
    "dm_Application ?d = dm_Application d" "dm_Image ?d = dm_Image d"
    by (simp_all add: CreateLabels_def)
  then have same: "can_deploy yaml (look w) ?d" "config_mounted ?d = config_mounted d" "apps_mounted ?d = apps_mounted d"
    "claim_mounted ?d = claim_mounted d"
    using ok by (auto simp: fun_eq_iff can_deploy_def config_mounted_def apps_mounted_def claim_mounted_def config_text_def
        config_cm_name_def apps_cm_name_def)
  have k': "kc_Client (dm_KubeClient ?d) = c" using k d by simp
  from deploy_persistence_live [OF k' w same(1)] obtain ms1 p1 w1 where
    one: "deploy_persistence yaml ?d w = Some (Inr (ms1, p1), w1)" by blast
  with deploy_persistence_result [OF k' w, of yaml] have m1: "inv w1" "mounts_ok ms1" "config_mounted d ms1 p1"
    "claim_mounted d (look w1) ms1" and l1: "look w1 KDeployment = look w KDeployment"
    by (auto simp: same dest: touches_kind)
  from deploy_apps_live [OF k' m1(1)] obtain ms2 p2 w2 where
    two: "deploy_apps ?d w1 = Some (Inr (ms2, p2), w2)" by blast
  with deploy_apps_result [OF k' m1(1)] have m2: "inv w2" "mounts_ok ms2" "apps_mounted d ms2 p2"
    and l2: "look w2 KDeployment = look w1 KDeployment" "look w2 KPVC = look w1 KPVC"
    by (auto simp: same dest: touches_kind)
  from deploy_deployment_result [OF k m2(1), of "ms1 @ ms2" p2 p1] obtain op w3 where
    three: "deploy_deployment ?d (ms1 @ ms2) p2 p1 w2 = Some (op, w3)" by blast
  have "look w3 KPVC = look w2 KPVC"
    using deploy_deployment_result [OF k m2(1), of "ms1 @ ms2" p2 p1] three by (auto dest: touches_kind)
  then have "claim_mounted d (look w3) ms1" using claim_mounted_kept [OF m1(4)] l2(2) by simp
  then have "deployed d (look w3)"
    using deploy_deployment_live [OF k m2(1) three] m1 m2 unfolding deployed_def by (blast intro: mounts_ok_append)
  moreover have "Deploy yaml d w = Some ((Some op, None, ?d), w3)"
    using one two three by (simp add: Deploy_def Let_def)
  moreover have "replicas_set (look w) \<longrightarrow> replicas_set (look w3)"
    using deploy_deployment_live [OF k m2(1) three] replicas_set_same [of "look w2" "look w"] l1 l2 by simp
  ultimately show ?thesis using Deploy_result [OF k w, of yaml] by auto
qed

end

section \<open>An application that is up\<close>

text \<open>The rules of the shared ingress of a namespace.\<close>

definition rules_at :: "(kind \<Rightarrow> namespaced_name \<Rightarrow> kobject option) \<Rightarrow> string \<Rightarrow> ingress_rule list" where
  "rules_at l ns = (case l KIngress (nn IngressName ns) of Some (OIngress i) \<Rightarrow> is_Rules (ing_Spec i) | _ \<Rightarrow> [])"

text \<open>The service in front of an application, and its routes in the ingress.\<close>

definition service_up :: "string \<Rightarrow> application \<Rightarrow> (kind \<Rightarrow> namespaced_name \<Rightarrow> kobject option) \<Rightarrow> bool" where
  "service_up ns a l \<longleftrightarrow>
     (\<exists>svc. l KService (nn (ap_Name a) ns) = Some (OService svc) \<and>
        svs_Selector (svc_Spec svc) = application_labels (ap_Name a) \<and>
        map (\<lambda>p. (svp_Name p, svp_Port p)) (svs_Ports (svc_Spec svc)) =
          map (\<lambda>p. (cp_Name p, cp_ContainerPort p)) (ap_ContainerPorts a))"

definition routed :: "string \<Rightarrow> application \<Rightarrow> (kind \<Rightarrow> namespaced_name \<Rightarrow> kobject option) \<Rightarrow> bool" where
  "routed ns a l \<longleftrightarrow>
     (\<exists>rule \<in> set (rules_at l ns). ir_Host rule = IngressName) \<and>
     (\<forall>rule \<in> set (rules_at l ns). ir_Host rule = IngressName \<longrightarrow>
        set (ingress_paths (ap_Name a) (ap_ContainerPorts a)) \<subseteq> set (elems (ir_HTTP rule)))"

text \<open>Everything \<open>CreateArtifacts\<close> is to provide for one application.\<close>

definition application_up :: "'w ctl \<Rightarrow> application \<Rightarrow> (kind \<Rightarrow> namespaced_name \<Rightarrow> kobject option) \<Rightarrow> bool" where
  "application_up s a l \<longleftrightarrow>
     (let ns = sp_Namespace (the_sp s)
      in deploy_maps_written (manager_of s a) l \<and> deployed (manager_of s a) l \<and>
         (ap_ServiceEnabled a \<longrightarrow> service_up ns a l \<and> (ctl_AutoCreateIngress s \<longrightarrow> routed ns a l)))"

text \<open>How a step may change the rules: not at all, or by merging paths in.\<close>

definition rules_grow :: "(kind \<Rightarrow> namespaced_name \<Rightarrow> kobject option) \<Rightarrow> string \<Rightarrow>
    (kind \<Rightarrow> namespaced_name \<Rightarrow> kobject option) \<Rightarrow> bool" where
  "rules_grow l ns l' \<longleftrightarrow> rules_at l' ns = rules_at l ns \<or> (\<exists>ps. rules_at l' ns = merged_rules ps (rules_at l ns))"

lemma rules_grow_same: "l' KIngress = l KIngress \<Longrightarrow> rules_grow l ns l'"
  by (simp add: rules_grow_def rules_at_def)

lemma rules_grow_ok: "rules_grow l ns l' \<Longrightarrow> rules_ok (rules_at l ns) \<Longrightarrow> rules_ok (rules_at l' ns)"
  by (auto simp: rules_grow_def)

lemma rules_at_ok:
  "rules_ok (rules_at l ns) \<Longrightarrow> l KIngress (nn IngressName ns) = Some (OIngress i) \<Longrightarrow>
     rules_ok (is_Rules (ing_Spec i))"
  by (simp add: rules_at_def)

lemma rules_grow_routed:
  assumes "rules_grow l ns l'" and "routed ns a l"
  shows "routed ns a l'"
proof (cases "rules_at l' ns = rules_at l ns")
  case True
  with assms(2) show ?thesis by (simp add: routed_def)
next
  case False
  with assms obtain ps where new: "rules_at l' ns = map (updated_rule ps) (rules_at l ns)"
    by (auto simp: rules_grow_def merged_rules_def routed_def)
  have "set (elems (ir_HTTP rule)) \<subseteq> set (elems (ir_HTTP (updated_rule ps rule)))" for rule
    by (cases "ir_HTTP rule") (auto simp: updated_rule_def set_add_paths)
  with assms(2) new show ?thesis by (fastforce simp: routed_def)
qed

text \<open>The parts depend on the objects of their kinds only.\<close>

lemma maps_written_same: "l' KConfigMap = l KConfigMap \<Longrightarrow> deploy_maps_written d l' = deploy_maps_written d l"
  by (simp add: deploy_maps_written_def holds_data_def)

lemma deployed_same: "l' KDeployment = l KDeployment \<Longrightarrow> l' KPVC = l KPVC \<Longrightarrow> deployed d l' = deployed d l"
  by (simp add: deployed_def deployment_holds_def claim_mounted_def)

lemma service_up_same: "l' KService = l KService \<Longrightarrow> service_up ns a l' = service_up ns a l"
  by (simp add: service_up_def)

context kube_live
begin

lemma create_ingress_live:
  assumes k: "kc_Client (ctl_KubeClient s) = c" and w: "inv (ctl_cluster s)" and auto: "ctl_AutoCreateIngress s"
    and rules: "rules_ok (rules_at (look (ctl_cluster s)) (sp_Namespace (the_sp s)))"
  shows "\<exists>s'. create_ingress a s = Some s' \<and>
    ctl_step look inv {(KIngress, nn IngressName (sp_Namespace (the_sp s)))} s s' \<and>
    rules_at (look (ctl_cluster s')) (sp_Namespace (the_sp s)) =
      merged_rules (ingress_paths (ap_Name a) (ap_ContainerPorts a))
        (rules_at (look (ctl_cluster s)) (sp_Namespace (the_sp s)))"
proof -
  let ?ns = "sp_Namespace (the_sp s)"
  note ok = rules_at_ok [OF rules]
  obtain op w1 where call: "CreateOrUpdateIngress (ctl_KubeClient s) ?ns (ap_Name a) (ctl_TLS s) (ap_ContainerPorts a)
      (ctl_cluster s) = Some ((op, None), w1)"
    using Ingress_live [OF k w ok, where ns = ?ns] by blast
  with Ingress_result [OF k w ok, where namespace = ?ns and serviceName = "ap_Name a" and tls = "ctl_TLS s" and ports = "ap_ContainerPorts a"]
  have w1: "inv w1" and out: "outcome (look (ctl_cluster s)) (look w1) KIngress (nn IngressName ?ns)
      (\<lambda>obj. \<exists>i. obj = OIngress i \<and>
         ing_Spec i = ingress_spec_of (ctl_TLS s) (merged_rules (ingress_paths (ap_Name a) (ap_ContainerPorts a))
           (rules_at (look (ctl_cluster s)) ?ns))) None"
    by (auto simp: rules_at_def)
  from call auto have "create_ingress a s = Some (with_cluster w1 s)"
    by (simp add: create_ingress_def Let_def)
  with w1 out outcome_touches [OF out] show ?thesis
    by (auto simp: ctl_step_def outcome_def rules_at_def)
qed

lemma create_service_live:
  assumes k: "kc_Client (ctl_KubeClient s) = c" and w: "inv (ctl_cluster s)"
    and rules: "rules_ok (rules_at (look (ctl_cluster s)) (sp_Namespace (the_sp s)))"
  defines "ns \<equiv> sp_Namespace (the_sp s)"
  shows "\<exists>s'. create_service ev a (application_labels (ap_Name a)) s = Some s' \<and>
    ctl_step look inv {(KService, nn (ap_Name a) ns), (KIngress, nn IngressName ns), (KSiddhiProcess, sp_key s)} s s' \<and>
    rules_grow (look (ctl_cluster s)) ns (look (ctl_cluster s')) \<and>
    (ap_ServiceEnabled a \<longrightarrow> service_up ns a (look (ctl_cluster s')) \<and>
       (ctl_AutoCreateIngress s \<longrightarrow> routed ns a (look (ctl_cluster s'))))"
    (is "\<exists>s'. _ \<and> ctl_step look inv ?T s s' \<and> _")
proof (cases "ap_ServiceEnabled a")
  case False
  with w show ?thesis by (simp add: create_service_def ctl_step_refl rules_grow_def)
next
  case True
  let ?labels = "application_labels (ap_Name a)" and ?l = "look (ctl_cluster s)"
  obtain op w1 where call: "CreateOrUpdateService (ctl_KubeClient s) (ap_Name a) ns (ap_ContainerPorts a) ?labels
      (OSiddhiProcess (the_sp s)) (ctl_cluster s) = Some ((op, None), w1)"
    using Service_live [OF k w] by blast
  with Service_result [OF k w, of "ap_Name a" ns "ap_ContainerPorts a" ?labels "OSiddhiProcess (the_sp s)"]
  have w1: "inv w1" "touches ?l (look w1) {(KService, nn (ap_Name a) ns)}" "service_up ns a (look w1)"
    by (auto simp: outcome_def service_up_def touches_same_except)
  let ?s1 = "with_cluster w1 s"
  let ?s2 = "announce ev op ''ServiceCreated'' '' service created successfully''
              ''ServiceUpdated'' '' service updated successfully'' (ap_Name a) ?s1"
  from announce_step [of ?s1 ev op] k w1(1) have step2: "sp_step ?s1 ?s2" by simp
  have "ctl_step look inv {(KService, nn (ap_Name a) ns)} s ?s1" using w1 by (simp add: ctl_step_def)
  from ctl_step_trans [OF this step2, of ?T] have to2: "ctl_step look inv ?T s ?s2" by simp
  from ctl_step_same [OF to2] k have k2: "kc_Client (ctl_KubeClient ?s2) = c" "inv (ctl_cluster ?s2)"
    and ns2: "sp_Namespace (the_sp ?s2) = ns" and auto2: "ctl_AutoCreateIngress ?s2 = ctl_AutoCreateIngress s"
    by (auto simp: sp_key_def ns_def same_ctl_def)
  have l2: "look (ctl_cluster ?s2) KService = look w1 KService" "look (ctl_cluster ?s2) KIngress = ?l KIngress"
    using step2 touches_kind [OF w1(2), of KIngress] by (auto simp: ctl_step_def dest: touches_kind)
  then have up2: "service_up ns a (look (ctl_cluster ?s2))" and at2: "rules_at (look (ctl_cluster ?s2)) ns = rules_at ?l ns"
    using w1(3) by (simp_all add: service_up_def rules_at_def)
  have run: "create_service ev a ?labels s = create_ingress a ?s2"
    using True call by (simp add: create_service_def Let_def ns_def)
  show ?thesis
  proof (cases "ctl_AutoCreateIngress s")
    case False
    with auto2 run to2 up2 l2(2) show ?thesis by (simp add: create_ingress_def rules_grow_same)
  next
    case auto: True
    with auto2 have "ctl_AutoCreateIngress ?s2" by simp
    from create_ingress_live [OF k2 this, unfolded ns2, of a] at2 rules obtain s3 where
      three: "create_ingress a ?s2 = Some s3" "ctl_step look inv {(KIngress, nn IngressName ns)} ?s2 s3"
      "rules_at (look (ctl_cluster s3)) ns = merged_rules (ingress_paths (ap_Name a) (ap_ContainerPorts a)) (rules_at ?l ns)"
      by (auto simp: ns_def)
    have "look (ctl_cluster s3) KService = look (ctl_cluster ?s2) KService"
      using three(2) by (auto simp: ctl_step_def dest: touches_kind)
    with up2 have "service_up ns a (look (ctl_cluster s3))" by (simp add: service_up_def)
    moreover have "routed ns a (look (ctl_cluster s3))"
      using three(3) merged_rules_exists merged_rules_paths rules unfolding routed_def ns_def by fastforce
    ultimately show ?thesis
      using run three ctl_step_trans [OF to2 three(2), of ?T] by (auto simp: rules_grow_def)
  qed
qed

end

text \<open>Being up does not depend on the status, of which only the current version matters.\<close>

lemma application_up_same: "same_ctl s s' \<Longrightarrow> application_up s' a l = application_up s a l"
  by (simp add: application_up_def deploy_maps_written_def apps_cm_name_def config_cm_name_def config_text_def
      deployed_def deployment_holds_def deployed_container_def config_mounted_def apps_mounted_def claim_mounted_def
      manager_of_def same_ctl_def sp_key_def)

lemma can_deploy_same: "same_ctl s s' \<Longrightarrow> can_deploy yaml l (manager_of s' a) = can_deploy yaml l (manager_of s a)"
  by (simp add: can_deploy_def manager_of_def same_ctl_def sp_key_def)

lemma same_ctl_namespace: "same_ctl s s' \<Longrightarrow> sp_Namespace (the_sp s') = sp_Namespace (the_sp s)"
  and same_ctl_name: "same_ctl s s' \<Longrightarrow> sp_Name (the_sp s') = sp_Name (the_sp s)"
  by (simp_all add: same_ctl_def sp_key_def)

text \<open>
  Applications that do not get in each other's way: their names are distinct and none is the name of
  the process, after which the configuration of the stateless ones is called.
\<close>

definition well_named :: "'w ctl \<Rightarrow> application list \<Rightarrow> bool" where
  "well_named s as \<longleftrightarrow> distinct (map ap_Name as) \<and> (\<forall>a \<in> set as. ap_Name a \<noteq> sp_Name (the_sp s))"

lemma apps_cm_not_config: "apps_cm_name d \<noteq> n @ DepCMExtension"
proof
  assume "apps_cm_name d = n @ DepCMExtension"
  then have "last (apps_cm_name d) = last (n @ DepCMExtension)" by simp
  with last_Itoa [of "sint (st_CurrentVersion (sp_Status (dm_SiddhiProcess d)))"] have "is_digit (CHR ''l'')"
    by (simp add: apps_cm_name_def DepCMExtension_def)
  then show False using is_digit_range by fastforce
qed

text \<open>The deployment of one application leaves the others up.\<close>

lemma application_up_other:
  assumes up: "application_up s a l" and t: "touches l l' (artifact_targets s b)"
    and grow: "rules_grow l (sp_Namespace (the_sp s)) l'" and b: "application_up s b l'"
    and names: "ap_Name a \<noteq> ap_Name b" "ap_Name a \<noteq> sp_Name (the_sp s)" "ap_Name b \<noteq> sp_Name (the_sp s)"
  shows "application_up s a l'"
proof -
  let ?d = "manager_of s a" and ?e = "manager_of s b" and ?ns = "sp_Namespace (the_sp s)"
  have [simp]: "sp_Namespace (dm_SiddhiProcess (manager_of s x)) = ?ns" "dm_Application (manager_of s x) = x"
    "dm_SiddhiProcess (manager_of s x) = the_sp s" for x by (simp_all add: manager_of_def)
  note keep = touchesD [OF t]
  have cm: "nn (apps_cm_name ?d) ?ns \<noteq> nn (config_cm_name ?e) ?ns" "nn (config_cm_name ?d) ?ns \<noteq> nn (apps_cm_name ?e) ?ns"
    unfolding config_cm_name_def nn_eq using apps_cm_not_config by metis+
  have apps: "l' KConfigMap (nn (apps_cm_name ?d) ?ns) = l KConfigMap (nn (apps_cm_name ?d) ?ns)"
    using cm names(1) by (intro keep) (auto simp: artifact_targets_def deploy_targets_def apps_cm_name_def Let_def)
  have "holds_data l' (nn (config_cm_name ?d) ?ns) [(config_cm_name ?d, config_text ?d)]"
    if nonempty: "config_text ?d \<noteq> []" and holds: "holds_data l (nn (config_cm_name ?d) ?ns) [(config_cm_name ?d, config_text ?d)]"
  proof (cases "config_cm_name ?d = config_cm_name ?e")
    case True
    with names have "config_text ?d = config_text ?e"
      by (auto simp: config_cm_name_def config_text_def Let_def split: if_splits)
    with True nonempty b show ?thesis by (simp add: application_up_def deploy_maps_written_def Let_def)
  next
    case False
    with cm have "l' KConfigMap (nn (config_cm_name ?d) ?ns) = l KConfigMap (nn (config_cm_name ?d) ?ns)"
      by (intro keep) (auto simp: artifact_targets_def deploy_targets_def Let_def)
    with holds show ?thesis by (simp add: holds_data_def)
  qed
  with up apps have "deploy_maps_written ?d l'"
    by (auto simp: application_up_def deploy_maps_written_def holds_data_def Let_def)
  moreover have "l' KDeployment (nn (ap_Name a) ?ns) = l KDeployment (nn (ap_Name a) ?ns)"
    "l' KService (nn (ap_Name a) ?ns) = l KService (nn (ap_Name a) ?ns)"
    and "l' KPVC (nn (ap_Name a @ PVCExtension) ?ns) = l KPVC (nn (ap_Name a @ PVCExtension) ?ns)"
    using names(1) by (auto intro!: keep simp: artifact_targets_def deploy_targets_def Let_def)
  moreover note rules_grow_routed [OF grow, of a]
  ultimately show ?thesis
    using up by (auto simp: application_up_def deployed_def deployment_holds_def claim_mounted_def service_up_def Let_def)
qed

context kube_live
begin

lemma create_artifact_live:
  assumes k: "kc_Client (ctl_KubeClient s) = c" and w: "inv (ctl_cluster s)"
    and rules: "rules_ok (rules_at (look (ctl_cluster s)) (sp_Namespace (the_sp s)))"
    and ok: "can_deploy yaml (look (ctl_cluster s)) (manager_of s a)"
  shows "\<exists>s'. create_artifact yaml ev a s = Some s' \<and> ctl_step look inv (artifact_targets s a) s s' \<and>
    rules_grow (look (ctl_cluster s)) (sp_Namespace (the_sp s)) (look (ctl_cluster s')) \<and>
    application_up s a (look (ctl_cluster s')) \<and>
    (replicas_set (look (ctl_cluster s)) \<longrightarrow> replicas_set (look (ctl_cluster s')))"
proof -
  let ?d = "manager_of s a" and ?ns = "sp_Namespace (the_sp s)" and ?l = "look (ctl_cluster s)"
  have d: "dm_KubeClient ?d = ctl_KubeClient s" "dm_Labels (CreateLabels ?d) = application_labels (ap_Name a)"
    by (simp_all add: manager_of_def CreateLabels_def)
  from Deploy_live [of ?d "ctl_cluster s" yaml, unfolded d, OF k w ok] obtain op w1 where
    call: "Deploy yaml ?d (ctl_cluster s) = Some ((Some op, None, CreateLabels ?d), w1)" "inv w1" and
    t: "touches ?l (look w1) (deploy_targets ?d)" and
    up: "deploy_maps_written ?d (look w1)" "deployed ?d (look w1)" and
    rep: "replicas_set ?l \<longrightarrow> replicas_set (look w1)" by blast
  let ?s1 = "with_cluster w1 s"
  let ?s2 = "announce ev op ''DeploymentCreated'' '' deployment created successfully''
              ''DeploymentUpdated'' '' deployment updated successfully'' (ap_Name a) ?s1"
  from announce_step [of ?s1 ev op] k call(2) have step2: "sp_step ?s1 ?s2" by simp
  from ctl_step_same [OF step2] k have k2: "kc_Client (ctl_KubeClient ?s2) = c" "inv (ctl_cluster ?s2)" by auto
  have same2: "same_ctl s ?s2" using ctl_step_same [OF step2] by (blast intro: same_ctl_trans with_cluster_fields(5))
  have l2: "look (ctl_cluster ?s2) kd = look w1 kd" if "kd \<noteq> KSiddhiProcess" for kd
    using step2 that by (auto simp: ctl_step_def dest: touches_kind)
  have l1: "look w1 KIngress = ?l KIngress"
    using t by (rule touches_kind) (auto simp: deploy_targets_def Let_def)
  have at2: "rules_at (look (ctl_cluster ?s2)) ?ns = rules_at ?l ?ns" by (simp add: rules_at_def l1 l2)
  from create_service_live [OF k2, where a = a and ev = ev] rules at2 same_ctl_namespace [OF same2] obtain s3 where
    run: "create_service ev a (application_labels (ap_Name a)) ?s2 = Some s3" and
    step3: "ctl_step look inv {(KService, nn (ap_Name a) ?ns), (KIngress, nn IngressName ?ns), (KSiddhiProcess, sp_key ?s2)} ?s2 s3" and
    grow: "rules_grow (look (ctl_cluster ?s2)) ?ns (look (ctl_cluster s3))" and
    up3: "ap_ServiceEnabled a \<longrightarrow> service_up ?ns a (look (ctl_cluster s3)) \<and>
       (ctl_AutoCreateIngress ?s2 \<longrightarrow> routed ?ns a (look (ctl_cluster s3)))"
    by auto
  have call3: "create_artifact yaml ev a s = Some s3"
    using call(1) run d(2) by (simp add: create_artifact_def Let_def)
  have l3: "look (ctl_cluster s3) kd = look w1 kd" if "kd = KConfigMap \<or> kd = KDeployment \<or> kd = KPVC" for kd
    using touches_kind [of "look (ctl_cluster ?s2)" "look (ctl_cluster s3)" _ kd] step3 that l2 [of kd]
    by (auto simp: ctl_step_def)
  then have "deploy_maps_written ?d (look (ctl_cluster s3)) \<and> deployed ?d (look (ctl_cluster s3))"
    using up maps_written_same [of "look (ctl_cluster s3)" "look w1"] deployed_same [of "look (ctl_cluster s3)" "look w1"]
    by metis
  moreover have "ctl_AutoCreateIngress ?s2 = ctl_AutoCreateIngress s" using same2 by (simp add: same_ctl_def)
  moreover have "rules_grow ?l ?ns (look (ctl_cluster s3))" using grow at2 by (simp add: rules_grow_def)
  moreover have "replicas_set ?l \<longrightarrow> replicas_set (look (ctl_cluster s3))"
    using rep replicas_set_same [of "look (ctl_cluster s3)" "look w1"] l3 by simp
  ultimately show ?thesis
    using call3 create_artifact_step [OF k w call3] up3 by (simp add: application_up_def Let_def)
qed

text \<open>The loop: whatever is up stays up, and every application of the list comes up.\<close>

lemma create_artifacts_live:
  assumes "kc_Client (ctl_KubeClient s) = c" and "inv (ctl_cluster s)"
    and "rules_ok (rules_at (look (ctl_cluster s)) (sp_Namespace (the_sp s)))"
    and "\<forall>a \<in> set as. can_deploy yaml (look (ctl_cluster s)) (manager_of s a)"
    and "well_named s (bs @ as)" and "\<forall>a \<in> set bs. application_up s a (look (ctl_cluster s))"
    and "replicas_set (look (ctl_cluster s))"
  shows "\<exists>s'. create_artifacts yaml ev as s = Some s' \<and> same_ctl s s' \<and> inv (ctl_cluster s') \<and>
    replicas_set (look (ctl_cluster s')) \<and>
    (\<forall>a \<in> set (bs @ as). application_up s a (look (ctl_cluster s')))"
  using assms
proof (induction as arbitrary: s bs)
  case Nil
  then show ?case by simp
next
  case (Cons a as)
  let ?ns = "sp_Namespace (the_sp s)" and ?l = "look (ctl_cluster s)"
  from Cons.prems(4) have "can_deploy yaml ?l (manager_of s a)" by simp
  from create_artifact_live [OF Cons.prems(1-3) this, of ev] obtain s1 where
    one: "create_artifact yaml ev a s = Some s1" and step1: "ctl_step look inv (artifact_targets s a) s s1" and
    grow: "rules_grow ?l ?ns (look (ctl_cluster s1))" and up: "application_up s a (look (ctl_cluster s1))" and
    rep: "replicas_set (look (ctl_cluster s1))" using Cons.prems(7) by blast
  let ?l1 = "look (ctl_cluster s1)"
  from step1 have same: "same_ctl s s1" and t: "touches ?l ?l1 (artifact_targets s a)" by (simp_all add: ctl_step_def)
  from ctl_step_same [OF step1] Cons.prems have k1: "kc_Client (ctl_KubeClient s1) = c" "inv (ctl_cluster s1)" by auto
  note names = same_ctl_namespace [OF same] same_ctl_name [OF same]
  have rules1: "rules_ok (rules_at ?l1 (sp_Namespace (the_sp s1)))"
    using rules_grow_ok [OF grow Cons.prems(3)] names by simp
  from Cons.prems(5) have fresh: "ap_Name a \<notin> ap_Name ` (set bs \<union> set as)" by (auto simp: well_named_def)
  have other: "ap_Name b \<noteq> ap_Name a \<and> ap_Name b \<noteq> sp_Name (the_sp s) \<and> ap_Name a \<noteq> sp_Name (the_sp s)"
    if b: "b \<in> set bs \<union> set as" for b
  proof -
    from b have "ap_Name b \<in> ap_Name ` (set bs \<union> set as)" by (rule imageI)
    with fresh have "ap_Name b \<noteq> ap_Name a" by metis
    with b Cons.prems(5) show ?thesis by (auto simp: well_named_def)
  qed
  have ok1: "\<forall>b \<in> set as. can_deploy yaml ?l1 (manager_of s1 b)"
  proof
    fix b assume b: "b \<in> set as"
    then have "?l1 KPVC (nn (ap_Name b @ PVCExtension) ?ns) = ?l KPVC (nn (ap_Name b @ PVCExtension) ?ns)"
      using other by (intro touchesD [OF t]) (auto simp: artifact_targets_def deploy_targets_def manager_of_def Let_def)
    with Cons.prems(4) b have "can_deploy yaml ?l1 (manager_of s b)"
      by (simp add: can_deploy_def manager_of_def)
    then show "can_deploy yaml ?l1 (manager_of s1 b)" by (simp add: can_deploy_same [OF same])
  qed
  have up1: "\<forall>b \<in> set (bs @ [a]). application_up s1 b ?l1"
    using application_up_other [OF _ t grow up] other Cons.prems(6) up
    by (auto simp: application_up_same [OF same])
  from Cons.prems(5) have "well_named s1 ((bs @ [a]) @ as)" by (simp add: well_named_def names)
  from Cons.IH [OF k1 rules1 ok1 this up1 rep] obtain s' where
    "create_artifacts yaml ev as s1 = Some s'" "same_ctl s1 s'" "inv (ctl_cluster s')" "replicas_set (look (ctl_cluster s'))"
    "\<forall>a \<in> set ((bs @ [a]) @ as). application_up s1 a (look (ctl_cluster s'))"
    by blast
  with one same show ?case by (auto simp: application_up_same [OF same] intro: same_ctl_trans)
qed

end

section \<open>CreateArtifacts and CheckDeployments\<close>

text \<open>A status update leaves every application as it was.\<close>

lemma status_kinds: "touches l l' {(KSiddhiProcess, key)} \<Longrightarrow> kd \<noteq> KSiddhiProcess \<Longrightarrow> l' kd = l kd"
  by (auto dest: touches_kind)

lemma application_up_status: "touches l l' {(KSiddhiProcess, key)} \<Longrightarrow> application_up s a l' = application_up s a l"
  using status_kinds [of l l' key]
  by (simp add: application_up_def maps_written_same [of l' l] deployed_same [of l' l] service_up_same [of l' l]
      routed_def rules_at_def Let_def)

lemma can_deploy_status: "touches l l' {(KSiddhiProcess, key)} \<Longrightarrow> can_deploy yaml l' d = can_deploy yaml l d"
  using status_kinds [of l l' key] by (simp add: can_deploy_def)

text \<open>Scaling keeps the pods.\<close>

definition pods_kept :: "(kind \<Rightarrow> namespaced_name \<Rightarrow> kobject option) \<Rightarrow> (kind \<Rightarrow> namespaced_name \<Rightarrow> kobject option) \<Rightarrow> bool" where
  "pods_kept l l' \<longleftrightarrow>
     (\<forall>n d. l KDeployment n = Some (ODeployment d) \<longrightarrow>
        (\<exists>d'. l' KDeployment n = Some (ODeployment d') \<and>
           pod_core (ds_TemplateSpec (dep_Spec d')) = pod_core (ds_TemplateSpec (dep_Spec d))))"

lemma pods_kept_same: "l' KDeployment = l KDeployment \<Longrightarrow> pods_kept l l'"
  by (simp add: pods_kept_def)

lemma pods_kept_trans: "pods_kept l l' \<Longrightarrow> pods_kept l' l'' \<Longrightarrow> pods_kept l l''"
  unfolding pods_kept_def by metis

lemma application_up_pods:
  assumes "application_up s a l" and "pods_kept l l'" and "\<And>kd. kd \<noteq> KDeployment \<Longrightarrow> l' kd = l kd"
  shows "application_up s a l'"
proof -
  have "deployed d l'" if "deployed d l" for d :: "'a deploy_manager"
  proof -
    let ?n = "nn (ap_Name (dm_Application d)) (sp_Namespace (dm_SiddhiProcess d))"
    have claims: "claim_mounted d l' ms = claim_mounted d l ms" for ms
      using assms(3) [of KPVC] by (simp add: claim_mounted_def)
    from that assms(2) obtain x x' where x: "l KDeployment ?n = Some (ODeployment x)" "l' KDeployment ?n = Some (ODeployment x')"
      "pod_core (ds_TemplateSpec (dep_Spec x')) = pod_core (ds_TemplateSpec (dep_Spec x))"
      unfolding deployed_def deployment_holds_def pods_kept_def by blast
    from that show ?thesis by (simp add: deployed_def deployment_holds_def x claims)
  qed
  with assms maps_written_same [of l' l "manager_of s a"] service_up_same [of l' l] show ?thesis
    by (simp add: application_up_def routed_def rules_at_def Let_def)
qed

text \<open>An application that is up with as many replicas as it wants.\<close>

definition application_scaled :: "'w ctl \<Rightarrow> application \<Rightarrow> (kind \<Rightarrow> namespaced_name \<Rightarrow> kobject option) \<Rightarrow> bool" where
  "application_scaled s a l \<longleftrightarrow> application_up s a l \<and>
     (\<exists>d. deployment_of l (sp_Namespace (the_sp s)) a = Some d \<and> ds_Replicas (dep_Spec d) = Some (ap_Replicas a))"

lemma application_scaled_same: "same_ctl s s' \<Longrightarrow> application_scaled s' a l = application_scaled s a l"
  by (simp add: application_scaled_def application_up_same same_ctl_namespace)

lemma application_up_deployment:
  "application_up s a l \<Longrightarrow> ToLower (ap_Name a) = ap_Name a \<Longrightarrow> \<exists>d. deployment_of l (sp_Namespace (the_sp s)) a = Some d"
  by (auto simp: application_up_def deployed_def deployment_holds_def deployment_of_def manager_of_def Let_def)

context kube_live
begin

lemma check_deployment_pods:
  assumes k: "kc_Client (ctl_KubeClient s) = c" and w: "inv (ctl_cluster s)" and run: "check_deployment a s = Some s'"
  shows "pods_kept (look (ctl_cluster s)) (look (ctl_cluster s'))"
proof -
  let ?l = "look (ctl_cluster s)" and ?n = "nn (ToLower (ap_Name a)) (sp_Namespace (the_sp s))"
  from get_deployment_live [OF k w, of a] obtain w1 where
    one: "get_deployment a s = (deployment_of ?l (sp_Namespace (the_sp s)) a, with_cluster w1 s)" "inv w1" "look w1 = ?l"
    by blast
  show ?thesis
  proof (cases "s' = with_cluster w1 s")
    case True
    with one(3) show ?thesis by (simp add: pods_kept_same)
  next
    case False
    with run one(1) obtain d err w2 where d: "deployment_of ?l (sp_Namespace (the_sp s)) a = Some d" and
      upd: "cl_Update c (ODeployment (d\<lparr>dep_Spec := (dep_Spec d)\<lparr>ds_Replicas := Some (ap_Replicas a)\<rparr>\<rparr>)) w1 = (err, w2)"
      and s': "s' = (case err of Some e \<Rightarrow> UpdateErrorStatus ''DeploymentUpdationError'' e (with_cluster w2 s)
        | None \<Rightarrow> with_cluster w2 s)"
      using k by (auto simp: check_deployment_def Let_def split: option.splits if_splits prod.splits)
    let ?d' = "d\<lparr>dep_Spec := (dep_Spec d)\<lparr>ds_Replicas := Some (ap_Replicas a)\<rparr>\<rparr>"
    from d have lk: "?l KDeployment ?n = Some (ODeployment d)"
      by (simp add: deployment_of_def split: option.splits kobject.splits)
    have key: "key_of (ODeployment ?d') = ?n" using look_obj [OF w lk] by (simp add: key_of_def)
    from update_total [of w1 "ODeployment ?d'"] one(2,3) lk key upd have "err = None" by auto
    with update_ok [of "ODeployment ?d'" w1 w2] upd one(2,3) key s'
    have l': "look (ctl_cluster s') = ?l(KDeployment := (?l KDeployment)(?n \<mapsto> adm (ODeployment ?d')))" by auto
    from adm_deployment [of ?d'] obtain d2 where "adm (ODeployment ?d') = ODeployment d2"
      "pod_core (ds_TemplateSpec (dep_Spec d2)) = pod_core (ds_TemplateSpec (dep_Spec d))" by auto
    with l' lk show ?thesis by (simp add: pods_kept_def)
  qed
qed

lemma CheckDeployments_pods:
  assumes "kc_Client (ctl_KubeClient s) = c" and "inv (ctl_cluster s)" and "CheckDeployments as s = Some s'"
  shows "pods_kept (look (ctl_cluster s)) (look (ctl_cluster s'))"
  using assms
proof (induction as arbitrary: s)
  case Nil
  then show ?case by (simp add: pods_kept_same)
next
  case (Cons a as)
  from Cons.prems(3) obtain s1 where one: "check_deployment a s = Some s1" and two: "CheckDeployments as s1 = Some s'"
    by (auto simp: bind_eq_Some_conv)
  from check_deployment_self [OF Cons.prems(1,2) one] Cons.prems(1)
  have "kc_Client (ctl_KubeClient s1) = c" "inv (ctl_cluster s1)" by (simp_all add: ns_step_def)
  from Cons.IH [OF this two] check_deployment_pods [OF Cons.prems(1,2) one] show ?case by (rule pods_kept_trans [rotated])
qed

end

section \<open>The applications of a process\<close>

text \<open>What a list of applications needs to come up.\<close>

definition deployable :: "yaml_unmarshal \<Rightarrow> 'w ctl \<Rightarrow> application list \<Rightarrow>
    (kind \<Rightarrow> namespaced_name \<Rightarrow> kobject option) \<Rightarrow> bool" where
  "deployable yaml s as l \<longleftrightarrow>
     rules_ok (rules_at l (sp_Namespace (the_sp s))) \<and> replicas_set l \<and> well_named s as \<and>
     (\<forall>a \<in> set as. can_deploy yaml l (manager_of s a))"

lemma deployable_step:
  assumes "same_ctl s s'" and "\<And>kd. kd \<in> {KIngress, KDeployment, KPVC} \<Longrightarrow> l' kd = l kd"
  shows "deployable yaml s' as l' = deployable yaml s as l"
proof -
  have "can_deploy yaml l' (manager_of s' a) = can_deploy yaml l (manager_of s a)" for a
    using assms(2) by (simp add: can_deploy_same [OF assms(1)]) (simp add: can_deploy_def)
  with assms replicas_set_same [of l' l] show ?thesis
    by (simp add: deployable_def well_named_def rules_at_def same_ctl_namespace same_ctl_name)
qed

context kube_live
begin

lemma CreateArtifacts_live:
  assumes k: "kc_Client (ctl_KubeClient s) = c" and w: "inv (ctl_cluster s)"
    and ok: "deployable yaml s as (look (ctl_cluster s))" and ev: "event_type s \<noteq> OperationResultNone"
  shows "\<exists>s'. CreateArtifacts yaml order as s = Some s' \<and> same_ctl s s' \<and> inv (ctl_cluster s') \<and>
    replicas_set (look (ctl_cluster s')) \<and> (\<forall>a \<in> set as. application_up s a (look (ctl_cluster s')))"
proof -
  have act: "(event_type s = OperationResultCreated \<or> event_type s = OperationResultUpdated) = True"
    using ev by (cases "event_type s") simp_all
  let ?s1 = "UpdatePartialAppStatus order as s"
  note step1 = status_steps(3) [OF k w, of order as]
  from ctl_step_same [OF step1] k have k1: "kc_Client (ctl_KubeClient ?s1) = c" "inv (ctl_cluster ?s1)"
    and same1: "same_ctl s ?s1" by auto
  from step1 have t1: "touches (look (ctl_cluster s)) (look (ctl_cluster ?s1)) {(KSiddhiProcess, sp_key s)}"
    by (simp add: ctl_step_def)
  have "deployable yaml ?s1 as (look (ctl_cluster ?s1))"
    using deployable_step [OF same1, of "look (ctl_cluster ?s1)" "look (ctl_cluster s)"] status_kinds [OF t1] ok by auto
  then have pre: "rules_ok (rules_at (look (ctl_cluster ?s1)) (sp_Namespace (the_sp ?s1)))"
    "\<forall>a \<in> set as. can_deploy yaml (look (ctl_cluster ?s1)) (manager_of ?s1 a)" "well_named ?s1 ([] @ as)"
    "\<forall>a \<in> set []. application_up ?s1 a (look (ctl_cluster ?s1))" "replicas_set (look (ctl_cluster ?s1))"
    by (simp_all add: deployable_def)
  from create_artifacts_live [OF k1 pre, of "event_type s"] obtain s2 where
    two: "create_artifacts yaml (event_type s) as ?s1 = Some s2" and same2: "same_ctl ?s1 s2" and
    w2: "inv (ctl_cluster s2)" "replicas_set (look (ctl_cluster s2))" and
    up2: "\<forall>a \<in> set as. application_up ?s1 a (look (ctl_cluster s2))" by auto
  let ?s3 = "SyncVersion s2"
  let ?s4 = "UpdateReadyDeployments 0 (of_nat (length as)) ?s3"
  from same2 k1 have k2: "kc_Client (ctl_KubeClient s2) = c" by (simp add: same_ctl_def)
  from SyncVersion_step [OF k2 w2(1)] have step3: "sp_step s2 ?s3" by simp
  from ctl_step_same [OF step3] k2 have k3: "kc_Client (ctl_KubeClient ?s3) = c" "inv (ctl_cluster ?s3)" by auto
  from status_steps(7) [OF k3] have step4: "sp_step ?s3 ?s4" by simp
  from ctl_step_trans [OF step3 step4, of "{(KSiddhiProcess, sp_key s2)}"] ctl_step_same [OF step3]
  have last: "sp_step s2 ?s4" by simp
  then have t: "touches (look (ctl_cluster s2)) (look (ctl_cluster ?s4)) {(KSiddhiProcess, sp_key s2)}"
    by (simp add: ctl_step_def)
  have "CreateArtifacts yaml order as s = Some ?s4"
    using two by (simp add: CreateArtifacts_def Let_def act)
  moreover have "same_ctl s ?s4"
    using same1 same2 last by (blast dest: ctl_step_same intro: same_ctl_trans)
  moreover have "replicas_set (look (ctl_cluster ?s4))"
    using w2(2) replicas_set_same [of "look (ctl_cluster ?s4)" "look (ctl_cluster s2)"] status_kinds [OF t, of KDeployment]
    by simp
  moreover have "\<forall>a \<in> set as. application_up s a (look (ctl_cluster ?s4))"
    using up2 by (simp add: application_up_same [OF same1] application_up_status [OF t])
  ultimately show ?thesis using ctl_step_same [OF last] by blast
qed

text \<open>After the scaling that follows the applications have the replicas they want.\<close>

lemma CheckDeployments_scaled:
  assumes k: "kc_Client (ctl_KubeClient s) = c" and w: "inv (ctl_cluster s)"
    and rep: "replicas_set (look (ctl_cluster s))" and up: "\<forall>a \<in> set as. application_up s a (look (ctl_cluster s))"
    and names: "distinct (map ap_Name as)" "\<forall>a \<in> set as. ToLower (ap_Name a) = ap_Name a"
  shows "\<exists>s'. CheckDeployments as s = Some s' \<and> same_ctl s s' \<and> inv (ctl_cluster s') \<and>
    (\<forall>a \<in> set as. application_scaled s a (look (ctl_cluster s')))"
proof -
  let ?l = "look (ctl_cluster s)" and ?ns = "sp_Namespace (the_sp s)"
  have has: "ds_Replicas (dep_Spec d) \<noteq> None" if "a \<in> set as" "deployment_of ?l ?ns a = Some d" for a d
    using that(2) rep by (auto simp: deployment_of_def replicas_set_def split: option.splits kobject.splits)
  have "map (ToLower \<circ> ap_Name) as = map ap_Name as" using names(2) by simp
  with names(1) have dist: "distinct (map (ToLower \<circ> ap_Name) as)" by metis
  have "\<exists>s'. CheckDeployments as s = Some s' \<and>
    ctl_step look inv ((\<lambda>a. (KDeployment, nn (ToLower (ap_Name a)) ?ns)) ` set as) s s' \<and>
    (\<forall>a \<in> set as. \<forall>d. deployment_of ?l ?ns a = Some d \<longrightarrow>
       (\<exists>d'. deployment_of (look (ctl_cluster s')) ?ns a = Some d' \<and> ds_Replicas (dep_Spec d') = Some (ap_Replicas a)))"
    by (rule CheckDeployments_live [OF k w has dist])
  then obtain s' where run: "CheckDeployments as s = Some s'" and
    step: "ctl_step look inv ((\<lambda>a. (KDeployment, nn (ToLower (ap_Name a)) ?ns)) ` set as) s s'" and
    scaled: "\<forall>a \<in> set as. \<forall>d. deployment_of ?l ?ns a = Some d \<longrightarrow>
       (\<exists>d'. deployment_of (look (ctl_cluster s')) ?ns a = Some d' \<and> ds_Replicas (dep_Spec d') = Some (ap_Replicas a))"
    by blast
  have kinds: "look (ctl_cluster s') kd = ?l kd" if "kd \<noteq> KDeployment" for kd
    using step that by (auto simp: ctl_step_def dest: touches_kind)
  from CheckDeployments_pods [OF k w run] have pods: "pods_kept ?l (look (ctl_cluster s'))" .
  have "application_scaled s a (look (ctl_cluster s'))" if a: "a \<in> set as" for a
    using scaled a up names(2) application_up_deployment [of s a ?l] application_up_pods [OF _ pods kinds, of s a]
    unfolding application_scaled_def by blast
  with run step show ?thesis by (auto simp: ctl_step_def)
qed

end

section \<open>Parse, when the service answers\<close>

text \<open>
  A parser service that works: its URL is accepted, and whenever the parser's deployment and service
  are in the cluster it answers the request with status 200 and these configurations.
\<close>

definition parser_running :: "'w parser \<Rightarrow> (kind \<Rightarrow> namespaced_name \<Rightarrow> kobject option) \<Rightarrow> bool" where
  "parser_running p l \<longleftrightarrow> deployed (parser_manager p) l \<and>
     l KService (nn (generatedParserName p) (sp_Namespace (pr_SiddhiProcess p))) \<noteq> None"

definition parser_answers :: "'w parser_service \<Rightarrow> 'w parser \<Rightarrow> ('w \<Rightarrow> kind \<Rightarrow> namespaced_name \<Rightarrow> kobject option) \<Rightarrow>
    app_config list \<Rightarrow> bool" where
  "parser_answers svc p l acs \<longleftrightarrow> psv_url_ok svc (parser_url p) \<and>
     (\<forall>w. parser_running p (l w) \<longrightarrow>
        (\<exists>resp. psv_do svc (parser_url p) (Marshal_request (pr_Request (createRequest p))) w = Inr resp \<and>
           hr_StatusCode resp = 200 \<and> Decode_app_configs (hr_Body resp) = Some acs))"

text \<open>The parser's own objects are gone again.\<close>

definition parser_removed :: "'w parser \<Rightarrow> (kind \<Rightarrow> namespaced_name \<Rightarrow> kobject option) \<Rightarrow> bool" where
  "parser_removed p l \<longleftrightarrow>
     (let n = nn (sp_Name (pr_SiddhiProcess p) @ ParserExtension) (sp_Namespace (pr_SiddhiProcess p))
      in l KDeployment n = None \<and> l KService n = None)"

lemma make_applications_ok:
  "\<forall>ac \<in> set acs. \<exists>n. getAppName (ac_SiddhiApp ac) = Inr n \<Longrightarrow> \<exists>apps. make_applications spName i acs as = (apps, None)"
  by (induction acs arbitrary: i as) auto

lemma parser_running_request: "parser_running (createRequest p) l = parser_running p l"
  by (simp add: parser_running_def createRequest_def parser_manager_def generatedParserName_def deployed_def
      deployment_holds_def deployed_container_def config_mounted_def apps_mounted_def claim_mounted_def config_text_def
      config_cm_name_def apps_cm_name_def Let_def)

context kube_live
begin

lemma parser_deploy_live:
  assumes k: "kc_Client (pr_KubeClient p) = c" and w: "inv w"
  shows "\<exists>err w'. parser_deploy yaml svc p w = Some (err, w') \<and> parser_running p (look w')"
proof -
  let ?d = "parser_manager p" and ?sp = "pr_SiddhiProcess p" and ?n = "generatedParserName p"
  have d: "dm_KubeClient ?d = pr_KubeClient p" "can_deploy yaml (look w) ?d"
    by (simp_all add: parser_manager_def can_deploy_def)
  from Deploy_live [of ?d w yaml, unfolded d(1), OF k w d(2)] obtain op w1 where
    one: "Deploy yaml ?d w = Some ((Some op, None, CreateLabels ?d), w1)" "inv w1" "deployed ?d (look w1)" by blast
  obtain op2 w2 where two: "CreateOrUpdateService (pr_KubeClient p) ?n (sp_Namespace ?sp) parser_ports
      (dm_Labels (CreateLabels ?d)) (OSiddhiProcess ?sp) w1 = Some ((op2, None), w2)"
    using Service_live [OF k one(2)] by blast
  with Service_result [OF k one(2), of ?n "sp_Namespace ?sp" parser_ports "dm_Labels (CreateLabels ?d)" "OSiddhiProcess ?sp"]
  have svc: "same_except (look w1) (look w2) KService (nn ?n (sp_Namespace ?sp))"
    "look w2 KService (nn ?n (sp_Namespace ?sp)) \<noteq> None"
    by (auto simp: outcome_def)
  then have "look w2 KDeployment = look w1 KDeployment" "look w2 KPVC = look w1 KPVC" by (auto simp: same_except_def)
  with deployed_same one(3) have "deployed ?d (look w2)" by blast
  with svc(2) one(1) two show ?thesis by (simp add: parser_deploy_def parser_running_def)
qed

lemma cleanParser_live:
  assumes k: "kc_Client (pr_KubeClient p) = c" and w: "inv w"
  shows "\<exists>w'. cleanParser p w = (None, w') \<and> parser_removed p (look w')"
proof -
  let ?n = "sp_Name (pr_SiddhiProcess p) @ ParserExtension" and ?ns = "sp_Namespace (pr_SiddhiProcess p)"
  from delete_kind_total [OF k w, of KDeployment ?n ?ns] obtain w1 where
    one: "delete_kind KDeployment (pr_KubeClient p) ?n ?ns w = (None, w1)" "inv w1"
    "look w1 = (look w)(KDeployment := (look w KDeployment)(nn ?n ?ns := None))" by blast
  from delete_kind_total [OF k one(2), of KService ?n ?ns] obtain w2 where
    "delete_kind KService (pr_KubeClient p) ?n ?ns w1 = (None, w2)"
    "look w2 = (look w1)(KService := (look w1 KService)(nn ?n ?ns := None))" by blast
  with one show ?thesis
    by (simp add: cleanParser_def DeleteDeployment_def DeleteService_def parser_removed_def)
qed

lemma Parse_live:
  assumes k: "kc_Client (pr_KubeClient p) = c" and w: "inv w" and svc: "parser_answers svc p look acs"
    and named: "\<forall>ac \<in> set acs. \<exists>n. getAppName (ac_SiddhiApp ac) = Inr n"
  shows "\<exists>apps w'. Parse yaml svc p w = Some ((apps, None), w') \<and> inv w' \<and>
    touches (look w) (look w') (parser_targets p) \<and> parser_removed p (look w') \<and>
    make_applications (sp_Name (pr_SiddhiProcess p)) 0 acs [] = (apps, None)"
proof -
  let ?p = "createRequest p"
  have k': "kc_Client (pr_KubeClient ?p) = c" using k by simp
  from parser_deploy_live [OF k' w, of yaml svc] obtain err w1 where
    one: "parser_deploy yaml svc ?p w = Some (err, w1)" "parser_running p (look w1)"
    by (auto simp: parser_running_request)
  with parser_deploy_result [OF k' w, of yaml svc] have w1: "inv w1" by auto
  from svc one(2) have invoke: "invokeParser svc ?p (pr_Request ?p) w1 = Some (Inr acs)"
    by (auto simp: parser_answers_def invokeParser_def)
  from make_applications_ok [OF named] obtain apps where
    apps: "make_applications (sp_Name (pr_SiddhiProcess p)) 0 acs [] = (apps, None)" by blast
  from cleanParser_live [OF k' w1] obtain w2 where
    clean: "cleanParser ?p w1 = (None, w2)" "parser_removed p (look w2)" by (auto simp: parser_removed_def)
  have run: "Parse yaml svc p w = Some ((apps, None), w2)"
    using one(1) invoke apps clean(1) by (simp add: Parse_def Let_def)
  from svc have "psv_url_ok svc (parser_url p)" by (simp add: parser_answers_def)
  from Parse_result [OF k w this, of yaml] run clean(2) apps show ?thesis by auto
qed

end

section \<open>Properties\<close>

text \<open>
  \<open>Deploy\<close> succeeds. On a server that answers, for an application whose claim (if it needs one) is
  there or can be granted, \<open>Deploy\<close> returns nil and reports an operation; the config maps hold the
  configuration and the scripts, and the deployment runs the application with them mounted.
\<close>

theorem Deploy_succeeds:
  assumes "kube_live (kc_Client (dm_KubeClient d)) look adm valid" and "valid w" and "can_deploy yaml (look w) d"
  shows "\<exists>op w'. Deploy yaml d w = Some ((Some op, None, CreateLabels d), w') \<and> valid w' \<and>
    touches (look w) (look w') (deploy_targets d) \<and> deploy_maps_written d (look w') \<and> deployed d (look w')"
  using kube_live.Deploy_live [OF assms(1) refl assms(2,3)] by blast

theorem Deploy_succeeds_witness:
  "\<exists>op w'. Deploy sample_yaml sample_manager empty_tracker = Some ((Some op, None, CreateLabels sample_manager), w') \<and>
     deployed sample_manager (tracker_look w')"
proof -
  have "kube_live (kc_Client (dm_KubeClient sample_manager)) tracker_look (\<lambda>obj. obj) tracker_inv"
    using sample_live by (simp add: sample_manager_def)
  moreover have "can_deploy sample_yaml (tracker_look empty_tracker) sample_manager"
    by (simp add: can_deploy_def sample_manager_def sample_process_def zero_siddhi_process_def zero_siddhi_process_spec_def
        EqualsPVCSpec_def)
  ultimately show ?thesis using Deploy_succeeds [of sample_manager tracker_look "\<lambda>obj. obj" tracker_inv empty_tracker sample_yaml] by auto
qed

text \<open>
  C17: all artifacts. On a server that answers, for applications with different names none of which is
  the name of the process, \<open>CreateArtifacts\<close> does not panic and afterwards every application of the
  list is up: its config maps, its claim if it keeps state, its deployment and, where it has one, its service
  with the ports, and its routes. What is created for one application does not take away what another one needs.
\<close>

theorem CreateArtifacts_deploys:
  assumes "kube_live (kc_Client (ctl_KubeClient s)) look adm valid" and "valid (ctl_cluster s)"
    and "deployable yaml s as (look (ctl_cluster s))" and "event_type s \<noteq> OperationResultNone"
  shows "\<exists>s'. CreateArtifacts yaml order as s = Some s' \<and> valid (ctl_cluster s') \<and>
    (\<forall>a \<in> set as. application_up s a (look (ctl_cluster s')))"
  using kube_live.CreateArtifacts_live [OF assms(1) refl assms(2-4)] by blast

theorem CreateArtifacts_deploys_witness:
  "\<exists>s'. CreateArtifacts sample_yaml (\<lambda>_ m. m) [sample_app] (sample_ctl cached_client empty_tracker) = Some s' \<and>
     application_up (sample_ctl cached_client empty_tracker) sample_app (tracker_look (ctl_cluster s'))"
proof -
  let ?s = "sample_ctl cached_client empty_tracker"
  have "kube_live (kc_Client (ctl_KubeClient ?s)) tracker_look (\<lambda>obj. obj) tracker_inv"
    by (simp add: cached_live.kube_live_axioms)
  moreover have "deployable sample_yaml ?s [sample_app] (tracker_look (ctl_cluster ?s))"
    by (simp add: deployable_def rules_at_def rules_ok_def replicas_set_def tracker_empty well_named_def can_deploy_def
        manager_of_def sample_app_def sample_process_def zero_siddhi_process_def zero_siddhi_process_spec_def EqualsPVCSpec_def
        new_meta_def Let_def)
  moreover have "event_type ?s \<noteq> OperationResultNone"
    by (simp add: event_type_def getEventType_def zero_siddhi_process_status_def Let_def)
  ultimately show ?thesis
    using CreateArtifacts_deploys [of ?s tracker_look "\<lambda>obj. obj" tracker_inv sample_yaml "[sample_app]" "\<lambda>_ m. m"] by auto
qed

text \<open>
  The parser. On a server that answers, with a parser service that answers once the parser runs,
  \<open>Parse\<close> returns the applications of the answer, and the deployment and the service it made for the
  parser are gone again.
\<close>

theorem Parse_succeeds:
  assumes "kube_live (kc_Client (pr_KubeClient p)) look adm valid" and "valid w"
    and "parser_answers svc p look acs" and "\<forall>ac \<in> set acs. \<exists>n. getAppName (ac_SiddhiApp ac) = Inr n"
  shows "\<exists>apps w'. Parse yaml svc p w = Some ((apps, None), w') \<and> valid w' \<and>
    touches (look w) (look w') (parser_targets p) \<and> parser_removed p (look w') \<and>
    make_applications (sp_Name (pr_SiddhiProcess p)) 0 acs [] = (apps, None)"
  by (rule kube_live.Parse_live [OF assms(1) refl assms(2-4)])

theorem Parse_succeeds_witness:
  "\<exists>apps w'. Parse sample_yaml sample_service sample_parser empty_tracker = Some ((apps, None), w') \<and>
     parser_removed sample_parser (tracker_look w')"
proof -
  have "kube_live (kc_Client (pr_KubeClient sample_parser)) tracker_look (\<lambda>obj. obj) tracker_inv"
    using sample_live by (simp add: sample_parser_def)
  moreover have "parser_answers sample_service sample_parser tracker_look sample_answer"
    by (simp add: parser_answers_def sample_service_def)
  moreover have "getAppName sample_script = Inr ''a''" by code_simp
  ultimately show ?thesis
    using Parse_succeeds [of sample_parser tracker_look "\<lambda>obj. obj" tracker_inv empty_tracker sample_service sample_answer sample_yaml]
    by (auto simp: sample_answer_def)
qed

end
