(* ===== verification/Reads.thy ===== *)
theory Reads
  imports Artifact
begin

text \<open>
  Clients whose reads need not be current. \<open>kube_reads\<close> is what remains of \<open>kube_api\<close> for a client that
  reads from a cache, next to others who write: a read object has the kind and the name asked for, and no
  call makes an object readable that is not well formed. Three ways to build such a client are given, to
  read from a copy that lags behind, to let calls fail, and to let others act between calls; each keeps
  the laws, and so does the object store with all three. \<open>kube_owned\<close> has the laws for some objects only, and
  with a log of the writes it says that no others are written.
\<close>

section \<open>Well-formed objects\<close>

text \<open>The paths of the operator's host are there, and the number of replicas is filled in.\<close>

definition obj_ok :: "kobject \<Rightarrow> bool" where
  "obj_ok obj \<longleftrightarrow> (case obj of
     OIngress i \<Rightarrow> om_Name (ing_ObjectMeta i) = IngressName \<longrightarrow> rules_ok (is_Rules (ing_Spec i))
   | ODeployment d \<Rightarrow> ds_Replicas (dep_Spec d) \<noteq> None | _ \<Rightarrow> True)"

lemma obj_ok_kind: "kind_of obj \<notin> {KIngress, KDeployment} \<Longrightarrow> obj_ok obj"
  by (cases obj) (auto simp: obj_ok_def)

definition sound :: "(kind \<Rightarrow> namespaced_name \<Rightarrow> kobject option) \<Rightarrow> bool" where
  "sound l \<longleftrightarrow> (\<forall>kd n obj. l kd n = Some obj \<longrightarrow> obj_ok obj)"

text \<open>What can be read could be read before, or is well formed.\<close>

definition reads_ok :: "(kind \<Rightarrow> namespaced_name \<Rightarrow> kobject option) \<Rightarrow>
    (kind \<Rightarrow> namespaced_name \<Rightarrow> kobject option) \<Rightarrow> bool" where
  "reads_ok l l' \<longleftrightarrow> (\<forall>kd n obj. l' kd n = Some obj \<longrightarrow> l kd n = Some obj \<or> obj_ok obj)"

lemma reads_ok_refl [simp]: "reads_ok l l"
  by (simp add: reads_ok_def)

lemma reads_ok_trans: "reads_ok l l' \<Longrightarrow> reads_ok l' l'' \<Longrightarrow> reads_ok l l''"
  unfolding reads_ok_def by blast

lemma reads_ok_sound: "sound l' \<Longrightarrow> reads_ok l l'"
  by (simp add: reads_ok_def sound_def)

lemma sound_reads: "sound l \<Longrightarrow> reads_ok l l' \<Longrightarrow> sound l'"
  unfolding sound_def reads_ok_def by blast

lemma reads_ok_put: "l' = l(kd := (l kd)(n \<mapsto> obj)) \<Longrightarrow> obj_ok obj \<Longrightarrow> reads_ok l l'"
  by (auto simp: reads_ok_def)

section \<open>Clients that read from a cache\<close>

text \<open>
  \<open>look\<close> is what the client can read: a read object has the kind and the name asked for, and a call makes
  no object readable that is not well formed. So the calls may fail, others may write between them, and
  what is read may be older than what was written. \<open>own\<close> are the objects that may be written: of other writes
  the laws say nothing, so whatever is derived from them writes no others.
\<close>

locale kube_owned =
  fixes c :: "'w client"
    and look :: "'w \<Rightarrow> kind \<Rightarrow> namespaced_name \<Rightarrow> kobject option"
    and inv :: "'w \<Rightarrow> bool"
    and own :: "(kind \<times> namespaced_name) set"
  assumes get_reads: "cl_Get c k n w = (r, w') \<Longrightarrow> inv w \<Longrightarrow> inv w' \<and> reads_ok (look w) (look w')"
    and get_obj: "cl_Get c k n w = (Inr obj, w') \<Longrightarrow> inv w \<Longrightarrow>
      kind_of obj = k \<and> key_of obj = n \<and> (look w k n = Some obj \<or> obj_ok obj)"
    and create_reads: "cl_Create c obj w = (e, w') \<Longrightarrow> inv w \<Longrightarrow> obj_ok obj \<Longrightarrow> (kind_of obj, key_of obj) \<in> own \<Longrightarrow>
      inv w' \<and> reads_ok (look w) (look w')"
    and update_reads: "cl_Update c obj w = (e, w') \<Longrightarrow> inv w \<Longrightarrow> obj_ok obj \<Longrightarrow> (kind_of obj, key_of obj) \<in> own \<Longrightarrow>
      inv w' \<and> reads_ok (look w) (look w')"
    and delete_reads: "cl_Delete c obj w = (e, w') \<Longrightarrow> inv w \<Longrightarrow> (kind_of obj, key_of obj) \<in> own \<Longrightarrow>
      inv w' \<and> reads_ok (look w) (look w')"
    and status_reads: "cl_StatusUpdate c (OSiddhiProcess sp) w = (r, w') \<Longrightarrow> inv w \<Longrightarrow>
      (KSiddhiProcess, key_of (OSiddhiProcess sp)) \<in> own \<Longrightarrow> inv w' \<and> reads_ok (look w) (look w')"
    and status_key: "cl_StatusUpdate c (OSiddhiProcess sp) w = (Inr obj, w') \<Longrightarrow> inv w \<Longrightarrow>
      (KSiddhiProcess, key_of (OSiddhiProcess sp)) \<in> own \<Longrightarrow>
      kind_of obj = KSiddhiProcess \<and> key_of obj = key_of (OSiddhiProcess sp)"

text \<open>A client for all objects is one for some.\<close>

locale kube_reads = kube_owned c look inv UNIV
  for c :: "'w client"
    and look :: "'w \<Rightarrow> kind \<Rightarrow> namespaced_name \<Rightarrow> kobject option"
    and inv :: "'w \<Rightarrow> bool"
begin

lemma owned_laws: "kube_owned c look inv S"
  by unfold_locales (use get_reads get_obj create_reads update_reads delete_reads status_reads status_key in auto)

end

text \<open>A client whose reads are current is one of them.\<close>

context kube_defaulting
begin

lemma adm_obj_ok: "obj_ok obj \<Longrightarrow> obj_ok (adm obj)"
proof (cases obj)
  case (OIngress i)
  from adm_ingress [of i] adm_key [of obj] OIngress obtain i' where "adm obj = OIngress i'" "ing_Spec i' = ing_Spec i"
    "om_Name (ing_ObjectMeta i') = om_Name (ing_ObjectMeta i)" by (auto simp: key_of_def)
  with OIngress show "obj_ok obj \<Longrightarrow> obj_ok (adm obj)" by (simp add: obj_ok_def)
next
  case (ODeployment d)
  with adm_deployment [of d] show "obj_ok obj \<Longrightarrow> obj_ok (adm obj)" by (auto simp: obj_ok_def)
qed (use adm_kind [of obj] in \<open>auto intro: obj_ok_kind\<close>)

lemma kube_reads_laws: "kube_reads c look inv"
proof
  show "inv w' \<and> reads_ok (look w) (look w')" if "cl_Get c k n w = (r, w')" "inv w" for k n w r w'
    using that get_inv get_frame by force
  show "kind_of obj = k \<and> key_of obj = n \<and> (look w k n = Some obj \<or> obj_ok obj)"
    if "cl_Get c k n w = (Inr obj, w')" "inv w" for k n w obj w'
    using get_found [OF that] by blast
  show "inv w' \<and> reads_ok (look w) (look w')" if "cl_Create c obj w = (e, w')" "inv w" "obj_ok obj" for obj w e w'
    using that adm_obj_ok create_inv create_ok [of obj w w'] create_fail [of obj w "the e" w']
    by (cases e) (auto intro: reads_ok_put)
  show "inv w' \<and> reads_ok (look w) (look w')" if "cl_Update c obj w = (e, w')" "inv w" "obj_ok obj" for obj w e w'
    using that adm_obj_ok update_inv update_ok [of obj w w'] update_fail [of obj w "the e" w']
    by (cases e) (auto intro: reads_ok_put)
  show "inv w' \<and> reads_ok (look w) (look w')" if "cl_Delete c obj w = (e, w')" "inv w" for obj w e w'
    using that delete_inv delete_ok [of obj w w'] delete_fail [of obj w "the e" w']
    by (cases e) (auto simp: reads_ok_def split: if_splits)
  show "inv w' \<and> reads_ok (look w) (look w')" if run: "cl_StatusUpdate c (OSiddhiProcess sp) w = (r, w')" "inv w" for sp w r w'
  proof (cases r)
    case (Inl e)
    with run status_fail [of _ w e w'] status_inv [OF run] show ?thesis by simp
  next
    case (Inr obj')
    with run status_ok [of "OSiddhiProcess sp" w obj' w'] status_inv [OF run] show ?thesis
      by (auto intro!: reads_ok_put obj_ok_kind)
  qed
  show "kind_of obj = KSiddhiProcess \<and> key_of obj = key_of (OSiddhiProcess sp)"
    if "cl_StatusUpdate c (OSiddhiProcess sp) w = (Inr obj, w')" "inv w" for sp w obj w'
    using status_ok [OF that] by simp
qed

end

text \<open>
  A client that reads from a copy of the store, which a watch is to keep up: its calls do not change the
  copy, so what it reads is as old as the watch makes it.
\<close>

definition lagging :: "'w client \<Rightarrow> ('w \<times> 'w) client" where
  "lagging c =
     \<lparr>cl_Get = (\<lambda>k n (w, v). let (r, v') = cl_Get c k n v in (r, (w, v'))),
      cl_Create = (\<lambda>obj (w, v). let (e, w') = cl_Create c obj w in (e, (w', v))),
      cl_Update = (\<lambda>obj (w, v). let (e, w') = cl_Update c obj w in (e, (w', v))),
      cl_Delete = (\<lambda>obj (w, v). let (e, w') = cl_Delete c obj w in (e, (w', v))),
      cl_StatusUpdate = (\<lambda>obj (w, v). let (r, w') = cl_StatusUpdate c obj w in (r, (w', v)))\<rparr>"

definition synchronize :: "'w \<times> 'w \<Rightarrow> 'w \<times> 'w" where
  "synchronize p = (fst p, fst p)"

text \<open>A client before each of whose calls others act, as a schedule says.\<close>

definition disturb :: "'w \<times> ('w \<Rightarrow> 'w) list \<Rightarrow> 'w \<times> ('w \<Rightarrow> 'w) list" where
  "disturb p = (case p of (w, f # fs) \<Rightarrow> (f w, fs) | (w, []) \<Rightarrow> (w, []))"

definition interleave :: "('w \<Rightarrow> 'r \<times> 'w) \<Rightarrow> 'w \<times> ('w \<Rightarrow> 'w) list \<Rightarrow> 'r \<times> 'w \<times> ('w \<Rightarrow> 'w) list" where
  "interleave f p = (let (w, fs) = disturb p; (r, w') = f w in (r, (w', fs)))"

definition interleaved :: "'w client \<Rightarrow> ('w \<times> ('w \<Rightarrow> 'w) list) client" where
  "interleaved c =
     \<lparr>cl_Get = (\<lambda>k n. interleave (cl_Get c k n)),
      cl_Create = (\<lambda>obj. interleave (cl_Create c obj)),
      cl_Update = (\<lambda>obj. interleave (cl_Update c obj)),
      cl_Delete = (\<lambda>obj. interleave (cl_Delete c obj)),
      cl_StatusUpdate = (\<lambda>obj. interleave (cl_StatusUpdate c obj))\<rparr>"

lemma interleave_call:
  assumes "interleave f p = (r, p')"
  shows "f (fst (disturb p)) = (r, fst p')" and "snd p' = snd (disturb p)"
  using assms by (auto simp: interleave_def Let_def split: prod.splits)

text \<open>A client that keeps a log of the objects that are written, or were to be.\<close>

definition audit :: "kobject \<Rightarrow> ('w \<Rightarrow> 'r \<times> 'w) \<Rightarrow> 'w \<times> (kind \<times> namespaced_name) list \<Rightarrow>
    'r \<times> 'w \<times> (kind \<times> namespaced_name) list" where
  "audit obj f p = (let (r, w') = f (fst p) in (r, (w', snd p @ [(kind_of obj, key_of obj)])))"

definition audited :: "'w client \<Rightarrow> ('w \<times> (kind \<times> namespaced_name) list) client" where
  "audited c =
     \<lparr>cl_Get = (\<lambda>k n p. let (r, w') = cl_Get c k n (fst p) in (r, (w', snd p))),
      cl_Create = (\<lambda>obj. audit obj (cl_Create c obj)),
      cl_Update = (\<lambda>obj. audit obj (cl_Update c obj)),
      cl_Delete = (\<lambda>obj. audit obj (cl_Delete c obj)),
      cl_StatusUpdate = (\<lambda>obj. audit obj (cl_StatusUpdate c obj))\<rparr>"

lemma audit_cases:
  assumes "audit obj f p = (r, p')"
  obtains "f (fst p) = (r, fst p')" and "set (snd p') = insert (kind_of obj, key_of obj) (set (snd p))"
  using assms by (auto simp: audit_def Let_def split: prod.splits)

text \<open>What others do keeps the world valid and makes nothing readable that is not well formed.\<close>

definition harmless :: "('w \<Rightarrow> kind \<Rightarrow> namespaced_name \<Rightarrow> kobject option) \<Rightarrow> ('w \<Rightarrow> bool) \<Rightarrow> ('w \<Rightarrow> 'w) \<Rightarrow> bool" where
  "harmless l ok f \<longleftrightarrow> (\<forall>w. ok w \<longrightarrow> ok (f w) \<and> reads_ok (l w) (l (f w)))"

lemma disturb_harmless:
  assumes "ok (fst p)" and "\<forall>f \<in> set (snd p). harmless l ok f"
  shows "ok (fst (disturb p)) \<and> reads_ok (l (fst p)) (l (fst (disturb p))) \<and> (\<forall>f \<in> set (snd (disturb p)). harmless l ok f)"
  using assms by (cases p; cases "snd p") (auto simp: disturb_def harmless_def)

context kube_owned
begin

abbreviation "okw w \<equiv> inv w \<and> sound (look w)"

lemma okw_step: "inv w' \<and> reads_ok (look w) (look w') \<Longrightarrow> okw w \<Longrightarrow> okw w'"
  using sound_reads by blast

lemma okw_get:
  assumes "cl_Get c k n w = (r, w')" and "okw w"
  shows "okw w' \<and> (\<forall>obj. r = Inr obj \<longrightarrow> kind_of obj = k \<and> key_of obj = n \<and> obj_ok obj)"
  using assms okw_step [OF get_reads] get_obj [of k n w _ w'] by (auto simp: sound_def)

lemma okw_create:
    "cl_Create c obj w = (e, w') \<Longrightarrow> okw w \<Longrightarrow> obj_ok obj \<Longrightarrow> (kind_of obj, key_of obj) \<in> own \<Longrightarrow> okw w'"
  and okw_update:
    "cl_Update c obj w = (e, w') \<Longrightarrow> okw w \<Longrightarrow> obj_ok obj \<Longrightarrow> (kind_of obj, key_of obj) \<in> own \<Longrightarrow> okw w'"
  and okw_cl_delete: "cl_Delete c obj w = (e, w') \<Longrightarrow> okw w \<Longrightarrow> (kind_of obj, key_of obj) \<in> own \<Longrightarrow> okw w'"
  and okw_status: "cl_StatusUpdate c (OSiddhiProcess sp) w = (r, w') \<Longrightarrow> okw w \<Longrightarrow>
    (KSiddhiProcess, key_of (OSiddhiProcess sp)) \<in> own \<Longrightarrow> okw w'"
  using okw_step create_reads update_reads delete_reads status_reads by blast+

text \<open>With a log, the laws for the objects that may be written say that the log has no others.\<close>

lemma audited_laws: "kube_owned (audited c) (\<lambda>p. look (fst p)) (\<lambda>p. inv (fst p) \<and> set (snd p) \<subseteq> own) own"
  by unfold_locales
    (auto simp: audited_def split: prod.splits elim!: audit_cases
      dest: get_reads get_obj create_reads update_reads delete_reads status_reads status_key)

end

context kube_reads
begin

text \<open>Copies that lag, faults, and others that act in between keep the laws.\<close>

lemma lagging_laws: "kube_reads (lagging c) (\<lambda>p. look (snd p)) (\<lambda>p. okw (fst p) \<and> inv (snd p))"
  by unfold_locales
    (auto simp: lagging_def split: prod.splits dest: get_reads get_obj okw_create okw_update okw_cl_delete okw_status status_key)

lemma audited_reads: "kube_reads (audited c) (\<lambda>p. look (fst p)) (\<lambda>p. inv (fst p))"
  using audited_laws by (simp add: kube_reads_def)

lemma synchronize_harmless: "harmless (\<lambda>p. look (snd p)) (\<lambda>p. okw (fst p) \<and> inv (snd p)) synchronize"
  by (simp add: harmless_def synchronize_def reads_ok_sound)

lemma faulty_reads: "kube_reads (faulty c) (\<lambda>p. look (fst p)) (\<lambda>p. inv (fst p))"
  by unfold_locales
    (auto simp: faulty_def elim!: inject_cases inject_eff_cases
      dest: get_reads get_obj create_reads update_reads delete_reads status_reads status_key)

lemma interleaved_step:
  assumes p: "inv (fst p) \<and> (\<forall>f \<in> set (snd p). harmless look inv f)" and run: "interleave f p = (r, p')"
    and f: "\<And>w w'. f w = (r, w') \<Longrightarrow> inv w \<Longrightarrow> inv w' \<and> reads_ok (look w) (look w')"
  shows "(inv (fst p') \<and> (\<forall>f \<in> set (snd p'). harmless look inv f)) \<and> reads_ok (look (fst p)) (look (fst p'))"
proof -
  note one = disturb_harmless [of inv p look, OF conjunct1 [OF p] conjunct2 [OF p]]
  from f [OF interleave_call(1) [OF run]] one have "inv (fst p')" "reads_ok (look (fst (disturb p))) (look (fst p'))" by simp_all
  with one interleave_call(2) [OF run] show ?thesis by (auto intro: reads_ok_trans)
qed

lemma interleaved_laws:
  "kube_reads (interleaved c) (\<lambda>p. look (fst p)) (\<lambda>p. inv (fst p) \<and> (\<forall>f \<in> set (snd p). harmless look inv f))"
  apply unfold_locales
  subgoal by (rule interleaved_step, assumption, simp add: interleaved_def, rule get_reads)
  subgoal for k n p obj p'
    using get_obj [of k n "fst (disturb p)" obj "fst p'"] interleave_call(1) [of "cl_Get c k n" p "Inr obj" p']
      disturb_harmless [of inv p look]
    by (auto simp: interleaved_def reads_ok_def)
  subgoal by (rule interleaved_step, assumption, simp add: interleaved_def, rule create_reads) simp_all
  subgoal by (rule interleaved_step, assumption, simp add: interleaved_def, rule update_reads) simp_all
  subgoal by (rule interleaved_step, assumption, simp add: interleaved_def, rule delete_reads) simp_all
  subgoal by (rule interleaved_step, assumption, simp add: interleaved_def, rule status_reads) simp_all
  subgoal for sp p obj p'
    using status_key [of sp "fst (disturb p)" obj "fst p'"] disturb_harmless [of inv p look]
      interleave_call(1) [of "cl_StatusUpdate c (OSiddhiProcess sp)" p "Inr obj" p']
    by (simp add: interleaved_def)
  done

end

interpretation cached_reads: kube_reads cached_client tracker_look tracker_inv
  by (rule cached_def.kube_reads_laws)

text \<open>
  The object store with all three: a server and a copy of it, a schedule of what others do, among it to
  bring the copy up to date, and a schedule of faults.
\<close>

type_synonym loose = "((tracker \<times> tracker) \<times> (tracker \<times> tracker \<Rightarrow> tracker \<times> tracker) list) \<times> faults"

definition loose_client :: "loose client" where
  "loose_client = faulty (interleaved (lagging cached_client))"

definition loose_look :: "loose \<Rightarrow> kind \<Rightarrow> namespaced_name \<Rightarrow> kobject option" where
  "loose_look p = tracker_look (snd (fst (fst p)))"

definition behind_inv :: "tracker \<times> tracker \<Rightarrow> bool" where
  "behind_inv p \<longleftrightarrow> (tracker_inv (fst p) \<and> sound (tracker_look (fst p))) \<and> tracker_inv (snd p)"

definition loose_inv :: "loose \<Rightarrow> bool" where
  "loose_inv p \<longleftrightarrow> behind_inv (fst (fst p)) \<and> (\<forall>f \<in> set (snd (fst p)). harmless (\<lambda>p. tracker_look (snd p)) behind_inv f)"

interpretation loose_reads: kube_reads loose_client loose_look loose_inv
  using kube_reads.faulty_reads [OF kube_reads.interleaved_laws [OF cached_reads.lagging_laws]]
  by (simp add: loose_client_def loose_look_def [abs_def] loose_inv_def [abs_def] behind_inv_def [abs_def])

interpretation audited_loose: kube_owned "audited loose_client" "\<lambda>p. loose_look (fst p)"
    "\<lambda>p. loose_inv (fst p) \<and> set (snd p) \<subseteq> own" own for own
  by (rule kube_owned.audited_laws [OF loose_reads.owned_laws])

end
