(* ===== verification/Safety.thy ===== *)
theory Safety
  imports Deployed Reads
begin

text \<open>
  The operator does not panic, and writes the objects of the process it handles only. Its code has four places where a nil pointer may be followed: a rule of
  the shared ingress without paths, a deployment without a number of replicas, the request to a parser
  whose URL is malformed, and an object of the wrong type. As long as the ingresses and deployments that
  can be read are well formed, no request panics, and the operator adds none that is not. Nothing is
  assumed of the calls beyond that: any of them may fail, and what is read may lag behind what was
  written by any number of changes. The same holds of a client that may write the objects of one process
  only, which shows that a request writes no others.
\<close>

text \<open>The URLs of the parser service can be parsed.\<close>

definition urls_ok :: "'w parser_service \<Rightarrow> bool" where
  "urls_ok svc \<longleftrightarrow> (\<forall>name ns. psv_url_ok svc (ParserHTTP @ name @ ParserExtension @ ''.'' @ ns @ ParserContext))"

context kube_owned
begin

section \<open>Artifacts\<close>

lemma okw_CreateOrUpdate:
  assumes f: "mutates f g P" and obj: "P obj" and w: "okw w" and own: "(kind_of obj, key_of obj) \<in> own"
    and srv: "\<And>srv. kind_of srv = kind_of obj \<Longrightarrow> key_of srv = key_of obj \<Longrightarrow> obj_ok srv \<Longrightarrow> P srv"
    and g: "\<And>base. P base \<Longrightarrow> base = obj \<or> obj_ok base \<Longrightarrow> obj_ok (g base)"
  shows "\<exists>op err w'. CreateOrUpdate c obj f w = Some ((op, err), w') \<and> okw w'"
proof -
  obtain r w1 where get: "cl_Get c (kind_of obj) (key_of obj) w = (r, w1)" by force
  note one = okw_get [OF get w]
  have base: "P srv \<and> obj_ok srv" if "r = Inr srv" for srv using one srv that by blast
  have names: "(kind_of (g base), key_of (g base)) \<in> own" if "P base" "kind_of base = kind_of obj" "key_of base = key_of obj" for base
    using mutatesD [OF f that(1)] that(2,3) own by simp
  note run = CreateOrUpdate_mutates [OF f obj get conjunct1 [OF base]]
  show ?thesis
  proof (cases r)
    case (Inl e)
    obtain eo w2 where cr: "cl_Create c (g obj) w1 = (eo, w2)" by force
    from okw_create [OF cr] one g [OF obj] names [OF obj] run Inl cr show ?thesis by simp
  next
    case (Inr srv)
    obtain eo w2 where up: "cl_Update c (g srv) w1 = (eo, w2)" by force
    from okw_update [OF up] one g [of srv] base [OF Inr] names [of srv] run Inr up show ?thesis by simp
  qed
qed

lemma okw_CM:
  assumes k: "kc_Client k = c" and w: "okw w" and own: "(KConfigMap, nn name ns) \<in> own"
  shows "\<exists>err w'. CreateOrUpdateCM k name ns data owner w = Some (err, w') \<and> okw w'"
proof -
  let ?o = "OConfigMap \<lparr>cm_TypeMeta = type_meta_of ''v1'' ''ConfigMap'', cm_ObjectMeta = new_meta name ns,
    cm_Data = data, cm_rest = []\<rparr>"
  obtain r w1 where get: "cl_Get c KConfigMap (nn name ns) w = (r, w1)" by force
  from okw_get [OF get w] have w1: "okw w1" by blast
  obtain e obj where ref: "SetControllerReference owner ?o (kc_Scheme k) = (e, obj)" by force
  from set_owner_object [OF ref] have obj: "kind_of obj = KConfigMap" "key_of obj = nn name ns" by (simp_all add: key_of_new)
  have keep: "kind_of (result_of (ConfigMapMutateFunc data) base) = KConfigMap" if "kind_of base = KConfigMap" for base
    using mutatesD [OF mutates_CM that] that by simp
  from okw_CreateOrUpdate [OF mutates_CM [of data] obj(1) w1] obj own obj_ok_kind keep obtain op err w' where
    "CreateOrUpdate c obj (ConfigMapMutateFunc data) w1 = Some ((op, err), w')" "okw w'" by fastforce
  with get ref k show ?thesis by (simp add: CreateOrUpdateCM_def)
qed

lemma okw_PVC:
  assumes k: "kc_Client k = c" and w: "okw w" and own: "(KPVC, nn name ns) \<in> own"
  shows "\<exists>err w'. CreateOrUpdatePVC k name ns spec owner w = Some (err, w') \<and> okw w'"
proof -
  obtain r w1 where get: "cl_Get c KPVC (nn name ns) w = (r, w1)" by force
  from okw_get [OF get w] have w1: "okw w1" by blast
  obtain e obj where ref: "SetControllerReference owner (OPVC (pvc_object name ns spec)) (kc_Scheme k) = (e, obj)" by force
  from set_owner_object [OF ref] have obj: "kind_of obj = KPVC" "key_of obj = nn name ns" by (simp_all add: key_of_new)
  have keep: "kind_of (result_of (PVCMutateFunc spec) base) = KPVC" if "kind_of base = KPVC" for base
    using mutatesD [OF mutates_PVC that] that by simp
  from okw_CreateOrUpdate [OF mutates_PVC [of spec] obj(1) w1] obj own obj_ok_kind keep obtain op err w' where
    "CreateOrUpdate c obj (PVCMutateFunc spec) w1 = Some ((op, err), w')" "okw w'" by fastforce
  with get ref k w1 show ?thesis by (cases r) (simp_all add: CreateOrUpdatePVC_def)
qed

lemma okw_service:
  assumes k: "kc_Client k = c" and w: "okw w" and own: "(KService, nn name ns) \<in> own"
  shows "\<exists>op err w'. CreateOrUpdateService k name ns ports selectors owner w = Some ((op, err), w') \<and> okw w'"
proof -
  let ?f = "ServiceMutateFunc selectors (service_ports ports)"
  obtain e obj where ref: "SetControllerReference owner (OService (service_object name ns selectors (service_ports ports)))
    (kc_Scheme k) = (e, obj)" by force
  from set_owner_object [OF ref] have obj: "kind_of obj = KService" "key_of obj = nn name ns" by (simp_all add: key_of_new)
  have keep: "kind_of (result_of ?f base) = KService" if "kind_of base = KService" for base
    using mutatesD [OF mutates_Service that] that by simp
  from okw_CreateOrUpdate [OF mutates_Service [of selectors "service_ports ports"] obj(1) w] obj own obj_ok_kind keep ref k
  show ?thesis by (fastforce simp: CreateOrUpdateService_def)
qed

lemma okw_deployment:
  assumes k: "kc_Client k = c" and w: "okw w" and own: "(KDeployment, nn name ns) \<in> own"
  shows "\<exists>op err w'. CreateOrUpdateDeployment k name ns replicas labels img containerName command args ports volumeMounts
      envs sc ipp secrets volumes strategy owner w = Some ((op, err), w') \<and> okw w'"
proof -
  let ?f = "DeploymentMutateFunc replicas labels img containerName command args (ports @ [defaultPort])
     volumeMounts envs sc ipp secrets volumes readyProbe liveProbe strategy"
  let ?pod = "deployment_pod img containerName command args (ports @ [defaultPort]) volumeMounts envs sc ipp
     secrets volumes readyProbe liveProbe"
  let ?d = "deployment_object name ns replicas labels ?pod strategy"
  obtain e obj where ref: "SetControllerReference owner (ODeployment ?d) (kc_Scheme k) = (e, obj)" by force
  from SetControllerReference_frame [OF ref] obtain refs where
    obj: "obj = ODeployment (?d\<lparr>dep_ObjectMeta := (dep_ObjectMeta ?d)\<lparr>om_OwnerReferences := refs\<rparr>\<rparr>)" by auto
  from set_owner_object [OF ref] own have names: "(kind_of obj, key_of obj) \<in> own" by (simp add: key_of_new)
  have ok: "kind_of obj = KDeployment" "obj_ok obj" unfolding obj by (simp_all add: obj_ok_def deployment_object_def)
  have keep: "obj_ok (result_of ?f base)" if "kind_of base = KDeployment" "base = obj \<or> obj_ok base" for base
  proof -
    from that(1) obtain d where "base = ODeployment d" by (auto simp: kind_of_eqs)
    with that(2) ok(2) show ?thesis by (auto simp: result_of_def mutate_defs Let_def obj_ok_def)
  qed
  from okw_CreateOrUpdate [OF mutates_Deployment ok(1) w names, of replicas labels img containerName command args
      "ports @ [defaultPort]" volumeMounts envs sc ipp secrets volumes readyProbe liveProbe strategy] ok(1) keep ref k
  show ?thesis by (simp add: CreateOrUpdateDeployment_def Let_def)
qed

lemma okw_ingress:
  assumes k: "kc_Client k = c" and w: "okw w" and own: "(KIngress, nn IngressName ns) \<in> own"
  shows "\<exists>op err w'. CreateOrUpdateIngress k ns serviceName tls ports w = Some ((op, err), w') \<and> okw w'"
proof -
  let ?f = "IngressMutateFunc ns serviceName tls ports" and ?obj = "OIngress (siddhi_ingress ns serviceName tls ports)"
  have name: "om_Name (ing_ObjectMeta (siddhi_ingress ns serviceName tls ports)) = IngressName"
    by (simp add: siddhi_ingress_def new_meta_def)
  have obj: "ingress_ok ?obj" by (simp add: ingress_ok_def siddhi_ingress_def rules_ok_def siddhi_rule_def)
  have read: "ingress_ok srv" if "kind_of srv = kind_of ?obj" "key_of srv = key_of ?obj" "obj_ok srv" for srv
    using that name by (auto simp: kind_of_eqs ingress_ok_def obj_ok_def key_of_def)
  have keep: "obj_ok (result_of ?f base)" if ok: "ingress_ok base" for base
  proof -
    from ok obtain i where "base = OIngress i" "rules_ok (is_Rules (ing_Spec i))"
      by (auto simp: ingress_ok_def split: kobject.splits)
    then show ?thesis by (simp add: result_of_def IngressMutateFunc_eq obj_ok_def merged_ingress_def)
  qed
  from own have "(kind_of ?obj, key_of ?obj) \<in> own" by (simp add: key_of_new)
  from okw_CreateOrUpdate [OF mutates_Ingress obj w this read keep] k show ?thesis by (simp add: CreateOrUpdateIngress_def)
qed

lemma okw_delete:
  assumes k: "kc_Client k = c" and w: "okw w" and run: "delete_kind kd k name ns w = (err, w')"
    and own: "(kd, nn name ns) \<in> own"
  shows "okw w'"
proof -
  obtain r w1 where get: "cl_Get c kd (nn name ns) w = (r, w1)" by force
  from okw_get [OF get w] have "okw w1" "\<And>obj. r = Inr obj \<Longrightarrow> (kind_of obj, key_of obj) \<in> own" using own by auto
  with okw_cl_delete run get k show ?thesis by (cases r) (auto simp: delete_kind_def)
qed

lemma okw_Deploy:
  assumes k: "kc_Client (dm_KubeClient d) = c" and w: "okw w" and own: "deploy_targets d \<subseteq> own"
  shows "\<exists>op err w'. Deploy yaml d w = Some ((op, err, CreateLabels d), w') \<and> okw w'"
proof -
  let ?d = "CreateLabels d"
  have k': "kc_Client (dm_KubeClient ?d) = c" using k by (simp add: CreateLabels_def)
  let ?ns = "sp_Namespace (dm_SiddhiProcess ?d)" and ?name = "ap_Name (dm_Application ?d)"
  have "deploy_targets ?d = deploy_targets d"
    by (simp add: deploy_targets_def CreateLabels_def config_cm_name_def apps_cm_name_def Let_def)
  with own have "deploy_targets ?d \<subseteq> own" by simp
  then have own': "(KPVC, nn (?name @ PVCExtension) ?ns) \<in> own" "(KConfigMap, nn (config_cm_name ?d) ?ns) \<in> own"
    "(KConfigMap, nn (apps_cm_name ?d) ?ns) \<in> own" "(KDeployment, nn ?name ?ns) \<in> own"
    by (simp_all add: deploy_targets_def Let_def)
  have config: "\<exists>r w'. deploy_config ?d name conf v = Some (r, w') \<and> okw w'"
    if v: "okw v" and name: "name = config_cm_name ?d" for name conf v
    using okw_CM [OF k' v own'(2), of "map_literal [(name, conf)]" "OSiddhiProcess (dm_SiddhiProcess ?d)"] name
    by (auto simp: deploy_config_def Let_def split: option.split)
  have pvc: "\<exists>r w'. deploy_pvc yaml ?d v = Some (r, w') \<and> okw w'" if v: "okw v" for v
    using okw_PVC [OF k' v own'(1), of "sps_PVC (sp_Spec (dm_SiddhiProcess ?d))" "OSiddhiProcess (dm_SiddhiProcess ?d)"] v
    by (auto simp: deploy_pvc_def Let_def split: option.split sum.split)
  have "\<exists>r w'. deploy_persistence yaml ?d w = Some (r, w') \<and> okw w'"
  proof -
    from pvc [OF w] obtain r1 w1 where one: "deploy_pvc yaml ?d w = Some (r1, w1)" "okw w1" by blast
    note two = config [OF one(2) refl, of "if sps_SiddhiConfig (sp_Spec (dm_SiddhiProcess ?d)) \<noteq> []
      then sps_SiddhiConfig (sp_Spec (dm_SiddhiProcess ?d)) else StatePersistenceConf"]
    from one two config [OF w refl] w show ?thesis
      by (cases r1; cases "ap_PersistenceEnabled (dm_Application ?d)")
        (auto simp: deploy_persistence_def config_cm_name_def Let_def split: sum.split)
  qed
  then obtain r1 w1 where one: "deploy_persistence yaml ?d w = Some (r1, w1)" "okw w1" by blast
  from okw_CM [OF k' one(2) own'(3), of "apps_map (ap_Apps (dm_Application ?d))" "OSiddhiProcess (dm_SiddhiProcess ?d)"] one(2)
  have "\<exists>r w'. deploy_apps ?d w1 = Some (r, w') \<and> okw w'"
    by (auto simp: deploy_apps_def Let_def split: option.split)
  then obtain r2 w2 where two: "deploy_apps ?d w1 = Some (r2, w2)" "okw w2" by blast
  have last: "\<exists>op w3. deploy_deployment ?d ms p2 p1 w2 = Some (op, w3) \<and> okw w3" for ms p2 p1
    using okw_deployment [OF k' two(2) own'(4)] unfolding deploy_deployment_def Let_def
    by (fastforce simp: bind_eq_Some_conv)
  show ?thesis
  proof (cases r1)
    case (Inl e)
    with one show ?thesis by (simp add: Deploy_def Let_def)
  next
    case r1: (Inr m1)
    show ?thesis
    proof (cases r2)
      case (Inl e)
      with one two r1 show ?thesis by (cases m1) (simp add: Deploy_def Let_def)
    next
      case (Inr m2)
      with one two r1 last [of "fst m1 @ fst m2" "snd m2" "snd m1"] show ?thesis
        by (cases m1; cases m2) (auto simp: Deploy_def Let_def)
    qed
  qed
qed

lemma okw_check_messaging:
  assumes k: "kc_Client (mg_KubeClient m) = c" and w: "okw w" and run: "CheckMessagingSystem m w = (ok, w')"
  shows "okw w'"
proof -
  have "okw v'" if "GetDeployment (mg_KubeClient m) name ns v = (r, v')" "okw v" for name ns v r v'
  proof -
    obtain g v1 where get: "cl_Get c KDeployment (nn (ToLower name) ns) v = (g, v1)" by force
    from okw_get [OF get that(2)] get that(1) k show ?thesis by (auto simp: GetDeployment_def)
  qed
  with run w show ?thesis by (auto simp: CheckMessagingSystem_def Let_def split: prod.splits)
qed

lemma okw_get_or_create:
  assumes w: "okw w" and obj: "obj_ok obj" "(kind_of obj, key_of obj) \<in> own" and run: "get_or_create c obj w = (err, w')"
  shows "okw w'"
proof -
  obtain r w1 where get: "cl_Get c (kind_of obj) (key_of obj) w = (r, w1)" by force
  from okw_get [OF get w] have w1: "okw w1" by blast
  from run get have "w' = w1 \<or> cl_Create c obj w1 = (err, w')"
    by (auto simp: get_or_create_def split: sum.splits if_splits)
  with w1 obj okw_create show ?thesis by blast
qed

lemma okw_messaging:
  assumes k: "kc_Client (mg_KubeClient m) = c" and w: "okw w" and run: "CreateMessagingSystem m apps w = (err, w')"
    and own: "(KNatsCluster, nn NATSClusterName (sp_Namespace (mg_SiddhiProcess m))) \<in> own"
      "(KStanCluster, nn STANClusterName (sp_Namespace (mg_SiddhiProcess m))) \<in> own"
  shows "okw w'"
proof -
  let ?ns = "sp_Namespace (mg_SiddhiProcess m)"
  obtain ok w1 where check: "CheckMessagingSystem m w = (ok, w1)" by force
  note w1 = okw_check_messaging [OF k w check]
  obtain e2 w2 where two: "get_or_create c (ONatsCluster (nats_object ?ns)) w1 = (e2, w2)" by force
  obtain e3 w3 where three: "get_or_create c (OStanCluster (stan_object ?ns)) w2 = (e3, w3)" by force
  have names: "(kind_of (ONatsCluster (nats_object ?ns)), key_of (ONatsCluster (nats_object ?ns))) \<in> own"
    "(kind_of (OStanCluster (stan_object ?ns)), key_of (OStanCluster (stan_object ?ns))) \<in> own"
    using own by (simp_all add: key_of_def nats_object_def stan_object_def new_meta_def nn_def)
  have "okw w2" by (rule okw_get_or_create [OF w1 _ names(1) two]) (simp add: obj_ok_def)
  moreover from this have "okw w3" by (rule okw_get_or_create [OF _ _ names(2) three]) (simp add: obj_ok_def)
  moreover have "w' \<in> {w, w1, w2, w3}"
    using run check two three k
    by (cases e2) (auto simp: CreateMessagingSystem_def CreateNATS_def Let_def split: if_splits)
  ultimately show ?thesis using w w1 by blast
qed

end

section \<open>The controller\<close>

text \<open>A controller for the process \<open>key\<close>, with the client, in such a world.\<close>

definition fit_ctl :: "'w client \<Rightarrow> ('w \<Rightarrow> kind \<Rightarrow> namespaced_name \<Rightarrow> kobject option) \<Rightarrow> ('w \<Rightarrow> bool) \<Rightarrow>
    namespaced_name \<Rightarrow> 'w ctl \<Rightarrow> bool" where
  "fit_ctl c l ok key s \<longleftrightarrow>
     kc_Client (ctl_KubeClient s) = c \<and> sp_key s = key \<and> ok (ctl_cluster s) \<and> sound (l (ctl_cluster s))"

lemma fit_same [simp]:
  "fit_ctl c l ok key (upd_status f s) = fit_ctl c l ok key s"
  "fit_ctl c l ok key (set_status t s) = fit_ctl c l ok key s"
  "fit_ctl c l ok key (record_event t r m s) = fit_ctl c l ok key s"
  by (simp_all add: fit_ctl_def set_status_def sp_key_def)

lemma fit_config [simp]:
  "fit_ctl c l ok key (set_config data s) = fit_ctl c l ok key s"
  "fit_ctl c l ok key (user_config s) = fit_ctl c l ok key s"
  by (simp_all add: fit_ctl_def set_config_def user_config_def sp_key_def the_sp_def Let_def)

lemma push_status_client [simp]:
  "ctl_KubeClient (snd (push_status s)) = ctl_KubeClient s"
  "ctl_SiddhiProcess (snd (push_status s)) = ctl_SiddhiProcess s"
  by (simp_all add: push_status_def upd_sp_def Let_def split: prod.split sum.split kobject.split)

lemma push_or_restore_push: "push_or_restore (ctl_SiddhiProcess s) s = snd (push_status s)"
  using push_status_client(2) [of s] by (cases "push_status s") (simp add: push_or_restore_def)

lemma push_or_restore_client [simp]: "ctl_KubeClient (push_or_restore p s) = ctl_KubeClient s"
  using push_status_client(1) [of s] by (cases "push_status s") (simp add: push_or_restore_def)

lemma UpdateRunning_client [simp]: "ctl_KubeClient (UpdateRunningStatus r m s) = ctl_KubeClient s"
  by (simp add: UpdateRunningStatus_def record_event_def)

text \<open>The process a request is for, as the client tells: that of the listener when a config map has its name.\<close>

definition read_target :: "'w client \<Rightarrow> namespaced_name \<Rightarrow> 'w op_state \<Rightarrow> namespaced_name" where
  "read_target c request st =
     (case fst (cl_Get c KConfigMap request (os_cluster st)) of
        Inr _ \<Rightarrow> request\<lparr>nn_Name := cml_SiddhiProcess (listener (os_CMContainer st) (nn_Name request))\<rparr>
      | Inl _ \<Rightarrow> request)"

text \<open>A client for the objects of a request: of the process \<open>key\<close>, whose stored applications are among \<open>N\<close>.\<close>

locale kube_request = kube_owned c look inv "request_objects key N"
  for c :: "'w client"
    and look :: "'w \<Rightarrow> kind \<Rightarrow> namespaced_name \<Rightarrow> kobject option"
    and inv :: "'w \<Rightarrow> bool"
    and key :: namespaced_name
    and N :: "string set"
begin

abbreviation "fit \<equiv> fit_ctl c look inv key"
abbreviation "known a \<equiv> ap_Name a \<in> N \<or> derived (nn_Name key) (ap_Name a)"

lemma fit_with_cluster [simp]: "fit s \<Longrightarrow> fit (with_cluster w s) \<longleftrightarrow> okw w"
  by (simp add: fit_ctl_def sp_key_def)

lemma fitD: "fit s \<Longrightarrow> kc_Client (ctl_KubeClient s) = c" "fit s \<Longrightarrow> okw (ctl_cluster s)" "fit s \<Longrightarrow> sp_key s = key"
  by (simp_all add: fit_ctl_def)

lemma fit_names: "fit s \<Longrightarrow> sp_Name (the_sp s) = nn_Name key" "fit s \<Longrightarrow> sp_Namespace (the_sp s) = nn_Namespace key"
  using fitD(3) by (metis sp_key_Name, metis sp_key_Namespace)

lemma fit_push: "fit s \<Longrightarrow> fit (snd (push_status s))"
proof -
  assume s: "fit s"
  obtain r w where upd: "cl_StatusUpdate c (OSiddhiProcess (the_sp s)) (ctl_cluster s) = (r, w)" by force
  have key: "key_of (OSiddhiProcess (the_sp s)) = key" using fitD(3) [OF s] by (simp add: key_of_process sp_key_def)
  have w: "okw w" using okw_status [OF upd fitD(2) [OF s]] key by simp
  have "sp_key (upd_sp (\<lambda>_. sp') s) = key" if "r = Inr (OSiddhiProcess sp')" for sp'
    using status_key [of "the_sp s" "ctl_cluster s" _ w] upd that fitD(2) [OF s] key by (simp add: key_of_process sp_key_def)
  with upd s w show ?thesis
    by (auto simp: push_status_def fit_ctl_def Let_def sp_key_def the_sp_def upd_sp_def split: sum.split kobject.split)
qed

lemma fit_push_or_restore: "fit s \<Longrightarrow> p = ctl_SiddhiProcess s \<Longrightarrow> fit (push_or_restore p s)"
  by (simp add: push_or_restore_push fit_push)

lemma fit_updates:
  assumes "fit s"
  shows "fit (UpdateErrorStatus reason e s)" "fit (UpdateWarningStatus reason message s)" "fit (UpdateRunningStatus reason message s)"
    "fit (UpdatePartialAppStatus order as s)" "fit (UpdatePendingStatus s)" "fit (UpdateNotReadytatus s)"
    "fit (UpdateReadyStatus s)" "fit (UpdateReadyDeployments n m s)" "fit (SyncVersion s)" "fit (UpgradeVersion s)"
    "fit (SetDefaultPendingState s)" "fit (SetNotReadyState s)"
    "fit (announce ev op r1 t1 r2 t2 name s)"
proof -
  show updates: "fit (UpdateErrorStatus reason e s)" "fit (UpdateWarningStatus reason message s)" "fit (UpdateRunningStatus reason message s)"
    "fit (UpdatePartialAppStatus order as s)" "fit (UpdatePendingStatus s)" "fit (UpdateNotReadytatus s)"
    "fit (UpdateReadyStatus s)" "fit (UpdateReadyDeployments n m s)" "fit (SyncVersion s)" "fit (UpgradeVersion s)"
    for reason message
    unfolding UpdateErrorStatus_def UpdateWarningStatus_def UpdateRunningStatus_def UpdatePartialAppStatus_def
      UpdatePendingStatus_def UpdateNotReadytatus_def UpdateReadyStatus_def UpdateReadyDeployments_def
      SyncVersion_def UpgradeVersion_def
    by (intro fit_push fit_push_or_restore; simp add: assms set_status_def)+
  from updates assms show "fit (SetDefaultPendingState s)" "fit (SetNotReadyState s)" "fit (announce ev op r1 t1 r2 t2 name s)"
    by (simp_all add: SetDefaultPendingState_def SetNotReadyState_def announce_def)
qed

lemma fit_UpdateDefaultConfigs: "fit s \<Longrightarrow> fit (UpdateDefaultConfigs getenv s)"
proof -
  assume s: "fit s"
  define s1 where "s1 = s\<lparr>ctl_Image := (ctl_Image s)\<lparr>im_Home := SiddhiHome, im_Name := SiddhiImage, im_Profile := SiddhiProfile\<rparr>,
    ctl_AutoCreateIngress := AutoCreateIngress\<rparr>"
  define n where "n = nn (if getenv ''OPERATOR_CONFIGMAP'' \<noteq> [] then getenv ''OPERATOR_CONFIGMAP'' else OperatorCMName)
    (sp_Namespace (the_sp s1))"
  have s1: "fit s1" using s by (simp add: fit_ctl_def s1_def sp_key_def the_sp_def)
  obtain r w where get: "cl_Get c KConfigMap n (ctl_cluster s1) = (r, w)" by force
  have "UpdateDefaultConfigs getenv s =
      user_config (case r of Inr (OConfigMap cm) \<Rightarrow> set_config (cm_Data cm) (with_cluster w s1) | _ \<Rightarrow> with_cluster w s1)"
    using get fitD(1) [OF s1] by (simp add: UpdateDefaultConfigs_def Let_def s1_def [symmetric] n_def [symmetric])
  moreover have "fit (with_cluster w s1)" using okw_get [OF get fitD(2) [OF s1]] s1 by simp
  ultimately show ?thesis by (simp split: sum.split kobject.split)
qed

lemma fit_create_ingress: "fit s \<Longrightarrow> \<exists>s'. create_ingress a s = Some s' \<and> fit s'"
proof -
  assume s: "fit s"
  have "(KIngress, nn IngressName (sp_Namespace (the_sp s))) \<in> request_objects key N"
    using fit_names [OF s] by (simp add: request_objects_def)
  from okw_ingress [OF fitD(1) [OF s] fitD(2) [OF s] this, of "ap_Name a" "ctl_TLS s" "ap_ContainerPorts a"] obtain op err w1 where
    run: "CreateOrUpdateIngress (ctl_KubeClient s) (sp_Namespace (the_sp s)) (ap_Name a) (ctl_TLS s) (ap_ContainerPorts a)
      (ctl_cluster s) = Some ((op, err), w1)" "okw w1" by blast
  with s fit_updates(1) [of "with_cluster w1 s"] show ?thesis by (cases err) (simp_all add: create_ingress_def Let_def)
qed

lemma fit_targets: "fit s \<Longrightarrow> known a \<Longrightarrow> artifact_targets s a \<subseteq> request_objects key N"
  using artifact_targets_ns [of a N s] fit_names [of s] fitD(3) [of s] by simp

lemma fit_create_service: "fit s \<Longrightarrow> known a \<Longrightarrow> \<exists>s'. create_service ev a labels s = Some s' \<and> fit s'"
proof -
  assume s: "fit s" and a: "known a"
  from fit_targets [OF s a] have "(KService, nn (ap_Name a) (sp_Namespace (the_sp s))) \<in> request_objects key N"
    by (simp add: artifact_targets_def Let_def)
  from okw_service [OF fitD(1) [OF s] fitD(2) [OF s] this, of "ap_ContainerPorts a" labels
      "OSiddhiProcess (the_sp s)"] obtain op err w1 where
    run: "CreateOrUpdateService (ctl_KubeClient s) (ap_Name a) (sp_Namespace (the_sp s)) (ap_ContainerPorts a) labels
      (OSiddhiProcess (the_sp s)) (ctl_cluster s) = Some ((op, err), w1)" "okw w1" by blast
  then have "fit (with_cluster w1 s)" using s by simp
  with run s fit_updates fit_create_ingress [OF fit_updates(13)] show ?thesis
    by (cases err) (simp_all add: create_service_def)
qed

lemma fit_create_artifact: "fit s \<Longrightarrow> known a \<Longrightarrow> \<exists>s'. create_artifact yaml ev a s = Some s' \<and> fit s'"
proof -
  assume s: "fit s" and a: "known a"
  from fit_targets [OF s a] have own: "deploy_targets (manager_of s a) \<subseteq> request_objects key N"
    by (simp add: artifact_targets_def Let_def)
  have "kc_Client (dm_KubeClient (manager_of s a)) = c" using fitD(1) [OF s] by (simp add: manager_of_def)
  from okw_Deploy [OF this fitD(2) [OF s] own] obtain op err w1 where
    run: "Deploy yaml (manager_of s a) (ctl_cluster s) = Some ((op, err, CreateLabels (manager_of s a)), w1)" "okw w1" by blast
  then have "fit (with_cluster w1 s)" using s by simp
  with run fit_updates fit_create_service [OF fit_updates(13) a] show ?thesis
    by (cases err) (simp_all add: create_artifact_def)
qed

lemma fit_create_artifacts: "fit s \<Longrightarrow> \<forall>a \<in> set as. known a \<Longrightarrow> \<exists>s'. create_artifacts yaml ev as s = Some s' \<and> fit s'"
proof (induction as arbitrary: s)
  case (Cons a as)
  from fit_create_artifact [OF Cons.prems(1), of a yaml ev] Cons.prems(2) obtain s1 where "create_artifact yaml ev a s = Some s1" "fit s1" by auto
  with Cons.IH [of s1] Cons.prems(2) show ?case by simp
qed simp

lemma fit_CreateArtifacts: "fit s \<Longrightarrow> \<forall>a \<in> set as. known a \<Longrightarrow> \<exists>s'. CreateArtifacts yaml order as s = Some s' \<and> fit s'"
proof -
  assume s: "fit s" and names: "\<forall>a \<in> set as. known a"
  note part = fit_updates(4) [OF s, of order as]
  from fit_create_artifacts [OF part names] obtain s2 where
    "create_artifacts yaml (event_type s) as (UpdatePartialAppStatus order as s) = Some s2" "fit s2" by blast
  with fit_updates part show ?thesis by (auto simp: CreateArtifacts_def Let_def)
qed

section \<open>Checks and cleaning\<close>

lemma fit_get_deployment:
  assumes s: "fit s" and run: "get_deployment a s = (r, s')"
  shows "fit s' \<and> (\<forall>d. r = Some d \<longrightarrow> ds_Replicas (dep_Spec d) \<noteq> None \<and>
    key_of (ODeployment d) = nn (ToLower (ap_Name a)) (sp_Namespace (the_sp s)))"
proof -
  obtain g w where get: "cl_Get c KDeployment (nn (ToLower (ap_Name a)) (sp_Namespace (the_sp s))) (ctl_cluster s) = (g, w)"
    by force
  from okw_get [OF get fitD(2) [OF s]] have w: "okw w"
    "\<forall>obj. g = Inr obj \<longrightarrow> obj_ok obj \<and> key_of obj = nn (ToLower (ap_Name a)) (sp_Namespace (the_sp s))" by auto
  have run': "r = (case g of Inr (ODeployment d) \<Rightarrow> Some d | _ \<Rightarrow> None)" "s' = with_cluster w s"
    using run get fitD(1) [OF s] by (simp_all add: get_deployment_def)
  show ?thesis using w s unfolding run' by (auto simp: obj_ok_def split: sum.splits kobject.splits)
qed

lemma fit_check_deployment: "fit s \<Longrightarrow> known a \<Longrightarrow> \<exists>s'. check_deployment a s = Some s' \<and> fit s'"
proof -
  assume s: "fit s" and a: "known a"
  obtain r s1 where get: "get_deployment a s = (r, s1)" by force
  note one = fit_get_deployment [OF s get]
  show ?thesis
  proof (cases r)
    case None
    with get one show ?thesis by (simp add: check_deployment_def)
  next
    case (Some d)
    let ?d = "d\<lparr>dep_Spec := (dep_Spec d)\<lparr>ds_Replicas := Some (ap_Replicas a)\<rparr>\<rparr>"
    from one Some obtain m where m: "ds_Replicas (dep_Spec d) = Some m" by blast
    obtain err w2 where upd: "cl_Update c (ODeployment ?d) (ctl_cluster s1) = (err, w2)" by force
    have s1: "fit s1" using one by blast
    from one Some have key: "key_of (ODeployment ?d) = nn (ToLower (ap_Name a)) (nn_Namespace key)"
      using fit_names [OF s] by (simp add: key_of_def)
    have own: "(KDeployment, nn (ToLower (ap_Name a)) (nn_Namespace key)) \<in> request_objects key N"
      by (rule named_object [OF a]) simp_all
    have "okw w2" by (rule okw_update [OF upd fitD(2) [OF s1]]) (use key own in \<open>simp_all add: obj_ok_def\<close>)
    then have "fit (with_cluster w2 s1)" using s1 by simp
    from fit_updates(1) [OF this] this s1 get Some m upd fitD(1) [OF s1] show ?thesis
      by (auto simp: check_deployment_def Let_def split: option.split)
  qed
qed

lemma fit_CheckDeployments: "fit s \<Longrightarrow> \<forall>a \<in> set as. known a \<Longrightarrow> \<exists>s'. CheckDeployments as s = Some s' \<and> fit s'"
proof (induction as arbitrary: s)
  case (Cons a as)
  from fit_check_deployment [OF Cons.prems(1), of a] Cons.prems(2) obtain s1 where
    "check_deployment a s = Some s1" "fit s1" by auto
  with Cons.IH [of s1] Cons.prems(2) show ?case by simp
qed simp

lemma fit_count_deployments: "fit s \<Longrightarrow> count_deployments as v s = (v', s') \<Longrightarrow> fit s'"
proof (induction as arbitrary: s v)
  case (Cons a as)
  obtain r s1 where get: "get_deployment a s = (r, s1)" by force
  from fit_get_deployment [OF Cons.prems(1) get] Cons.IH [of s1] get Cons.prems(2) show ?case by simp
qed simp

lemma fit_CheckAvailable:
  assumes s: "fit s" and run: "CheckAvailableDeployments as s = (t, s')"
  shows "fit s'"
proof -
  obtain v s1 where one: "count_deployments as zero_availability s = (v, s1)" by force
  let ?s2 = "UpdateReadyDeployments (av_available v) (av_need v) s1"
  have "fit ?s2" by (rule fit_updates(8) [OF fit_count_deployments [OF s one]])
  moreover have "s' \<in> {?s2, UpdateReadyStatus ?s2, UpdateNotReadytatus ?s2}"
    using run one by (auto simp: CheckAvailableDeployments_def Let_def split: if_splits)
  ultimately show ?thesis using fit_updates(6,7) by blast
qed

lemma fit_clean_artifact:
  assumes s: "fit s" and run: "clean_artifact i s = (err, s')"
  shows "fit s'"
proof -
  define ok where "ok s1 \<longleftrightarrow> ctl_KubeClient s1 = ctl_KubeClient s \<and> fit s1" for s1
  have running: "ok (UpdateRunningStatus r m s1)" if "ok s1" for r m s1
    using that fit_updates(3) by (simp add: ok_def)
  let ?ns = "sp_Namespace (the_sp s)" and ?n = "sp_Name (the_sp s) @ ''-'' @ Itoa (int i)"
  have delete: "ok (with_cluster w2 s1)"
    if "ok s1" "delete_kind kd (ctl_KubeClient s) n ?ns (ctl_cluster s1) = (e, w2)"
      "kd \<in> {KDeployment, KService, KPVC, KConfigMap}" "derived (nn_Name key) n" for s1 kd n e w2
    using that okw_delete [OF fitD(1) [OF s] _ that(2)] fit_names [OF s] by (auto simp: ok_def fitD request_objects_def)
  have deleted: "ok (with_cluster (snd (delete_kind kd (ctl_KubeClient s) (?n @ t) ?ns (ctl_cluster s1))) s1)"
    if "ok s1" "kd \<in> {KDeployment, KService, KPVC, KConfigMap}" for s1 kd t
    by (rule delete [OF that(1) prod.collapse [symmetric] that(2)]) (simp add: fit_names [OF s])
  have deleted': "ok (with_cluster (snd (delete_kind kd (ctl_KubeClient s) ?n ?ns (ctl_cluster s1))) s1)"
    if "ok s1" "kd \<in> {KDeployment, KService, KPVC, KConfigMap}" for s1 kd
    using deleted [OF that, of "[]"] by simp
  have "ok s" using s by (simp add: ok_def)
  then have "ok (snd (clean_artifact i s))"
    unfolding clean_artifact_def DeleteDeployment_def DeleteService_def DeletePVC_def DeleteConfigMap_def Let_def
      case_prod_beta if_distrib [where f = snd] snd_conv
    by (intro if_split [where P = ok, THEN iffD2] conjI impI deleted deleted' running; simp)
  with run show ?thesis by (simp add: ok_def)
qed

lemma fit_clean_artifacts: "fit s \<Longrightarrow> clean_artifacts is s = (err, s') \<Longrightarrow> fit s'"
proof (induction "is" arbitrary: s)
  case (Cons i "is")
  obtain e s1 where one: "clean_artifact i s = (e, s1)" by force
  from fit_clean_artifact [OF Cons.prems(1) one] Cons.prems(2) Cons.IH [of s1] one show ?case by (auto split: if_splits)
qed simp

section \<open>The parser\<close>

lemma okw_Parse:
  assumes k: "kc_Client (pr_KubeClient p) = c" and w: "okw w" and url: "urls_ok svc"
    and p: "pr_Name p = sp_Name (pr_SiddhiProcess p)" "nn (sp_Name (pr_SiddhiProcess p)) (sp_Namespace (pr_SiddhiProcess p)) = key"
  shows "\<exists>apps err w'. Parse yaml svc p w = Some ((apps, err), w') \<and> okw w'"
proof -
  let ?p = "createRequest p"
  have k': "kc_Client (dm_KubeClient (parser_manager ?p)) = c" "kc_Client (pr_KubeClient ?p) = c"
    using k by (simp_all add: parser_manager_def createRequest_def)
  have "parser_targets ?p \<subseteq> request_objects key N"
    using parser_targets_ns [of ?p N] p by (simp add: createRequest_def)
  then have own: "deploy_targets (parser_manager ?p) \<subseteq> request_objects key N"
    "(KService, nn (generatedParserName ?p) (sp_Namespace (pr_SiddhiProcess ?p))) \<in> request_objects key N"
    "(KDeployment, nn (sp_Name (pr_SiddhiProcess ?p) @ ParserExtension) (sp_Namespace (pr_SiddhiProcess ?p))) \<in> request_objects key N"
    "(KService, nn (sp_Name (pr_SiddhiProcess ?p) @ ParserExtension) (sp_Namespace (pr_SiddhiProcess ?p))) \<in> request_objects key N"
    by (simp_all add: parser_targets_def Let_def)
  from okw_Deploy [OF k'(1) w own(1)] obtain op err w1 where
    one: "Deploy yaml (parser_manager ?p) w = Some ((op, err, CreateLabels (parser_manager ?p)), w1)" "okw w1" by blast
  from okw_service [OF k'(2) one(2) own(2), of parser_ports
      "dm_Labels (CreateLabels (parser_manager ?p))" "OSiddhiProcess (pr_SiddhiProcess ?p)"] obtain op' err' w2 where
    svc: "CreateOrUpdateService (pr_KubeClient ?p) (generatedParserName ?p) (sp_Namespace (pr_SiddhiProcess ?p)) parser_ports
      (dm_Labels (CreateLabels (parser_manager ?p))) (OSiddhiProcess (pr_SiddhiProcess ?p)) w1 = Some ((op', err'), w2)" "okw w2"
    by blast
  have "\<exists>err w2. parser_deploy yaml svc ?p w = Some (err, w2) \<and> okw w2"
    unfolding parser_deploy_def one(1) using svc one(2) by (cases err; cases err') simp_all
  then obtain err2 w2 where two: "parser_deploy yaml svc ?p w = Some (err2, w2)" "okw w2" by blast
  from url have "psv_url_ok svc (parser_url ?p)" by (simp add: urls_ok_def parser_url_def)
  then have "invokeParser svc ?p (pr_Request ?p) w2 \<noteq> None"
    by (simp add: invokeParser_def split: sum.split option.split)
  then obtain r where inv: "invokeParser svc ?p (pr_Request ?p) w2 = Some r" by blast
  have clean: "okw w4" if run: "cleanParser ?p w2 = (e, w4)" for e w4
  proof -
    let ?n = "sp_Name (pr_SiddhiProcess ?p) @ ParserExtension" and ?ns = "sp_Namespace (pr_SiddhiProcess ?p)"
    obtain e1 w3 where one: "delete_kind KDeployment (pr_KubeClient ?p) ?n ?ns w2 = (e1, w3)" by force
    from run one have "w4 = w3 \<or> delete_kind KService (pr_KubeClient ?p) ?n ?ns w3 = (e, w4)"
      by (cases e1) (simp_all add: cleanParser_def DeleteDeployment_def DeleteService_def)
    with okw_delete [OF k'(2) two(2) one own(3)] okw_delete [OF k'(2) _ _ own(4)] show ?thesis by blast
  qed
  show ?thesis
  proof (cases r)
    case (Inl e)
    with two inv show ?thesis by (simp add: Parse_def Let_def)
  next
    case (Inr acs)
    obtain as e where mk: "make_applications (sp_Name (pr_SiddhiProcess ?p)) 0 acs [] = (as, e)" by force
    obtain e3 w3 where cl: "cleanParser ?p w2 = (e3, w3)" by force
    show ?thesis using two inv Inr mk cl clean [OF cl] by (cases e) (simp_all add: Parse_def Let_def)
  qed
qed

section \<open>Reconcile\<close>

lemma okw_read_siddhi_apps:
  "kc_Client (env_KubeClient env) = c \<Longrightarrow> okw w \<Longrightarrow> read_siddhi_apps env sp i as acc cmc w = (r, cmc', w') \<Longrightarrow> okw w'"
proof (induction as arbitrary: i acc cmc w)
  case (Cons a as)
  show ?case
  proof (cases "app_ConfigMap a = []")
    case True
    with Cons.IH [OF Cons.prems(1,2)] Cons.prems(3) show ?thesis by (simp add: Let_def)
  next
    case False
    obtain g w1 where get: "cl_Get c KConfigMap (nn (app_ConfigMap a) (sp_Namespace sp)) w = (g, w1)" by force
    from okw_get [OF get Cons.prems(2)] have w1: "okw w1" by blast
    from Cons.IH [OF Cons.prems(1) w1] Cons.prems(1,3) False get w1 show ?thesis
      by (cases g) (simp_all add: Let_def)
  qed
qed simp

lemma fit_populate:
  assumes s: "fit s" and url: "urls_ok (env_parser_service env)" and p: "kc_Client (pr_KubeClient p) = c"
    "pr_SiddhiProcess p = the_sp s" "pr_Name p = sp_Name (the_sp s)"
  shows "\<exists>apps err spc' s'. populateSiddhiApps env p spc s = Some ((apps, err), spc', s') \<and> fit s'"
proof -
  from okw_Parse [OF p(1) fitD(2) [OF s] url, of "env_yaml env"] p(2,3) fitD(3) [OF s, unfolded sp_key_def] obtain apps err w1 where
    parse: "Parse (env_yaml env) (env_parser_service env) p (ctl_cluster s) = Some ((apps, err), w1)" "okw w1" by auto
  then have s1: "fit (with_cluster w1 s)" using s by simp
  obtain e s2 where clean: "CleanArtifacts (apps_of spc (sp_Name (the_sp s))) apps (with_cluster w1 s) = (e, s2)" by force
  from fit_clean_artifacts [OF s1] clean have "fit s2" by (simp add: CleanArtifacts_def)
  with parse clean s s1 show ?thesis
    by (cases err; cases e) (auto simp: populateSiddhiApps_def Let_def split: option.split)
qed

lemma fit_warn:
  assumes k: "kc_Client (env_KubeClient env) = c" and s: "fit s" and run: "warn_messaging env logged s = (logged', s')"
  shows "fit s'"
proof -
  obtain ok w1 where check: "CheckMessagingSystem (messaging_of env s) (ctl_cluster s) = (ok, w1)" by force
  from okw_check_messaging [OF _ fitD(2) [OF s] check] k have "fit (with_cluster w1 s)" using s by (simp add: messaging_of_def)
  with fit_updates(2) [OF this] run check s show ?thesis by (auto simp: warn_messaging_def Let_def split: if_splits)
qed

lemma fit_deploy_all:
  assumes k: "kc_Client (env_KubeClient env) = c" and s: "fit s" and names: "named (nn_Name key) N apps"
  shows "\<exists>err s'. deploy_all env apps s = Some (err, s') \<and> fit s'"
proof -
  obtain e1 w1 where nats: "CreateMessagingSystem (messaging_of env s) apps (ctl_cluster s) = (e1, w1)" by force
  have "okw w1"
    by (rule okw_messaging [OF _ fitD(2) [OF s] nats]) (use k fit_names [OF s] in \<open>simp_all add: messaging_of_def request_objects_def\<close>)
  with s have s1: "fit (with_cluster w1 s)" by simp
  from names have names: "\<forall>a \<in> set apps. known a" by (simp add: named_def)
  from fit_CreateArtifacts [OF s1 names, of "env_yaml env" "env_apps_order env"] obtain s2 where
    two: "CreateArtifacts (env_yaml env) (env_apps_order env) apps (with_cluster w1 s) = Some s2" "fit s2" by blast
  from fit_CheckDeployments [OF two(2) names] two nats fit_updates(1) [OF s1] show ?thesis
    by (cases e1) (auto simp: deploy_all_def)
qed

lemma reconcile_apps_total:
  assumes k: "kc_Client (env_KubeClient env) = c" and s: "fit s" and url: "urls_ok (env_parser_service env)"
    and N: "N = stored_names (os_SPContainer st) (nn_Name key)"
  shows "\<exists>r st'. reconcile_apps env request changed s st = Some (r, st') \<and> okw (os_cluster st')"
proof -
  define s2 where "s2 = (let s1 = SetNotReadyState (SetDefaultPendingState s) in if changed then s1 else UpgradeVersion s1)"
  have s2: "fit s2" using fit_updates(10-12) s by (simp add: s2_def Let_def)
  obtain texts e1 cmc w3 where read: "getSiddhiApps env (the_sp s2) (os_CMContainer st) (ctl_cluster s2) = ((texts, e1), cmc, w3)"
    by (metis prod.collapse)
  define s3 where "s3 = with_cluster w3 s2"
  have s3: "fit s3" using okw_read_siddhi_apps [OF k fitD(2) [OF s2]] read s2 by (simp add: getSiddhiApps_def s3_def)
  obtain logged s4 where warn: "warn_messaging env (os_LoggedMessagingAvailability st) s3 = (logged, s4)" by force
  note s4 = fit_warn [OF k s3 warn]
  define p where "p = new_parser env texts s4"
  have p: "kc_Client (pr_KubeClient p) = c" "pr_SiddhiProcess p = the_sp s4" "pr_Name p = sp_Name (the_sp s4)"
    using k by (simp_all add: p_def new_parser_def Let_def)
  from fit_populate [OF s4 url p, of "os_SPContainer st"] obtain apps e5 spc s5 where
    pop: "populateSiddhiApps env p (os_SPContainer st) s4 = Some ((apps, e5), spc, s5)" "fit s5" by blast
  note run = read warn pop(1)
  note defs = reconcile_apps_def s2_def [unfolded Let_def, symmetric] s3_def [symmetric] p_def [symmetric] leave_def Let_def
  note oks = fitD(2) [OF fit_updates(1) [OF s3]] fitD(2) [OF fit_updates(1) [OF pop(2)]]
  show ?thesis
  proof (cases "e1 = None \<and> e5 = None")
    case True
    with populate_named [of env p "os_SPContainer st" s4 apps spc s5] pop(1) p(2) fit_names(1) [OF s4] N
    have "named (nn_Name key) N apps" by simp
    from fit_deploy_all [OF k pop(2) this] obtain e6 s6 where dep: "deploy_all env apps s5 = Some (e6, s6)" "fit s6" by blast
    with fitD(2) [OF dep(2)] True run show ?thesis by (cases e6) (simp_all add: defs)
  next
    case False
    with run oks show ?thesis by (cases e1; cases e5) (simp_all add: defs)
  qed
qed

lemma reconcile_process_total:
  assumes k: "kc_Client (env_KubeClient env) = c" and w: "okw (os_cluster st)" and url: "urls_ok (env_parser_service env)"
    and sp: "nn (sp_Name sp) (sp_Namespace sp) = key" and N: "N = stored_names (os_SPContainer st) (nn_Name key)"
  shows "\<exists>r st'. reconcile_process env request changed sp st = Some (r, st') \<and> okw (os_cluster st')"
proof -
  define s1 where "s1 = UpdateDefaultConfigs (env_getenv env) (new_controller env sp st)"
  have "fit (new_controller env sp st)" using k w sp by (simp add: fit_ctl_def sp_key_def)
  then have s1: "fit s1" unfolding s1_def by (rule fit_UpdateDefaultConfigs)
  obtain t s2 where chk: "CheckAvailableDeployments (apps_of (os_SPContainer st) (sp_Name sp)) s1 = (t, s2)" by force
  from fitD(2) [OF fit_CheckAvailable [OF s1 chk]] chk reconcile_apps_total [OF k s1 url N, of request changed] show ?thesis
    by (auto simp: reconcile_process_def s1_def [symmetric] leave_def Let_def)
qed

lemma Reconcile_request:
  assumes k: "kc_Client (env_KubeClient env) = c" and w: "okw (os_cluster st)" and url: "urls_ok (env_parser_service env)"
    and target: "read_target c request st = key" and N: "N = stored_names (os_SPContainer st) (nn_Name key)"
  shows "\<exists>r st'. Reconcile env request st = Some (r, st') \<and> okw (os_cluster st')"
proof -
  obtain g1 w1 where one: "cl_Get c KConfigMap request (os_cluster st) = (g1, w1)" by force
  have key: "(if (case g1 of Inr _ \<Rightarrow> True | Inl _ \<Rightarrow> False)
    then request\<lparr>nn_Name := cml_SiddhiProcess (listener (os_CMContainer st) (nn_Name request))\<rparr> else request) = key"
    using target one by (cases g1) (simp_all add: read_target_def)
  obtain g2 w2 where two: "cl_Get c KSiddhiProcess key w1 = (g2, w2)" by force
  from okw_get [OF one w] have w1: "okw w1" by blast
  note w2 = okw_get [OF two w1]
  show ?thesis
  proof (cases g2)
    case (Inl e)
    with one two k w2 show ?thesis by (auto simp: Reconcile_def key Let_def)
  next
    case (Inr obj)
    with w2 obtain sp where sp: "g2 = Inr (OSiddhiProcess sp)" "nn (sp_Name sp) (sp_Namespace sp) = key"
      by (auto simp: kind_of_eqs key_of_process)
    with one two k reconcile_process_total [OF k _ url sp(2), of "st\<lparr>os_cluster := w2\<rparr>"] w2 N show ?thesis
      by (simp add: Reconcile_def key Let_def)
  qed
qed

end

context kube_reads
begin

lemma Reconcile_total:
  assumes "kc_Client (env_KubeClient env) = c" and "okw (os_cluster st)" and "urls_ok (env_parser_service env)"
  shows "\<exists>r st'. Reconcile env request st = Some (r, st') \<and> okw (os_cluster st')"
  using kube_request.Reconcile_request [OF kube_request.intro [OF owned_laws] assms refl refl] .

text \<open>What is written, with a log.\<close>

lemma Reconcile_audited:
  assumes k: "kc_Client (env_KubeClient env) = audited c" and w: "okw (fst (os_cluster st))" "snd (os_cluster st) = []"
    and url: "urls_ok (env_parser_service env)" and key: "key = read_target (audited c) request st"
  shows "\<exists>r st'. Reconcile env request st = Some (r, st') \<and>
    set (snd (os_cluster st')) \<subseteq> request_objects key (stored_names (os_SPContainer st) (nn_Name key))"
proof -
  let ?N = "stored_names (os_SPContainer st) (nn_Name key)"
  from kube_owned.audited_laws [OF owned_laws, of "request_objects key ?N"]
  have "kube_request (audited c) (\<lambda>p. look (fst p)) (\<lambda>p. inv (fst p) \<and> set (snd p) \<subseteq> request_objects key ?N) key ?N"
    by (rule kube_request.intro)
  note run = kube_request.Reconcile_request [OF this k _ url key [symmetric] refl]
  have "\<exists>r st'. Reconcile env request st = Some (r, st') \<and> (inv (fst (os_cluster st')) \<and>
      set (snd (os_cluster st')) \<subseteq> request_objects key ?N) \<and> sound (look (fst (os_cluster st')))"
    by (rule run) (use w in simp)
  then show ?thesis by blast
qed

end

interpretation audited_request: kube_request "audited loose_client" "\<lambda>p. loose_look (fst p)"
    "\<lambda>p. loose_inv (fst p) \<and> set (snd p) \<subseteq> request_objects key N" key N for key N
  by (rule kube_request.intro [OF audited_loose.kube_owned_axioms])

section \<open>Properties\<close>

text \<open>
  C22: no panic. When the ingresses and deployments that can be read are well formed, and the URLs of the
  parser service can be parsed, every request returns: however often calls fail, whatever others do between its
  calls, and however far what is read lags behind what was written; and what can be read afterwards is well formed.
\<close>

theorem Reconcile_never_panics:
  assumes "kube_reads (kc_Client (env_KubeClient env)) look valid" and "valid (os_cluster st)"
    and "sound (look (os_cluster st))" and "urls_ok (env_parser_service env)"
  shows "\<exists>r st'. Reconcile env request st = Some (r, st') \<and> valid (os_cluster st') \<and> sound (look (os_cluster st'))"
  using kube_reads.Reconcile_total [OF assms(1) refl _ assms(4)] assms(2,3) by blast

text \<open>
  A server that denies two calls, and a copy that still has the process, which is gone from the server; the
  copy is brought up to date before the third call.
\<close>

definition env_over :: "'w client \<Rightarrow> 'w environment" where
  "env_over c = \<lparr>env_KubeClient = \<lparr>kc_Client = c, kc_Scheme = sample_scheme\<rparr>, env_yaml = sample_yaml,
     env_parser_service = \<lparr>psv_get = (\<lambda>client url w. None), psv_url_ok = (\<lambda>url. True),
       psv_do = (\<lambda>url body w. Inr \<lparr>hr_StatusCode = 200, hr_Body = Marshal_app_configs sample_answer\<rparr>),
       psv_json_error = (\<lambda>body. Failure ''json'')\<rparr>,
     env_getenv = (\<lambda>_. []), env_data_order = (\<lambda>_ m. m), env_apps_order = (\<lambda>_ m. m)\<rparr>"

definition start_over :: "'w \<Rightarrow> 'w op_state" where
  "start_over w = \<lparr>os_SPContainer = Map.empty, os_CMContainer = Map.empty, os_LoggedMessagingAvailability = False,
     os_events = [], os_cluster = w\<rparr>"

definition loose_start :: loose where
  "loose_start = (((empty_tracker, sample_unread), [id, id, synchronize]),
     [None, None, None, Some ''conflict'', None, Some ''denied''])"

lemma loose_start_ok: "loose_inv loose_start" "sound (loose_look loose_start)"
proof -
  have "harmless (\<lambda>p. tracker_look (snd p)) behind_inv synchronize"
    using cached_reads.synchronize_harmless by (simp add: behind_inv_def [abs_def])
  moreover have "sound (tracker_look empty_tracker)" by (simp add: sound_def tracker_empty)
  ultimately show "loose_inv loose_start"
    by (simp add: loose_inv_def loose_start_def behind_inv_def harmless_def)
  show "sound (loose_look loose_start)"
    by (auto simp: loose_look_def loose_start_def sound_def sample_unread_look obj_ok_def)
qed

lemma env_over_simps [simp]:
  "kc_Client (env_KubeClient (env_over c)) = c" "urls_ok (env_parser_service (env_over c))" "os_cluster (start_over w) = w"
  "os_SPContainer (start_over w) = Map.empty" "os_CMContainer (start_over w) = Map.empty"
  by (simp_all add: env_over_def start_over_def urls_ok_def)

theorem Reconcile_never_panics_witness:
  "\<exists>r st'. Reconcile (env_over loose_client) sample_request (start_over loose_start) = Some (r, st') \<and>
     sound (loose_look (os_cluster st'))"
  using Reconcile_never_panics [of "env_over loose_client" loose_look loose_inv "start_over loose_start" sample_request]
    loose_start_ok loose_reads.kube_reads_axioms by auto

text \<open>
  C6: a request writes the objects of its process only. Every object that a request creates, updates, deletes or
  whose status it updates, or tries to, is the process, one of the shared objects of its namespace, or an object there
  whose name derives from that of the process or of one of the applications stored for it: whatever the server
  answers, whatever others do between the calls, and however old what is read. The process is the one
  named by the request, or by the listener of the config map with that name.
\<close>

theorem Reconcile_writes_own_objects:
  assumes "kube_reads c look valid" and "valid w" and "sound (look w)" and "os_cluster st = (w, [])"
    and "kc_Client (env_KubeClient env) = audited c" and "urls_ok (env_parser_service env)"
  shows "\<exists>key r st'. (key = request \<or>
      key = request\<lparr>nn_Name := cml_SiddhiProcess (listener (os_CMContainer st) (nn_Name request))\<rparr>) \<and>
    Reconcile env request st = Some (r, st') \<and>
    set (snd (os_cluster st')) \<subseteq> request_objects key (stored_names (os_SPContainer st) (nn_Name key))"
proof -
  have "read_target (audited c) request st \<in>
      {request, request\<lparr>nn_Name := cml_SiddhiProcess (listener (os_CMContainer st) (nn_Name request))\<rparr>}"
    by (simp add: read_target_def split: sum.split)
  with kube_reads.Reconcile_audited [OF assms(1,5) _ _ assms(6) refl, of st request] assms(2-4) show ?thesis by fastforce
qed

theorem Reconcile_writes_own_objects_witness:
  "\<exists>r st'. Reconcile (env_over (audited loose_client)) sample_request (start_over (loose_start, [])) = Some (r, st') \<and>
    set (snd (os_cluster st')) \<subseteq> request_objects sample_request {} \<union> request_objects (sample_request\<lparr>nn_Name := []\<rparr>) {}"
proof -
  have "stored_names Map.empty n = {}" for n by (simp add: stored_names_def apps_of_def)
  moreover have "cml_SiddhiProcess (listener Map.empty n) = []" for n by (simp add: listener_def)
  ultimately show ?thesis
    using Reconcile_writes_own_objects [OF loose_reads.kube_reads_axioms loose_start_ok, of "start_over (loose_start, [])"
        "env_over (audited loose_client)" sample_request] by fastforce
qed

end
