(* ===== verification/Rollout.thy ===== *)
theory Rollout
  imports Deployed
begin

text \<open>
  A request from end to end on a server that answers: the process is read, its apps are parsed by the
  parser the operator deploys for the purpose, old artifacts are cleaned, messaging is set up, and
  every application of the answer is deployed, scaled, and stored in the container.
\<close>

section \<open>What the steps before the deployment keep\<close>

text \<open>
  Parsing and cleaning leave the ingress alone, add no deployment and keep those of the two NATS
  operators.
\<close>

definition nats_operators :: "(kind \<Rightarrow> namespaced_name \<Rightarrow> kobject option) \<Rightarrow> string \<Rightarrow> bool" where
  "nats_operators l ns \<longleftrightarrow> (\<forall>name \<in> {NATSOperatorName, STANOperatorName}. l KDeployment (nn name ns) \<noteq> None)"

definition quiet :: "string \<Rightarrow> (kind \<Rightarrow> namespaced_name \<Rightarrow> kobject option) \<Rightarrow>
    (kind \<Rightarrow> namespaced_name \<Rightarrow> kobject option) \<Rightarrow> bool" where
  "quiet ns l l' \<longleftrightarrow> l' KIngress = l KIngress \<and>
     (\<forall>n. l' KDeployment n = l KDeployment n \<or> l' KDeployment n = None) \<and>
     (\<forall>name \<in> {NATSOperatorName, STANOperatorName}. l' KDeployment (nn name ns) = l KDeployment (nn name ns))"

lemma quiet_refl [simp]: "quiet ns l l"
  by (simp add: quiet_def)

lemma quiet_trans: "quiet ns l l' \<Longrightarrow> quiet ns l' l'' \<Longrightarrow> quiet ns l l''"
  unfolding quiet_def by metis

lemma quiet_same: "l' KIngress = l KIngress \<Longrightarrow> l' KDeployment = l KDeployment \<Longrightarrow> quiet ns l l'"
  by (simp add: quiet_def)

lemma quiet_keeps:
  assumes "quiet ns l l'"
  shows "rules_at l' ns = rules_at l ns" and "replicas_set l \<Longrightarrow> replicas_set l'"
    and "nats_operators l ns \<Longrightarrow> nats_operators l' ns"
proof -
  from assms show "rules_at l' ns = rules_at l ns" and "nats_operators l ns \<Longrightarrow> nats_operators l' ns"
    by (simp_all add: quiet_def rules_at_def nats_operators_def)
  show "replicas_set l'" if "replicas_set l"
    using that assms unfolding replicas_set_def quiet_def by (metis option.distinct(1))
qed

text \<open>No name the operator gives to a deployment is one of the NATS operators.\<close>

lemma not_nats_parser: "name @ ParserExtension \<notin> {NATSOperatorName, STANOperatorName}"
proof
  assume "name @ ParserExtension \<in> {NATSOperatorName, STANOperatorName}"
  then have "take 3 (rev (name @ ParserExtension)) = ''rot''"
    by (auto simp del: rev_append simp: NATSOperatorName_def STANOperatorName_def)
  then show False by (simp add: ParserExtension_def)
qed

lemma not_nats_numbered: "name @ Itoa i \<notin> {NATSOperatorName, STANOperatorName}"
proof
  assume "name @ Itoa i \<in> {NATSOperatorName, STANOperatorName}"
  then have "last (name @ Itoa i) = CHR ''r''"
    by (auto simp del: last_append last_appendR simp: NATSOperatorName_def STANOperatorName_def)
  with last_Itoa [of i] have "is_digit (CHR ''r'')" by simp
  then show False using is_digit_range by fastforce
qed

text \<open>The names of the applications of an answer.\<close>

lemma answer_names:
  assumes "make_applications spName 0 acs [] = (apps, None)"
  shows "distinct (map ap_Name apps)" and "a \<in> set apps \<Longrightarrow> ap_Name a \<noteq> spName"
    and "a \<in> set apps \<Longrightarrow> ToLower spName = spName \<Longrightarrow> ToLower (ap_Name a) = ap_Name a"
proof -
  from make_applications_spec [OF assms] obtain names where
    r: "apps = map (\<lambda>j. make_application spName j (acs ! j) (names ! j)) [0..<length names]" by auto
  have name: "ap_Name (make_application spName j ac n) = spName @ ''-'' @ Itoa (int j)" for j ac n
    by (simp add: make_application_def Let_def)
  have "distinct (map (\<lambda>j. spName @ ''-'' @ Itoa (int j)) [0..<m])" for m
    by (simp add: distinct_map inj_on_def Itoa_inj)
  then show "distinct (map ap_Name apps)" by (simp add: r name o_def)
  show "ap_Name a \<noteq> spName" if "a \<in> set apps" using that by (auto simp: r name)
  show "ToLower (ap_Name a) = ap_Name a" if a: "a \<in> set apps" and low: "ToLower spName = spName"
  proof -
    have "\<not> is_upper c" if "c \<in> set (''-'' @ Itoa (int j))" for c j
      using that by (auto simp: is_upper_def less_eq_char_def dest!: Itoa_chars is_digit_range)
    then have "ToLower (''-'' @ Itoa (int j)) = ''-'' @ Itoa (int j)" for j by (blast intro: ToLower_id)
    with a low show ?thesis by (auto simp: r name simp del: append.simps)
  qed
qed

context kube_live
begin

lemma Parse_quiet:
  assumes k: "kc_Client (pr_KubeClient p) = c" and w: "inv w" and svc: "parser_answers svc p look acs"
    and named: "\<forall>ac \<in> set acs. \<exists>n. getAppName (ac_SiddhiApp ac) = Inr n"
    and name: "pr_Name p = sp_Name (pr_SiddhiProcess p)"
  shows "\<exists>apps w'. Parse yaml svc p w = Some ((apps, None), w') \<and> inv w' \<and>
    quiet (sp_Namespace (pr_SiddhiProcess p)) (look w) (look w') \<and>
    make_applications (sp_Name (pr_SiddhiProcess p)) 0 acs [] = (apps, None)"
proof -
  let ?n = "sp_Name (pr_SiddhiProcess p) @ ParserExtension" and ?ns = "sp_Namespace (pr_SiddhiProcess p)"
  from Parse_live [OF k w svc named, of yaml] obtain apps w' where
    run: "Parse yaml svc p w = Some ((apps, None), w')" "inv w'" and
    t: "touches (look w) (look w') (parser_targets p)" and gone: "parser_removed p (look w')" and
    apps: "make_applications (sp_Name (pr_SiddhiProcess p)) 0 acs [] = (apps, None)" by blast
  have dep: "look w' KDeployment n = look w KDeployment n" if "n \<noteq> nn ?n ?ns" for n
    using that name
    by (intro touchesD [OF t])
      (auto simp: parser_targets_def deploy_targets_def parser_manager_def generatedParserName_def Let_def)
  moreover have "look w' KIngress = look w KIngress"
    using t by (rule touches_kind) (auto simp: parser_targets_def deploy_targets_def Let_def)
  moreover have "nn x ?ns \<noteq> nn ?n ?ns" if "x \<in> {NATSOperatorName, STANOperatorName}" for x
    using that not_nats_parser by (metis nn_eq)
  ultimately have "quiet ?ns (look w) (look w')"
    using gone unfolding quiet_def parser_removed_def Let_def by metis
  with run apps show ?thesis by blast
qed

lemma clean_quiet:
  assumes "removed l (\<Union>i \<in> I. clean_targets spName ns version i) key l'"
  shows "quiet ns l l'"
proof -
  have "(KDeployment, nn x ns) \<notin> (\<Union>i \<in> I. clean_targets spName ns version i)"
    if "x \<in> {NATSOperatorName, STANOperatorName}" for x
  proof -
    have "spName @ ''-'' @ Itoa (int i) \<noteq> x" for i using that not_nats_numbered [of "spName @ ''-''" "int i"] by auto
    then show ?thesis by (auto simp: clean_targets_def Let_def)
  qed
  with assms show ?thesis
    by (auto simp: quiet_def removed_def clean_targets_def fun_eq_iff Let_def)
qed

lemma clean_artifacts_status:
  assumes "kc_Client (ctl_KubeClient s) = c" and "inv (ctl_cluster s)"
  shows "sp_Status (the_sp (snd (clean_artifacts is s))) = sp_Status (the_sp s)"
  using assms
proof (induction "is" arbitrary: s)
  case (Cons i "is")
  from clean_artifact_live [OF Cons.prems, of i] obtain s1 where
    one: "clean_artifact i s = (None, s1)" "same_ctl s s1" "inv (ctl_cluster s1)"
    "sp_Status (the_sp s1) = sp_Status (the_sp s)" by blast
  with Cons.IH [OF _ one(3)] Cons.prems show ?case by (simp add: same_ctl_def)
qed simp

lemma populate_live:
  assumes k: "kc_Client (ctl_KubeClient s) = c" and w: "inv (ctl_cluster s)"
    and p: "pr_KubeClient p = ctl_KubeClient s" "pr_SiddhiProcess p = the_sp s" "pr_Name p = sp_Name (the_sp s)"
    and svc: "parser_answers (env_parser_service env) p look acs"
    and named: "\<forall>ac \<in> set acs. \<exists>n. getAppName (ac_SiddhiApp ac) = Inr n"
    and need: "lt64 (st_PreviousVersion (sp_Status (the_sp s))) (st_CurrentVersion (sp_Status (the_sp s))) \<or>
      spc (sp_Name (the_sp s)) = None"
  shows "\<exists>apps s'. populateSiddhiApps env p spc s = Some ((apps, None), spc(sp_Name (the_sp s) \<mapsto> apps), s') \<and>
    same_ctl s s' \<and> inv (ctl_cluster s') \<and> sp_Status (the_sp s') = sp_Status (the_sp s) \<and>
    quiet (sp_Namespace (the_sp s)) (look (ctl_cluster s)) (look (ctl_cluster s')) \<and>
    make_applications (sp_Name (the_sp s)) 0 acs [] = (apps, None)"
proof -
  let ?name = "sp_Name (the_sp s)" and ?ns = "sp_Namespace (the_sp s)" and ?st = "sp_Status (the_sp s)"
  from Parse_quiet [of p "ctl_cluster s" "env_parser_service env" acs "env_yaml env"] k w p svc named obtain apps w1 where
    parse: "Parse (env_yaml env) (env_parser_service env) p (ctl_cluster s) = Some ((apps, None), w1)" "inv w1"
    "quiet ?ns (look (ctl_cluster s)) (look w1)" "make_applications ?name 0 acs [] = (apps, None)"
    by auto
  let ?s1 = "with_cluster w1 s"
  show ?thesis
  proof (cases "lt64 (st_PreviousVersion ?st) (st_CurrentVersion ?st)")
    case False
    with need parse show ?thesis by (auto simp: populateSiddhiApps_def Let_def)
  next
    case True
    let ?is = "[length apps..<length (apps_of spc ?name)]"
    have k1: "kc_Client (ctl_KubeClient ?s1) = c" "inv (ctl_cluster ?s1)" using k parse(2) by simp_all
    from clean_artifacts_live [OF k1, of ?is] clean_artifacts_status [OF k1, of ?is] obtain s2 where
      clean: "clean_artifacts ?is ?s1 = (None, s2)" "same_ctl ?s1 s2" "inv (ctl_cluster s2)"
      "sp_Status (the_sp s2) = ?st" and
      gone: "removed (look w1) (\<Union>i \<in> set ?is. clean_targets ?name ?ns (st_PreviousVersion ?st) i)
        (sp_key s) (look (ctl_cluster s2))" by auto
    have "populateSiddhiApps env p spc s = Some ((apps, None), spc(?name \<mapsto> apps), s2)"
      using True parse(1) clean(1) by (simp add: populateSiddhiApps_def CleanArtifacts_def Let_def)
    moreover have "same_ctl s s2" by (rule same_ctl_trans [OF with_cluster_fields(5) clean(2)])
    ultimately show ?thesis using parse clean quiet_trans [OF parse(3) clean_quiet [OF gone]] by blast
  qed
qed

text \<open>Messaging, artifacts, scaling.\<close>

lemma CreateNATS_live:
  assumes k: "kc_Client k = c" and w: "inv w"
  shows "\<exists>w'. CreateNATS k ns w = (None, w')"
proof -
  have total: "\<exists>w'. get_or_create c obj w = (None, w')" if "inv w" for obj w
  proof (cases "look w (kind_of obj) (key_of obj)")
    case None
    from get_none [OF that None] obtain e w1 where get: "cl_Get c (kind_of obj) (key_of obj) w = (Inl e, w1)" "IsNotFound e"
      by blast
    from get_look [OF get(1) that] None create_total [of w1 obj] get show ?thesis
      by (auto simp: get_or_create_def)
  next
    case (Some srv)
    from get_total [OF that Some] show ?thesis by (auto simp: get_or_create_def)
  qed
  from total [OF w, of "ONatsCluster (nats_object ns)"] obtain w1 where
    one: "get_or_create c (ONatsCluster (nats_object ns)) w = (None, w1)" by blast
  from get_or_create_result [OF w one] have "inv w1" by simp
  from total [OF this, of "OStanCluster (stan_object ns)"] one k show ?thesis by (auto simp: CreateNATS_def)
qed

lemma CreateMessagingSystem_live:
  assumes k: "kc_Client (mg_KubeClient m) = c" and w: "inv w"
  defines "ms \<equiv> sps_MessagingSystem (sp_Spec (mg_SiddhiProcess m))" and "ns \<equiv> sp_Namespace (mg_SiddhiProcess m)"
  assumes ok: "TypeDefined ms \<Longrightarrow> EmptyConfig ms \<Longrightarrow> nats_operators (look w) ns"
  shows "\<exists>w'. CreateMessagingSystem m apps w = (None, w') \<and> inv w' \<and>
    touches (look w) (look w') {(KNatsCluster, nn NATSClusterName ns), (KStanCluster, nn STANClusterName ns)}"
proof (cases "TypeDefined ms \<and> EmptyConfig ms \<and> persistence_wanted apps")
  case False
  with w show ?thesis by (auto simp: CreateMessagingSystem_def Let_def ms_def)
next
  case True
  have low: "ToLower NATSOperatorName = NATSOperatorName" "ToLower STANOperatorName = STANOperatorName"
    by (simp_all add: ToLower_id NATSOperatorName_def STANOperatorName_def is_upper_def)
  from True ok have ops: "nats_operators (look w) ns" by blast
  have found: "\<exists>w1. GetDeployment (mg_KubeClient m) name ns v = (Some d, w1) \<and> inv w1 \<and> look w1 = look v"
    if "inv v" "look v KDeployment (nn name ns) = Some (ODeployment d)" "ToLower name = name" for v name d
    using GetDeployment_total [OF k that(1), of name ns] that by auto
  from ops obtain o1 o2 where "look w KDeployment (nn NATSOperatorName ns) = Some o1"
    "look w KDeployment (nn STANOperatorName ns) = Some o2" by (auto simp: nats_operators_def)
  with look_obj [OF w] obtain d1 d2 where d: "look w KDeployment (nn NATSOperatorName ns) = Some (ODeployment d1)"
    "look w KDeployment (nn STANOperatorName ns) = Some (ODeployment d2)" by (metis kind_of_eqs(1))
  from found [OF w d(1) low(1)] obtain w1 where
    one: "GetDeployment (mg_KubeClient m) NATSOperatorName ns w = (Some d1, w1)" "inv w1" "look w1 = look w" by blast
  from found [OF one(2), of STANOperatorName d2] one(3) d(2) low(2) obtain w2 where
    two: "GetDeployment (mg_KubeClient m) STANOperatorName ns w1 = (Some d2, w2)" "inv w2" "look w2 = look w" by auto
  from CreateNATS_live [OF k two(2)] obtain w3 where nats: "CreateNATS (mg_KubeClient m) ns w2 = (None, w3)" by blast
  have "CreateMessagingSystem m apps w = (None, w3)"
    using True one(1) two(1) nats by (simp add: CreateMessagingSystem_def CheckMessagingSystem_def Let_def ms_def ns_def)
  with NATS_result [OF k two(2) nats] two(3) show ?thesis by (simp add: touches_def)
qed

lemma deploy_all_live:
  assumes k: "kc_Client (ctl_KubeClient s) = c" and env: "env_KubeClient env = ctl_KubeClient s" and w: "inv (ctl_cluster s)"
    and ok: "deployable (env_yaml env) s apps (look (ctl_cluster s))" and ev: "event_type s \<noteq> OperationResultNone"
    and low: "\<forall>a \<in> set apps. ToLower (ap_Name a) = ap_Name a"
    and ms: "TypeDefined (sps_MessagingSystem (sp_Spec (the_sp s))) \<Longrightarrow>
      EmptyConfig (sps_MessagingSystem (sp_Spec (the_sp s))) \<Longrightarrow> nats_operators (look (ctl_cluster s)) (sp_Namespace (the_sp s))"
  shows "\<exists>s'. deploy_all env apps s = Some (None, s') \<and> same_ctl s s' \<and> inv (ctl_cluster s') \<and>
    (\<forall>a \<in> set apps. application_scaled s a (look (ctl_cluster s')))"
proof -
  let ?m = "messaging_of env s"
  have m: "kc_Client (mg_KubeClient ?m) = c" "mg_SiddhiProcess ?m = the_sp s" using k env by (simp_all add: messaging_of_def)
  from CreateMessagingSystem_live [OF m(1) w, unfolded m(2), OF ms] obtain w1 where
    one: "CreateMessagingSystem ?m apps (ctl_cluster s) = (None, w1)" "inv w1" and
    t: "touches (look (ctl_cluster s)) (look w1) {(KNatsCluster, nn NATSClusterName (sp_Namespace (the_sp s))),
      (KStanCluster, nn STANClusterName (sp_Namespace (the_sp s)))}" by blast
  let ?s1 = "with_cluster w1 s"
  have k1: "kc_Client (ctl_KubeClient ?s1) = c" "inv (ctl_cluster ?s1)" using k one(2) by simp_all
  have "look w1 kd = look (ctl_cluster s) kd" if "kd \<in> {KIngress, KDeployment, KPVC}" for kd
    using t that by (auto intro: touches_kind)
  with deployable_step [OF with_cluster_fields(5) [of s w1]] ok
  have ok1: "deployable (env_yaml env) ?s1 apps (look (ctl_cluster ?s1))" by simp
  have ev1: "event_type ?s1 \<noteq> OperationResultNone" using ev by (simp add: event_type_def)
  from CreateArtifacts_live [OF k1 ok1 ev1, of "env_apps_order env"] obtain s2 where
    two: "CreateArtifacts (env_yaml env) (env_apps_order env) apps ?s1 = Some s2" "same_ctl ?s1 s2" "inv (ctl_cluster s2)"
    "replicas_set (look (ctl_cluster s2))" "\<forall>a \<in> set apps. application_up ?s1 a (look (ctl_cluster s2))" by blast
  from two(2) k1 have k2: "kc_Client (ctl_KubeClient s2) = c" by (simp add: same_ctl_def)
  from two(5) have up2: "\<forall>a \<in> set apps. application_up s2 a (look (ctl_cluster s2))"
    by (simp add: application_up_same [OF two(2)])
  from ok have "distinct (map ap_Name apps)" by (simp add: deployable_def well_named_def)
  from CheckDeployments_scaled [OF k2 two(3,4) up2 this low] obtain s3 where
    three: "CheckDeployments apps s2 = Some s3" "same_ctl s2 s3" "inv (ctl_cluster s3)"
    "\<forall>a \<in> set apps. application_scaled s2 a (look (ctl_cluster s3))" by blast
  have same: "same_ctl s s2" by (rule same_ctl_trans [OF with_cluster_fields(5) two(2)])
  have "deploy_all env apps s = Some (None, s3)"
    using one(1) two(1) three(1) by (simp add: deploy_all_def Let_def)
  with same_ctl_trans [OF same three(2)] three(3,4) application_scaled_same [OF same] show ?thesis by auto
qed

text \<open>A status update in the middle of a request.\<close>

lemma push_quiet:
  assumes k: "kc_Client (ctl_KubeClient s) = c" and w: "inv (ctl_cluster s)"
    and same: "same_ctl s s1" and cl: "ctl_cluster s1 = ctl_cluster s" and run: "push_status s1 = (err, s')"
  shows "sp_step s s' \<and> sp_Status (the_sp s') = sp_Status (the_sp s1)"
proof -
  from same k have k1: "kc_Client (ctl_KubeClient s1) = c" and key: "sp_key s1 = sp_key s" by (simp_all add: same_ctl_def)
  from push_status_step [OF k1 _ run] w cl key same show ?thesis
    by (auto simp: ctl_step_def intro: same_ctl_trans)
qed

lemma warn_messaging_quiet:
  assumes k: "kc_Client (ctl_KubeClient s) = c" and env: "env_KubeClient env = ctl_KubeClient s" and w: "inv (ctl_cluster s)"
    and run: "warn_messaging env logged s = (logged', s')"
  shows "sp_step s s' \<and> sp_Status (the_sp s') = sp_Status (the_sp s)"
proof (cases logged)
  case True
  with run w show ?thesis by (simp add: warn_messaging_def ctl_step_refl)
next
  case False
  obtain ok w1 where check: "CheckMessagingSystem (messaging_of env s) (ctl_cluster s) = (ok, w1)" by force
  from CheckMessagingSystem_result [OF _ w check] k env have w1: "inv w1" "look w1 = look (ctl_cluster s)"
    by (auto simp: messaging_of_def)
  let ?s1 = "with_cluster w1 s"
  let ?s2 = "\<lambda>r m. record_event (getStatus WARNING) r m ?s1"
  have to1: "sp_step s ?s1" using w1 by (simp add: ctl_step_def)
  have warned: "sp_step ?s1 (UpdateWarningStatus r m ?s1) \<and> sp_Status (the_sp (UpdateWarningStatus r m ?s1)) = sp_Status (the_sp s)" for r m
    using push_quiet [of ?s1 "?s2 r m" "fst (push_status (?s2 r m))" "snd (push_status (?s2 r m))"] k w1(1)
    by (simp add: UpdateWarningStatus_def)
  have "sp_step s (UpdateWarningStatus r m ?s1)" for r m
    by (rule ctl_step_trans [OF to1 warned [THEN conjunct1]]) simp_all
  with warned to1 run False check show ?thesis
    by (auto simp: warn_messaging_def Let_def split: if_splits)
qed

end

section \<open>A request that rolls a process out\<close>

text \<open>The parser service answers every request for the texts of a process.\<close>

definition service_answers :: "'w environment \<Rightarrow> siddhi_process \<Rightarrow> string multiset \<Rightarrow>
    ('w \<Rightarrow> kind \<Rightarrow> namespaced_name \<Rightarrow> kobject option) \<Rightarrow> app_config list \<Rightarrow> bool" where
  "service_answers env sp texts l acs \<longleftrightarrow>
     (\<forall>p. pr_Name p = sp_Name sp \<and> sp_Name (pr_SiddhiProcess p) = sp_Name sp \<and>
        sp_Namespace (pr_SiddhiProcess p) = sp_Namespace sp \<and> mset (pr_Apps p) = texts \<longrightarrow>
        parser_answers (env_parser_service env) p l acs)"

text \<open>The claim a process specifies is granted and its mount path can be read from the configuration.\<close>

definition claim_ok :: "yaml_unmarshal \<Rightarrow> siddhi_process_spec \<Rightarrow> bool" where
  "claim_ok yaml spec \<longleftrightarrow> EqualsPVCSpec (sps_PVC spec) zero_pvc_spec \<or>
     mode_granted (sps_PVC spec) \<and> (\<exists>config. yaml (sps_SiddhiConfig spec) = Inr config)"

lemma claim_can_deploy: "claim_ok yaml (sp_Spec (the_sp s)) \<Longrightarrow> can_deploy yaml l (manager_of s a)"
  by (auto simp: claim_ok_def can_deploy_def manager_of_def Let_def)

text \<open>What a process and the state of its namespace must be like for its apps to come up.\<close>

definition rollout_ready :: "'w environment \<Rightarrow> siddhi_process \<Rightarrow> (kind \<Rightarrow> namespaced_name \<Rightarrow> kobject option) \<Rightarrow> bool" where
  "rollout_ready env sp l \<longleftrightarrow>
     ToLower (sp_Name sp) = sp_Name sp \<and> claim_ok (env_yaml env) (sp_Spec sp) \<and>
     maps_present l (sp_Namespace sp) (sps_Apps (sp_Spec sp)) \<and>
     (TypeDefined (sps_MessagingSystem (sp_Spec sp)) \<and> EmptyConfig (sps_MessagingSystem (sp_Spec sp)) \<longrightarrow>
        nats_operators l (sp_Namespace sp)) \<and>
     rules_ok (rules_at l (sp_Namespace sp)) \<and> replicas_set l"

definition process_texts :: "(kind \<Rightarrow> namespaced_name \<Rightarrow> kobject option) \<Rightarrow> siddhi_process \<Rightarrow> string multiset" where
  "process_texts l sp = sum_list (map (app_texts l (sp_Namespace sp)) (sps_Apps (sp_Spec sp)))"

lemma event_type_same:
  "sp_Status (the_sp s') = sp_Status (the_sp s) \<Longrightarrow> event_type s' = event_type s"
  by (simp add: event_type_def)

context kube_live
begin

lemma reconcile_apps_live:
  fixes s :: "'a ctl" and st :: "'a op_state" and env :: "'a environment" and changed :: bool
  assumes k: "kc_Client (env_KubeClient env) = c" and order: "\<And>i m. mset (env_data_order env i m) = mset m"
  defines "s1 \<equiv> SetNotReadyState (SetDefaultPendingState s)"
  defines "s2 \<equiv> (if changed then s1 else UpgradeVersion s1)"
  assumes client: "ctl_KubeClient s2 = env_KubeClient env" and w: "inv (ctl_cluster s2)"
    and ready: "rollout_ready env (the_sp s2) (look (ctl_cluster s2))"
    and svc: "service_answers env (the_sp s2) (process_texts (look (ctl_cluster s2)) (the_sp s2)) look acs"
    and named: "\<forall>ac \<in> set acs. \<exists>n. getAppName (ac_SiddhiApp ac) = Inr n"
    and need: "lt64 (st_PreviousVersion (sp_Status (the_sp s2))) (st_CurrentVersion (sp_Status (the_sp s2))) \<or>
      os_SPContainer st (sp_Name (the_sp s2)) = None"
    and ev: "event_type s2 \<noteq> OperationResultNone"
  shows "\<exists>apps st'. reconcile_apps env request changed s st =
      Some ((requeue_after (time_Second * ReconcileTime), None), st') \<and>
    make_applications (sp_Name (the_sp s2)) 0 acs [] = (apps, None) \<and>
    os_SPContainer st' = (os_SPContainer st)(sp_Name (the_sp s2) \<mapsto> apps) \<and> inv (os_cluster st') \<and>
    (\<forall>a \<in> set apps. application_scaled s2 a (look (os_cluster st')))"
proof -
  let ?l2 = "look (ctl_cluster s2)" and ?sp = "the_sp s2"
  let ?ns = "sp_Namespace ?sp" and ?name = "sp_Name ?sp"
  from read_siddhi_apps_store [OF k w order, of ?sp 0 "sps_Apps (sp_Spec ?sp)" "[]" "os_CMContainer st"]
  obtain texts err cmc w3 where
    read: "getSiddhiApps env ?sp (os_CMContainer st) (ctl_cluster s2) = ((texts, err), cmc, w3)" and
    w3: "inv w3" "look w3 = ?l2" and
    spec: "read_spec ?l2 ?sp (sps_Apps (sp_Spec ?sp)) [] (os_CMContainer st) texts err cmc"
    by (auto simp: getSiddhiApps_def)
  from spec ready have none: "err = None" by (simp add: read_spec_def rollout_ready_def)
  with spec have texts: "mset texts = process_texts ?l2 ?sp" by (simp add: read_spec_def process_texts_def)
  let ?s3 = "with_cluster w3 s2"
  obtain logged s4 where warn: "warn_messaging env (os_LoggedMessagingAvailability st) ?s3 = (logged, s4)" by force
  have "kc_Client (ctl_KubeClient ?s3) = c" "env_KubeClient env = ctl_KubeClient ?s3" "inv (ctl_cluster ?s3)"
    unfolding with_cluster_fields client by (rule k, rule refl, rule w3(1))
  from warn_messaging_quiet [OF this warn] have
    four: "sp_step ?s3 s4" "sp_Status (the_sp s4) = sp_Status ?sp" by (simp_all only: with_cluster_fields)
  from ctl_step_same [OF four(1)] have "same_ctl ?s3 s4" and w4: "inv (ctl_cluster s4)" by simp_all
  from same_ctl_trans [OF with_cluster_fields(5) this(1)] have same4: "same_ctl s2 s4" .
  then have client4: "ctl_KubeClient s4 = env_KubeClient env" by (simp add: same_ctl_def client)
  with k have k4: "kc_Client (ctl_KubeClient s4) = c" by simp
  note names4 = same_ctl_name [OF same4] same_ctl_namespace [OF same4]
  have kinds4: "look (ctl_cluster s4) kd = ?l2 kd" if "kd \<noteq> KSiddhiProcess" for kd
    using four(1) w3(2) that by (auto simp: ctl_step_def dest: status_kinds)
  then have q4: "quiet ?ns ?l2 (look (ctl_cluster s4))" by (simp add: quiet_same)
  let ?p = "new_parser env texts s4"
  have p: "pr_KubeClient ?p = ctl_KubeClient s4" "pr_SiddhiProcess ?p = the_sp s4" "pr_Name ?p = sp_Name (the_sp s4)"
    "pr_Apps ?p = texts" by (simp_all add: new_parser_def client4 Let_def)
  from svc p names4 texts have svc4: "parser_answers (env_parser_service env) ?p look acs"
    by (simp add: service_answers_def)
  have need4: "lt64 (st_PreviousVersion (sp_Status (the_sp s4))) (st_CurrentVersion (sp_Status (the_sp s4))) \<or>
      os_SPContainer st (sp_Name (the_sp s4)) = None" using need four(2) names4 by simp
  from populate_live [where spc = "os_SPContainer st", OF k4 w4 p(1-3) svc4 named need4] obtain apps s5 where
    pop: "populateSiddhiApps env ?p (os_SPContainer st) s4 = Some ((apps, None), (os_SPContainer st)(?name \<mapsto> apps), s5)"
    and same5: "same_ctl s4 s5" and w5: "inv (ctl_cluster s5)" and st5: "sp_Status (the_sp s5) = sp_Status ?sp"
    and q5: "quiet ?ns (look (ctl_cluster s4)) (look (ctl_cluster s5))"
    and apps: "make_applications ?name 0 acs [] = (apps, None)"
    using names4 four(2) by auto
  have same: "same_ctl s2 s5" by (rule same_ctl_trans [OF same4 same5])
  note names5 = same_ctl_name [OF same] same_ctl_namespace [OF same]
  note q = quiet_trans [OF q4 q5]
  have spec5: "sp_Spec (the_sp s5) = sp_Spec ?sp" using same by (simp add: same_ctl_def)
  have ok5: "deployable (env_yaml env) s5 apps (look (ctl_cluster s5))"
    using ready quiet_keeps(1,2) [OF q] answer_names(1,2) [OF apps] claim_can_deploy [of "env_yaml env" s5]
    by (auto simp: deployable_def well_named_def rollout_ready_def names5 spec5)
  have ev5: "event_type s5 \<noteq> OperationResultNone" using ev event_type_same [OF st5] by simp
  have low5: "\<forall>a \<in> set apps. ToLower (ap_Name a) = ap_Name a"
    using answer_names(3) [OF apps] ready by (simp add: rollout_ready_def)
  have k5: "kc_Client (ctl_KubeClient s5) = c" "env_KubeClient env = ctl_KubeClient s5"
    using same client k by (simp_all add: same_ctl_def)
  from deploy_all_live [OF k5 w5 ok5 ev5 low5] obtain s6 where
    six: "deploy_all env apps s5 = Some (None, s6)" "inv (ctl_cluster s6)"
    "\<forall>a \<in> set apps. application_scaled s5 a (look (ctl_cluster s6))"
    using ready quiet_keeps(3) [OF q] by (auto simp: rollout_ready_def names5 spec5)
  define st' where "st' = leave s6 (st\<lparr>os_CMContainer := (if changed then cmc
      else cmc(nn_Name request \<mapsto> (listener cmc (nn_Name request))\<lparr>cml_Changed := False\<rparr>)),
    os_LoggedMessagingAvailability := logged, os_SPContainer := (os_SPContainer st)(?name \<mapsto> apps)\<rparr>)"
  have "reconcile_apps env request changed s st = Some ((requeue_after (time_Second * ReconcileTime), None), st')"
    using read none warn pop six(1)
    by (simp add: reconcile_apps_def s1_def [symmetric] s2_def [symmetric] Let_def st'_def leave_def)
  moreover have "os_cluster st' = ctl_cluster s6" "os_SPContainer st' = (os_SPContainer st)(?name \<mapsto> apps)"
    by (simp_all add: st'_def leave_def)
  ultimately show ?thesis using six apps application_scaled_same [OF same] by auto
qed

end

text \<open>The controller of a request for a process, configured.\<close>

definition configured :: "'w environment \<Rightarrow> siddhi_process \<Rightarrow> 'w op_state \<Rightarrow> 'w ctl" where
  "configured env sp st = UpdateDefaultConfigs (env_getenv env) (new_controller env sp st)"

definition base_ctl :: "'w environment \<Rightarrow> siddhi_process \<Rightarrow> 'w op_state \<Rightarrow> 'w \<Rightarrow> 'w ctl" where
  "base_ctl env sp st w = with_cluster w ((new_controller env sp st)
     \<lparr>ctl_Image := (ctl_Image (new_controller env sp st))\<lparr>im_Home := SiddhiHome, im_Name := SiddhiImage, im_Profile := SiddhiProfile\<rparr>,
      ctl_AutoCreateIngress := AutoCreateIngress\<rparr>)"

lemma same_base_ctl: "same_ctl (base_ctl env sp st w) (base_ctl env sp st' w')"
  by (simp add: base_ctl_def new_controller_def same_ctl_def sp_key_def the_sp_def with_cluster_def)

lemma the_sp_TLS: "the_sp (sc\<lparr>ctl_TLS := t\<rparr>) = the_sp sc"
  by (simp add: the_sp_def)

lemma same_set_config: "same_ctl s s' \<Longrightarrow> same_ctl (set_config data s) (set_config data s')"
  by (simp add: set_config_def same_ctl_def sp_key_def config_fields the_sp_TLS Let_def split: option.split)

lemma same_user_config: "same_ctl s s' \<Longrightarrow> same_ctl (user_config s) (user_config s')"
  by (simp add: user_config_def same_ctl_def sp_key_def config_fields Let_def)

context kube_live
begin

lemma states_live:
  assumes k: "kc_Client (ctl_KubeClient s) = c" and w: "inv (ctl_cluster s)"
  defines "s1 \<equiv> SetNotReadyState (SetDefaultPendingState s)"
  shows "same_ctl s s1 \<and> inv (ctl_cluster s1) \<and>
    st_PreviousVersion (sp_Status (the_sp s1)) = st_PreviousVersion (sp_Status (the_sp s)) \<and>
    (\<forall>kd. kd \<noteq> KSiddhiProcess \<longrightarrow> look (ctl_cluster s1) kd = look (ctl_cluster s) kd)"
proof -
  have prev: "st_PreviousVersion (sp_Status (the_sp (UpdatePendingStatus s))) = st_PreviousVersion (sp_Status (the_sp s))"
    "st_PreviousVersion (sp_Status (the_sp (UpdateNotReadytatus s))) = st_PreviousVersion (sp_Status (the_sp s))"
    if "kc_Client (ctl_KubeClient s) = c" "inv (ctl_cluster s)" for s
    using push_after [OF that, of "set_status x s" for x] by (simp_all add: UpdatePendingStatus_def UpdateNotReadytatus_def)
  have "sp_step s (SetDefaultPendingState s)"
    using status_steps(4) [OF k w] w by (simp add: SetDefaultPendingState_def ctl_step_refl)
  from ctl_step_same [OF this] k have "kc_Client (ctl_KubeClient (SetDefaultPendingState s)) = c"
    "inv (ctl_cluster (SetDefaultPendingState s))" by auto
  with prev [OF k w] prev(2) [of "SetDefaultPendingState s"]
  have "st_PreviousVersion (sp_Status (the_sp s1)) = st_PreviousVersion (sp_Status (the_sp s))"
    by (simp add: s1_def SetNotReadyState_def SetDefaultPendingState_def)
  with pending_notready [OF k w] show ?thesis
    by (auto simp: s1_def ctl_step_def dest: status_kinds)
qed

text \<open>The configuration depends on the config maps the server holds only.\<close>

lemma configured_maps:
  assumes k: "kc_Client (env_KubeClient env) = c" and w: "inv (os_cluster st)" "inv (os_cluster st')"
    and l: "look (os_cluster st') KConfigMap = look (os_cluster st) KConfigMap"
  shows "same_ctl (configured env sp st) (configured env sp st')"
proof -
  define n where "n = nn (if env_getenv env ''OPERATOR_CONFIGMAP'' \<noteq> [] then env_getenv env ''OPERATOR_CONFIGMAP''
    else OperatorCMName) (sp_Namespace sp)"
  have "\<exists>r w1. cl_Get c KConfigMap n (os_cluster x) = (r, w1) \<and>
      (case r of Inr (OConfigMap cm) \<Rightarrow> Some cm | _ \<Rightarrow> None) =
      (case look (os_cluster st) KConfigMap n of Some (OConfigMap cm) \<Rightarrow> Some cm | _ \<Rightarrow> None)"
    if "x = st \<or> x = st'" for x
    using get_cases [of "os_cluster x" KConfigMap n] that w l by (fastforce split: option.splits)
  then obtain r w1 r' w1' where
    get: "cl_Get c KConfigMap n (os_cluster st) = (r, w1)" "cl_Get c KConfigMap n (os_cluster st') = (r', w1')" and
    same: "(case r of Inr (OConfigMap cm) \<Rightarrow> Some cm | _ \<Rightarrow> None) = (case r' of Inr (OConfigMap cm) \<Rightarrow> Some cm | _ \<Rightarrow> None)"
    by metis
  have conv: "(case r of Inr (OConfigMap cm) \<Rightarrow> set_config (cm_Data cm) x | _ \<Rightarrow> x) =
      (case (case r of Inr (OConfigMap cm) \<Rightarrow> Some cm | _ \<Rightarrow> None) of Some cm \<Rightarrow> set_config (cm_Data cm) x | None \<Rightarrow> x)"
    for r :: "goerror + kobject" and x :: "'a ctl" by (simp split: sum.split kobject.split)
  have run: "configured env sp x = user_config (case o' of Some cm \<Rightarrow> set_config (cm_Data cm) (base_ctl env sp x v) | None \<Rightarrow> base_ctl env sp x v)"
    if "cl_Get c KConfigMap n (os_cluster x) = (q, v)"
      "(case q of Inr (OConfigMap cm) \<Rightarrow> Some cm | _ \<Rightarrow> None) = o'" for x q v o'
    using that k
    by (simp add: configured_def UpdateDefaultConfigs_def Let_def conv base_ctl_def n_def config_fields split: option.split)
  show ?thesis
    unfolding run [OF get(1) same] run [OF get(2) refl]
    by (simp add: same_user_config same_set_config same_base_ctl split: option.split)
qed

lemma configured_same:
  assumes k: "kc_Client (env_KubeClient env) = c" and w: "inv (os_cluster st)" "inv (os_cluster st')"
    and l: "look (os_cluster st') = look (os_cluster st)"
  shows "same_ctl (configured env sp st) (configured env sp st') \<and> inv (ctl_cluster (configured env sp st')) \<and>
    look (ctl_cluster (configured env sp st')) = look (os_cluster st) \<and> the_sp (configured env sp st') = sp \<and>
    ctl_KubeClient (configured env sp st') = env_KubeClient env"
  using configured_maps [OF k w, of sp] UpdateDefaultConfigs_step [of "new_controller env sp st'" _ "env_getenv env"] k w(2) l
  by (simp add: configured_def ns_step_def)

end

context kube_live
begin

lemma maps_texts_same:
  assumes "l' KConfigMap = l KConfigMap"
  shows "maps_present l' ns as = maps_present l ns as" and "process_texts l' sp = process_texts l sp"
proof -
  show "maps_present l' ns as = maps_present l ns as" using assms by (simp add: maps_present_def)
  have "app_texts l' ns = app_texts l ns" for ns using assms by (simp add: fun_eq_iff app_texts_def)
  then show "process_texts l' sp = process_texts l sp" by (simp add: process_texts_def)
qed

text \<open>What a rollout depends on is the same after a status update.\<close>

lemma rollout_ready_same:
  assumes "\<And>kd. kd \<noteq> KSiddhiProcess \<Longrightarrow> l' kd = l kd"
    and "sp_Name sp' = sp_Name sp" "sp_Namespace sp' = sp_Namespace sp" "sp_Spec sp' = sp_Spec sp"
  shows "rollout_ready env sp' l' = rollout_ready env sp l" and "process_texts l' sp' = process_texts l sp"
proof -
  have kinds: "l' KConfigMap = l KConfigMap" "l' KIngress = l KIngress" "l' KDeployment = l KDeployment"
    using assms(1) by simp_all
  note maps = maps_texts_same [of l' l, OF kinds(1)]
  show "rollout_ready env sp' l' = rollout_ready env sp l"
    using kinds(2,3) assms(2-4) replicas_set_same [of l' l]
    by (simp add: rollout_ready_def maps rules_at_def nats_operators_def)
  have "process_texts l' sp' = process_texts l sp'" by (rule maps(2))
  also have "\<dots> = process_texts l sp" using assms by (simp add: process_texts_def)
  finally show "process_texts l' sp' = process_texts l sp" .
qed

lemma Reconcile_process_live:
  assumes k: "kc_Client (env_KubeClient env) = c" and w: "inv (os_cluster st)"
    and order: "\<And>i m. mset (env_data_order env i m) = mset m"
    and none: "look (os_cluster st) KConfigMap request = None"
    and sp: "look (os_cluster st) KSiddhiProcess request = Some (OSiddhiProcess sp)"
    and timer: "st_EventType (sp_Status sp) \<noteq> ''Timer'' \<or> os_SPContainer st (sp_Name sp) = None"
    and ev: "st_CurrentVersion (sp_Status sp) = 0 \<or> lt64 (st_PreviousVersion (sp_Status sp)) (st_CurrentVersion (sp_Status sp))"
    and need: "lt64 (st_PreviousVersion (sp_Status sp)) (st_CurrentVersion (sp_Status sp)) \<or> os_SPContainer st (sp_Name sp) = None"
    and ready: "rollout_ready env sp (look (os_cluster st))"
    and svc: "service_answers env sp (process_texts (look (os_cluster st)) sp) look acs"
    and named: "\<forall>ac \<in> set acs. \<exists>n. getAppName (ac_SiddhiApp ac) = Inr n"
  shows "\<exists>apps st'. Reconcile env request st = Some ((requeue_after (time_Second * ReconcileTime), None), st') \<and>
    make_applications (sp_Name sp) 0 acs [] = (apps, None) \<and>
    os_SPContainer st' = (os_SPContainer st)(sp_Name sp \<mapsto> apps) \<and> inv (os_cluster st') \<and>
    (\<forall>a \<in> set apps. application_scaled (configured env sp st) a (look (os_cluster st')))"
proof -
  from Reconcile_unfold [OF k w, of request] none sp obtain w2 where
    w2: "inv w2" "look w2 = look (os_cluster st)" and
    rec: "Reconcile env request st = reconcile_process env request True sp (st\<lparr>os_cluster := w2\<rparr>)"
    by (auto simp: request_target_def)
  let ?st = "st\<lparr>os_cluster := w2\<rparr>"
  let ?s = "configured env sp ?st"
  define s1 where "s1 = SetNotReadyState (SetDefaultPendingState ?s)"
  from configured_same [OF k w, of ?st sp] w2 have
    conf: "same_ctl (configured env sp st) ?s" "inv (ctl_cluster ?s)" "look (ctl_cluster ?s) = look (os_cluster st)"
    "the_sp ?s = sp" "ctl_KubeClient ?s = env_KubeClient env" by simp_all
  have ks: "kc_Client (ctl_KubeClient ?s) = c" using conf(5) k by simp
  from states_live [OF ks conf(2), folded s1_def] conf have
    same1: "same_ctl ?s s1" and w1: "inv (ctl_cluster s1)" and
    prev: "st_PreviousVersion (sp_Status (the_sp s1)) = st_PreviousVersion (sp_Status sp)" and
    kinds: "\<And>kd. kd \<noteq> KSiddhiProcess \<Longrightarrow> look (ctl_cluster s1) kd = look (os_cluster st) kd" by simp_all
  from same1 conf(4,5) have fields: "sp_Name (the_sp s1) = sp_Name sp" "sp_Namespace (the_sp s1) = sp_Namespace sp"
    "sp_Spec (the_sp s1) = sp_Spec sp" "ctl_KubeClient s1 = env_KubeClient env"
    "st_CurrentVersion (sp_Status (the_sp s1)) = st_CurrentVersion (sp_Status sp)"
    by (simp_all add: same_ctl_def sp_key_def)
  have rs: "rollout_ready env (the_sp s1) (look (ctl_cluster s1)) = rollout_ready env sp (look (os_cluster st))"
    "process_texts (look (ctl_cluster s1)) (the_sp s1) = process_texts (look (os_cluster st)) sp"
    by (rule rollout_ready_same, rule kinds, assumption, rule fields, rule fields, rule fields)+
  have ready1: "rollout_ready env (the_sp s1) (look (ctl_cluster s1))" using ready rs(1) by simp
  have svc1: "service_answers env (the_sp s1) (process_texts (look (ctl_cluster s1)) (the_sp s1)) look acs"
    using svc rs(2) fields(1,2) by (simp add: service_answers_def)
  have need1: "lt64 (st_PreviousVersion (sp_Status (the_sp s1))) (st_CurrentVersion (sp_Status (the_sp s1))) \<or>
      os_SPContainer ?st (sp_Name (the_sp s1)) = None" using need prev fields by simp
  have ev1: "event_type s1 \<noteq> OperationResultNone"
    using ev prev fields(5) by (auto simp: event_type_def getEventType_def Let_def)
  from reconcile_apps_live [where changed = True and s = ?s and st = ?st, OF k order, folded s1_def, simplified if_True,
      OF fields(4) w1 ready1 svc1 named need1 ev1, of request]
  obtain apps st' where run: "reconcile_apps env request True ?s ?st = Some ((requeue_after (time_Second * ReconcileTime), None), st')"
    and res: "make_applications (sp_Name sp) 0 acs [] = (apps, None)"
    "os_SPContainer st' = (os_SPContainer st)(sp_Name sp \<mapsto> apps)" "inv (os_cluster st')"
    "\<forall>a \<in> set apps. application_scaled s1 a (look (os_cluster st'))" using fields by auto
  have "reconcile_process env request True sp ?st = reconcile_apps env request True ?s ?st"
    using timer by (auto simp: reconcile_process_def configured_def apps_of_def Let_def)
  with rec run res application_scaled_same [OF same_ctl_trans [OF conf(1) same1]] show ?thesis by auto
qed

end

section \<open>Properties\<close>

text \<open>A process with one script, new to the operator.\<close>

definition sample_scripted :: siddhi_process where
  "sample_scripted = sample_process\<lparr>sp_Spec := zero_siddhi_process_spec
     \<lparr>sps_Apps := [\<lparr>app_ConfigMap = [], app_Script = sample_script\<rparr>]\<rparr>\<rparr>"

definition sample_new :: "tracker op_state" where
  "sample_new = (sample_state (empty_tracker(KSiddhiProcess := [OSiddhiProcess sample_scripted])))\<lparr>os_SPContainer := Map.empty\<rparr>"

lemma sample_new_fields [simp]:
  "tracker_inv (os_cluster sample_new)" "os_SPContainer sample_new = Map.empty"
  "tracker_look (os_cluster sample_new) kd n =
     (if kd = KSiddhiProcess \<and> n = nn ''app'' ''ns'' then Some (OSiddhiProcess sample_scripted) else None)"
  by (simp_all add: sample_new_def tracker_inv_def empty_tracker_def tracker_look_def objs_map_def key_of_def new_meta_def
      nn_def sample_process_def sample_scripted_def zero_siddhi_process_def)

lemma sample_scripted_fields [simp]:
  "sp_Name sample_scripted = ''app''" "sp_Namespace sample_scripted = ''ns''"
  "sp_Status sample_scripted = zero_siddhi_process_status"
  "sp_Spec sample_scripted = zero_siddhi_process_spec\<lparr>sps_Apps := [\<lparr>app_ConfigMap = [], app_Script = sample_script\<rparr>]\<rparr>"
  by (simp_all add: sample_scripted_def sample_process_def zero_siddhi_process_def new_meta_def)

lemma sample_ready: "rollout_ready sample_env sample_scripted (tracker_look (os_cluster sample_new))"
  by (simp add: rollout_ready_def claim_ok_def maps_present_def rules_at_def replicas_set_def rules_ok_def
      zero_siddhi_process_spec_def TypeDefined_def zero_messaging_system_def EqualsPVCSpec_def ToLower_id is_upper_def)

text \<open>
  C3: a rollout. A request for a process that is new or has a new version, on a server that answers,
  with the config maps of its apps present, an ingress without malformed rules, a claim that is
  granted, and a parser service that answers, does not panic, fail or stop early: it comes back in
  \<open>ReconcileTime\<close> seconds, the applications of the parser's answer are those stored for the process,
  and every one of them runs with its configuration, its claim, its service and its routes, at the
  number of replicas asked for.
\<close>

theorem Process_rolled_out:
  assumes "kube_live (kc_Client (env_KubeClient env)) look adm valid" and "valid (os_cluster st)"
    and "\<And>i m. mset (env_data_order env i m) = mset m"
    and "look (os_cluster st) KConfigMap request = None"
    and "look (os_cluster st) KSiddhiProcess request = Some (OSiddhiProcess sp)"
    and "st_EventType (sp_Status sp) \<noteq> ''Timer'' \<or> os_SPContainer st (sp_Name sp) = None"
    and "st_CurrentVersion (sp_Status sp) = 0 \<or> lt64 (st_PreviousVersion (sp_Status sp)) (st_CurrentVersion (sp_Status sp))"
    and "lt64 (st_PreviousVersion (sp_Status sp)) (st_CurrentVersion (sp_Status sp)) \<or> os_SPContainer st (sp_Name sp) = None"
    and "rollout_ready env sp (look (os_cluster st))"
    and "service_answers env sp (process_texts (look (os_cluster st)) sp) look acs"
    and "\<forall>ac \<in> set acs. \<exists>n. getAppName (ac_SiddhiApp ac) = Inr n"
  shows "\<exists>apps st'. Reconcile env request st = Some ((requeue_after (time_Second * ReconcileTime), None), st') \<and>
    make_applications (sp_Name sp) 0 acs [] = (apps, None) \<and>
    os_SPContainer st' = (os_SPContainer st)(sp_Name sp \<mapsto> apps) \<and> valid (os_cluster st') \<and>
    (\<forall>a \<in> set apps. application_scaled (configured env sp st) a (look (os_cluster st')))"
  by (rule kube_live.Reconcile_process_live [OF assms(1) refl assms(2-)])

theorem Process_rolled_out_witness:
  "\<exists>apps st'. Reconcile sample_env sample_request sample_new = Some ((requeue_after (time_Second * ReconcileTime), None), st') \<and>
     length apps = 1 \<and> os_SPContainer st' = [''app'' \<mapsto> apps] \<and>
     application_scaled (configured sample_env sample_scripted sample_new) (apps ! 0) (tracker_look (os_cluster st'))"
proof -
  have live: "kube_live (kc_Client (env_KubeClient sample_env)) tracker_look (\<lambda>obj. obj) tracker_inv" using sample_live by simp
  have svc: "service_answers sample_env sample_scripted texts tracker_look sample_answer" for texts
    by (simp add: service_answers_def parser_answers_def sample_env_def sample_service_def)
  have name: "getAppName sample_script = Inr ''a''" by code_simp
  with Process_rolled_out [OF live _ _ _ _ _ _ _ _ svc, of sample_new sample_request] sample_ready obtain apps st' where
    "Reconcile sample_env sample_request sample_new = Some ((requeue_after (time_Second * ReconcileTime), None), st')"
    "make_applications ''app'' 0 sample_answer [] = (apps, None)" "os_SPContainer st' = [''app'' \<mapsto> apps]"
    "\<forall>a \<in> set apps. application_scaled (configured sample_env sample_scripted sample_new) a (tracker_look (os_cluster st'))"
    by (auto simp: sample_answer_def zero_siddhi_process_status_def)
  moreover from this(2) name have "length apps = 1" by (auto simp: sample_answer_def)
  ultimately show ?thesis by (metis nth_mem zero_less_one)
qed

end
