(* ===== verification/EventLoop.thy ===== *)
theory EventLoop
  imports Safety Rollout
begin

text \<open>
  The controller around \<open>Reconcile\<close>: the handlers and predicates of the watches, which turn changes of
  the cluster into requests, and the work queue, which runs the requests and takes them up again.
  The runtime library's parts are modelled from its vendored sources. The system is a step relation;
  what holds in every reachable state follows by rule induction.
\<close>

section \<open>From objects to requests\<close>

text \<open>\<open>EnqueueRequestForObject\<close>: a request for the object itself.\<close>

definition EnqueueRequestForObject :: "object_meta \<Rightarrow> namespaced_name list" where
  "EnqueueRequestForObject m = [nn (om_Name m) (om_Namespace m)]"

text \<open>
  \<open>EnqueueRequestForOwner\<close> with \<open>IsController\<close>: the owner that is marked as the controller, when its
  group and kind are those of the owner type.
\<close>

definition GetControllerOf :: "object_meta \<Rightarrow> owner_reference option" where
  "GetControllerOf m = find (\<lambda>r. or_Controller r = Some True) (om_OwnerReferences m)"

definition getOwnerReconcileRequest :: "group_version_kind \<Rightarrow> object_meta \<Rightarrow> namespaced_name list" where
  "getOwnerReconcileRequest ownerType m =
     (case GetControllerOf m of
        None \<Rightarrow> []
      | Some r \<Rightarrow>
          (case ParseGroupVersion (or_APIVersion r) of
             Inl err \<Rightarrow> []
           | Inr refGV \<Rightarrow>
               if or_Kind r = gvk_Kind ownerType \<and> gv_Group refGV = gvk_Group ownerType
               then [nn (or_Name r) (om_Namespace m)] else []))"

section \<open>The watches\<close>

text \<open>
  The watches \<open>add\<close> sets up, by kind: processes and config maps with their predicates, deployments and
  services by owner; the other kinds are not watched. An event gives the object as the predicate
  leaves it in the cache, the requests it enqueues and the state of the operator.
\<close>

fun on_add :: "group_version_kind \<Rightarrow> kobject \<Rightarrow> kobject \<times> namespaced_name list" where
  "on_add ownerType (OSiddhiProcess sp) =
     (let (ok, sp') = sp_CreateFunc sp
      in (OSiddhiProcess sp', if ok then EnqueueRequestForObject (sp_ObjectMeta sp') else []))"
| "on_add ownerType (OConfigMap cm) =
     (OConfigMap cm, if cm_CreateFunc then EnqueueRequestForObject (cm_ObjectMeta cm) else [])"
| "on_add ownerType (ODeployment d) = (ODeployment d, getOwnerReconcileRequest ownerType (dep_ObjectMeta d))"
| "on_add ownerType (OService s) = (OService s, getOwnerReconcileRequest ownerType (svc_ObjectMeta s))"
| "on_add ownerType obj = (obj, [])"

fun on_update :: "group_version_kind \<Rightarrow> kobject \<Rightarrow> kobject \<Rightarrow> 'w op_state \<Rightarrow>
    kobject \<times> namespaced_name list \<times> 'w op_state" where
  "on_update ownerType (OSiddhiProcess old) (OSiddhiProcess new) st =
     (let (ok, old', new') = sp_UpdateFunc old new
      in (OSiddhiProcess new',
          if ok then EnqueueRequestForObject (sp_ObjectMeta old') @ EnqueueRequestForObject (sp_ObjectMeta new') else [], st))"
| "on_update ownerType (OConfigMap old) (OConfigMap new) st =
     (let (ok, cmc) = cm_UpdateFunc (om_Name (cm_ObjectMeta new)) (os_CMContainer st)
      in (OConfigMap new,
          if ok then EnqueueRequestForObject (cm_ObjectMeta old) @ EnqueueRequestForObject (cm_ObjectMeta new) else [],
          st\<lparr>os_CMContainer := cmc\<rparr>))"
| "on_update ownerType (ODeployment old) (ODeployment new) st =
     (ODeployment new, getOwnerReconcileRequest ownerType (dep_ObjectMeta old) @
        getOwnerReconcileRequest ownerType (dep_ObjectMeta new), st)"
| "on_update ownerType (OService old) (OService new) st =
     (OService new, getOwnerReconcileRequest ownerType (svc_ObjectMeta old) @
        getOwnerReconcileRequest ownerType (svc_ObjectMeta new), st)"
| "on_update ownerType old new st = (new, [], st)"

fun on_delete :: "group_version_kind \<Rightarrow> kobject \<Rightarrow> bool \<Rightarrow> 'w op_state \<Rightarrow> namespaced_name list \<times> 'w op_state" where
  "on_delete ownerType (OSiddhiProcess sp) DeleteStateUnknown st =
     (let (ok, spc) = sp_DeleteFunc (sp_Name sp) DeleteStateUnknown (os_SPContainer st)
      in (if ok then EnqueueRequestForObject (sp_ObjectMeta sp) else [], st\<lparr>os_SPContainer := spc\<rparr>))"
| "on_delete ownerType (OConfigMap cm) DeleteStateUnknown st = (EnqueueRequestForObject (cm_ObjectMeta cm), st)"
| "on_delete ownerType (ODeployment d) DeleteStateUnknown st = (getOwnerReconcileRequest ownerType (dep_ObjectMeta d), st)"
| "on_delete ownerType (OService s) DeleteStateUnknown st = (getOwnerReconcileRequest ownerType (svc_ObjectMeta s), st)"
| "on_delete ownerType obj DeleteStateUnknown st = ([], st)"

text \<open>What a predicate does to an object keeps its kind and its name.\<close>

lemma on_add_object: "on_add gk obj = (obj', reqs) \<Longrightarrow> kind_of obj' = kind_of obj \<and> key_of obj' = key_of obj"
  by (cases obj) (auto simp: sp_CreateFunc_def key_of_def)

lemma sp_UpdateFunc_meta:
  "sp_UpdateFunc old new = (ok, old', new') \<Longrightarrow> sp_ObjectMeta new' = sp_ObjectMeta new \<and> sp_ObjectMeta old' = sp_ObjectMeta old"
  by (auto simp: sp_UpdateFunc_def Let_def split: prod.splits if_splits)

lemma on_update_object:
  assumes "on_update gk old new st = (new', reqs, st')"
  shows "kind_of new' = kind_of new \<and> key_of new' = key_of new"
proof (cases new)
  case (OSiddhiProcess sp)
  with assms show ?thesis
    by (cases old) (auto simp: key_of_def Let_def split: prod.splits dest: sp_UpdateFunc_meta)
next
  case (OConfigMap cm)
  with assms show ?thesis by (cases old) (auto simp: Let_def split: prod.splits)
qed (use assms in \<open>cases old; auto\<close>)+

section \<open>The work queue\<close>

text \<open>\<open>processNextWorkItem\<close>: whether a request that was run is put back, at once or after a delay.\<close>

definition requeued :: "reconcile_result \<Rightarrow> goerror option \<Rightarrow> bool" where
  "requeued result err \<longleftrightarrow> err \<noteq> None \<or> rr_RequeueAfter result > 0 \<or> rr_Requeue result"

text \<open>
  The queue holds a request once, however often it is added; requests that wait for a delay or a
  back-off are taken to be in it, so the next request to run may be any of it.
\<close>

record 'w operator =
  or_state :: "'w op_state"
  or_queue :: "namespaced_name set"

text \<open>\<open>add\<close> starts with empty containers.\<close>

definition start_operator :: "ev_entry list \<Rightarrow> 'w \<Rightarrow> 'w operator" where
  "start_operator evs w =
     \<lparr>or_state = \<lparr>os_SPContainer = Map.empty, os_CMContainer = Map.empty, os_LoggedMessagingAvailability = False,
        os_events = evs, os_cluster = w\<rparr>, or_queue = {}\<rparr>"

text \<open>
  The steps: somebody writes or deletes an object and the watch delivers the change (an object is also
  delivered as new when the watch starts, and as changed when it is the same), a pod changes, something
  changes that the watch has yet to deliver, or the worker runs a request of the queue. \<open>look\<close> is the server
  where reads are current, and otherwise what the watches have delivered. Everybody but the operator is
  taken to write well-formed ingresses and deployments.
\<close>

inductive op_step :: "'w environment \<Rightarrow> ('w \<Rightarrow> kind \<Rightarrow> namespaced_name \<Rightarrow> kobject option) \<Rightarrow> ('w \<Rightarrow> bool) \<Rightarrow>
    group_version_kind \<Rightarrow> 'w operator \<Rightarrow> 'w operator \<Rightarrow> bool"
  for env look valid gk where
  added: "\<lbrakk>obj_ok obj; on_add gk obj = (obj', reqs); valid w'; look w' = updated (look (os_cluster st)) obj obj'\<rbrakk> \<Longrightarrow>
    op_step env look valid gk \<lparr>or_state = st, or_queue = q\<rparr> \<lparr>or_state = st\<lparr>os_cluster := w'\<rparr>, or_queue = q \<union> set reqs\<rparr>"
| changed: "\<lbrakk>look (os_cluster st) (kind_of new) (key_of new) = Some old; obj_ok new;
    on_update gk old new st = (new', reqs, st1); valid w'; look w' = updated (look (os_cluster st)) new new'\<rbrakk> \<Longrightarrow>
    op_step env look valid gk \<lparr>or_state = st, or_queue = q\<rparr> \<lparr>or_state = st1\<lparr>os_cluster := w'\<rparr>, or_queue = q \<union> set reqs\<rparr>"
| deleted: "\<lbrakk>look (os_cluster st) kd n = Some obj; on_delete gk obj unknown st = (reqs, st1); valid w';
    look w' = (look (os_cluster st))(kd := (look (os_cluster st) kd)(n := None))\<rbrakk> \<Longrightarrow>
    op_step env look valid gk \<lparr>or_state = st, or_queue = q\<rparr> \<lparr>or_state = st1\<lparr>os_cluster := w'\<rparr>, or_queue = q \<union> set reqs\<rparr>"
| pod: "op_step env look valid gk \<lparr>or_state = st, or_queue = q\<rparr>
    \<lparr>or_state = st, or_queue = q \<union> set (getOwnerReconcileRequest gk m)\<rparr>"
| unseen: "\<lbrakk>valid w'; look w' = look (os_cluster st)\<rbrakk> \<Longrightarrow>
    op_step env look valid gk \<lparr>or_state = st, or_queue = q\<rparr> \<lparr>or_state = st\<lparr>os_cluster := w'\<rparr>, or_queue = q\<rparr>"
| worked: "\<lbrakk>request \<in> q; Reconcile env request st = Some ((result, err), st')\<rbrakk> \<Longrightarrow>
    op_step env look valid gk \<lparr>or_state = st, or_queue = q\<rparr>
      \<lparr>or_state = st', or_queue = (if requeued result err then q else q - {request})\<rparr>"

inductive op_reachable :: "'w environment \<Rightarrow> ('w \<Rightarrow> kind \<Rightarrow> namespaced_name \<Rightarrow> kobject option) \<Rightarrow> ('w \<Rightarrow> bool) \<Rightarrow>
    group_version_kind \<Rightarrow> 'w operator \<Rightarrow> bool"
  for env look valid gk where
  start: "valid w \<Longrightarrow> sound (look w) \<Longrightarrow> op_reachable env look valid gk (start_operator evs w)"
| step: "op_reachable env look valid gk s \<Longrightarrow> op_step env look valid gk s s' \<Longrightarrow> op_reachable env look valid gk s'"

inductive_cases op_stepE: "op_step env look valid gk s s'"


section \<open>What every step keeps\<close>

lemma on_add_ok: "on_add gk obj = (obj', reqs) \<Longrightarrow> obj_ok obj \<Longrightarrow> obj_ok obj'"
  using on_add_object [of gk obj obj' reqs] obj_ok_kind [of obj']
  by (cases obj) (auto simp: sp_CreateFunc_def)

lemma on_update_ok:
  assumes run: "on_update gk old new st = (new', reqs, st')" and "obj_ok new"
  shows "obj_ok new'"
proof (cases "kind_of new \<in> {KIngress, KDeployment}")
  case True
  then have "new' = new" using run by (cases new; cases old; simp)
  with assms(2) show ?thesis by simp
next
  case False
  with on_update_object [OF run] show ?thesis by (simp add: obj_ok_kind)
qed

lemma sound_updated: "sound l \<Longrightarrow> obj_ok obj' \<Longrightarrow> sound (updated l obj obj')"
  by (auto simp: sound_def updated_apply split: if_splits)

lemma sound_removed: "sound l \<Longrightarrow> sound (l(kd := (l kd)(n := None)))"
  by (auto simp: sound_def split: if_splits)

lemma on_update_cluster:
  "on_update gk old new st = (new', reqs, st') \<Longrightarrow> os_cluster st' = os_cluster st \<and> os_SPContainer st' = os_SPContainer st"
  by (induction gk old new st rule: on_update.induct) (auto simp: Let_def split: prod.splits)

lemma on_delete_cluster: "on_delete gk obj unknown st = (reqs, st') \<Longrightarrow> os_cluster st' = os_cluster st"
  by (cases obj) (auto simp: Let_def split: prod.splits)

text \<open>Valid and well formed.\<close>

definition op_sound :: "('w \<Rightarrow> kind \<Rightarrow> namespaced_name \<Rightarrow> kobject option) \<Rightarrow> ('w \<Rightarrow> bool) \<Rightarrow> 'w operator \<Rightarrow> bool" where
  "op_sound look valid s \<longleftrightarrow> valid (os_cluster (or_state s)) \<and> sound (look (os_cluster (or_state s)))"

context kube_reads
begin

lemma op_step_sound:
  assumes k: "kc_Client (env_KubeClient env) = c" and url: "urls_ok (env_parser_service env)"
    and "op_step env look inv gk s s'" and "op_sound look inv s"
  shows "op_sound look inv s'"
  using assms(3,4)
proof (induction rule: op_step.induct)
  case (added obj obj' reqs w' st q)
  from sound_updated [OF _ on_add_ok [OF added(2,1)]] added(3,4,5) show ?case by (simp add: op_sound_def)
next
  case (changed st new old new' reqs st1 w' q)
  from sound_updated [OF _ on_update_ok [OF changed(3,2)]] changed(4,5,6) show ?case by (simp add: op_sound_def)
next
  case (deleted st kd n obj unknown reqs st1 w' q)
  then show ?case using sound_removed by (simp add: op_sound_def)
next
  case (worked request q st result err st')
  with Reconcile_total [OF k _ url, of st request] show ?case by (auto simp: op_sound_def)
qed (simp_all add: op_sound_def)

lemma op_reachable_sound:
  assumes "kc_Client (env_KubeClient env) = c" and "urls_ok (env_parser_service env)"
    and "op_reachable env look inv gk s"
  shows "op_sound look inv s"
  using assms(3)
  by (induction rule: op_reachable.induct)
    (auto simp: op_sound_def start_operator_def dest: op_step_sound [OF assms(1,2), unfolded op_sound_def])

end


section \<open>What the operator remembers\<close>

text \<open>
  An abstract account of the two containers: the applications of a process are stored when an answer of
  the parser was read to its end, and forgotten with the process; a config map is listened to on
  behalf of a process, marked when it changes, and unmarked when the change was handled.
\<close>

record registry =
  rg_Apps :: sp_container
  rg_Maps :: cm_container

inductive registry_step :: "registry \<Rightarrow> registry \<Rightarrow> bool" where
  forget: "registry_step r (r\<lparr>rg_Apps := (rg_Apps r)(name := None)\<rparr>)"
| parsed: "make_applications name 0 acs [] = (apps, None) \<Longrightarrow>
    registry_step r (r\<lparr>rg_Apps := (rg_Apps r)(name \<mapsto> apps)\<rparr>)"
| listen: "m \<noteq> [] \<Longrightarrow>
    registry_step r (r\<lparr>rg_Maps := (rg_Maps r)(m \<mapsto> \<lparr>cml_SiddhiProcess = name, cml_Changed = False\<rparr>)\<rparr>)"
| mark: "rg_Maps r m \<noteq> None \<Longrightarrow>
    registry_step r (r\<lparr>rg_Maps := (rg_Maps r)(m \<mapsto> (listener (rg_Maps r) m)\<lparr>cml_Changed := True\<rparr>)\<rparr>)"
| handled: "registry_step r (r\<lparr>rg_Maps := (rg_Maps r)(m \<mapsto> (listener (rg_Maps r) m)\<lparr>cml_Changed := False\<rparr>)\<rparr>)"

abbreviation "registry_steps \<equiv> registry_step\<^sup>*\<^sup>*"

definition registry_of :: "'w op_state \<Rightarrow> registry" where
  "registry_of st = \<lparr>rg_Apps = os_SPContainer st, rg_Maps = os_CMContainer st\<rparr>"

lemma registry_of_leave [simp]: "registry_of (leave sc st) = registry_of st"
  by (simp add: registry_of_def leave_def)

lemma registry_of_cluster [simp]: "registry_of (st\<lparr>os_cluster := w\<rparr>) = registry_of st"
  by (simp add: registry_of_def)

lemma read_registry:
  "read_siddhi_apps env sp i as acc cmc w = (r, cmc', w') \<Longrightarrow>
     registry_steps \<lparr>rg_Apps = spc, rg_Maps = cmc\<rparr> \<lparr>rg_Apps = spc, rg_Maps = cmc'\<rparr>"
proof (induction as arbitrary: i acc cmc w)
  case (Cons a as)
  show ?case
  proof (cases "app_ConfigMap a = []")
    case False
    let ?cmc = "cmc(app_ConfigMap a \<mapsto> \<lparr>cml_SiddhiProcess = sp_Name sp, cml_Changed = False\<rparr>)"
    obtain g w1 where get: "cl_Get (kc_Client (env_KubeClient env)) KConfigMap (nn (app_ConfigMap a) (sp_Namespace sp)) w = (g, w1)"
      by force
    show ?thesis
    proof (cases g)
      case (Inr obj)
      have "registry_step \<lparr>rg_Apps = spc, rg_Maps = cmc\<rparr> \<lparr>rg_Apps = spc, rg_Maps = ?cmc\<rparr>"
        using registry_step.listen [OF False, of "\<lparr>rg_Apps = spc, rg_Maps = cmc\<rparr>" "sp_Name sp"] by simp
      moreover have "registry_steps \<lparr>rg_Apps = spc, rg_Maps = ?cmc\<rparr> \<lparr>rg_Apps = spc, rg_Maps = cmc'\<rparr>"
        using Cons.IH Cons.prems False get Inr by (simp add: Let_def)
      ultimately show ?thesis by (rule converse_rtranclp_into_rtranclp)
    qed (use Cons.prems False get in simp)
  qed (use Cons in \<open>simp add: Let_def\<close>)
qed simp

text \<open>The parser's result is the reading of a whole answer.\<close>

lemma Parse_answer:
  assumes run: "Parse yaml svc p w = Some ((apps, None), w')"
  shows "\<exists>acs. make_applications (sp_Name (pr_SiddhiProcess p)) 0 acs [] = (apps, None)"
proof -
  let ?p = "createRequest p"
  from run obtain e w1 r where inv: "parser_deploy yaml svc ?p w = Some (e, w1)" "invokeParser svc ?p (pr_Request ?p) w1 = Some r"
    by (auto simp: Parse_def Let_def bind_eq_Some_conv)
  with run obtain acs where r: "r = Inr acs" by (cases r) (auto simp: Parse_def Let_def)
  obtain as e where mk: "make_applications (sp_Name (pr_SiddhiProcess ?p)) 0 acs [] = (as, e)" by force
  with run inv r have "e = None \<and> as = apps" by (cases e) (auto simp: Parse_def Let_def split: prod.splits)
  with mk show ?thesis by auto
qed

lemma populate_registry:
  assumes run: "populateSiddhiApps env p spc s = Some ((apps, err), spc', s')" and p: "pr_SiddhiProcess p = the_sp s"
  shows "registry_steps \<lparr>rg_Apps = spc, rg_Maps = cmc\<rparr> \<lparr>rg_Apps = spc', rg_Maps = cmc\<rparr>"
proof -
  have "spc' = spc \<or> (\<exists>acs. spc' = spc(sp_Name (the_sp s) \<mapsto> apps) \<and> make_applications (sp_Name (the_sp s)) 0 acs [] = (apps, None))"
    using run p Parse_answer [of "env_yaml env" "env_parser_service env" p "ctl_cluster s" apps]
    by (auto simp: populateSiddhiApps_def Let_def bind_eq_Some_conv split: if_splits option.splits prod.splits)
  then show ?thesis
  proof
    assume "\<exists>acs. spc' = spc(sp_Name (the_sp s) \<mapsto> apps) \<and> make_applications (sp_Name (the_sp s)) 0 acs [] = (apps, None)"
    then obtain acs where spc: "spc' = spc(sp_Name (the_sp s) \<mapsto> apps)" "make_applications (sp_Name (the_sp s)) 0 acs [] = (apps, None)"
      by blast
    from registry_step.parsed [OF spc(2), of "\<lparr>rg_Apps = spc, rg_Maps = cmc\<rparr>"] spc(1) show ?thesis by simp
  qed simp
qed

lemma reconcile_apps_registry:
  assumes run: "reconcile_apps env request changed s st = Some (r, st')"
  shows "registry_steps (registry_of st) (registry_of st')"
proof -
  define s2 where "s2 = (let s1 = SetNotReadyState (SetDefaultPendingState s) in if changed then s1 else UpgradeVersion s1)"
  obtain texts e1 cmc w3 where read: "getSiddhiApps env (the_sp s2) (os_CMContainer st) (ctl_cluster s2) = ((texts, e1), cmc, w3)"
    by (metis prod.collapse)
  let ?s3 = "with_cluster w3 s2" and ?r = "\<lambda>spc cmc. \<lparr>rg_Apps = spc, rg_Maps = cmc\<rparr>"
  obtain logged s4 where warn: "warn_messaging env (os_LoggedMessagingAvailability st) ?s3 = (logged, s4)" by force
  let ?pop = "populateSiddhiApps env (new_parser env texts s4) (os_SPContainer st) s4"
  have one: "registry_steps (registry_of st) (?r (os_SPContainer st) cmc)"
    using read_registry [OF read [unfolded getSiddhiApps_def]] by (simp add: registry_of_def)
  have two: "registry_steps (?r (os_SPContainer st) cmc) (?r spc cmc)" if "?pop = Some ((apps, e), spc, s5)" for apps e spc s5
    by (rule populate_registry [OF that]) (simp add: new_parser_def Let_def)
  have three: "registry_steps (?r spc cmc) (?r spc (cmc(m \<mapsto> (listener cmc m)\<lparr>cml_Changed := False\<rparr>)))" for spc m
    using registry_step.handled [of "?r spc cmc" m] by auto
  show ?thesis
  proof (cases e1)
    case (Some e)
    with run read have "registry_of st' = ?r (os_SPContainer st) cmc"
      by (auto simp: reconcile_apps_def s2_def [unfolded Let_def, symmetric] leave_def registry_of_def Let_def)
    with one show ?thesis by simp
  next
    case None
    with run read warn obtain apps e5 spc s5 where pop: "?pop = Some ((apps, e5), spc, s5)" and
      st': "registry_of st' \<in> {?r spc cmc, ?r spc (cmc(nn_Name request \<mapsto> (listener cmc (nn_Name request))\<lparr>cml_Changed := False\<rparr>))}"
      by (auto simp: reconcile_apps_def s2_def [unfolded Let_def, symmetric] leave_def registry_of_def Let_def
          bind_eq_Some_conv split: option.splits if_splits)
    from one two [OF pop] three [of spc "nn_Name request"] st' show ?thesis
      by (auto intro: rtranclp_trans)
  qed
qed

lemma Reconcile_registry:
  assumes "Reconcile env request st = Some (r, st')"
  shows "registry_steps (registry_of st) (registry_of st')"
proof -
  have process: "registry_steps (registry_of st) (registry_of st')"
    if "reconcile_process env request changed sp (st\<lparr>os_cluster := w\<rparr>) = Some (r, st')" for changed sp w
  proof -
    let ?st = "st\<lparr>os_cluster := w\<rparr>" and ?apps = "apps_of (os_SPContainer st) (sp_Name sp)"
    let ?sc = "UpdateDefaultConfigs (env_getenv env) (new_controller env sp ?st)"
    show ?thesis
    proof (cases "st_EventType (sp_Status sp) = eventType_name TIMER \<and> ?apps \<noteq> []")
      case True
      with that have "st' = leave (snd (CheckAvailableDeployments ?apps ?sc)) ?st"
        by (auto simp: reconcile_process_def Let_def split: prod.splits)
      then show ?thesis by simp
    next
      case False
      with that have "reconcile_apps env request changed ?sc ?st = Some (r, st')" by (auto simp: reconcile_process_def Let_def)
      from reconcile_apps_registry [OF this] show ?thesis by simp
    qed
  qed
  from assms show ?thesis
    by (auto simp: Reconcile_def Let_def intro: process split: prod.splits sum.splits kobject.splits if_splits)
qed


lemma on_update_registry: "on_update gk old new st = (new', reqs, st') \<Longrightarrow> registry_steps (registry_of st) (registry_of st')"
  by (induction gk old new st rule: on_update.induct)
    (auto simp: cm_UpdateFunc_def registry_of_def Let_def split: prod.splits if_splits intro!: r_into_rtranclp
      registry_step.mark [of "\<lparr>rg_Apps = spc, rg_Maps = cmc\<rparr>" for spc cmc, simplified])

lemma on_delete_registry: "on_delete gk obj unknown st = (reqs, st') \<Longrightarrow> registry_steps (registry_of st) (registry_of st')"
  by (cases obj)
    (auto simp: sp_DeleteFunc_def registry_of_def Let_def split: prod.splits if_splits intro!: r_into_rtranclp
      registry_step.forget [of "\<lparr>rg_Apps = spc, rg_Maps = cmc\<rparr>" for spc cmc, simplified])

lemma op_step_registry:
  "op_step env look valid gk s s' \<Longrightarrow> registry_steps (registry_of (or_state s)) (registry_of (or_state s'))"
  by (induction rule: op_step.induct)
    (auto dest: on_update_registry on_delete_registry Reconcile_registry)

lemma registry_reachable:
  "op_reachable env look valid gk s \<Longrightarrow> registry_steps \<lparr>rg_Apps = Map.empty, rg_Maps = Map.empty\<rparr> (registry_of (or_state s))"
  by (induction rule: op_reachable.induct)
    (auto simp: start_operator_def registry_of_def
      dest: op_step_registry intro: rtranclp_trans)

text \<open>The invariant of the abstract account: whole answers, named after their process.\<close>

definition registry_ok :: "registry \<Rightarrow> bool" where
  "registry_ok r \<longleftrightarrow> (\<forall>name apps. rg_Apps r name = Some apps \<longrightarrow> (\<exists>acs. make_applications name 0 acs [] = (apps, None)))"

lemma registry_step_ok: "registry_step r r' \<Longrightarrow> registry_ok r \<Longrightarrow> registry_ok r'"
  by (induction rule: registry_step.induct) (auto simp: registry_ok_def)

lemma registry_steps_ok: "registry_steps r r' \<Longrightarrow> registry_ok r \<Longrightarrow> registry_ok r'"
  by (induction rule: rtranclp_induct) (auto intro: registry_step_ok)

lemma op_reachable_apps:
  "op_reachable env look valid gk s \<Longrightarrow> os_SPContainer (or_state s) name = Some apps \<Longrightarrow>
     \<exists>acs. make_applications name 0 acs [] = (apps, None)"
  using registry_steps_ok [OF registry_reachable] by (fastforce simp: registry_ok_def registry_of_def)


section \<open>Owners\<close>

text \<open>What is sent to the server for an owner comes back as a request for it.\<close>

lemma ParseGroupVersion_String:
  "g \<noteq> [] \<Longrightarrow> CHR ''/'' \<notin> set g \<Longrightarrow> CHR ''/'' \<notin> set v \<Longrightarrow>
     ParseGroupVersion (GroupVersion_String \<lparr>gv_Group = g, gv_Version = v\<rparr>) = Inr \<lparr>gv_Group = g, gv_Version = v\<rparr>"
  by (cases g) (auto simp: ParseGroupVersion_def GroupVersion_String_def split_slash_append split_slash_no_slash)

lemma find_only: "x \<in> set xs \<Longrightarrow> P x \<Longrightarrow> (\<And>y. y \<in> set xs \<Longrightarrow> P y \<Longrightarrow> Q y) \<Longrightarrow> \<exists>y. find P xs = Some y \<and> Q y"
  by (induction xs) auto

section \<open>Properties\<close>

text \<open>
  C18: the owner of an object is woken by its changes. When \<open>SetControllerReference\<close> accepts the owner, a
  change of the object enqueues exactly one request, for the owner: the group and kind that are
  printed into the reference are those the watch compares after parsing them.
\<close>

theorem Owner_is_enqueued:
  assumes "scheme (kind_of owner) = Inr gvk" and "gvk_Group gvk \<noteq> []"
    and "CHR ''/'' \<notin> set (gvk_Group gvk)" and "CHR ''/'' \<notin> set (gvk_Version gvk)"
    and "SetControllerReference owner obj scheme = (None, obj')" and "om_Namespace (meta_of obj) = om_Namespace (meta_of owner)"
  shows "getOwnerReconcileRequest gvk (meta_of obj') = [key_of owner]"
proof -
  let ?ref = "NewControllerRef (meta_of owner) gvk"
  have parse: "ParseGroupVersion (or_APIVersion ?ref) = Inr \<lparr>gv_Group = gvk_Group gvk, gv_Version = gvk_Version gvk\<rparr>"
    using assms(2-4) by (simp add: NewControllerRef_def ParseGroupVersion_String)
  have "\<exists>r. GetControllerOf (meta_of obj') = Some r \<and> (r = ?ref \<or> referSameObject ?ref r)"
    unfolding GetControllerOf_def using SetControllerReference_ok [OF assms(1,5)]
    by (intro find_only [of ?ref]) (auto simp: NewControllerRef_def)
  then obtain r where r: "GetControllerOf (meta_of obj') = Some r" "r = ?ref \<or> referSameObject ?ref r" by blast
  then have "ParseGroupVersion (or_APIVersion r) = Inr \<lparr>gv_Group = gvk_Group gvk, gv_Version = gvk_Version gvk\<rparr> \<and>
      or_Kind r = gvk_Kind gvk \<and> or_Name r = om_Name (meta_of owner)"
    using parse by (auto simp: referSameObject_def NewControllerRef_def split: sum.splits)
  moreover have "om_Namespace (meta_of obj') = om_Namespace (meta_of owner)"
    using SetControllerReference_frame [OF assms(5)] assms(6) by (simp add: key_of_def)
  ultimately show ?thesis using r(1) by (simp add: getOwnerReconcileRequest_def key_of_def nn_def)
qed

theorem Owner_is_enqueued_witness:
  "getOwnerReconcileRequest \<lparr>gvk_Group = ''siddhi.io'', gvk_Version = ''v1alpha2'', gvk_Kind = ''SiddhiProcess''\<rparr>
     (meta_of (snd (SetControllerReference (OSiddhiProcess sample_process) (ODeployment (sample_deployment ''app-0'' 1 0)) sample_scheme))) =
   [nn ''app'' ''ns'']"
proof -
  have "fst (SetControllerReference (OSiddhiProcess sample_process) (ODeployment (sample_deployment ''app-0'' 1 0)) sample_scheme) = None"
    by code_simp
  then have run: "SetControllerReference (OSiddhiProcess sample_process) (ODeployment (sample_deployment ''app-0'' 1 0)) sample_scheme =
      (None, snd (SetControllerReference (OSiddhiProcess sample_process) (ODeployment (sample_deployment ''app-0'' 1 0)) sample_scheme))"
    by (metis prod.collapse)
  have "om_Namespace (meta_of (ODeployment (sample_deployment ''app-0'' 1 0))) = om_Namespace (meta_of (OSiddhiProcess sample_process))"
    by code_simp
  with Owner_is_enqueued [OF _ _ _ _ run] show ?thesis
    by (simp add: sample_scheme_def key_of_def nn_def sample_process_def zero_siddhi_process_def new_meta_def)
qed

text \<open>
  C1: the operator never panics. In every state the operator can reach, from any well-formed cluster and
  while everybody else writes well-formed ingresses and deployments, no request panics: whatever the order of
  events and requests, however often calls of the server fail, whatever happens between the calls of a request, and
  however far what the operator reads lags behind the server.
\<close>

theorem Operator_never_panics:
  assumes "kube_reads (kc_Client (env_KubeClient env)) look valid" and "urls_ok (env_parser_service env)"
    and "op_reachable env look valid gk s"
  shows "op_sound look valid s \<and> Reconcile env request (or_state s) \<noteq> None"
proof -
  from kube_reads.op_reachable_sound [OF assms(1) refl assms(2,3)] have "op_sound look valid s" .
  with kube_reads.Reconcile_total [OF assms(1) refl _ assms(2), of "or_state s" request] show ?thesis
    by (auto simp: op_sound_def)
qed

text \<open>A process is created, and its request is run.\<close>

definition sample_gvk :: group_version_kind where
  "sample_gvk = \<lparr>gvk_Group = ''siddhi.io'', gvk_Version = ''v1alpha2'', gvk_Kind = ''SiddhiProcess''\<rparr>"

definition sample_operator :: "tracker operator" where
  "sample_operator = \<lparr>or_state = sample_new, or_queue = {sample_request}\<rparr>"

lemma sample_sound: "sound (tracker_look empty_tracker)"
  by (simp add: sound_def tracker_empty)

lemma sample_reachable: "op_reachable sample_env tracker_look tracker_inv sample_gvk sample_operator"
proof -
  have "op_reachable sample_env tracker_look tracker_inv sample_gvk (start_operator [] empty_tracker)"
    by (intro op_reachable.start) (simp_all add: sample_sound)
  moreover have "op_step sample_env tracker_look tracker_inv sample_gvk (start_operator [] empty_tracker) sample_operator"
  proof -
    let ?st = "\<lparr>os_SPContainer = Map.empty, os_CMContainer = Map.empty, os_LoggedMessagingAvailability = False,
      os_events = [], os_cluster = empty_tracker\<rparr>"
    have "on_add sample_gvk (OSiddhiProcess sample_scripted) = (OSiddhiProcess sample_scripted, [sample_request])"
      by (simp add: sp_CreateFunc_def EnqueueRequestForObject_def zero_siddhi_process_status_def nn_def)
    moreover have "tracker_look (os_cluster sample_new) = updated (tracker_look empty_tracker) (OSiddhiProcess sample_scripted) (OSiddhiProcess sample_scripted)"
      by (simp add: fun_eq_iff updated_apply tracker_empty key_of_process)
    ultimately have "op_step sample_env tracker_look tracker_inv sample_gvk \<lparr>or_state = ?st, or_queue = {}\<rparr>
        \<lparr>or_state = ?st\<lparr>os_cluster := os_cluster sample_new\<rparr>, or_queue = {} \<union> set [sample_request]\<rparr>"
      by (intro op_step.added) (simp_all add: obj_ok_def)
    then show ?thesis by (simp add: start_operator_def sample_operator_def sample_new_def sample_state_def)
  qed
  ultimately show ?thesis by (rule op_reachable.step)
qed

theorem Operator_never_panics_witness: "Reconcile (env_over loose_client) sample_request (start_over loose_start) \<noteq> None"
proof -
  have "op_reachable (env_over loose_client) loose_look loose_inv sample_gvk (start_operator [] loose_start)"
    by (rule op_reachable.start) (rule loose_start_ok)+
  then have "Reconcile (env_over loose_client) sample_request (or_state (start_operator [] loose_start)) \<noteq> None"
    using Operator_never_panics [of "env_over loose_client" loose_look loose_inv] loose_reads.kube_reads_axioms by simp
  then show ?thesis by (simp add: start_operator_def start_over_def)
qed





end
