(* ===== verification/Settled.thy ===== *)
theory Settled
  imports EventLoop
begin

text \<open>
  The end of a rollout. On a server that also accepts the status updates of processes it holds, what
  the operator computes for a process is what the server shows; when the deployments are available the
  request of the timer reports the process ready and leaves the work queue.
\<close>

section \<open>Servers that accept status updates\<close>

locale kube_settled = kube_live +
  assumes status_total: "inv w \<Longrightarrow> look w KSiddhiProcess (key_of (OSiddhiProcess sp)) \<noteq> None \<Longrightarrow>
    \<exists>obj w'. cl_StatusUpdate c (OSiddhiProcess sp) w = (Inr obj, w')"

interpretation cached_settled: kube_settled cached_client tracker_look "\<lambda>obj. obj" tracker_inv
proof unfold_locales
  fix w sp assume "tracker_inv w" and "tracker_look w KSiddhiProcess (key_of (OSiddhiProcess sp)) \<noteq> None"
  then have "replace_first (OSiddhiProcess sp) (w KSiddhiProcess) \<noteq> None"
    by (simp add: replace_first_None tracker_look_def)
  then show "\<exists>obj w'. cl_StatusUpdate cached_client (OSiddhiProcess sp) w = (Inr obj, w')"
    by (auto simp: cached_client_def tracker_add_def Let_def)
qed

text \<open>The server shows the status the controller has in memory.\<close>

definition status_shown :: "('w \<Rightarrow> kind \<Rightarrow> namespaced_name \<Rightarrow> kobject option) \<Rightarrow> 'w ctl \<Rightarrow> bool" where
  "status_shown l s \<longleftrightarrow>
     (\<exists>sp. l (ctl_cluster s) KSiddhiProcess (sp_key s) = Some (OSiddhiProcess sp) \<and> sp_Status sp = sp_Status (the_sp s))"

definition process_present :: "('w \<Rightarrow> kind \<Rightarrow> namespaced_name \<Rightarrow> kobject option) \<Rightarrow> 'w ctl \<Rightarrow> bool" where
  "process_present l s \<longleftrightarrow> l (ctl_cluster s) KSiddhiProcess (sp_key s) \<noteq> None"

context kube_settled
begin

abbreviation "shown \<equiv> status_shown look"
abbreviation "present \<equiv> process_present look"

lemma push_shown:
  assumes k: "kc_Client (ctl_KubeClient s) = c" and w: "inv (ctl_cluster s)" and p: "present s"
  shows "\<exists>s'. push_status s = (None, s') \<and> shown s'"
proof -
  have key: "sp_key s = key_of (OSiddhiProcess (the_sp s))" by (simp add: key_of_process sp_key_def)
  from status_total [OF w] p key obtain obj w' where
    upd: "cl_StatusUpdate c (OSiddhiProcess (the_sp s)) (ctl_cluster s) = (Inr obj, w')"
    unfolding process_present_def by metis
  from status_ok [OF upd w] have obj: "kind_of obj = KSiddhiProcess" "key_of obj = sp_key s" and
    l: "look w' = (look (ctl_cluster s))(KSiddhiProcess := (look (ctl_cluster s) KSiddhiProcess)(sp_key s \<mapsto> obj))"
    using key by simp_all
  from obj(1) obtain sp where sp: "obj = OSiddhiProcess sp" by (auto simp: kind_of_eqs)
  then have push: "push_status s = (None, upd_sp (\<lambda>_. sp) (s\<lparr>ctl_cluster := w'\<rparr>))"
    using upd k by (simp add: push_status_def)
  moreover have "sp_key (upd_sp (\<lambda>_. sp) (s\<lparr>ctl_cluster := w'\<rparr>)) = sp_key s"
    using obj(2) sp by (simp add: sp_key_def key_of_process)
  ultimately show ?thesis using l sp by (simp add: status_shown_def)
qed

lemma present_step: "sp_step s s' \<Longrightarrow> shown s' \<Longrightarrow> present s'"
  by (auto simp: status_shown_def process_present_def)

lemma push_or_restore_shown:
  assumes "kc_Client (ctl_KubeClient s) = c" and "inv (ctl_cluster s)" and "present s"
  shows "shown (push_or_restore ptr s)"
  using push_shown [OF assms] by (auto simp: push_or_restore_def)

lemma present_status [simp]: "present (set_status t s) = present s" "present (upd_status f s) = present s"
  "present (with_cluster w s) \<longleftrightarrow> look w KSiddhiProcess (sp_key s) \<noteq> None"
  by (simp_all add: process_present_def sp_key_def)

lemma CheckAvailable_shown:
  assumes k: "kc_Client (ctl_KubeClient s) = c" and w: "inv (ctl_cluster s)" and p: "present s"
    and all: "\<forall>a \<in> set as. available (deployment_of (look (ctl_cluster s)) (sp_Namespace (the_sp s)) a) = wanted a"
  shows "\<exists>s'. CheckAvailableDeployments as s = (True, s') \<and> shown s' \<and> sp_step s s' \<and>
    st_Status (sp_Status (the_sp s')) = ''Ready''"
proof -
  obtain t s' where run: "CheckAvailableDeployments as s = (t, s')" by force
  let ?dep = "deployment_of (look (ctl_cluster s)) (sp_Namespace (the_sp s))"
  let ?v = "count_all ?dep as zero_availability"
  have "sum_list (map wanted as) = sum_list (map (available \<circ> ?dep) as)"
    using all by (intro arg_cong [where f = sum_list] map_cong) simp_all
  then have enough: "av_need ?v = av_available ?v" by (simp add: count_all_fields zero_availability_def)
  from CheckAvailable_live [OF k w, of as] run enough have
    t: "t" "sp_step s s'" "st_Status (sp_Status (the_sp s')) = ''Ready''" by simp_all
  from count_deployments_live [OF k w, of as zero_availability] obtain w1 where
    cnt: "count_deployments as zero_availability s = (?v, with_cluster w1 s)" "inv w1" "look w1 = look (ctl_cluster s)" by blast
  let ?s1 = "with_cluster w1 s"
  let ?s2 = "UpdateReadyDeployments (av_available ?v) (av_need ?v) ?s1"
  have k1: "kc_Client (ctl_KubeClient ?s1) = c" "inv (ctl_cluster ?s1)" using k cnt by simp_all
  have p1: "present ?s1" using p cnt(3) by (simp add: process_present_def)
  have "shown ?s2" unfolding UpdateReadyDeployments_def using k1 p1 by (intro push_or_restore_shown) simp_all
  moreover note step2 = status_steps(7) [OF k1, of "av_available ?v" "av_need ?v"]
  ultimately have p2: "present ?s2" using present_step by blast
  from ctl_step_same [OF step2] k1 have k2: "kc_Client (ctl_KubeClient ?s2) = c" "inv (ctl_cluster ?s2)" by simp_all
  have "shown (UpdateReadyStatus ?s2)" unfolding UpdateReadyStatus_def using k2 p2 by (intro push_or_restore_shown) simp_all
  moreover have "s' = UpdateReadyStatus ?s2" using run cnt(1) enough by (simp add: CheckAvailableDeployments_def Let_def)
  ultimately show ?thesis using run t by simp
qed


lemma timer_shown:
  assumes k: "kc_Client (env_KubeClient env) = c" and w: "inv (os_cluster st)"
    and cm: "look (os_cluster st) KConfigMap request = None"
    and sp: "look (os_cluster st) KSiddhiProcess request = Some (OSiddhiProcess sp)"
    and timer: "st_EventType (sp_Status sp) = ''Timer''" and apps: "os_SPContainer st (sp_Name sp) = Some apps" "apps \<noteq> []"
    and all: "\<forall>a \<in> set apps. available (deployment_of (look (os_cluster st)) (nn_Namespace request) a) = wanted a"
  shows "\<exists>st' sp'. Reconcile env request st = Some ((no_requeue, None), st') \<and>
    look (os_cluster st') KSiddhiProcess request = Some (OSiddhiProcess sp') \<and> st_Status (sp_Status sp') = ''Ready'' \<and>
    touches (look (os_cluster st)) (look (os_cluster st')) {(KSiddhiProcess, request)} \<and> inv (os_cluster st')"
proof -
  from Reconcile_unfold [OF k w, of request] cm sp obtain w2 where
    w2: "inv w2" "look w2 = look (os_cluster st)" and
    rec: "Reconcile env request st = reconcile_process env request True sp (st\<lparr>os_cluster := w2\<rparr>)"
    by (auto simp: request_target_def)
  let ?st = "st\<lparr>os_cluster := w2\<rparr>"
  define s where "s = UpdateDefaultConfigs (env_getenv env) (new_controller env sp ?st)"
  from look_obj [OF w sp] have key: "nn (sp_Name sp) (sp_Namespace sp) = request" by (simp add: key_of_process)
  from UpdateDefaultConfigs_step [of "new_controller env sp ?st" _ "env_getenv env"] w2 k
  have s: "kc_Client (ctl_KubeClient s) = c" "inv (ctl_cluster s)" "the_sp s = sp" "look (ctl_cluster s) = look (os_cluster st)"
    by (simp_all add: s_def ns_step_def)
  have "sp_key s = request" using s(3) key by (simp add: sp_key_def)
  moreover have "sp_Namespace sp = nn_Namespace request" using key by auto
  ultimately obtain s' where chk: "CheckAvailableDeployments apps s = (True, s')" "shown s'" "sp_step s s'"
    "st_Status (sp_Status (the_sp s')) = ''Ready''"
    using CheckAvailable_shown [OF s(1,2), of apps] all s(3,4) sp by (auto simp: process_present_def)
  from chk(1) have run: "reconcile_process env request True sp ?st = Some ((no_requeue, None), leave s' ?st)"
    using timer apps by (simp add: reconcile_process_def apps_of_def s_def [symmetric] Let_def)
  have "sp_key s' = request" using ctl_step_same [OF chk(3)] \<open>sp_key s = request\<close> by simp
  with chk(2-4) s(4) rec run \<open>sp_key s = request\<close> show ?thesis
    by (auto simp: status_shown_def leave_def ctl_step_def)
qed

end

section \<open>Properties\<close>

text \<open>
  C2: the timer ends. When the deployments of all applications have as many pods available as are
  wanted, the timer request of a process leaves the work queue, and the process on the server is then
  reported \<open>Ready\<close>; nothing else is touched.
\<close>

theorem Process_becomes_ready:
  assumes "kube_settled (kc_Client (env_KubeClient env)) look adm valid" and "valid (os_cluster st)"
    and "look (os_cluster st) KConfigMap request = None"
    and "look (os_cluster st) KSiddhiProcess request = Some (OSiddhiProcess sp)"
    and "st_EventType (sp_Status sp) = ''Timer''" and "os_SPContainer st (sp_Name sp) = Some apps" and "apps \<noteq> []"
    and "\<forall>a \<in> set apps. available (deployment_of (look (os_cluster st)) (nn_Namespace request) a) = wanted a"
    and "request \<in> q"
  shows "\<exists>st' sp'. op_step env look valid gk \<lparr>or_state = st, or_queue = q\<rparr> \<lparr>or_state = st', or_queue = q - {request}\<rparr> \<and>
    look (os_cluster st') KSiddhiProcess request = Some (OSiddhiProcess sp') \<and> st_Status (sp_Status sp') = ''Ready'' \<and>
    touches (look (os_cluster st)) (look (os_cluster st')) {(KSiddhiProcess, request)}"
proof -
  from kube_settled.timer_shown [OF assms(1) refl assms(2-8)] obtain st' sp' where
    run: "Reconcile env request st = Some ((no_requeue, None), st')" and
    res: "look (os_cluster st') KSiddhiProcess request = Some (OSiddhiProcess sp')" "st_Status (sp_Status sp') = ''Ready''"
    "touches (look (os_cluster st)) (look (os_cluster st')) {(KSiddhiProcess, request)}" by blast
  from op_step.worked [OF assms(9) run] have
    "op_step env look valid gk \<lparr>or_state = st, or_queue = q\<rparr> \<lparr>or_state = st', or_queue = q - {request}\<rparr>"
    by (simp add: requeued_def no_requeue_def)
  with res show ?thesis by blast
qed

text \<open>A process at rest whose one deployment has the pod it wants.\<close>

definition sample_rest :: tracker where
  "sample_rest = sample_timer(KDeployment := [ODeployment (sample_deployment ''app-0'' 1 1)])"

lemma sample_rest_look:
  "tracker_look sample_rest kd n =
     (if kd = KDeployment \<and> n = nn ''app-0'' ''ns'' then Some (ODeployment (sample_deployment ''app-0'' 1 1))
      else tracker_look sample_timer kd n)"
proof -
  have "key_of (ODeployment (sample_deployment ''app-0'' 1 1)) = nn ''app-0'' ''ns''" by code_simp
  then show ?thesis by (simp add: sample_rest_def tracker_look_def objs_map_def sample_timer_def empty_tracker_def)
qed

theorem Process_becomes_ready_witness:
  "\<exists>st' sp'. op_step sample_env tracker_look tracker_inv sample_gvk
       \<lparr>or_state = sample_state sample_rest, or_queue = {sample_request}\<rparr> \<lparr>or_state = st', or_queue = {}\<rparr> \<and>
     tracker_look (os_cluster st') KSiddhiProcess sample_request = Some (OSiddhiProcess sp') \<and> st_Status (sp_Status sp') = ''Ready''"
proof -
  have set: "kube_settled (kc_Client (env_KubeClient sample_env)) tracker_look (\<lambda>obj. obj) tracker_inv"
    by (simp add: cached_settled.kube_settled_axioms)
  have inv: "tracker_inv sample_rest"
    using sample_timer_inv by (simp add: tracker_inv_def sample_rest_def)
  have low: "ToLower ''app-0'' = ''app-0''" by code_simp
  have "available (Some (sample_deployment ''app-0'' 1 1)) = wanted sample_app" by code_simp
  then have all: "\<forall>a \<in> set [sample_app]. available (deployment_of (tracker_look sample_rest) ''ns'' a) = wanted a"
    using low by (simp add: deployment_of_def sample_rest_look sample_app_def)
  have sp: "st_EventType (sp_Status sample_timed) = ''Timer''" "sp_Name sample_timed = ''app''"
    by (simp_all add: sample_timed_def sample_process_def zero_siddhi_process_def new_meta_def)
  from Process_becomes_ready [where env = sample_env and look = tracker_look and adm = "\<lambda>obj. obj" and valid = tracker_inv
      and st = "sample_state sample_rest" and request = sample_request and sp = sample_timed and apps = "[sample_app]"
      and q = "{sample_request}" and gk = sample_gvk, OF set] inv all sp
  show ?thesis by (simp add: sample_rest_look sample_timer_look) blast
qed

end
