(* ===== verification/Isolation.thy ===== *)
theory Isolation
  imports EventLoop
begin

text \<open>
  Processes in one namespace. In every state the operator can reach, a request for a process leaves the
  objects of the other processes alone, with a server of current reads and with one of reads that lag, as long as neither of the two names extends the other one by a
  hyphen; where one does, two processes can share a config map.
\<close>

section \<open>The objects of a process\<close>

definition process_objects :: "namespaced_name \<Rightarrow> (kind \<times> namespaced_name) set" where
  "process_objects key =
     {(kd, n). nn_Namespace n = nn_Namespace key \<and>
        (kd = KSiddhiProcess \<and> n = key \<or>
         kd \<in> {KDeployment, KService, KPVC, KConfigMap} \<and> derived (nn_Name key) (nn_Name n))}"

text \<open>What the processes of a namespace share: the ingress and the NATS clusters.\<close>

definition shared_objects :: "string \<Rightarrow> (kind \<times> namespaced_name) set" where
  "shared_objects ns = {(KIngress, nn IngressName ns), (KNatsCluster, nn NATSClusterName ns), (KStanCluster, nn STANClusterName ns)}"

definition unrelated :: "string \<Rightarrow> string \<Rightarrow> bool" where
  "unrelated a b \<longleftrightarrow> a \<noteq> b \<and> \<not> derived a b \<and> \<not> derived b a"

lemma request_objects_split:
  assumes "\<forall>a \<in> N. derived (nn_Name key) a"
  shows "request_objects key N \<subseteq> process_objects key \<union> shared_objects (nn_Namespace key)"
proof
  fix x assume "x \<in> request_objects key N"
  then obtain kd n where x: "x = (kd, n)" "nn_Namespace n = nn_Namespace key" and
    own: "kd = KSiddhiProcess \<and> n = key \<or> kd = KIngress \<and> nn_Name n = IngressName \<or>
      kd = KNatsCluster \<and> nn_Name n = NATSClusterName \<or> kd = KStanCluster \<and> nn_Name n = STANClusterName \<or>
      kd \<in> {KDeployment, KService, KPVC, KConfigMap} \<and> derived (nn_Name key) (nn_Name n)"
    using assms by (auto simp: request_objects_def dest: app_object_derived)
  then have "n = nn (nn_Name n) (nn_Namespace key)" by (cases n) (simp add: nn_def)
  with x own show "x \<in> process_objects key \<union> shared_objects (nn_Namespace key)"
    by (auto simp: process_objects_def shared_objects_def)
qed

lemma prefixes_nested:
  assumes "HasPrefix s p" and "HasPrefix s q"
  shows "HasPrefix p q \<or> HasPrefix q p"
  using assms unfolding HasPrefix_def by (metis min.absorb1 min.absorb2 nat_le_linear take_take)

lemma derived_unrelated:
  assumes low: "ToLower a = a" "ToLower b = b" and "unrelated a b" and "derived a s" "derived b s"
  shows False
proof -
  have ext: "p = q \<or> derived q p" if "HasPrefix (p @ ''-'') (q @ ''-'')" for p q
  proof (cases "length p = length q")
    case False
    with that have "length q < length p" by (auto simp: HasPrefix_def dest!: arg_cong [where f = length])
    with that have "HasPrefix p (q @ ''-'')" by (simp add: HasPrefix_def)
    then show ?thesis by (simp add: derived_def)
  qed (use that in \<open>simp add: HasPrefix_def\<close>)
  from assms(4,5) low have "HasPrefix s (a @ ''-'')" "HasPrefix s (b @ ''-'')" by (auto simp: derived_def)
  from prefixes_nested [OF this] ext assms(3) show False unfolding unrelated_def by blast
qed

lemma process_objects_disjoint:
  assumes "ToLower (nn_Name p) = nn_Name p" "ToLower (nn_Name q) = nn_Name q" and "unrelated (nn_Name p) (nn_Name q)"
  shows "process_objects p \<inter> process_objects q = {}"
  using derived_unrelated [OF assms] assms(3) by (auto simp: process_objects_def unrelated_def)

lemma process_not_shared: "x \<in> process_objects q \<Longrightarrow> x \<notin> shared_objects ns"
  by (auto simp: process_objects_def shared_objects_def)

lemma stored_derived:
  assumes "op_reachable env look valid gk s"
  shows "\<forall>a \<in> stored_names (os_SPContainer (or_state s)) name. derived name a"
proof (cases "os_SPContainer (or_state s) name")
  case (Some apps)
  from op_reachable_apps [OF assms Some] obtain acs where "make_applications name 0 acs [] = (apps, None)" by blast
  from make_applications_named [OF this, of "{}"] Some show ?thesis
    by (auto simp: named_def stored_names_def apps_of_def)
qed (simp add: stored_names_def apps_of_def)

section \<open>Properties\<close>

text \<open>
  Processes do not interfere. In every state the operator can reach, a request for a process that no
  config map has the name of, with whatever failures, leaves every object of a process of an unrelated name
  as it was: its deployments, services, claims, config maps and its status.
\<close>

theorem Processes_isolated:
  assumes "kube_status (kc_Client (env_KubeClient env)) look adm valid" and "op_reachable env look valid gk s"
    and "valid (os_cluster (or_state s))" and "look (os_cluster (or_state s)) KConfigMap request = None"
    and "Reconcile env request (or_state s) = Some (r, st')"
    and "ToLower (nn_Name request) = nn_Name request" and "ToLower (nn_Name other) = nn_Name other"
    and "unrelated (nn_Name request) (nn_Name other)" and "(kd, n) \<in> process_objects other"
  shows "look (os_cluster st') kd n = look (os_cluster (or_state s)) kd n"
proof -
  from kube_status.Reconcile_step [OF assms(1) refl assms(3,5)] assms(4) have
    "touches (look (os_cluster (or_state s))) (look (os_cluster st'))
       (request_objects request (stored_names (os_SPContainer (or_state s)) (nn_Name request)))"
    by (auto simp: request_key_def)
  from touches_mono [OF this request_objects_split [OF stored_derived [OF assms(2)]]]
  show ?thesis
    using process_objects_disjoint [OF assms(6-8)] process_not_shared [OF assms(9)] assms(9) by (blast intro: touchesD)
qed

lemma sample_rollout:
  "\<exists>apps st'. Reconcile sample_env sample_request sample_new = Some ((requeue_after (time_Second * ReconcileTime), None), st') \<and>
     make_applications ''app'' 0 sample_answer [] = (apps, None) \<and> os_SPContainer st' = [''app'' \<mapsto> apps]"
proof -
  have svc: "service_answers sample_env sample_scripted texts tracker_look sample_answer" for texts
    by (simp add: service_answers_def parser_answers_def sample_env_def sample_service_def)
  have "getAppName sample_script = Inr ''a''" by code_simp
  with kube_live.Reconcile_process_live [OF cached_live.kube_live_axioms _ _ _ _ _ _ _ _ _ svc, of sample_new sample_request]
    sample_ready show ?thesis
    by (auto simp: sample_answer_def zero_siddhi_process_status_def)
qed

theorem Processes_isolated_witness:
  "\<exists>st'. Reconcile sample_env sample_request sample_new = Some ((requeue_after (time_Second * ReconcileTime), None), st') \<and>
     tracker_look (os_cluster st') KDeployment (nn ''other-0'' ''ns'') = None"
proof -
  from sample_rollout obtain st' where
    run: "Reconcile sample_env sample_request sample_new = Some ((requeue_after (time_Second * ReconcileTime), None), st')" by blast
  then have run': "Reconcile sample_env sample_request (or_state sample_operator) =
      Some ((requeue_after (time_Second * ReconcileTime), None), st')" by (simp add: sample_operator_def)
  have low: "ToLower ''app'' = ''app''" "ToLower ''other'' = ''other''" by code_simp+
  have "unrelated ''app'' ''other''" by code_simp
  moreover have "derived ''other'' ''other-0''" by code_simp
  moreover have "kube_status (kc_Client (env_KubeClient sample_env)) tracker_look (\<lambda>obj. obj) tracker_inv"
    by (simp add: cached_stat.kube_status_axioms)
  ultimately have "tracker_look (os_cluster st') KDeployment (nn ''other-0'' ''ns'') =
      tracker_look (os_cluster sample_new) KDeployment (nn ''other-0'' ''ns'')"
    using Processes_isolated [where env = sample_env and look = tracker_look and adm = "\<lambda>obj. obj" and valid = tracker_inv
        and s = sample_operator and request = sample_request and other = "nn ''other'' ''ns''" and kd = KDeployment
        and n = "nn ''other-0'' ''ns''", OF _ sample_reachable _ _ run'] low
    by (simp add: process_objects_def sample_operator_def)
  with run show ?thesis by simp
qed

text \<open>
  C12: processes do not interfere, for clients of any kind. In every state the operator can reach, a request for a
  process writes, or tries to, no object of a process of an unrelated name: whatever calls fail, whatever others
  do between them, and however old what is read.
\<close>

theorem Processes_left_alone:
  assumes "kube_reads c look valid" and "kc_Client (env_KubeClient env) = audited c" and "urls_ok (env_parser_service env)"
    and "op_reachable env (\<lambda>p. look (fst p)) (\<lambda>p. valid (fst p)) gk s" and "snd (os_cluster (or_state s)) = []"
    and "key = read_target (audited c) request (or_state s)"
    and "ToLower (nn_Name key) = nn_Name key" and "ToLower (nn_Name other) = nn_Name other"
    and "unrelated (nn_Name key) (nn_Name other)"
  shows "\<exists>r st'. Reconcile env request (or_state s) = Some (r, st') \<and> set (snd (os_cluster st')) \<inter> process_objects other = {}"
proof -
  from kube_reads.op_reachable_sound [OF kube_reads.audited_reads [OF assms(1)] assms(2,3,4)]
  have "valid (fst (os_cluster (or_state s))) \<and> sound (look (fst (os_cluster (or_state s))))" by (simp add: op_sound_def)
  from kube_reads.Reconcile_audited [OF assms(1,2) this assms(5,3,6)] obtain r st' where
    run: "Reconcile env request (or_state s) = Some (r, st')"
      "set (snd (os_cluster st')) \<subseteq> request_objects key (stored_names (os_SPContainer (or_state s)) (nn_Name key))" by blast
  moreover have "request_objects key (stored_names (os_SPContainer (or_state s)) (nn_Name key)) \<inter> process_objects other = {}"
    using request_objects_split [OF stored_derived [OF assms(4)]] process_objects_disjoint [OF assms(7-9)] process_not_shared
    by blast
  ultimately show ?thesis by blast
qed

theorem Processes_left_alone_witness:
  "\<exists>r st'. Reconcile (env_over (audited loose_client)) sample_request (start_over (loose_start, [])) = Some (r, st') \<and>
    (KDeployment, nn ''other-0'' ''ns'') \<notin> set (snd (os_cluster st'))"
proof -
  let ?s = "start_operator [] (loose_start, []) :: (loose \<times> (kind \<times> namespaced_name) list) operator"
  have s: "or_state ?s = start_over (loose_start, [])" by (simp add: start_operator_def start_over_def)
  have reach: "op_reachable (env_over (audited loose_client)) (\<lambda>p. loose_look (fst p)) (\<lambda>p. loose_inv (fst p)) sample_gvk ?s"
    by (rule op_reachable.start) (simp_all add: loose_start_ok)
  have key: "read_target (audited loose_client) sample_request (start_over (loose_start, [])) = sample_request"
    by code_simp
  have other: "ToLower ''app'' = ''app''" "ToLower ''other'' = ''other''" "unrelated ''app'' ''other''" "derived ''other'' ''other-0''"
    by code_simp+
  show ?thesis
    using Processes_left_alone [OF loose_reads.kube_reads_axioms _ _ reach, of sample_request sample_request "nn ''other'' ''ns''"]
      s key other by (auto simp: process_objects_def)
qed

text \<open>
  With names that extend each other it is otherwise: the configuration of the first, persistent application
  of a process app and that of the applications without persistence of a process app-0 have the same
  config map.
\<close>

theorem Config_maps_collide:
  assumes "ap_PersistenceEnabled (dm_Application d)" and "ap_Name (dm_Application d) = name @ ''-0''"
    and "\<not> ap_PersistenceEnabled (dm_Application d')" and "sp_Name (dm_SiddhiProcess d') = name @ ''-0''"
  shows "config_cm_name d = config_cm_name d'"
  using assms by (simp add: config_cm_name_def)

end
