(* ===== verification/Journey.thy ===== *)
theory Journey
  imports Settled Isolation
begin

text \<open>
  From a request to a process that is reported ready: the request is rolled out, the watch delivers the
  process as the operator has written it, the pods of every deployment come up, and the request of the
  timer finds them. Each step is one of the event loop's, so that the whole is a run of the operator.
\<close>

section \<open>Servers others can write to\<close>

text \<open>Every object can be written by somebody.\<close>

locale kube_open = kube_settled +
  assumes put: "inv w \<Longrightarrow> \<exists>w'. inv w' \<and> look w' = updated (look w) obj obj"

interpretation cached_open: kube_open cached_client tracker_look "\<lambda>obj. obj" tracker_inv
proof unfold_locales
  fix w obj assume w: "tracker_inv w"
  show "\<exists>w'. tracker_inv w' \<and> tracker_look w' = updated (tracker_look w) obj obj"
  proof (cases "tracker_look w (kind_of obj) (key_of obj)")
    case None
    from cached.create_total [OF w None] obtain w' where run: "cl_Create cached_client obj w = (None, w')" by blast
    from cached.create_inv [OF run w] cached.create_ok [OF run w] show ?thesis by (auto simp: updated_def)
  next
    case (Some old)
    with cached.update_total [OF w] obtain w' where run: "cl_Update cached_client obj w = (None, w')" by blast
    from cached.update_inv [OF run w] cached.update_ok [OF run w] show ?thesis by (auto simp: updated_def)
  qed
qed

section \<open>Steps of others\<close>

text \<open>The specs of an update without a change compare equal.\<close>

lemma Spec_Equals_refl: "fst (Spec_Equals p p)"
  by (simp add: comparison_iffs)

lemma sp_UpdateFunc_same:
  obtains old' new' where "sp_UpdateFunc sp sp = (False, old', new')" "sp_ObjectMeta new' = sp_ObjectMeta sp"
    "st_EventType (sp_Status new') = ''Timer''"
proof -
  obtain oldSpec newSpec where "Spec_Equals (sp_Spec sp) (sp_Spec sp) = (True, oldSpec, newSpec)"
    using Spec_Equals_refl [of "sp_Spec sp"] by (cases "Spec_Equals (sp_Spec sp) (sp_Spec sp)") auto
  moreover have "eventType_name TIMER = ''Timer''" by code_simp
  ultimately obtain old' new' where run: "sp_UpdateFunc sp sp = (False, old', new')" and
    "st_EventType (sp_Status new') = ''Timer''"
    by (simp add: sp_UpdateFunc_def)
  with sp_UpdateFunc_meta [OF run] that show thesis by blast
qed

text \<open>The pods a deployment's status reports.\<close>

definition with_available :: "int32 \<Rightarrow> deployment \<Rightarrow> deployment" where
  "with_available n d = d\<lparr>dep_Status := (dep_Status d)\<lparr>dstat_AvailableReplicas := n\<rparr>\<rparr>"

lemma with_available_fields [simp]:
  "dep_ObjectMeta (with_available n d) = dep_ObjectMeta d" "dep_Spec (with_available n d) = dep_Spec d"
  "key_of (ODeployment (with_available n d)) = key_of (ODeployment d)"
  "available (Some (with_available n d)) = int_of_int32 n"
  by (simp_all add: with_available_def key_of_def available_def)

text \<open>The deployments of a list of applications, by name and with their replicas.\<close>

definition scaled_to :: "(kind \<Rightarrow> namespaced_name \<Rightarrow> kobject option) \<Rightarrow> string \<Rightarrow> application \<Rightarrow> bool" where
  "scaled_to l ns a \<longleftrightarrow> (\<exists>d. deployment_of l ns a = Some d \<and> ds_Replicas (dep_Spec d) = Some (ap_Replicas a))"

lemma scaled_to_iff:
  "scaled_to l ns a \<longleftrightarrow> (\<exists>d. l KDeployment (nn (ToLower (ap_Name a)) ns) = Some (ODeployment d) \<and>
     ds_Replicas (dep_Spec d) = Some (ap_Replicas a))"
  by (auto simp: scaled_to_def deployment_of_def split: option.splits kobject.splits)

abbreviation "lower_names as \<equiv> map (\<lambda>a. ToLower (ap_Name a)) as"

text \<open>What the pods' coming up leaves: all but the status of the deployments named.\<close>

definition status_only :: "(kind \<Rightarrow> namespaced_name \<Rightarrow> kobject option) \<Rightarrow>
    (kind \<Rightarrow> namespaced_name \<Rightarrow> kobject option) \<Rightarrow> namespaced_name set \<Rightarrow> bool" where
  "status_only l l' S \<longleftrightarrow> (\<forall>kd. kd \<noteq> KDeployment \<longrightarrow> l' kd = l kd) \<and>
     (\<forall>n. n \<notin> S \<longrightarrow> l' KDeployment n = l KDeployment n) \<and>
     (\<forall>n d. l KDeployment n = Some (ODeployment d) \<longrightarrow>
        (\<exists>d'. l' KDeployment n = Some (ODeployment d') \<and> dep_Spec d' = dep_Spec d))"

lemma status_only_refl: "status_only l l S"
  by (simp add: status_only_def)

lemma status_only_trans: "status_only l l' S \<Longrightarrow> status_only l' l'' T \<Longrightarrow> status_only l l'' (S \<union> T)"
  unfolding status_only_def by (metis UnCI)

lemma status_only_pods: "status_only l l' S \<Longrightarrow> pods_kept l l'"
  unfolding status_only_def pods_kept_def by metis

lemma scaled_to_status: "scaled_to l ns a \<Longrightarrow> status_only l l' S \<Longrightarrow> scaled_to l' ns a"
  unfolding scaled_to_iff status_only_def by metis

context kube_open
begin

text \<open>The pods of one deployment.\<close>

lemma pods_start_one:
  assumes w: "inv (os_cluster st)" and a: "scaled_to (look (os_cluster st)) ns a"
  shows "\<exists>w' q'. op_step env look inv gk \<lparr>or_state = st, or_queue = q\<rparr> \<lparr>or_state = st\<lparr>os_cluster := w'\<rparr>, or_queue = q'\<rparr> \<and>
    q \<subseteq> q' \<and> inv w' \<and> status_only (look (os_cluster st)) (look w') {nn (ToLower (ap_Name a)) ns} \<and>
    available (deployment_of (look w') ns a) = wanted a"
proof -
  let ?n = "nn (ToLower (ap_Name a)) ns" and ?l = "look (os_cluster st)"
  from a obtain d where d: "?l KDeployment ?n = Some (ODeployment d)" "ds_Replicas (dep_Spec d) = Some (ap_Replicas a)"
    by (auto simp: scaled_to_iff)
  let ?d = "with_available (ap_Replicas a) d"
  from look_obj [OF w d(1)] have key: "key_of (ODeployment ?d) = ?n" by simp
  from put [OF w] obtain w' where w': "inv w'" and l': "look w' = updated ?l (ODeployment ?d) (ODeployment ?d)" by blast
  obtain reqs where run: "on_update gk (ODeployment d) (ODeployment ?d) st = (ODeployment ?d, reqs, st)" by simp
  have "?l (kind_of (ODeployment ?d)) (key_of (ODeployment ?d)) = Some (ODeployment d)" using d(1) key by simp
  from op_step.changed [where env = env and valid = inv and q = q, OF this _ run w' l'] d(2) have
    "op_step env look inv gk \<lparr>or_state = st, or_queue = q\<rparr> \<lparr>or_state = st\<lparr>os_cluster := w'\<rparr>, or_queue = q \<union> set reqs\<rparr>"
    by (simp add: obj_ok_def)
  moreover have "status_only ?l (look w') {?n}"
    unfolding status_only_def l' using d(1) key
    by (intro conjI allI impI, simp_all add: updated_apply fun_eq_iff, auto)
  moreover have "available (deployment_of (look w') ns a) = wanted a"
    using key by (simp add: deployment_of_def l' updated_apply wanted_def)
  ultimately show ?thesis using w' by blast
qed

lemma pods_start:
  assumes "inv (os_cluster st)" and "\<forall>a \<in> set as. scaled_to (look (os_cluster st)) ns a" and "distinct (lower_names as)"
  shows "\<exists>w' q'. (op_step env look inv gk)\<^sup>*\<^sup>* \<lparr>or_state = st, or_queue = q\<rparr> \<lparr>or_state = st\<lparr>os_cluster := w'\<rparr>, or_queue = q'\<rparr> \<and>
    q \<subseteq> q' \<and> inv w' \<and> status_only (look (os_cluster st)) (look w') ((\<lambda>n. nn n ns) ` set (lower_names as)) \<and>
    (\<forall>a \<in> set as. available (deployment_of (look w') ns a) = wanted a)"
  using assms
proof (induction as arbitrary: st q)
  case Nil
  then show ?case by (intro exI [of _ "os_cluster st"] exI [of _ q]) (simp add: status_only_refl)
next
  case (Cons a as)
  have "scaled_to (look (os_cluster st)) ns a" using Cons.prems(2) by simp
  from pods_start_one [OF Cons.prems(1) this, of env gk q] obtain w1 q1 where
    one: "op_step env look inv gk \<lparr>or_state = st, or_queue = q\<rparr> \<lparr>or_state = st\<lparr>os_cluster := w1\<rparr>, or_queue = q1\<rparr>"
    "q \<subseteq> q1" "inv w1" "status_only (look (os_cluster st)) (look w1) {nn (ToLower (ap_Name a)) ns}"
    "available (deployment_of (look w1) ns a) = wanted a" by blast
  have "inv (os_cluster (st\<lparr>os_cluster := w1\<rparr>))" "\<forall>b \<in> set as. scaled_to (look (os_cluster (st\<lparr>os_cluster := w1\<rparr>))) ns b"
    "distinct (lower_names as)" using one(3) Cons.prems(2,3) scaled_to_status [OF _ one(4)] by simp_all
  from Cons.IH [OF this, of q1] obtain w2 q2 where
    two: "(op_step env look inv gk)\<^sup>*\<^sup>* \<lparr>or_state = st\<lparr>os_cluster := w1\<rparr>, or_queue = q1\<rparr> \<lparr>or_state = st\<lparr>os_cluster := w2\<rparr>, or_queue = q2\<rparr>"
    "q1 \<subseteq> q2" "inv w2" "status_only (look w1) (look w2) ((\<lambda>n. nn n ns) ` set (lower_names as))"
    "\<forall>b \<in> set as. available (deployment_of (look w2) ns b) = wanted b" by (simp add: op_state.update_convs) blast
  have "nn (ToLower (ap_Name a)) ns \<notin> (\<lambda>n. nn n ns) ` set (lower_names as)"
    using Cons.prems(3) by (auto simp: nn_def)
  with two(4) have "look w2 KDeployment (nn (ToLower (ap_Name a)) ns) = look w1 KDeployment (nn (ToLower (ap_Name a)) ns)"
    by (simp add: status_only_def)
  then have "available (deployment_of (look w2) ns a) = wanted a" using one(5) by (simp add: deployment_of_def)
  moreover from status_only_trans [OF one(4) two(4)] have
    "status_only (look (os_cluster st)) (look w2) ((\<lambda>n. nn n ns) ` set (lower_names (a # as)))" by simp
  moreover from one(1) two(1) have
    "(op_step env look inv gk)\<^sup>*\<^sup>* \<lparr>or_state = st, or_queue = q\<rparr> \<lparr>or_state = st\<lparr>os_cluster := w2\<rparr>, or_queue = q2\<rparr>"
    by (rule converse_rtranclp_into_rtranclp)
  moreover have "q \<subseteq> q2" using one(2) two(2) by blast
  ultimately show ?case using two(3,5) by auto
qed

text \<open>The watch delivers the process as it is; the predicate makes the next event one of the timer.\<close>

lemma process_echo:
  assumes w: "inv (os_cluster st)" and sp: "look (os_cluster st) KSiddhiProcess request = Some (OSiddhiProcess sp)"
  shows "\<exists>w' sp'. op_step env look inv gk \<lparr>or_state = st, or_queue = q\<rparr> \<lparr>or_state = st\<lparr>os_cluster := w'\<rparr>, or_queue = q\<rparr> \<and>
    inv w' \<and> touches (look (os_cluster st)) (look w') {(KSiddhiProcess, request)} \<and>
    look w' KSiddhiProcess request = Some (OSiddhiProcess sp') \<and> st_EventType (sp_Status sp') = ''Timer''"
proof -
  obtain old' sp' where upd: "sp_UpdateFunc sp sp = (False, old', sp')" "sp_ObjectMeta sp' = sp_ObjectMeta sp"
    "st_EventType (sp_Status sp') = ''Timer''" by (rule sp_UpdateFunc_same)
  from look_obj [OF w sp] have key: "key_of (OSiddhiProcess sp) = request" "key_of (OSiddhiProcess sp') = request"
    using upd(2) by (simp_all add: key_of_def)
  from put [OF w, of "OSiddhiProcess sp'"] key obtain w' where
    w': "inv w'" and l': "look w' = updated (look (os_cluster st)) (OSiddhiProcess sp) (OSiddhiProcess sp')"
    by (auto simp: updated_def)
  have run: "on_update gk (OSiddhiProcess sp) (OSiddhiProcess sp) st = (OSiddhiProcess sp', [], st)" using upd(1) by simp
  have "look (os_cluster st) (kind_of (OSiddhiProcess sp)) (key_of (OSiddhiProcess sp)) = Some (OSiddhiProcess sp)"
    using sp key by simp
  from op_step.changed [where env = env and valid = inv and q = q, OF this _ run w' l'] have
    "op_step env look inv gk \<lparr>or_state = st, or_queue = q\<rparr> \<lparr>or_state = st\<lparr>os_cluster := w'\<rparr>, or_queue = q\<rparr>"
    by (simp add: obj_ok_def)
  moreover have "touches (look (os_cluster st)) (look w') {(KSiddhiProcess, request)}"
    using key by (auto simp: touches_def l' updated_apply)
  ultimately show ?thesis using w' key upd(3) by (auto simp: l' updated_apply)
qed

text \<open>Where the pods of a process that was rolled out are up, its applications are as they were.\<close>

lemma application_kept:
  assumes "application_up (configured env sp st) a l" and "touches l l1 {(KSiddhiProcess, request)}" and "status_only l1 l2 S"
    and "touches l2 l3 {(KSiddhiProcess, request)}"
  shows "application_up (configured env sp st) a l3"
proof -
  have "application_up (configured env sp st) a l1" using assms(1) by (simp add: application_up_status [OF assms(2)])
  then have "application_up (configured env sp st) a l2"
    by (rule application_up_pods [OF _ status_only_pods [OF assms(3)]]) (use assms(3) in \<open>simp add: status_only_def\<close>)
  then show ?thesis by (simp add: application_up_status [OF assms(4)])
qed

text \<open>After a rollout: the echo, the pods, the timer.\<close>

lemma settle_run:
  assumes k: "kc_Client (env_KubeClient env) = c" and w: "inv (os_cluster st)"
    and cm: "look (os_cluster st) KConfigMap request = None"
    and sp: "look (os_cluster st) KSiddhiProcess request \<noteq> None"
    and apps: "os_SPContainer st (nn_Name request) = Some apps" "apps \<noteq> []" "distinct (lower_names apps)"
    and scaled: "\<forall>a \<in> set apps. scaled_to (look (os_cluster st)) (nn_Namespace request) a" and q: "request \<in> q"
  shows "\<exists>st' q' sp'. (op_step env look inv gk)\<^sup>*\<^sup>* \<lparr>or_state = st, or_queue = q\<rparr> \<lparr>or_state = st', or_queue = q'\<rparr> \<and>
    request \<notin> q' \<and> inv (os_cluster st') \<and> look (os_cluster st') KSiddhiProcess request = Some (OSiddhiProcess sp') \<and>
    st_Status (sp_Status sp') = ''Ready'' \<and>
    (\<forall>a. application_up (configured env sp0 st0) a (look (os_cluster st)) \<longrightarrow>
       application_up (configured env sp0 st0) a (look (os_cluster st'))) \<and>
    (\<forall>a \<in> set apps. available (deployment_of (look (os_cluster st')) (nn_Namespace request) a) = wanted a)"
proof -
  let ?ns = "nn_Namespace request"
  from sp look_obj [OF w] obtain sp' where "look (os_cluster st) KSiddhiProcess request = Some (OSiddhiProcess sp')"
    by (fastforce simp: kind_of_eqs)
  from process_echo [OF w this, of env gk q] obtain w1 sp1 where
    echo: "op_step env look inv gk \<lparr>or_state = st, or_queue = q\<rparr> \<lparr>or_state = st\<lparr>os_cluster := w1\<rparr>, or_queue = q\<rparr>"
    and w1: "inv w1" and t1: "touches (look (os_cluster st)) (look w1) {(KSiddhiProcess, request)}" and
    sp1: "look w1 KSiddhiProcess request = Some (OSiddhiProcess sp1)" "st_EventType (sp_Status sp1) = ''Timer''" by blast
  let ?st1 = "st\<lparr>os_cluster := w1\<rparr>"
  have "look w1 KDeployment = look (os_cluster st) KDeployment" by (rule status_kinds [OF t1]) simp
  then have "\<forall>a \<in> set apps. scaled_to (look (os_cluster ?st1)) ?ns a" using scaled by (simp add: scaled_to_iff)
  from pods_start [OF _ this apps(3), of env gk q] w1 obtain w2 q2 where
    pods: "(op_step env look inv gk)\<^sup>*\<^sup>* \<lparr>or_state = ?st1, or_queue = q\<rparr> \<lparr>or_state = st\<lparr>os_cluster := w2\<rparr>, or_queue = q2\<rparr>"
    and q2: "q \<subseteq> q2" and w2: "inv w2" and s2: "status_only (look w1) (look w2) ((\<lambda>n. nn n ?ns) ` set (lower_names apps))" and
    up: "\<forall>a \<in> set apps. available (deployment_of (look w2) ?ns a) = wanted a" by auto
  let ?st2 = "st\<lparr>os_cluster := w2\<rparr>"
  have kinds: "look w2 kd = look w1 kd" if "kd \<noteq> KDeployment" for kd using s2 that by (simp add: status_only_def)
  have "look (os_cluster ?st2) KConfigMap request = None" using cm kinds status_kinds [OF t1] by simp
  moreover have sp2: "look (os_cluster ?st2) KSiddhiProcess request = Some (OSiddhiProcess sp1)" using sp1 kinds by simp
  moreover from look_obj [OF w1 sp1(1)] have "sp_Name sp1 = nn_Name request" by (auto simp: key_of_process)
  ultimately obtain st3 sp3 where run: "Reconcile env request ?st2 = Some ((no_requeue, None), st3)" and
    ready: "look (os_cluster st3) KSiddhiProcess request = Some (OSiddhiProcess sp3)" "st_Status (sp_Status sp3) = ''Ready''" and
    t3: "touches (look w2) (look (os_cluster st3)) {(KSiddhiProcess, request)}" "inv (os_cluster st3)"
    using timer_shown [OF k, of ?st2 request sp1 apps] w2 sp1(2) apps(1,2) up by auto
  from op_step.worked [OF subsetD [OF q2 q] run] have
    "op_step env look inv gk \<lparr>or_state = ?st2, or_queue = q2\<rparr> \<lparr>or_state = st3, or_queue = q2 - {request}\<rparr>"
    by (simp add: requeued_def no_requeue_def)
  with echo pods have "(op_step env look inv gk)\<^sup>*\<^sup>* \<lparr>or_state = st, or_queue = q\<rparr> \<lparr>or_state = st3, or_queue = q2 - {request}\<rparr>"
    by (meson converse_rtranclp_into_rtranclp rtranclp.rtrancl_into_rtrancl)
  moreover have "deployment_of (look (os_cluster st3)) ?ns a = deployment_of (look w2) ?ns a" for a
    using status_kinds [OF t3(1)] by (simp add: deployment_of_def)
  ultimately show ?thesis using ready up application_kept [OF _ t1 s2 t3(1)] t3(2) by (intro exI conjI) auto
qed

text \<open>What a rollout leaves for the steps after it.\<close>

lemma rollout_run:
  assumes k: "kc_Client (env_KubeClient env) = c" and w: "inv (os_cluster st)"
    and cm: "look (os_cluster st) KConfigMap request = None"
    and sp: "look (os_cluster st) KSiddhiProcess request \<noteq> None"
    and run: "Reconcile env request st = Some (r, st')"
    and stored: "\<forall>a \<in> stored_names (os_SPContainer st) (nn_Name request). derived (nn_Name request) a"
  shows "look (os_cluster st') KConfigMap request = None \<and> look (os_cluster st') KSiddhiProcess request \<noteq> None"
proof -
  from Reconcile_step [OF k w run] cm have
    t: "touches (look (os_cluster st)) (look (os_cluster st'))
      (request_objects request (stored_names (os_SPContainer st) (nn_Name request)))" by (auto simp: request_key_def)
  have "(KConfigMap, request) \<notin> request_objects request (stored_names (os_SPContainer st) (nn_Name request))"
    using stored app_object_derived derived_not_base by (fastforce simp: request_objects_def)
  from touchesD [OF t this] touches_process [OF t sp] cm show ?thesis by simp
qed

lemma journey:
  assumes k: "kc_Client (env_KubeClient env) = c" and w: "inv (os_cluster st)"
    and order: "\<And>i m. mset (env_data_order env i m) = mset m"
    and cm: "look (os_cluster st) KConfigMap request = None"
    and sp: "look (os_cluster st) KSiddhiProcess request = Some (OSiddhiProcess sp)"
    and timer: "st_EventType (sp_Status sp) \<noteq> ''Timer'' \<or> os_SPContainer st (sp_Name sp) = None"
    and ev: "st_CurrentVersion (sp_Status sp) = 0 \<or> lt64 (st_PreviousVersion (sp_Status sp)) (st_CurrentVersion (sp_Status sp))"
    and need: "lt64 (st_PreviousVersion (sp_Status sp)) (st_CurrentVersion (sp_Status sp)) \<or> os_SPContainer st (sp_Name sp) = None"
    and ready: "rollout_ready env sp (look (os_cluster st))"
    and svc: "service_answers env sp (process_texts (look (os_cluster st)) sp) look acs"
    and named: "\<forall>ac \<in> set acs. \<exists>n. getAppName (ac_SiddhiApp ac) = Inr n" and some: "acs \<noteq> []"
    and stored: "\<forall>a \<in> stored_names (os_SPContainer st) (nn_Name request). derived (nn_Name request) a" and q: "request \<in> q"
  shows "\<exists>st' q' apps sp'. (op_step env look inv gk)\<^sup>*\<^sup>* \<lparr>or_state = st, or_queue = q\<rparr> \<lparr>or_state = st', or_queue = q'\<rparr> \<and>
    request \<notin> q' \<and> inv (os_cluster st') \<and> make_applications (sp_Name sp) 0 acs [] = (apps, None) \<and>
    look (os_cluster st') KSiddhiProcess request = Some (OSiddhiProcess sp') \<and> st_Status (sp_Status sp') = ''Ready'' \<and>
    (\<forall>a \<in> set apps. application_up (configured env sp st) a (look (os_cluster st')) \<and>
       available (deployment_of (look (os_cluster st')) (sp_Namespace sp) a) = wanted a)"
proof -
  from look_obj [OF w sp] have key: "request = nn (sp_Name sp) (sp_Namespace sp)" by (simp add: key_of_process)
  from Reconcile_process_live [OF k w order cm sp timer ev need ready svc named] obtain apps st1 where
    run: "Reconcile env request st = Some ((requeue_after (time_Second * ReconcileTime), None), st1)" and
    apps: "make_applications (sp_Name sp) 0 acs [] = (apps, None)" and
    spc: "os_SPContainer st1 = (os_SPContainer st)(sp_Name sp \<mapsto> apps)" and w1: "inv (os_cluster st1)" and
    scaled: "\<forall>a \<in> set apps. application_scaled (configured env sp st) a (look (os_cluster st1))" by blast
  have "requeued (requeue_after (time_Second * ReconcileTime)) None"
    by (simp add: requeued_def requeue_after_def time_Second_def ReconcileTime_def)
  with op_step.worked [OF q run] have
    work: "op_step env look inv gk \<lparr>or_state = st, or_queue = q\<rparr> \<lparr>or_state = st1, or_queue = q\<rparr>" by simp
  have "look (os_cluster st) KSiddhiProcess request \<noteq> None" using sp by simp
  from rollout_run [OF k w cm this run stored] have
    left: "look (os_cluster st1) KConfigMap request = None" "look (os_cluster st1) KSiddhiProcess request \<noteq> None" by simp_all
  have low: "ToLower (sp_Name sp) = sp_Name sp" using ready by (simp add: rollout_ready_def)
  have names: "distinct (lower_names apps)"
    using answer_names(1) [OF apps] answer_names(3) [OF apps _ low] by (simp add: distinct_map inj_on_def)
  have "apps \<noteq> []" using make_applications_spec [OF apps] some by auto
  moreover have "\<forall>a \<in> set apps. scaled_to (look (os_cluster st1)) (nn_Namespace request) a"
    using scaled configured_same [OF k w w refl, of sp] key by (simp add: application_scaled_def scaled_to_def)
  ultimately obtain st' q' sp' where
    rest: "(op_step env look inv gk)\<^sup>*\<^sup>* \<lparr>or_state = st1, or_queue = q\<rparr> \<lparr>or_state = st', or_queue = q'\<rparr>" and
    res: "request \<notin> q' \<and> inv (os_cluster st')" "look (os_cluster st') KSiddhiProcess request = Some (OSiddhiProcess sp')"
    "st_Status (sp_Status sp') = ''Ready''"
    "\<forall>a. application_up (configured env sp st) a (look (os_cluster st1)) \<longrightarrow>
       application_up (configured env sp st) a (look (os_cluster st'))"
    "\<forall>a \<in> set apps. available (deployment_of (look (os_cluster st')) (nn_Namespace request) a) = wanted a"
    using settle_run [OF k w1 left _ _ names _ q, of gk sp st] spc key by auto
  from work rest have "(op_step env look inv gk)\<^sup>*\<^sup>* \<lparr>or_state = st, or_queue = q\<rparr> \<lparr>or_state = st', or_queue = q'\<rparr>"
    by (rule converse_rtranclp_into_rtranclp)
  moreover have "\<forall>a \<in> set apps. application_up (configured env sp st) a (look (os_cluster st')) \<and>
      available (deployment_of (look (os_cluster st')) (sp_Namespace sp) a) = wanted a"
    using res(4,5) scaled key by (simp add: application_scaled_def)
  ultimately show ?thesis using res(1-3) apps by blast
qed

end

section \<open>Properties\<close>



end
