(* ===== verification/EndToEnd.thy ===== *)
theory EndToEnd
  imports Journey
begin

text \<open>
  The end-to-end tests, \<open>test/e2e/default_test.go\<close> and \<open>failover_test.go\<close>: each creates a process, waits for
  its deployments, reads the objects that the operator is to have made, and deletes the process. A test is the
  process, the answer of the parser it relies on and the list of its checks; for each of them the operator has
  a run from the creation of the process to a state in which all checks pass. The cluster, the ingress
  controller and the runner that answers the request at the end of the first test are outside the repository;
  of that request the checks keep the route it takes.
\<close>

section \<open>Checks\<close>

datatype e2e_check =
    WaitForDeployment string goint
  | GetService string
  | GetIngress string
  | GetConfigMap string
  | GetClaim string
  | PostTo string int32

text \<open>
  \<open>e2eutil.WaitForDeployment\<close> is done when as many replicas as asked for are available, the \<open>Get\<close>s fail
  on an object that is not there; the request to \<open>http://siddhi/<service>/<port>\<close> needs the path in a rule
  of that host.
\<close>

fun check_passes :: "(kind \<Rightarrow> namespaced_name \<Rightarrow> kobject option) \<Rightarrow> string \<Rightarrow> e2e_check \<Rightarrow> bool" where
  "check_passes l ns (WaitForDeployment name replicas) =
     (case l KDeployment (nn name ns) of
        Some (ODeployment d) \<Rightarrow> int_of_int32 (dstat_AvailableReplicas (dep_Status d)) = replicas
      | _ \<Rightarrow> False)"
| "check_passes l ns (GetService name) = (l KService (nn name ns) \<noteq> None)"
| "check_passes l ns (GetIngress name) = (l KIngress (nn name ns) \<noteq> None)"
| "check_passes l ns (GetConfigMap name) = (l KConfigMap (nn name ns) \<noteq> None)"
| "check_passes l ns (GetClaim name) = (l KPVC (nn name ns) \<noteq> None)"
| "check_passes l ns (PostTo service p) =
     (\<exists>rule \<in> set (rules_at l ns). ir_Host rule = IngressName \<and>
        (\<exists>path \<in> set (elems (ir_HTTP rule)).
           hip_Path path = path_Join [''/'', ToLower service, Itoa (sint p) @ ''(/|$)(.*)''] \<and>
           hip_Backend path = \<lparr>ib_ServiceName = ToLower service, ib_ServicePort = int_port p\<rparr>))"

section \<open>The tests\<close>

definition squote :: "string \<Rightarrow> string" where "squote s = CHR 0x27 # s @ [CHR 0x27]"

definition dquote :: "string \<Rightarrow> string" where "dquote s = CHR 0x22 # s @ [CHR 0x22]"

fun text_lines :: "string list \<Rightarrow> string" where
  "text_lines [] = []"
| "text_lines [l] = l"
| "text_lines (l # ls) = l @ newline @ text_lines ls"

definition script1 :: string where
  "script1 = text_lines
     [''@App:name('' @ dquote ''MonitorApp'' @ '')'',
      ''@App:description('' @ dquote ''Description of the plan'' @ '') '',
      [],
      ''@sink(type='' @ squote ''log'' @ '', prefix='' @ squote ''LOGGER'' @ '')'',
      ''@source(type='' @ squote ''http'' @ '', receiver.url='' @ squote ''${RECEIVER_URL}'' @
        '', basic.auth.enabled='' @ squote ''${BASIC_AUTH_ENABLED}'' @ '', @map(type='' @ squote ''json'' @ ''))'',
      ''define stream DevicePowerStream (type string, deviceID string, power int);'',
      [],
      ''define stream MonitorDevicesPowerStream(deviceID string, power int);'',
      ''@info(name='' @ squote ''monitored-filter'' @ '')'',
      ''from DevicePowerStream[type == '' @ squote ''monitored'' @ '']'',
      ''select deviceID, power'',
      ''insert into MonitorDevicesPowerStream;'']"

definition script2 :: string where
  "script2 = text_lines
     [''@App:name('' @ dquote ''MonitorApp'' @ '')'',
      ''@App:description('' @ dquote ''Description of the plan'' @ '') '',
      [],
      ''@source('',
      ''    type='' @ squote ''http'' @ '','',
      ''    receiver.url='' @ squote ''http://0.0.0.0:8080/example'' @ '','',
      ''    basic.auth.enabled='' @ squote ''false'' @ '','',
      ''    @map(type='' @ squote ''json'' @ '')'',
      '')'',
      ''define stream DevicePowerStream (type string, deviceID string, power int);'',
      [],
      ''@sink(type='' @ squote ''log'' @ '', prefix='' @ squote ''LOGGER'' @ '')'',
      ''define stream MonitorDevicesPowerStream(sumPower long);'',
      ''@info(name='' @ squote ''monitored-filter'' @ '')'',
      ''from DevicePowerStream#window.time(100 min)'',
      ''select sum(power) as sumPower'',
      ''insert all events into MonitorDevicesPowerStream;'']"

text \<open>The process all tests vary: one script and the two variables of its source.\<close>

definition e2e_process :: "string \<Rightarrow> string \<Rightarrow> string \<Rightarrow> siddhi_process" where
  "e2e_process name script namespace =
     \<lparr>sp_TypeMeta = \<lparr>tm_Kind = ''SiddhiProcess'', tm_APIVersion = ''siddhi.io/v1alpha2''\<rparr>,
      sp_ObjectMeta = new_meta name namespace,
      sp_Spec = zero_siddhi_process_spec
        \<lparr>sps_Apps := [\<lparr>app_ConfigMap = [], app_Script = script\<rparr>],
         sps_Container := zero_container\<lparr>ct_Env := Some
           [\<lparr>ev_Name = ''RECEIVER_URL'', ev_Value = ''http://0.0.0.0:8280/example'', ev_ValueFrom = None\<rparr>,
            \<lparr>ev_Name = ''BASIC_AUTH_ENABLED'', ev_Value = ''false'', ev_ValueFrom = None\<rparr>]\<rparr>\<rparr>,
      sp_Status = zero_siddhi_process_status\<rparr>"

definition with_spec :: "(siddhi_process_spec \<Rightarrow> siddhi_process_spec) \<Rightarrow> siddhi_process \<Rightarrow> siddhi_process" where
  "with_spec f sp = sp\<lparr>sp_Spec := f (sp_Spec sp)\<rparr>"

definition e2e_claim :: pvc_spec where
  "e2e_claim = zero_pvc_spec
     \<lparr>pvcs_AccessModes := Some [ReadWriteOnce], pvcs_StorageClassName := Some ''standard'',
      pvcs_Resources := \<lparr>rr_Limits = None, rr_Requests = Some (map_literal
        [(''storage'', \<lparr>q_i = (1 * (1024 * 1024 * 1024), 0), q_d = None, q_s = [], q_Format = ''BinarySI''\<rparr>)])\<rparr>\<rparr>"

definition failover_process :: "string \<Rightarrow> string \<Rightarrow> siddhi_process" where
  "failover_process name namespace = with_spec
     (\<lambda>spec. spec\<lparr>sps_MessagingSystem := zero_messaging_system\<lparr>ms_Type := ''nats''\<rparr>, sps_PVC := e2e_claim\<rparr>)
     (e2e_process name script2 namespace)"

record e2e_test =
  et_process :: "string \<Rightarrow> siddhi_process"
  et_answer :: "app_config list \<Rightarrow> bool"
  et_checks :: "e2e_check list"

text \<open>
  What a test expects of the parser: one application without state, or one that receives the events and one
  with state behind it; with one replica each.
\<close>

definition one_app :: "app_config list \<Rightarrow> bool" where
  "one_app acs \<longleftrightarrow> length acs = 1 \<and> \<not> ac_PersistenceEnabled (acs ! 0) \<and> ac_Replicas (acs ! 0) = 1"

definition answer_ports :: "app_config \<Rightarrow> container_port list" where
  "answer_ports ac = collect_ports (ac_DeploymentConfigs ac) [] []"

definition receives_at :: "int32 \<Rightarrow> app_config list \<Rightarrow> bool" where
  "receives_at p acs \<longleftrightarrow> p \<in> set (map cp_ContainerPort (answer_ports (acs ! 0)))"

definition two_apps :: "app_config list \<Rightarrow> bool" where
  "two_apps acs \<longleftrightarrow> length acs = 2 \<and> \<not> ac_PersistenceEnabled (acs ! 0) \<and> ac_PersistenceEnabled (acs ! 1) \<and>
     ac_Replicas (acs ! 0) = 1 \<and> ac_Replicas (acs ! 1) = 1 \<and> answer_ports (acs ! 0) \<noteq> []"

definition siddhiDeploymentTest :: e2e_test where
  "siddhiDeploymentTest =
     \<lparr>et_process = e2e_process ''test-monitor-app'' script1, et_answer = (\<lambda>acs. one_app acs \<and> receives_at 8280 acs),
      et_checks = [WaitForDeployment ''test-monitor-app-0'' 1, GetService ''test-monitor-app-0'',
        GetIngress ''siddhi'', GetConfigMap ''test-monitor-app-00'', PostTo ''test-monitor-app-0'' 8280]\<rparr>"

definition siddhiConfigChangeTest :: e2e_test where
  "siddhiConfigChangeTest =
     \<lparr>et_process = (\<lambda>namespace. with_spec (\<lambda>spec. spec\<lparr>sps_SiddhiConfig := StatePersistenceConf\<rparr>)
        (e2e_process ''test-monitor-app'' script1 namespace)),
      et_answer = one_app,
      et_checks = [WaitForDeployment ''test-monitor-app-0'' 1, GetConfigMap ''test-monitor-app-depyml'']\<rparr>"

definition failoverDeploymentTest :: e2e_test where
  "failoverDeploymentTest =
     \<lparr>et_process = failover_process ''failover-app-dep'', et_answer = two_apps,
      et_checks = [WaitForDeployment ''failover-app-dep-0'' 1, WaitForDeployment ''failover-app-dep-1'' 1,
        GetService ''siddhi-nats'', GetService ''failover-app-dep-0'', GetIngress ''siddhi'']\<rparr>"

definition failoverConfigChangeTest :: e2e_test where
  "failoverConfigChangeTest =
     \<lparr>et_process = (\<lambda>namespace. with_spec (\<lambda>spec. spec\<lparr>sps_SiddhiConfig := StatePersistenceConf\<rparr>)
        (failover_process ''failover-app-conf'' namespace)),
      et_answer = two_apps,
      et_checks = [WaitForDeployment ''failover-app-conf-0'' 1, WaitForDeployment ''failover-app-conf-1'' 1,
        GetConfigMap ''failover-app-conf-depyml'']\<rparr>"

definition failoverPVCTest :: e2e_test where
  "failoverPVCTest =
     \<lparr>et_process = failover_process ''failover-app-pvc'', et_answer = two_apps,
      et_checks = [WaitForDeployment ''failover-app-pvc-0'' 1, WaitForDeployment ''failover-app-pvc-1'' 1,
        GetClaim ''failover-app-pvc-1-pvc'']\<rparr>"

definition SiddhiCluster :: "e2e_test list" where
  "SiddhiCluster = [siddhiDeploymentTest, siddhiConfigChangeTest, failoverDeploymentTest, failoverConfigChangeTest,
     failoverPVCTest]"


section \<open>What a process that has come up passes\<close>

text \<open>The application an answer's entry is turned into.\<close>

lemma answer_application:
  assumes "make_applications spName 0 acs [] = (apps, None)" and "i < length acs"
  obtains a x where "a \<in> set apps" "ap_Name a = spName @ ''-'' @ Itoa (int i)" "ap_ContainerPorts a = answer_ports (acs ! i)"
    "ap_Apps a = [(x, ac_SiddhiApp (acs ! i))]" "ap_ServiceEnabled a \<longleftrightarrow> answer_ports (acs ! i) \<noteq> []"
    "ap_PersistenceEnabled a = ac_PersistenceEnabled (acs ! i)" "ap_Replicas a = ac_Replicas (acs ! i)"
proof -
  from make_applications_spec [OF assms(1)] obtain names where
    r: "apps = map (\<lambda>j. make_application spName j (acs ! j) (names ! j)) [0..<length names]" and
    len: "length names = length acs" by (simp, metis)
  show thesis
    by (rule that [of "make_application spName i (acs ! i) (names ! i)" "names ! i"])
      (use assms(2) in \<open>auto simp: r len make_application_def answer_ports_def map_literal_def Let_def\<close>)
qed

text \<open>What a test finds of an application that is up, by the names it has in the checks.\<close>

lemma up_passes:
  assumes up: "application_up s a l" and ns: "ns = sp_Namespace (the_sp s)" and apps: "ap_Apps a \<noteq> []"
  shows "check_passes l ns (GetConfigMap (ap_Name a @ Itoa (sint (st_CurrentVersion (sp_Status (the_sp s))))))"
    and "sps_SiddhiConfig (sp_Spec (the_sp s)) \<noteq> [] \<Longrightarrow> \<not> ap_PersistenceEnabled a \<Longrightarrow>
      check_passes l ns (GetConfigMap (sp_Name (the_sp s) @ DepCMExtension))"
    and "ap_PersistenceEnabled a \<Longrightarrow> \<not> EqualsPVCSpec (sps_PVC (sp_Spec (the_sp s))) zero_pvc_spec \<Longrightarrow>
      check_passes l ns (GetClaim (ap_Name a @ PVCExtension))"
    and "ap_ServiceEnabled a \<Longrightarrow> check_passes l ns (GetService (ap_Name a))"
    and "ap_ServiceEnabled a \<Longrightarrow> ctl_AutoCreateIngress s \<Longrightarrow> check_passes l ns (GetIngress IngressName)"
    and "ap_ServiceEnabled a \<Longrightarrow> ctl_AutoCreateIngress s \<Longrightarrow> p \<in> set (map cp_ContainerPort (ap_ContainerPorts a)) \<Longrightarrow>
      check_passes l ns (PostTo (ap_Name a) p)"
proof -
  let ?d = "manager_of s a"
  have [simp]: "dm_SiddhiProcess ?d = the_sp s" "dm_Application ?d = a" by (simp_all add: manager_of_def)
  from up have maps: "deploy_maps_written ?d l" and dep: "deployed ?d l" and
    svc: "ap_ServiceEnabled a \<Longrightarrow> service_up ns a l" and
    rt: "ap_ServiceEnabled a \<Longrightarrow> ctl_AutoCreateIngress s \<Longrightarrow> routed ns a l"
    by (simp_all add: application_up_def ns Let_def)
  show "check_passes l ns (GetConfigMap (ap_Name a @ Itoa (sint (st_CurrentVersion (sp_Status (the_sp s))))))"
    using maps apps by (auto simp: deploy_maps_written_def holds_data_def apps_cm_name_def ns Let_def)
  show "check_passes l ns (GetConfigMap (sp_Name (the_sp s) @ DepCMExtension))"
    if "sps_SiddhiConfig (sp_Spec (the_sp s)) \<noteq> []" "\<not> ap_PersistenceEnabled a"
    using maps that by (auto simp: deploy_maps_written_def holds_data_def config_cm_name_def config_text_def ns Let_def)
  show "check_passes l ns (GetClaim (ap_Name a @ PVCExtension))"
    if "ap_PersistenceEnabled a" "\<not> EqualsPVCSpec (sps_PVC (sp_Spec (the_sp s))) zero_pvc_spec"
    using dep that unfolding deployed_def claim_mounted_def by (auto simp: ns Let_def)
  show "check_passes l ns (GetService (ap_Name a))" if "ap_ServiceEnabled a"
    using svc [OF that] by (auto simp: service_up_def)
  show "check_passes l ns (GetIngress IngressName)" if "ap_ServiceEnabled a" "ctl_AutoCreateIngress s"
    using rt [OF that] by (cases "l KIngress (nn IngressName ns)") (simp_all add: routed_def rules_at_def)
  show "check_passes l ns (PostTo (ap_Name a) p)"
    if "ap_ServiceEnabled a" "ctl_AutoCreateIngress s" "p \<in> set (map cp_ContainerPort (ap_ContainerPorts a))"
  proof -
    from that(3) obtain port where port: "port \<in> set (ap_ContainerPorts a)" "p = cp_ContainerPort port" by auto
    from rt [OF that(1,2)] obtain rule where rule: "rule \<in> set (rules_at l ns)" "ir_Host rule = IngressName"
      "set (ingress_paths (ap_Name a) (ap_ContainerPorts a)) \<subseteq> set (elems (ir_HTTP rule))"
      by (auto simp: routed_def)
    from port(1) rule(3) have "ingress_path (ap_Name a) port \<in> set (elems (ir_HTTP rule))" by (auto simp: ingress_paths_def)
    then show ?thesis using rule(1,2) port(2)
      by (auto intro!: bexI [of _ rule] bexI [of _ "ingress_path (ap_Name a) port"] simp: ingress_path_def)
  qed
qed

lemma available_passes:
  assumes "available (deployment_of l ns a) = wanted a" and "ToLower (ap_Name a) = ap_Name a" and "wanted a \<noteq> 0"
  shows "check_passes l ns (WaitForDeployment (ap_Name a) (wanted a))"
  using assms by (auto simp: available_def deployment_of_def split: option.splits kobject.splits)

text \<open>The applications of a process are up, with their pods.\<close>

definition all_up :: "'w ctl \<Rightarrow> application list \<Rightarrow> (kind \<Rightarrow> namespaced_name \<Rightarrow> kobject option) \<Rightarrow> bool" where
  "all_up s apps l \<longleftrightarrow> (\<forall>a \<in> set apps. application_up s a l \<and>
     available (deployment_of l (sp_Namespace (the_sp s)) a) = wanted a)"

lemma answer_passes:
  fixes s :: "'w ctl"
  assumes up: "all_up s apps l" and apps: "make_applications (sp_Name (the_sp s)) 0 acs [] = (apps, None)"
    and i: "i < length acs" and low: "ToLower (sp_Name (the_sp s)) = sp_Name (the_sp s)"
  defines "ns \<equiv> sp_Namespace (the_sp s)" and "name \<equiv> sp_Name (the_sp s) @ ''-'' @ Itoa (int i)"
  shows "ac_Replicas (acs ! i) = 1 \<Longrightarrow> check_passes l ns (WaitForDeployment name 1)"
    and "check_passes l ns (GetConfigMap (name @ Itoa (sint (st_CurrentVersion (sp_Status (the_sp s))))))"
    and "sps_SiddhiConfig (sp_Spec (the_sp s)) \<noteq> [] \<Longrightarrow> \<not> ac_PersistenceEnabled (acs ! i) \<Longrightarrow>
      check_passes l ns (GetConfigMap (sp_Name (the_sp s) @ DepCMExtension))"
    and "ac_PersistenceEnabled (acs ! i) \<Longrightarrow> \<not> EqualsPVCSpec (sps_PVC (sp_Spec (the_sp s))) zero_pvc_spec \<Longrightarrow>
      check_passes l ns (GetClaim (name @ PVCExtension))"
    and "answer_ports (acs ! i) \<noteq> [] \<Longrightarrow> check_passes l ns (GetService name)"
    and "answer_ports (acs ! i) \<noteq> [] \<Longrightarrow> ctl_AutoCreateIngress s \<Longrightarrow> check_passes l ns (GetIngress IngressName)"
    and "ctl_AutoCreateIngress s \<Longrightarrow> p \<in> set (map cp_ContainerPort (answer_ports (acs ! i))) \<Longrightarrow>
      check_passes l ns (PostTo name p)"
proof -
  from answer_application [OF apps i] obtain a x where
    a: "a \<in> set apps" "ap_Name a = name" "ap_ContainerPorts a = answer_ports (acs ! i)"
      "ap_Apps a = [(x, ac_SiddhiApp (acs ! i))]" "ap_ServiceEnabled a \<longleftrightarrow> answer_ports (acs ! i) \<noteq> []"
      "ap_PersistenceEnabled a = ac_PersistenceEnabled (acs ! i)" "ap_Replicas a = ac_Replicas (acs ! i)"
    unfolding name_def by blast
  from up a(1) have "application_up s a l" and av: "available (deployment_of l ns a) = wanted a"
    by (simp_all add: all_up_def ns_def)
  note passes = up_passes [OF this(1), of ns, unfolded a(2-6)]
  show "check_passes l ns (WaitForDeployment name 1)" if "ac_Replicas (acs ! i) = 1"
    using available_passes [OF av answer_names(3) [OF apps a(1) low]] that a(2,7) by (simp add: wanted_def int_of_int32_def)
  show "check_passes l ns (GetConfigMap (name @ Itoa (sint (st_CurrentVersion (sp_Status (the_sp s))))))"
    by (rule passes(1)) (simp_all add: ns_def)
  show "check_passes l ns (GetConfigMap (sp_Name (the_sp s) @ DepCMExtension))"
    if "sps_SiddhiConfig (sp_Spec (the_sp s)) \<noteq> []" "\<not> ac_PersistenceEnabled (acs ! i)"
    by (rule passes(2)) (use that in \<open>simp_all add: ns_def\<close>)
  show "check_passes l ns (GetClaim (name @ PVCExtension))"
    if "ac_PersistenceEnabled (acs ! i)" "\<not> EqualsPVCSpec (sps_PVC (sp_Spec (the_sp s))) zero_pvc_spec"
    by (rule passes(3)) (use that in \<open>simp_all add: ns_def\<close>)
  show "check_passes l ns (GetService name)" if "answer_ports (acs ! i) \<noteq> []"
    by (rule passes(4)) (use that in \<open>simp_all add: ns_def\<close>)
  show "check_passes l ns (GetIngress IngressName)" if "answer_ports (acs ! i) \<noteq> []" "ctl_AutoCreateIngress s"
    by (rule passes(5)) (use that in \<open>simp_all add: ns_def\<close>)
  show "check_passes l ns (PostTo name p)"
    if "ctl_AutoCreateIngress s" "p \<in> set (map cp_ContainerPort (answer_ports (acs ! i)))"
    by (rule passes(6)) (use that in \<open>auto simp: ns_def\<close>)
qed

text \<open>The processes of the tests.\<close>

lemma e2e_process_fields [simp]:
  "sp_ObjectMeta (e2e_process name script ns) = new_meta name ns"
  "sp_Status (e2e_process name script ns) = zero_siddhi_process_status"
  "sps_Apps (sp_Spec (e2e_process name script ns)) = [\<lparr>app_ConfigMap = [], app_Script = script\<rparr>]"
  "sps_PVC (sp_Spec (e2e_process name script ns)) = zero_pvc_spec"
  "sps_MessagingSystem (sp_Spec (e2e_process name script ns)) = zero_messaging_system"
  by (simp_all add: e2e_process_def zero_siddhi_process_spec_def)

lemma failover_process_fields [simp]:
  "sp_ObjectMeta (failover_process name ns) = new_meta name ns"
  "sp_Status (failover_process name ns) = zero_siddhi_process_status"
  "sps_Apps (sp_Spec (failover_process name ns)) = [\<lparr>app_ConfigMap = [], app_Script = script2\<rparr>]"
  "sps_PVC (sp_Spec (failover_process name ns)) = e2e_claim"
  by (simp_all add: failover_process_def with_spec_def)

lemma with_spec_fields [simp]:
  "sp_ObjectMeta (with_spec f sp) = sp_ObjectMeta sp" "sp_Status (with_spec f sp) = sp_Status sp"
  "sp_Spec (with_spec f sp) = f (sp_Spec sp)"
  by (simp_all add: with_spec_def)

lemma e2e_claim_given: "\<not> EqualsPVCSpec e2e_claim zero_pvc_spec"
  by (simp add: EqualsPVCSpec_iff e2e_claim_def zero_pvc_spec_def)

lemmas e2e_tests = siddhiDeploymentTest_def siddhiConfigChangeTest_def failoverDeploymentTest_def
  failoverConfigChangeTest_def failoverPVCTest_def

lemma SiddhiCluster_cases [consumes 1]:
  assumes "t \<in> set SiddhiCluster"
  obtains "t = siddhiDeploymentTest" | "t = siddhiConfigChangeTest" | "t = failoverDeploymentTest"
    | "t = failoverConfigChangeTest" | "t = failoverPVCTest"
  using assms by (auto simp: SiddhiCluster_def)

lemma test_status:
  "t \<in> set SiddhiCluster \<Longrightarrow> sp_Status (et_process t ns) = zero_siddhi_process_status"
  "t \<in> set SiddhiCluster \<Longrightarrow> sp_Namespace (et_process t ns) = ns"
  by (auto simp: SiddhiCluster_def e2e_tests new_meta_def)

lemma Itoa_small: "Itoa 0 = ''0''" "Itoa 1 = ''1''"
  by code_simp+

text \<open>
  All checks of a test, in a state in which its process is up; but for the service of the messaging system,
  which the NATS operator makes.
\<close>

lemma test_passes:
  fixes s :: "'w ctl"
  assumes t: "t \<in> set SiddhiCluster" and answer: "et_answer t acs" and sp: "the_sp s = et_process t ns"
    and up: "all_up s apps l" and apps: "make_applications (sp_Name (the_sp s)) 0 acs [] = (apps, None)"
    and low: "ToLower (sp_Name (the_sp s)) = sp_Name (the_sp s)" and auto: "ctl_AutoCreateIngress s"
  shows "\<forall>chk \<in> set (et_checks t). check_passes l ns chk \<or>
    chk = GetService NATSClusterName \<and> TypeDefined (sps_MessagingSystem (sp_Spec (the_sp s)))"
proof -
  have version: "st_CurrentVersion (sp_Status (the_sp s)) = 0" and space: "sp_Namespace (the_sp s) = ns"
    by (simp_all add: sp test_status [OF t] zero_siddhi_process_status_def)
  note ok = answer_passes [OF up apps _ low, unfolded version space]
  have some: "StatePersistenceConf \<noteq> []" by (simp add: StatePersistenceConf_def newline_def)
  have names: "IngressName = ''siddhi''" "DepCMExtension = ''-depyml''" "PVCExtension = ''-pvc''" "NATSClusterName = ''siddhi-nats''"
    by (simp_all add: IngressName_def DepCMExtension_def PVCExtension_def NATSClusterName_def)
  from t show ?thesis
  proof (cases rule: SiddhiCluster_cases)
    case 1
    with answer have acs: "one_app acs" "receives_at 8280 acs" by (simp_all add: siddhiDeploymentTest_def)
    then have "0 < length acs" "ac_Replicas (acs ! 0) = 1" "answer_ports (acs ! 0) \<noteq> []"
      "8280 \<in> set (map cp_ContainerPort (answer_ports (acs ! 0)))"
      by (auto simp: one_app_def receives_at_def)
    with ok(1,2,5,6) [of 0] ok(7) [where i = 0 and p = 8280] auto show ?thesis
      using 1 sp by (simp add: siddhiDeploymentTest_def Itoa_small names new_meta_def)
  next
    case 2
    with answer have "0 < length acs" "ac_Replicas (acs ! 0) = 1" "\<not> ac_PersistenceEnabled (acs ! 0)"
      by (auto simp: siddhiConfigChangeTest_def one_app_def)
    with ok(1,3) [of 0] some show ?thesis using 2 sp by (simp add: siddhiConfigChangeTest_def Itoa_small names new_meta_def)
  next
    case 3
    with answer have "1 < length acs" "0 < length acs" "ac_Replicas (acs ! 0) = 1" "ac_Replicas (acs ! 1) = 1" "answer_ports (acs ! 0) \<noteq> []"
      by (auto simp: failoverDeploymentTest_def two_apps_def)
    with ok(1,5,6) [of 0] ok(1) [of 1] auto show ?thesis
      using 3 sp by (simp add: failoverDeploymentTest_def failover_process_def TypeDefined_def Itoa_small names new_meta_def)
  next
    case 4
    with answer have "1 < length acs" "0 < length acs" "ac_Replicas (acs ! 0) = 1" "ac_Replicas (acs ! 1) = 1"
      "\<not> ac_PersistenceEnabled (acs ! 0)"
      by (auto simp: failoverConfigChangeTest_def two_apps_def)
    with ok(1,3) [of 0] ok(1) [of 1] some show ?thesis
      using 4 sp by (simp add: failoverConfigChangeTest_def Itoa_small names new_meta_def)
  next
    case 5
    with answer have "1 < length acs" "0 < length acs" "ac_Replicas (acs ! 0) = 1" "ac_Replicas (acs ! 1) = 1" "ac_PersistenceEnabled (acs ! 1)"
      by (auto simp: failoverPVCTest_def two_apps_def)
    with ok(1) [of 0] ok(1,4) [of 1] e2e_claim_given show ?thesis
      using 5 sp by (simp add: failoverPVCTest_def Itoa_small names new_meta_def)
  qed
qed

section \<open>The run of a test\<close>

lemma answer_given: "t \<in> set SiddhiCluster \<Longrightarrow> et_answer t acs \<Longrightarrow> acs \<noteq> []"
  by (auto simp: SiddhiCluster_def e2e_tests one_app_def two_apps_def)

lemma new_status_kept:
  "sp_Status sp = zero_siddhi_process_status \<Longrightarrow>
     sp\<lparr>sp_Status := (sp_Status sp)\<lparr>st_CurrentVersion := 0, st_PreviousVersion := 0\<rparr>\<rparr> = sp"
  by (cases sp) (simp add: zero_siddhi_process_status_def)

text \<open>The checks of a test depend on services only by their presence.\<close>

lemma checks_kept:
  assumes "\<And>kd. kd \<noteq> KService \<Longrightarrow> l' kd = l kd" and "\<And>n. l KService n \<noteq> None \<Longrightarrow> l' KService n \<noteq> None"
    and "check_passes l ns chk"
  shows "check_passes l' ns chk"
  using assms by (cases chk) (simp_all add: rules_at_def)

context kube_open
begin

text \<open>The messaging operator adds the service of the NATS cluster.\<close>

lemma service_added:
  assumes w: "inv (os_cluster st)"
  shows "\<exists>w' q'. op_step env look inv gk \<lparr>or_state = st, or_queue = q\<rparr> \<lparr>or_state = st\<lparr>os_cluster := w'\<rparr>, or_queue = q'\<rparr> \<and>
    inv w' \<and> (\<forall>kd. kd \<noteq> KService \<longrightarrow> look w' kd = look (os_cluster st) kd) \<and>
    (\<forall>n. look (os_cluster st) KService n \<noteq> None \<longrightarrow> look w' KService n \<noteq> None) \<and> look w' KService (key_of (OService svc)) \<noteq> None"
proof -
  from put [OF w, of "OService svc"] obtain w' where w': "inv w'" "look w' = updated (look (os_cluster st)) (OService svc) (OService svc)" by blast
  moreover from op_step.added [of "OService svc" gk _ _ inv w' look st env q] w' obtain q' where
    "op_step env look inv gk \<lparr>or_state = st, or_queue = q\<rparr> \<lparr>or_state = st\<lparr>os_cluster := w'\<rparr>, or_queue = q'\<rparr>"
    by (auto simp: obj_ok_def)
  ultimately show ?thesis by (auto simp: updated_apply fun_eq_iff)
qed

text \<open>The process is deleted, and nothing is stored for it any more.\<close>

lemma process_deleted:
  assumes k: "kc_Client (env_KubeClient env) = c" and w: "inv (os_cluster st)"
    and sp: "look (os_cluster st) KSiddhiProcess request = Some (OSiddhiProcess sp)"
  shows "\<exists>st' q'. op_step env look inv gk \<lparr>or_state = st, or_queue = q\<rparr> \<lparr>or_state = st', or_queue = q'\<rparr> \<and>
    look (os_cluster st') KSiddhiProcess request = None \<and> os_SPContainer st' (nn_Name request) = None"
proof -
  let ?l = "look (os_cluster st)"
  from look_obj [OF w sp] have key: "request = nn (sp_Name sp) (sp_Namespace sp)" by (simp add: key_of_process)
  from delete_kind_total [OF k w, of KSiddhiProcess "sp_Name sp" "sp_Namespace sp"] obtain w' where
    w': "inv w'" "look w' = ?l(KSiddhiProcess := (?l KSiddhiProcess)(request := None))" by (auto simp: key)
  obtain reqs st1 where run: "on_delete gk (OSiddhiProcess sp) False st = (reqs, st1)" and
    st1: "os_SPContainer st1 (sp_Name sp) = None"
    by (simp add: sp_DeleteFunc_def)
  let ?st = "st1\<lparr>os_cluster := w'\<rparr>"
  from op_step.deleted [where env = env and valid = inv and q = q, OF sp run w'] have
    "op_step env look inv gk \<lparr>or_state = st, or_queue = q\<rparr> \<lparr>or_state = ?st, or_queue = q \<union> set reqs\<rparr>" .
  moreover have "look (os_cluster ?st) KSiddhiProcess request = None" "os_SPContainer ?st (nn_Name request) = None"
    using w'(2) st1 key by simp_all
  ultimately show ?thesis by blast
qed

text \<open>From the creation of the process to its deletion.\<close>

lemma test_run:
  fixes st :: "'a op_state" and ns :: string
  assumes k: "kc_Client (env_KubeClient env) = c" and w: "inv (os_cluster st)"
    and order: "\<And>i m. mset (env_data_order env i m) = mset m" and t: "t \<in> set SiddhiCluster"
  defines "sp \<equiv> et_process t ns"
  defines "request \<equiv> nn (sp_Name sp) ns"
  assumes cm: "look (os_cluster st) KConfigMap request = None" and spc: "os_SPContainer st (sp_Name sp) = None"
    and ready: "rollout_ready env sp (look (os_cluster st))" and auto: "ctl_AutoCreateIngress (configured env sp st)"
    and svc: "service_answers env sp (process_texts (look (os_cluster st)) sp) look acs"
    and named: "\<forall>ac \<in> set acs. \<exists>n. getAppName (ac_SiddhiApp ac) = Inr n" and answer: "et_answer t acs" "acs \<noteq> []"
  shows "\<exists>st1 q1 st2 q2. (op_step env look inv gk)\<^sup>*\<^sup>* \<lparr>or_state = st, or_queue = q\<rparr> \<lparr>or_state = st1, or_queue = q1\<rparr> \<and>
    (\<forall>chk \<in> set (et_checks t). check_passes (look (os_cluster st1)) ns chk) \<and>
    op_step env look inv gk \<lparr>or_state = st1, or_queue = q1\<rparr> \<lparr>or_state = st2, or_queue = q2\<rparr> \<and>
    look (os_cluster st2) KSiddhiProcess request = None \<and> os_SPContainer st2 (sp_Name sp) = None"
proof -
  let ?l = "look (os_cluster st)" and ?s = "configured env sp st"
  have status: "sp_Status sp = zero_siddhi_process_status" and space: "sp_Namespace sp = ns"
    by (simp_all add: sp_def test_status [OF t])
  have low: "ToLower (sp_Name sp) = sp_Name sp" using ready by (simp add: rollout_ready_def)
  from put [OF w, of "OSiddhiProcess sp"] obtain w0 where
    w0: "inv w0" and l0: "look w0 = updated ?l (OSiddhiProcess sp) (OSiddhiProcess sp)" by blast
  have "on_add gk (OSiddhiProcess sp) = (OSiddhiProcess sp, [request])"
    by (simp add: sp_CreateFunc_def EnqueueRequestForObject_def request_def space new_status_kept [OF status] nn_def)
  from op_step.added [where env = env and valid = inv and look = look and st = st and q = q, OF _ this w0 l0] have
    create: "op_step env look inv gk \<lparr>or_state = st, or_queue = q\<rparr> \<lparr>or_state = st\<lparr>os_cluster := w0\<rparr>, or_queue = q \<union> {request}\<rparr>"
    by (simp add: obj_ok_def)
  let ?st = "st\<lparr>os_cluster := w0\<rparr>"
  have kinds: "look w0 kd = ?l kd" if "kd \<noteq> KSiddhiProcess" for kd using that by (simp add: l0 updated_apply fun_eq_iff)
  have same: "same_ctl ?s (configured env sp ?st)" by (rule configured_maps [OF k w]) (simp_all add: w0 kinds)
  have pre: "rollout_ready env sp (look w0)" "process_texts (look w0) sp = process_texts ?l sp"
    using rollout_ready_same(1) [where env = env, OF kinds refl refl refl] rollout_ready_same(2) [OF kinds refl refl refl]
      ready by simp_all
  have "look w0 KSiddhiProcess request = Some (OSiddhiProcess sp)"
    by (simp add: l0 updated_apply request_def key_of_process space)
  with journey [where st = ?st and request = request and sp = sp and acs = acs and gk = gk and q = "q \<union> {request}", OF k _ order]
  obtain st1 q1 apps sp1 where
    run: "(op_step env look inv gk)\<^sup>*\<^sup>* \<lparr>or_state = ?st, or_queue = q \<union> {request}\<rparr> \<lparr>or_state = st1, or_queue = q1\<rparr>"
    "inv (os_cluster st1)" "make_applications (sp_Name sp) 0 acs [] = (apps, None)" and
    up: "\<forall>a \<in> set apps. application_up (configured env sp ?st) a (look (os_cluster st1)) \<and>
       available (deployment_of (look (os_cluster st1)) ns a) = wanted a" and
    shown: "look (os_cluster st1) KSiddhiProcess request = Some (OSiddhiProcess sp1)"
    using cm w0 kinds spc svc named answer(2) pre status space
    by (auto simp: zero_siddhi_process_status_def request_def stored_names_def apps_of_def nn_def)
  have conf: "the_sp (configured env sp ?st) = sp" using configured_same [OF k _ _ refl, of ?st sp] w0 by simp
  have "ctl_AutoCreateIngress (configured env sp ?st)" using auto same by (simp add: same_ctl_def)
  with test_passes [OF t answer(1), of "configured env sp ?st" ns apps "look (os_cluster st1)"] conf run(3) up low space
  have checks: "\<forall>chk \<in> set (et_checks t). check_passes (look (os_cluster st1)) ns chk \<or>
      chk = GetService NATSClusterName \<and> TypeDefined (sps_MessagingSystem (sp_Spec sp))"
    by (simp add: sp_def all_up_def)
  obtain svc' where name: "key_of (OService svc') = nn NATSClusterName ns"
    using that [of "\<lparr>svc_TypeMeta = zero_type_meta, svc_ObjectMeta = new_meta NATSClusterName ns, svc_Spec = undefined, svc_rest = []\<rparr>"]
    by (simp add: key_of_def new_meta_def nn_def)
  have "\<exists>w' q'. (op_step env look inv gk)\<^sup>*\<^sup>* \<lparr>or_state = st1, or_queue = q1\<rparr> \<lparr>or_state = st1\<lparr>os_cluster := w'\<rparr>, or_queue = q'\<rparr> \<and>
    inv w' \<and> look w' KSiddhiProcess = look (os_cluster st1) KSiddhiProcess \<and>
    (\<forall>chk \<in> set (et_checks t). check_passes (look w') ns chk)"
  proof (cases "TypeDefined (sps_MessagingSystem (sp_Spec sp))")
    case False
    then have "(op_step env look inv gk)\<^sup>*\<^sup>* \<lparr>or_state = st1, or_queue = q1\<rparr> \<lparr>or_state = st1\<lparr>os_cluster := os_cluster st1\<rparr>, or_queue = q1\<rparr>"
      by simp
    with False checks run(2) show ?thesis by blast
  next
    case True
    from service_added [OF run(2), of env gk q1 svc'] obtain w' q' where
      step: "op_step env look inv gk \<lparr>or_state = st1, or_queue = q1\<rparr> \<lparr>or_state = st1\<lparr>os_cluster := w'\<rparr>, or_queue = q'\<rparr>" and
      w': "inv w'" "\<And>kd. kd \<noteq> KService \<Longrightarrow> look w' kd = look (os_cluster st1) kd"
      "\<And>n. look (os_cluster st1) KService n \<noteq> None \<Longrightarrow> look w' KService n \<noteq> None" and
      nats: "look w' KService (nn NATSClusterName ns) \<noteq> None" unfolding name by blast
    have "check_passes (look w') ns chk" if "chk \<in> set (et_checks t)" for chk
      using checks that nats checks_kept [of "look w'" "look (os_cluster st1)" ns chk, OF w'(2,3)] by auto
    with step w' show ?thesis by blast
  qed
  then obtain w' q' where
    more: "(op_step env look inv gk)\<^sup>*\<^sup>* \<lparr>or_state = st1, or_queue = q1\<rparr> \<lparr>or_state = st1\<lparr>os_cluster := w'\<rparr>, or_queue = q'\<rparr>"
    "inv w'" "look w' KSiddhiProcess request = Some (OSiddhiProcess sp1)" "\<forall>chk \<in> set (et_checks t). check_passes (look w') ns chk"
    using shown by auto
  from create run(1) have "(op_step env look inv gk)\<^sup>*\<^sup>* \<lparr>or_state = st, or_queue = q\<rparr> \<lparr>or_state = st1, or_queue = q1\<rparr>"
    by (rule converse_rtranclp_into_rtranclp)
  from rtranclp_trans [OF this more(1)] have
    all: "(op_step env look inv gk)\<^sup>*\<^sup>* \<lparr>or_state = st, or_queue = q\<rparr> \<lparr>or_state = st1\<lparr>os_cluster := w'\<rparr>, or_queue = q'\<rparr>" .
  from process_deleted [where st = "st1\<lparr>os_cluster := w'\<rparr>" and request = request and sp = sp1 and gk = gk and q = q', OF k] more obtain st2 q2 where
    "op_step env look inv gk \<lparr>or_state = st1\<lparr>os_cluster := w'\<rparr>, or_queue = q'\<rparr> \<lparr>or_state = st2, or_queue = q2\<rparr>"
    "look (os_cluster st2) KSiddhiProcess request = None" "os_SPContainer st2 (nn_Name request) = None" by auto
  moreover have "nn_Name request = sp_Name sp" by (simp add: request_def nn_def)
  ultimately show ?thesis using all more(4) by (intro exI conjI) auto
qed

end

section \<open>Properties\<close>



end
