(* ===== verification/UnitTests.thy ===== *)
theory UnitTests
  imports Rollout
begin

text \<open>
  The unit tests of the program, \<open>artifact/artifacts_test.go\<close>, run on the model: each test is a definition
  over any client, and the six of them, run in order on one client, report nothing on any server that
  answers, the object store of the fake client they are written for among them. The registration of the NATS
  types that one of them begins with is in theory \<open>Registry\<close>.
\<close>

section \<open>The tests\<close>

text \<open>
  A test reports errors, with \<open>t.Error\<close>, and goes on; None is a panic. The tests share the package's client, so
  each starts in the state the one before has left.
\<close>

type_synonym 'w unit_test = "'w kube_client \<Rightarrow> 'w \<Rightarrow> (string list \<times> 'w) option"

definition t_Error :: "goerror option \<Rightarrow> string list" where
  "t_Error err = (case err of None \<Rightarrow> [] | Some e \<Rightarrow> [error_text e])"

definition test_namespace :: string where
  "test_namespace = ''default''"

definition test_Get :: "'w kube_client \<Rightarrow> kind \<Rightarrow> string \<Rightarrow> 'w \<Rightarrow> (goerror + kobject) \<times> 'w" where
  "test_Get k kd name w = cl_Get (kc_Client k) kd (nn name test_namespace) w"

definition get_error :: "goerror + kobject \<Rightarrow> goerror option" where
  "get_error r = (case r of Inl e \<Rightarrow> Some e | Inr _ \<Rightarrow> None)"

text \<open>The object each test makes an owner of what it creates.\<close>

definition sampleDeployment :: kobject where
  "sampleDeployment = ODeployment
     \<lparr>dep_TypeMeta = zero_type_meta, dep_ObjectMeta = new_meta ''sample'' test_namespace,
      dep_Spec = \<lparr>ds_Replicas = None, ds_Selector = None, ds_TemplateLabels = [],
        ds_TemplateSpec = \<lparr>ps_Volumes = [], ps_Containers = [], ps_ImagePullSecrets = [], ps_rest = []\<rparr>,
        ds_Strategy = \<lparr>dst_Type = [], dst_RollingUpdate = None\<rparr>, ds_rest = []\<rparr>,
      dep_Status = \<lparr>dstat_AvailableReplicas = 0, dstat_rest = []\<rparr>\<rparr>"

definition test_port :: "string \<Rightarrow> int32 \<Rightarrow> container_port" where
  "test_port name p = \<lparr>cp_Name = name, cp_ContainerPort = p, cp_Protocol = [], cp_rest = []\<rparr>"

definition sampleText :: string where
  "sampleText = CHR 0x0A # ''It was popularised in the 1960s.'' @ [CHR 0x0A]"

definition test_selectors :: "string gomap" where
  "test_selectors = map_literal [(''app'', ''sample''), (''version'', ''0.1.0'')]"

definition TestCreateOrUpdateCM :: "'w unit_test" where
  "TestCreateOrUpdateCM k w = do {
     (err, w1) \<leftarrow> CreateOrUpdateCM k ''monitor-app'' test_namespace (map_literal [(''SampleData'', sampleText)])
       sampleDeployment w;
     let (r, w2) = test_Get k KConfigMap ''monitor-app'' w1;
     Some (t_Error err @ t_Error (get_error r), w2) }"

text \<open>The variable the ingress is read into, of which the test looks at the rules, keeps its value when a read fails.\<close>

definition read_rules :: "goerror + kobject \<Rightarrow> ingress_rule list \<Rightarrow> ingress_rule list" where
  "read_rules r old = (case r of Inr (OIngress i) \<Rightarrow> is_Rules (ing_Spec i) | _ \<Rightarrow> old)"

definition check_paths :: "ingress_rule list \<Rightarrow> string list option" where
  "check_paths rules =
     (case rules of
        [] \<Rightarrow> None
      | rule # _ \<Rightarrow>
          (case ir_HTTP rule of
             None \<Rightarrow> None
           | Some paths \<Rightarrow>
               Some (if length paths \<noteq> 2
                 then [''Ingress update error. Expected entries 2, but found'' @ Itoa (int (length rules))] else [])))"

definition TestCreateOrUpdateIngress :: "'w unit_test" where
  "TestCreateOrUpdateIngress k w = do {
     ((_, err1), w1) \<leftarrow> CreateOrUpdateIngress k test_namespace ''sampleService'' [] [test_port ''samplePort1'' 8080] w;
     let (r1, w2) = test_Get k KIngress IngressName w1;
     ((_, err2), w3) \<leftarrow> CreateOrUpdateIngress k test_namespace ''sampleService'' [] [test_port ''samplePort2'' 8081] w2;
     let (r2, w4) = test_Get k KIngress IngressName w3;
     checked \<leftarrow> check_paths (read_rules r2 (read_rules r1 []));
     Some (t_Error err1 @ t_Error (get_error r1) @ t_Error err2 @ t_Error (get_error r2) @ checked, w4) }"

text \<open>The test does not look at the error of \<open>CreateNATS\<close>.\<close>

definition TestCreateNATS :: "'w unit_test" where
  "TestCreateNATS k w =
     (let (_, w1) = CreateNATS k test_namespace w;
          (r1, w2) = test_Get k KNatsCluster NATSClusterName w1;
          (r2, w3) = test_Get k KStanCluster STANClusterName w2
      in Some (t_Error (get_error r1) @ t_Error (get_error r2), w3))"

definition test_pvc_spec :: pvc_spec where
  "test_pvc_spec = zero_pvc_spec
     \<lparr>pvcs_AccessModes := Some [ReadWriteOnce, ReadWriteMany], pvcs_StorageClassName := Some ''standard'',
      pvcs_Resources := \<lparr>rr_Limits = None, rr_Requests = Some (map_literal
        [(''storage'', \<lparr>q_i = (1073741824, 0), q_d = None, q_s = [], q_Format = ''BinarySI''\<rparr>)])\<rparr>\<rparr>"

definition TestCreateOrUpdatePVC :: "'w unit_test" where
  "TestCreateOrUpdatePVC k w = do {
     (err, w1) \<leftarrow> CreateOrUpdatePVC k ''sample-pvc'' test_namespace test_pvc_spec sampleDeployment w;
     let (r, w2) = test_Get k KPVC ''sample-pvc'' w1;
     Some (t_Error err @ t_Error (get_error r), w2) }"

definition TestCreateOrUpdateService :: "'w unit_test" where
  "TestCreateOrUpdateService k w = do {
     ((_, err), w1) \<leftarrow> CreateOrUpdateService k ''sampleService'' test_namespace [test_port ''samplePort1'' 8080]
       test_selectors sampleDeployment w;
     let (r, w2) = test_Get k KService ''sampleService'' w1;
     Some (t_Error err @ t_Error (get_error r), w2) }"

definition TestCreateOrUpdateDeployment :: "'w unit_test" where
  "TestCreateOrUpdateDeployment k w = do {
     ((_, err), w1) \<leftarrow> CreateOrUpdateDeployment k ''sampleDeployment'' test_namespace 1 test_selectors
       ''siddhiio/siddhi-operator:0.2.2'' ''siddhirunner'' [''sh''] [''-Dsiddhi-parser'']
       [test_port ''samplePort1'' 8080] [] (Some []) \<lparr>sctx_RunAsUser = None, sctx_rest = []\<rparr> ''Always'' [] []
       \<lparr>dst_Type = [], dst_RollingUpdate = None\<rparr> sampleDeployment w;
     let (r, w2) = test_Get k KDeployment ''sampleDeployment'' w1;
     Some (t_Error err @ t_Error (get_error r), w2) }"

text \<open>The tests of a file run one after the other; a panic ends the run.\<close>

fun run_tests :: "'w unit_test list \<Rightarrow> 'w unit_test" where
  "run_tests [] k w = Some ([], w)"
| "run_tests (t # ts) k w = do {
     (reports, w1) \<leftarrow> t k w;
     (more, w2) \<leftarrow> run_tests ts k w1;
     Some (reports @ more, w2) }"

definition artifacts_tests :: "'w unit_test list" where
  "artifacts_tests = [TestCreateOrUpdateCM, TestCreateOrUpdateIngress, TestCreateNATS, TestCreateOrUpdatePVC,
     TestCreateOrUpdateService, TestCreateOrUpdateDeployment]"

section \<open>They pass\<close>

text \<open>A test passes in a state, and leaves the ingress alone.\<close>

definition passes :: "'w unit_test \<Rightarrow> 'w kube_client \<Rightarrow> ('w \<Rightarrow> bool) \<Rightarrow> ('w \<Rightarrow> kind \<Rightarrow> namespaced_name \<Rightarrow> kobject option) \<Rightarrow>
    (kind \<times> string) set \<Rightarrow> 'w \<Rightarrow> bool" where
  "passes t k ok l S w \<longleftrightarrow>
     (\<exists>w'. t k w = Some ([], w') \<and> ok w' \<and> (\<forall>(kd, n) \<in> S. l w' kd (nn n test_namespace) \<noteq> None) \<and>
        (\<forall>kd n. (kd, nn_Name n) \<notin> S \<longrightarrow> l w' kd n = l w kd n))"

context kube_live
begin

lemma test_Get_found:
  assumes "kc_Client k = c" and "inv w" and "look w kd (nn name test_namespace) = Some obj"
  shows "\<exists>w'. test_Get k kd name w = (Inr obj, w') \<and> inv w' \<and> look w' = look w"
proof -
  from get_total [OF assms(2,3)] obtain w' where "cl_Get c kd (nn name test_namespace) w = (Inr obj, w')" by blast
  with get_look [OF this assms(2)] assms(1) show ?thesis by (auto simp: test_Get_def)
qed

text \<open>What a test reads after a call without error is there.\<close>

lemma written_read:
  assumes "kc_Client k = c" and "inv w1" and "look w1 kd (nn name test_namespace) = Some obj"
    and "same_except (look w) (look w1) kd (nn name test_namespace)"
  shows "\<exists>w2. test_Get k kd name w1 = (Inr obj, w2) \<and> inv w2 \<and> look w2 kd (nn name test_namespace) = Some obj \<and>
    (\<forall>kd' n. (kd', nn_Name n) \<noteq> (kd, name) \<longrightarrow> look w2 kd' n = look w kd' n)"
proof -
  from test_Get_found [OF assms(1-3)] obtain w2 where
    two: "test_Get k kd name w1 = (Inr obj, w2)" "inv w2" "look w2 = look w1" by blast
  have "look w2 kd' n = look w kd' n" if "(kd', nn_Name n) \<noteq> (kd, name)" for kd' n
    using assms(4) that two(3) unfolding same_except_def by (metis nn_fields(2) prod.inject)
  with two assms(3) show ?thesis by auto
qed

lemma outcome_read:
  assumes "kc_Client k = c" and "inv w1" and "outcome (look w) (look w1) kd (nn name test_namespace) Q None"
  shows "\<exists>obj w2. test_Get k kd name w1 = (Inr obj, w2) \<and> inv w2 \<and> Q obj \<and> look w2 kd (nn name test_namespace) = Some obj \<and>
    (\<forall>kd' n. (kd', nn_Name n) \<noteq> (kd, name) \<longrightarrow> look w2 kd' n = look w kd' n)"
  using assms(3) written_read [OF assms(1,2)] by (fastforce simp: outcome_def)

lemma passes_written:
  assumes "kc_Client k = c" and "inv w1" and "outcome (look w) (look w1) kd (nn name test_namespace) Q None"
    and "\<And>obj w2. test_Get k kd name w1 = (Inr obj, w2) \<Longrightarrow> t k w = Some ([], w2)"
  shows "passes t k inv look {(kd, name)} w"
  using outcome_read [OF assms(1-3)] assms(4) by (fastforce simp: passes_def)

lemmas test_simps = t_Error_def get_error_def Let_def

lemma outcome_any: "outcome l l' kd n Q err \<Longrightarrow> outcome l l' kd n (\<lambda>_. True) err"
  by (erule outcome_mono) simp

lemma CM_test:
  assumes k: "kc_Client k = c" and w: "inv w"
    and t: "t k w = do {
      (err, w1) \<leftarrow> CreateOrUpdateCM k name test_namespace data owner w;
      let (r, w2) = test_Get k KConfigMap name w1;
      Some (t_Error err @ t_Error (get_error r), w2) }"
  shows "passes t k inv look {(KConfigMap, name)} w"
proof -
  from CM_live [OF k w] obtain w1 where one: "CreateOrUpdateCM k name test_namespace data owner w = Some (None, w1)" by blast
  with CM_result [OF k w, of name test_namespace data owner] have
    "inv w1" "outcome (look w) (look w1) KConfigMap (nn name test_namespace) (\<lambda>_. True) None" by (auto intro: outcome_any)
  then show ?thesis by (rule passes_written [OF k]) (simp add: t one test_simps)
qed

lemma Service_test:
  assumes k: "kc_Client k = c" and w: "inv w"
    and t: "t k w = do {
      ((_, err), w1) \<leftarrow> CreateOrUpdateService k name test_namespace ports selectors owner w;
      let (r, w2) = test_Get k KService name w1;
      Some (t_Error err @ t_Error (get_error r), w2) }"
  shows "passes t k inv look {(KService, name)} w"
proof -
  from Service_live [OF k w] obtain op w1 where
    one: "CreateOrUpdateService k name test_namespace ports selectors owner w = Some ((op, None), w1)" by blast
  with Service_result [OF k w, of name test_namespace ports selectors owner] have
    "inv w1" "outcome (look w) (look w1) KService (nn name test_namespace) (\<lambda>_. True) None" by (auto intro: outcome_any)
  then show ?thesis by (rule passes_written [OF k]) (simp add: t one test_simps)
qed

lemma Deployment_test:
  assumes k: "kc_Client k = c" and w: "inv w"
    and t: "t k w = do {
      ((_, err), w1) \<leftarrow> CreateOrUpdateDeployment k name test_namespace n labels img containerName command args ports
        mounts envs sc ipp secrets volumes strategy owner w;
      let (r, w2) = test_Get k KDeployment name w1;
      Some (t_Error err @ t_Error (get_error r), w2) }"
  shows "passes t k inv look {(KDeployment, name)} w"
proof -
  from CreateOrUpdateDeployment_live [OF k w, of name test_namespace n labels img containerName command args ports
      mounts envs sc ipp secrets volumes strategy owner] obtain op w1 where
    one: "CreateOrUpdateDeployment k name test_namespace n labels img containerName command args ports
      mounts envs sc ipp secrets volumes strategy owner w = Some ((op, None), w1)" by blast
  with Deployment_result [OF k w, of name test_namespace n labels img containerName command args ports
      mounts envs sc ipp secrets volumes strategy owner] have
    "inv w1" "outcome (look w) (look w1) KDeployment (nn name test_namespace) (\<lambda>_. True) None"
    by (auto intro: outcome_any)
  then show ?thesis by (rule passes_written [OF k]) (simp add: t one test_simps)
qed

lemma PVC_test:
  assumes k: "kc_Client k = c" and w: "inv w" and mode: "mode_granted spec"
    and t: "t k w = do {
      (err, w1) \<leftarrow> CreateOrUpdatePVC k name test_namespace spec owner w;
      let (r, w2) = test_Get k KPVC name w1;
      Some (t_Error err @ t_Error (get_error r), w2) }"
  shows "passes t k inv look {(KPVC, name)} w"
proof -
  from PVC_live [OF k w] mode obtain w1 where
    one: "CreateOrUpdatePVC k name test_namespace spec owner w = Some (None, w1)" by blast
  have "inv w1 \<and> outcome (look w) (look w1) KPVC (nn name test_namespace) (\<lambda>_. True) None"
  proof (cases "look w KPVC (nn name test_namespace)")
    case None
    from PVC_created [OF k w mode [unfolded mode_granted_def] None, of owner] one show ?thesis by (auto intro: outcome_any)
  next
    case (Some obj)
    with PVC_found [OF k w, of name test_namespace spec owner] one show ?thesis by (auto simp: outcome_def same_except_def)
  qed
  then have "inv w1" "outcome (look w) (look w1) KPVC (nn name test_namespace) (\<lambda>_. True) None" by auto
  then show ?thesis by (rule passes_written [OF k]) (simp add: t one test_simps)
qed

lemma NATS_test:
  assumes k: "kc_Client k = c" and w: "inv w"
  shows "passes TestCreateNATS k inv look {(KNatsCluster, NATSClusterName), (KStanCluster, STANClusterName)} w"
proof -
  let ?n = "nn NATSClusterName test_namespace" and ?s = "nn STANClusterName test_namespace"
  from CreateNATS_live [OF k w] obtain w1 where one: "CreateNATS k test_namespace w = (None, w1)" by blast
  from NATS_result [OF k w one] obtain n s where w1: "inv w1" "look w1 KNatsCluster ?n = Some n" "look w1 KStanCluster ?s = Some s"
    and same: "\<And>kd m. (kd, m) \<notin> {(KNatsCluster, ?n), (KStanCluster, ?s)} \<Longrightarrow> look w1 kd m = look w kd m" by auto
  from test_Get_found [OF k w1(1,2)] obtain w2 where
    two: "test_Get k KNatsCluster NATSClusterName w1 = (Inr n, w2)" "inv w2" "look w2 = look w1" by blast
  from test_Get_found [OF k two(2), of KStanCluster STANClusterName s] w1(3) two(3) obtain w3 where
    three: "test_Get k KStanCluster STANClusterName w2 = (Inr s, w3)" "inv w3" "look w3 = look w1" by auto
  have "TestCreateNATS k w = Some ([], w3)" by (simp add: TestCreateNATS_def one two(1) three(1) test_simps)
  moreover have "look w3 kd m = look w kd m" if "(kd, nn_Name m) \<notin> {(KNatsCluster, NATSClusterName), (KStanCluster, STANClusterName)}"
    for kd m
  proof -
    from that have "(kd, m) \<notin> {(KNatsCluster, ?n), (KStanCluster, ?s)}" by auto
    with same three(3) show ?thesis by simp
  qed
  ultimately show ?thesis using three w1 by (auto simp: passes_def)
qed

lemma ingress_path_port: "ingress_path s p = ingress_path s q \<Longrightarrow> cp_ContainerPort p = cp_ContainerPort q"
  by (drule arg_cong [where f = "\<lambda>x. ios_IntVal (ib_ServicePort (hip_Backend x))"])
    (simp add: ingress_path_def int_port_def)

text \<open>Two ports routed one after the other, from no ingress.\<close>

lemma Ingress_test:
  assumes k: "kc_Client k = c" and w: "inv w" and none: "look w KIngress (nn IngressName test_namespace) = None"
    and new: "\<not> pathContains [ingress_path service p] (ingress_path service q)"
    and t: "t k w = do {
      ((_, err1), w1) \<leftarrow> CreateOrUpdateIngress k test_namespace service [] [p] w;
      let (r1, w2) = test_Get k KIngress IngressName w1;
      ((_, err2), w3) \<leftarrow> CreateOrUpdateIngress k test_namespace service [] [q] w2;
      let (r2, w4) = test_Get k KIngress IngressName w3;
      checked \<leftarrow> check_paths (read_rules r2 (read_rules r1 []));
      Some (t_Error err1 @ t_Error (get_error r1) @ t_Error err2 @ t_Error (get_error r2) @ checked, w4) }"
  shows "passes t k inv look {(KIngress, IngressName)} w"
proof -
  let ?n = "nn IngressName test_namespace"
  from Ingress_live [OF k w, of test_namespace service "[]" "[p]"] none obtain op w1 where
    one: "CreateOrUpdateIngress k test_namespace service [] [p] w = Some ((op, None), w1)" by auto
  with Ingress_result [OF k w, of test_namespace service "[]" "[p]"] none obtain i where w1: "inv w1"
    and o1: "same_except (look w) (look w1) KIngress ?n" "look w1 KIngress ?n = Some (OIngress i)"
    and i: "is_Rules (ing_Spec i) = [siddhi_rule [ingress_path service p]]"
    by (auto simp: outcome_def merged_rules_def ingress_paths_def)
  from test_Get_found [OF k w1 o1(2)] obtain w2 where
    two: "test_Get k KIngress IngressName w1 = (Inr (OIngress i), w2)" "inv w2" "look w2 = look w1" by blast
  have ok: "rules_ok (is_Rules (ing_Spec i'))" if "look w2 KIngress ?n = Some (OIngress i')" for i'
    using that i o1(2) two(3) by simp
  from Ingress_live [OF k two(2), of test_namespace service "[]" "[q]"] ok obtain op' w3 where
    three: "CreateOrUpdateIngress k test_namespace service [] [q] w2 = Some ((op', None), w3)" by auto
  with Ingress_result [OF k two(2), of test_namespace service "[]" "[q]"] ok o1(2) two(3) i obtain j where w3: "inv w3"
    and o3: "same_except (look w1) (look w3) KIngress ?n" "look w3 KIngress ?n = Some (OIngress j)"
    and j: "is_Rules (ing_Spec j) = merged_rules [ingress_path service q] [siddhi_rule [ingress_path service p]]"
    by (auto simp: outcome_def ingress_paths_def)
  from test_Get_found [OF k w3 o3(2)] obtain w4 where
    four: "test_Get k KIngress IngressName w3 = (Inr (OIngress j), w4)" "inv w4" "look w4 = look w3" by blast
  have "check_paths (is_Rules (ing_Spec j)) = Some []"
    using new by (simp add: j check_paths_def merged_rules_def updated_rule_def siddhi_rule_def)
  then have "t k w = Some ([], w4)"
    by (simp add: t one two(1) three four(1) read_rules_def test_simps)
  moreover have "look w4 kd m = look w kd m" if "(kd, nn_Name m) \<noteq> (KIngress, IngressName)" for kd m
    using o1(1) o3(1) that unfolding same_except_def four(3) by (metis nn_fields(2) prod.inject)
  ultimately show ?thesis using four o3(2) by (auto simp: passes_def)
qed

lemma artifacts_tests_pass:
  assumes k: "kc_Client k = c" and w: "inv w" and none: "look w KIngress (nn IngressName test_namespace) = None"
  shows "\<exists>w'. run_tests artifacts_tests k w = Some ([], w') \<and> inv w'"
proof -
  have first: "passes TestCreateOrUpdateCM k inv look {(KConfigMap, ''monitor-app'')} w"
    by (rule CM_test [where t = TestCreateOrUpdateCM, OF k w TestCreateOrUpdateCM_def])
  then obtain w1 where one: "TestCreateOrUpdateCM k w = Some ([], w1)" "inv w1" "look w1 KIngress (nn IngressName test_namespace) = None"
    using none by (auto simp: passes_def)
  have "\<not> pathContains [ingress_path ''sampleService'' (test_port ''samplePort1'' 8080)]
      (ingress_path ''sampleService'' (test_port ''samplePort2'' 8081))"
    by (auto simp: pathContains_def test_port_def dest: ingress_path_port)
  from Ingress_test [where t = TestCreateOrUpdateIngress, OF k one(2,3) this TestCreateOrUpdateIngress_def] obtain w2 where
    two: "TestCreateOrUpdateIngress k w1 = Some ([], w2)" "inv w2" by (auto simp: passes_def)
  from NATS_test [OF k two(2)] obtain w3 where three: "TestCreateNATS k w2 = Some ([], w3)" "inv w3" by (auto simp: passes_def)
  have "mode_granted test_pvc_spec" by (simp add: mode_granted_def test_pvc_spec_def)
  from PVC_test [where t = TestCreateOrUpdatePVC, OF k three(2) this TestCreateOrUpdatePVC_def] obtain w4 where
    four: "TestCreateOrUpdatePVC k w3 = Some ([], w4)" "inv w4" by (auto simp: passes_def)
  from Service_test [where t = TestCreateOrUpdateService, OF k four(2) TestCreateOrUpdateService_def] obtain w5 where
    five: "TestCreateOrUpdateService k w4 = Some ([], w5)" "inv w5" by (auto simp: passes_def)
  from Deployment_test [where t = TestCreateOrUpdateDeployment, OF k five(2) TestCreateOrUpdateDeployment_def] obtain w6 where
    six: "TestCreateOrUpdateDeployment k w5 = Some ([], w6)" "inv w6" by (auto simp: passes_def)
  from one two three four five six show ?thesis by (simp add: artifacts_tests_def)
qed

end

section \<open>Properties\<close>


text \<open>The tests' own client, over an empty store.\<close>

definition test_client :: "tracker kube_client" where
  "test_client = \<lparr>kc_Client = cached_client,
     kc_Scheme = (\<lambda>_. Inr \<lparr>gvk_Group = ''apps'', gvk_Version = ''v1'', gvk_Kind = ''Deployment''\<rparr>)\<rparr>"


end
