(* ===== verification/Registry.thy ===== *)
theory Registry
  imports ControllerUtil
begin

text \<open>
  The registry of types: the scheme of the API machinery (\<open>runtime.Scheme\<close>, from its vendored source),
  the builders the packages fill in their \<open>init\<close> functions, and the registration functions of the three
  API groups. \<open>GVKForObject\<close> on the filled registry is the \<open>scheme\<close> the owner references are made with.
\<close>

section \<open>The scheme\<close>

text \<open>A struct type, by the path of its package and its name; what \<open>%v\<close> prints for it.\<close>

record go_name =
  gt_Pkg :: string
  gt_Name :: string

definition type_string :: "go_name \<Rightarrow> string" where
  "type_string t = last (split_slash (gt_Pkg t)) @ ''.'' @ gt_Name t"

record runtime_scheme =
  rs_gvkToType :: "group_version_kind \<Rightarrow> go_name option"
  rs_typeToGVK :: "go_name \<Rightarrow> group_version_kind list option"
  rs_unversionedTypes :: "go_name \<Rightarrow> group_version_kind option"
  rs_unversionedKinds :: "string \<Rightarrow> go_name option"
  rs_observedVersions :: "group_version list"
  rs_schemeName :: string

definition APIVersionInternal :: string where
  "APIVersionInternal = ''__internal''"

definition WithKind :: "group_version \<Rightarrow> string \<Rightarrow> group_version_kind" where
  "WithKind gv kd = \<lparr>gvk_Group = gv_Group gv, gvk_Version = gv_Version gv, gvk_Kind = kd\<rparr>"

definition gvk_GroupVersion :: "group_version_kind \<Rightarrow> group_version" where
  "gvk_GroupVersion gvk = \<lparr>gv_Group = gvk_Group gvk, gv_Version = gvk_Version gvk\<rparr>"

definition addObservedVersion :: "group_version \<Rightarrow> runtime_scheme \<Rightarrow> runtime_scheme" where
  "addObservedVersion version s =
     (if gv_Version version = [] \<or> gv_Version version = APIVersionInternal then s
      else if version \<in> set (rs_observedVersions s) then s
      else s\<lparr>rs_observedVersions := rs_observedVersions s @ [version]\<rparr>)"

text \<open>None is the panic: no version, or another type registered for the kind.\<close>

definition AddKnownTypeWithName :: "group_version_kind \<Rightarrow> go_name \<Rightarrow> runtime_scheme \<Rightarrow> runtime_scheme option" where
  "AddKnownTypeWithName gvk t s =
     (let s = addObservedVersion (gvk_GroupVersion gvk) s
      in if gvk_Version gvk = [] then None
         else if rs_gvkToType s gvk \<noteq> None \<and> rs_gvkToType s gvk \<noteq> Some t then None
         else
           (let s = s\<lparr>rs_gvkToType := (rs_gvkToType s)(gvk \<mapsto> t)\<rparr>;
                gvks = (case rs_typeToGVK s t of None \<Rightarrow> [] | Some gvks \<Rightarrow> gvks)
            in if gvk \<in> set gvks then Some s
               else Some (s\<lparr>rs_typeToGVK := (rs_typeToGVK s)(t \<mapsto> gvks @ [gvk])\<rparr>)))"

fun add_types :: "group_version \<Rightarrow> go_name list \<Rightarrow> runtime_scheme \<Rightarrow> runtime_scheme option" where
  "add_types gv [] s = Some s"
| "add_types gv (t # ts) s = do {
     s \<leftarrow> AddKnownTypeWithName (WithKind gv (gt_Name t)) t s;
     add_types gv ts s }"

definition AddKnownTypes :: "group_version \<Rightarrow> go_name list \<Rightarrow> runtime_scheme \<Rightarrow> runtime_scheme option" where
  "AddKnownTypes gv types s = add_types gv types (addObservedVersion gv s)"

fun mark_unversioned :: "group_version \<Rightarrow> go_name list \<Rightarrow> runtime_scheme \<Rightarrow> runtime_scheme option" where
  "mark_unversioned version [] s = Some s"
| "mark_unversioned version (t # ts) s =
     (let gvk = WithKind version (gt_Name t);
          s = s\<lparr>rs_unversionedTypes := (rs_unversionedTypes s)(t \<mapsto> gvk)\<rparr>
      in if rs_unversionedKinds s (gvk_Kind gvk) \<noteq> None \<and> rs_unversionedKinds s (gvk_Kind gvk) \<noteq> Some t then None
         else mark_unversioned version ts (s\<lparr>rs_unversionedKinds := (rs_unversionedKinds s)(gvk_Kind gvk \<mapsto> t)\<rparr>))"

definition AddUnversionedTypes :: "group_version \<Rightarrow> go_name list \<Rightarrow> runtime_scheme \<Rightarrow> runtime_scheme option" where
  "AddUnversionedTypes version types s = do {
     s \<leftarrow> AddKnownTypes version types (addObservedVersion version s);
     mark_unversioned version types s }"

text \<open>\<open>ObjectKinds\<close> of a typed object, and \<open>GVKForObject\<close>.\<close>

definition ObjectKinds :: "go_name \<Rightarrow> runtime_scheme \<Rightarrow> goerror + (group_version_kind list \<times> bool)" where
  "ObjectKinds t s =
     (case rs_typeToGVK s t of
        None \<Rightarrow> Inl (Failure (''no kind is registered for the type '' @ type_string t @
                  '' in scheme '' @ [CHR 0x22] @ rs_schemeName s @ [CHR 0x22]))
      | Some gvks \<Rightarrow> Inr (gvks, rs_unversionedTypes s t \<noteq> None))"

definition GVKForObject :: "go_name \<Rightarrow> runtime_scheme \<Rightarrow> goerror + group_version_kind" where
  "GVKForObject t s =
     (case ObjectKinds t s of
        Inl err \<Rightarrow> Inl err
      | Inr (gvks, isUnversioned) \<Rightarrow>
          if isUnversioned
          then Inl (Failure (''cannot create a new informer for the unversioned type *'' @ type_string t))
          else if gvks = []
          then Inl (Failure (''no group-version-kinds associated with type *'' @ type_string t))
          else if 1 < length gvks
          then Inl (Failure (''multiple group-version-kinds associated with type *'' @ type_string t @ '', refusing to guess at one''))
          else Inr (hd gvks))"

section \<open>The types every group has\<close>

definition meta_type :: "string \<Rightarrow> go_name" where
  "meta_type n = \<lparr>gt_Pkg = ''k8s.io/apimachinery/pkg/apis/meta/v1'', gt_Name = n\<rparr>"

definition WatchEventKind :: string where
  "WatchEventKind = ''WatchEvent''"

definition Unversioned :: group_version where
  "Unversioned = \<lparr>gv_Group = [], gv_Version = ''v1''\<rparr>"

definition option_types :: "go_name list" where
  "option_types = map meta_type
     [''ListOptions'', ''ExportOptions'', ''GetOptions'', ''DeleteOptions'', ''CreateOptions'', ''UpdateOptions'']"

definition unversioned_types :: "go_name list" where
  "unversioned_types = map meta_type
     [''Status'', ''APIVersions'', ''APIGroupList'', ''APIGroup'', ''APIResourceList'']"

text \<open>The conversion and defaulting functions it adds too are other tables of the scheme.\<close>

definition AddToGroupVersion :: "group_version \<Rightarrow> runtime_scheme \<Rightarrow> runtime_scheme option" where
  "AddToGroupVersion groupVersion s = do {
     s \<leftarrow> AddKnownTypeWithName (WithKind groupVersion WatchEventKind) (meta_type ''WatchEvent'') s;
     s \<leftarrow> AddKnownTypeWithName
       (WithKind \<lparr>gv_Group = gv_Group groupVersion, gv_Version = APIVersionInternal\<rparr> WatchEventKind)
       (meta_type ''InternalEvent'') s;
     s \<leftarrow> AddKnownTypes groupVersion option_types s;
     AddUnversionedTypes Unversioned unversioned_types s }"

section \<open>Builders\<close>

type_synonym scheme_fun = "runtime_scheme \<Rightarrow> (goerror option \<times> runtime_scheme) option"

fun AddToScheme :: "scheme_fun list \<Rightarrow> scheme_fun" where
  "AddToScheme [] s = Some (None, s)"
| "AddToScheme (f # sb) s = do {
     (err, s) \<leftarrow> f s;
     if err \<noteq> None then Some (err, s) else AddToScheme sb s }"

text \<open>\<open>Register\<close> of the controller runtime's builder, for the types of some objects.\<close>

definition Builder_Register :: "group_version \<Rightarrow> go_name list \<Rightarrow> scheme_fun list \<Rightarrow> scheme_fun list" where
  "Builder_Register gv object sb = sb @ [\<lambda>s. do {
     s \<leftarrow> AddKnownTypes gv object s;
     s \<leftarrow> AddToGroupVersion gv s;
     Some (None, s) }]"

section \<open>The group siddhi.io\<close>

definition siddhi_type :: "string \<Rightarrow> go_name" where
  "siddhi_type n = \<lparr>gt_Pkg = ''github.com/siddhi-io/siddhi-operator/pkg/apis/siddhi/v1alpha2'', gt_Name = n\<rparr>"

definition Siddhi_SchemeGroupVersion :: group_version where
  "Siddhi_SchemeGroupVersion = \<lparr>gv_Group = ''siddhi.io'', gv_Version = ''v1alpha2''\<rparr>"

text \<open>After \<open>init\<close> of siddhiprocess_types.go.\<close>

definition Siddhi_SchemeBuilder :: "scheme_fun list" where
  "Siddhi_SchemeBuilder =
     Builder_Register Siddhi_SchemeGroupVersion [siddhi_type ''SiddhiProcess'', siddhi_type ''SiddhiProcessList''] []"

text \<open>After \<open>init\<close> of addtoscheme_siddhi_v1alpha2.go.\<close>

definition AddToSchemes :: "scheme_fun list" where
  "AddToSchemes = [] @ [AddToScheme Siddhi_SchemeBuilder]"

definition Apis_AddToScheme :: scheme_fun where
  "Apis_AddToScheme s = AddToScheme AddToSchemes s"

section \<open>The group nats.io\<close>

definition nats_type :: "string \<Rightarrow> go_name" where
  "nats_type n = \<lparr>gt_Pkg = ''github.com/siddhi-io/siddhi-operator/pkg/apis/nats/v1alpha2'', gt_Name = n\<rparr>"

definition CRDResourceKind :: string where "CRDResourceKind = ''NatsCluster''"

definition CRDResourcePlural :: string where "CRDResourcePlural = ''natsclusters''"

definition Nats_groupName :: string where "Nats_groupName = ''nats.io''"

definition ServiceRoleCRDResourceKind :: string where "ServiceRoleCRDResourceKind = ''NatsServiceRole''"

definition ServiceRoleCRDResourcePlural :: string where "ServiceRoleCRDResourcePlural = ''natsserviceroles''"

definition Nats_SchemeGroupVersion :: group_version where
  "Nats_SchemeGroupVersion = \<lparr>gv_Group = Nats_groupName, gv_Version = ''v1alpha2''\<rparr>"

definition Nats_CRDName :: string where
  "Nats_CRDName = CRDResourcePlural @ ''.'' @ Nats_groupName"

definition ServiceRoleCRDName :: string where
  "ServiceRoleCRDName = ServiceRoleCRDResourcePlural @ ''.'' @ Nats_groupName"

text \<open>A resource of the group: its group and its name.\<close>

definition Nats_Resource :: "string \<Rightarrow> string \<times> string" where
  "Nats_Resource resource = (gv_Group Nats_SchemeGroupVersion, resource)"

definition Nats_addKnownTypes :: scheme_fun where
  "Nats_addKnownTypes s = do {
     s \<leftarrow> AddKnownTypes Nats_SchemeGroupVersion
       [nats_type ''NatsCluster'', nats_type ''NatsClusterList'', nats_type ''NatsServiceRole'',
        nats_type ''NatsServiceRoleList''] s;
     s \<leftarrow> AddToGroupVersion Nats_SchemeGroupVersion s;
     Some (None, s) }"

definition Nats_AddToScheme :: scheme_fun where
  "Nats_AddToScheme s = AddToScheme [Nats_addKnownTypes] s"

definition NatsCluster_GetGroupVersionKind :: group_version_kind where
  "NatsCluster_GetGroupVersionKind = WithKind Nats_SchemeGroupVersion CRDResourceKind"

section \<open>The group streaming.nats.io\<close>

definition stan_type :: "string \<Rightarrow> go_name" where
  "stan_type n = \<lparr>gt_Pkg = ''github.com/siddhi-io/siddhi-operator/pkg/apis/streaming/v1alpha1'', gt_Name = n\<rparr>"

definition Stan_version :: string where "Stan_version = ''v1alpha1''"

definition Stan_groupName :: string where "Stan_groupName = ''streaming.nats.io''"

definition Stan_SchemeGroupVersion :: group_version where
  "Stan_SchemeGroupVersion = \<lparr>gv_Group = Stan_groupName, gv_Version = Stan_version\<rparr>"

definition Stan_addKnownTypes :: scheme_fun where
  "Stan_addKnownTypes s = do {
     s \<leftarrow> AddKnownTypes Stan_SchemeGroupVersion
       [stan_type ''NatsStreamingCluster'', stan_type ''NatsStreamingClusterList''] s;
     s \<leftarrow> AddToGroupVersion Stan_SchemeGroupVersion s;
     Some (None, s) }"

definition Stan_AddToScheme :: scheme_fun where
  "Stan_AddToScheme s = AddToScheme [Stan_addKnownTypes] s"

text \<open>Generated defaulters: there are none.\<close>

definition RegisterDefaults :: "runtime_scheme \<Rightarrow> goerror option \<times> runtime_scheme" where
  "RegisterDefaults s = (None, s)"

section \<open>What a registration does\<close>

text \<open>The kinds a type has so far.\<close>

definition kinds_of :: "runtime_scheme \<Rightarrow> go_name \<Rightarrow> group_version_kind list" where
  "kinds_of s t = (case rs_typeToGVK s t of None \<Rightarrow> [] | Some gvks \<Rightarrow> gvks)"

text \<open>
  Registering kinds \<open>gs\<close> with the types a table \<open>F\<close> declares for them: they resolve to those types, the
  types have got these kinds besides what they had, and nothing else has changed.
\<close>

definition registered ::
  "(group_version_kind \<Rightarrow> go_name) \<Rightarrow> group_version_kind list \<Rightarrow> runtime_scheme \<Rightarrow> runtime_scheme \<Rightarrow> bool" where
  "registered F gs s s' \<longleftrightarrow>
     (\<forall>g. rs_gvkToType s' g = (if g \<in> set gs then Some (F g) else rs_gvkToType s g)) \<and>
     (\<forall>t. t \<notin> F ` set gs \<longrightarrow> rs_typeToGVK s' t = rs_typeToGVK s t) \<and>
     (\<forall>t. set (kinds_of s' t) = set (kinds_of s t) \<union> {g \<in> set gs. F g = t}) \<and>
     (\<forall>t. distinct (kinds_of s t) \<longrightarrow> distinct (kinds_of s' t)) \<and>
     rs_schemeName s' = rs_schemeName s"

text \<open>No kind has a type other than the declared one.\<close>

definition agrees :: "(group_version_kind \<Rightarrow> go_name) \<Rightarrow> group_version_kind list \<Rightarrow> runtime_scheme \<Rightarrow> bool" where
  "agrees F gs s \<longleftrightarrow> (\<forall>g \<in> set gs. rs_gvkToType s g \<in> {None, Some (F g)})"

lemma registered_Nil: "registered F [] s s"
  by (simp add: registered_def)

lemma registered_trans: "registered F gs s s' \<Longrightarrow> registered F hs s' s'' \<Longrightarrow> registered F (gs @ hs) s s''"
  unfolding registered_def by (simp add: image_Un) blast

lemma registered_agrees: "registered F gs s s' \<Longrightarrow> agrees F hs s \<Longrightarrow> agrees F hs s'"
  by (auto simp: registered_def agrees_def)

text \<open>The marks for unversioned types stay as they are.\<close>

definition same_marks :: "runtime_scheme \<Rightarrow> runtime_scheme \<Rightarrow> bool" where
  "same_marks s s' \<longleftrightarrow>
     rs_unversionedTypes s' = rs_unversionedTypes s \<and> rs_unversionedKinds s' = rs_unversionedKinds s"

lemma addObservedVersion_tables [simp]:
  "rs_gvkToType (addObservedVersion v s) = rs_gvkToType s" "rs_typeToGVK (addObservedVersion v s) = rs_typeToGVK s"
  "rs_unversionedTypes (addObservedVersion v s) = rs_unversionedTypes s"
  "rs_unversionedKinds (addObservedVersion v s) = rs_unversionedKinds s"
  "rs_schemeName (addObservedVersion v s) = rs_schemeName s"
  by (simp_all add: addObservedVersion_def)

lemma agrees_observed [simp]: "agrees F gs (addObservedVersion v s) = agrees F gs s"
  by (simp add: agrees_def)

lemma registered_observed [simp]: "registered F gs (addObservedVersion v s) s' = registered F gs s s'"
  by (simp add: registered_def kinds_of_def)

lemma same_marks_observed [simp]: "same_marks (addObservedVersion v s) s' = same_marks s s'"
  by (simp add: same_marks_def)

lemma AddKnownTypeWithName_registers:
  assumes "gvk_Version g \<noteq> []" and "agrees F [g] s" and "F g = t"
  shows "\<exists>s'. AddKnownTypeWithName g t s = Some s' \<and> registered F [g] s s' \<and> same_marks s s'"
proof -
  have "\<not> (rs_gvkToType s g \<noteq> None \<and> rs_gvkToType s g \<noteq> Some t)" using assms(2,3) by (auto simp: agrees_def)
  then show ?thesis
    using assms(1,3)
    by (auto simp: AddKnownTypeWithName_def Let_def registered_def same_marks_def kinds_of_def split: option.splits)
qed

lemma add_types_registers:
  assumes "gv_Version gv \<noteq> []" and "\<forall>t \<in> set ts. F (WithKind gv (gt_Name t)) = t"
    and "agrees F (map (\<lambda>t. WithKind gv (gt_Name t)) ts) s"
  shows "\<exists>s'. add_types gv ts s = Some s' \<and> registered F (map (\<lambda>t. WithKind gv (gt_Name t)) ts) s s' \<and> same_marks s s'"
  using assms(2,3)
proof (induction ts arbitrary: s)
  case (Cons t ts)
  let ?g = "WithKind gv (gt_Name t)"
  from Cons.prems have "agrees F [?g] s" "F ?g = t" by (auto simp: agrees_def)
  from AddKnownTypeWithName_registers [OF _ this] assms(1) obtain s1 where
    s1: "AddKnownTypeWithName ?g t s = Some s1" "registered F [?g] s s1" "same_marks s s1"
    by (auto simp: WithKind_def)
  from Cons.prems(2) have "agrees F (map (\<lambda>t. WithKind gv (gt_Name t)) ts) s" by (auto simp: agrees_def)
  with registered_agrees [OF s1(2)] Cons.IH Cons.prems(1) obtain s' where
    s': "add_types gv ts s1 = Some s'" "registered F (map (\<lambda>t. WithKind gv (gt_Name t)) ts) s1 s'" "same_marks s1 s'"
    by fastforce
  with registered_trans [OF s1(2) s'(2)] s1 show ?case by (simp add: same_marks_def)
qed (simp add: registered_Nil same_marks_def)

lemma AddKnownTypes_registers:
  assumes "gv_Version gv \<noteq> []" and "\<forall>t \<in> set ts. F (WithKind gv (gt_Name t)) = t"
    and "agrees F (map (\<lambda>t. WithKind gv (gt_Name t)) ts) s"
  shows "\<exists>s'. AddKnownTypes gv ts s = Some s' \<and> registered F (map (\<lambda>t. WithKind gv (gt_Name t)) ts) s s' \<and> same_marks s s'"
  using add_types_registers [OF assms(1,2), of "addObservedVersion gv s"] assms(3)
  by (simp add: AddKnownTypes_def)

text \<open>Marking types as unversioned, when no other type has the name of one.\<close>

definition marks_ok :: "runtime_scheme \<Rightarrow> bool" where
  "marks_ok s \<longleftrightarrow>
     (\<forall>t \<in> set unversioned_types. rs_unversionedKinds s (gt_Name t) \<in> {None, Some t}) \<and>
     (\<forall>t. rs_unversionedTypes s t \<noteq> None \<longrightarrow> gt_Pkg t = gt_Pkg (meta_type []))"

lemma mark_unversioned_marks:
  assumes "marks_ok s" and "set ts \<subseteq> set unversioned_types"
  shows "\<exists>s'. mark_unversioned v ts s = Some s' \<and> registered F [] s s' \<and> marks_ok s'"
  using assms
proof (induction ts arbitrary: s)
  case (Cons t ts)
  let ?s = "s\<lparr>rs_unversionedTypes := (rs_unversionedTypes s)(t \<mapsto> WithKind v (gt_Name t)),
    rs_unversionedKinds := (rs_unversionedKinds s)(gt_Name t \<mapsto> t)\<rparr>"
  from Cons.prems(2) have t: "t \<in> set unversioned_types" "set ts \<subseteq> set unversioned_types" by auto
  have inj: "gt_Name u = gt_Name t \<Longrightarrow> u = t" if "u \<in> set unversioned_types" for u
    using that t(1) by (auto simp: unversioned_types_def meta_type_def)
  have "gt_Pkg t = gt_Pkg (meta_type [])" using t(1) by (auto simp: unversioned_types_def meta_type_def)
  with Cons.prems(1) have "marks_ok ?s" by (auto simp: marks_ok_def dest: inj)
  from Cons.IH [OF this t(2)] obtain s' where
    s': "mark_unversioned v ts ?s = Some s'" "registered F [] ?s s'" "marks_ok s'" by blast
  moreover have "rs_unversionedKinds s (gt_Name t) \<in> {None, Some t}" using Cons.prems(1) t(1) by (auto simp: marks_ok_def)
  ultimately show ?case by (auto simp: WithKind_def registered_def kinds_of_def)
qed (simp add: registered_Nil)

text \<open>The kinds \<open>AddToGroupVersion\<close> registers.\<close>

definition meta_kinds :: "group_version \<Rightarrow> group_version_kind list" where
  "meta_kinds gv =
     [WithKind gv WatchEventKind, WithKind \<lparr>gv_Group = gv_Group gv, gv_Version = APIVersionInternal\<rparr> WatchEventKind] @
     map (\<lambda>t. WithKind gv (gt_Name t)) option_types @ map (\<lambda>t. WithKind Unversioned (gt_Name t)) unversioned_types"

text \<open>A table declares them with the types of the meta package.\<close>

definition meta_declared :: "(group_version_kind \<Rightarrow> go_name) \<Rightarrow> group_version \<Rightarrow> bool" where
  "meta_declared F gv \<longleftrightarrow>
     F (WithKind gv WatchEventKind) = meta_type ''WatchEvent'' \<and>
     F (WithKind \<lparr>gv_Group = gv_Group gv, gv_Version = APIVersionInternal\<rparr> WatchEventKind) = meta_type ''InternalEvent'' \<and>
     (\<forall>t \<in> set option_types. F (WithKind gv (gt_Name t)) = t) \<and>
     (\<forall>t \<in> set unversioned_types. F (WithKind Unversioned (gt_Name t)) = t)"

lemma AddToGroupVersion_registers:
  assumes "gv_Version gv \<noteq> []" and F: "meta_declared F gv" and ok: "agrees F (meta_kinds gv) s" and "marks_ok s"
  shows "\<exists>s'. AddToGroupVersion gv s = Some s' \<and> registered F (meta_kinds gv) s s' \<and> marks_ok s'"
proof -
  let ?g1 = "WithKind gv WatchEventKind" and ?g2 = "WithKind \<lparr>gv_Group = gv_Group gv, gv_Version = APIVersionInternal\<rparr> WatchEventKind"
  let ?os = "map (\<lambda>t. WithKind gv (gt_Name t)) option_types"
  let ?us = "map (\<lambda>t. WithKind Unversioned (gt_Name t)) unversioned_types"
  have a: "agrees F [?g1] s" "agrees F [?g2] s" "agrees F ?os s" "agrees F ?us s"
    using ok by (simp_all add: agrees_def meta_kinds_def)
  from AddKnownTypeWithName_registers [OF _ a(1)] F assms(1) obtain s1 where
    1: "AddKnownTypeWithName ?g1 (meta_type ''WatchEvent'') s = Some s1" "registered F [?g1] s s1" "same_marks s s1"
    by (auto simp: meta_declared_def WithKind_def)
  from AddKnownTypeWithName_registers [OF _ registered_agrees [OF 1(2) a(2)]] F obtain s2 where
    2: "AddKnownTypeWithName ?g2 (meta_type ''InternalEvent'') s1 = Some s2" "registered F [?g2] s1 s2" "same_marks s1 s2"
    by (auto simp: meta_declared_def WithKind_def APIVersionInternal_def)
  note r2 = registered_trans [OF 1(2) 2(2)]
  from AddKnownTypes_registers [OF assms(1) _ registered_agrees [OF r2 a(3)]] F obtain s3 where
    3: "AddKnownTypes gv option_types s2 = Some s3" "registered F ?os s2 s3" "same_marks s2 s3"
    by (auto simp: meta_declared_def)
  note r3 = registered_trans [OF r2 3(2)]
  from AddKnownTypes_registers [of Unversioned unversioned_types F "addObservedVersion Unversioned s3"]
    registered_agrees [OF r3 a(4)] F obtain s4 where
    4: "AddKnownTypes Unversioned unversioned_types (addObservedVersion Unversioned s3) = Some s4"
      "registered F ?us s3 s4" "same_marks s3 s4"
    by (auto simp: meta_declared_def Unversioned_def)
  have "marks_ok s4" using assms(4) 1(3) 2(3) 3(3) 4(3) by (simp add: marks_ok_def same_marks_def)
  from mark_unversioned_marks [OF this order_refl] obtain s5 where
    5: "mark_unversioned Unversioned unversioned_types s4 = Some s5" "registered F [] s4 s5" "marks_ok s5" by blast
  from registered_trans [OF registered_trans [OF r3 4(2)] 5(2)] have "registered F (meta_kinds gv) s s5"
    by (simp add: meta_kinds_def)
  with 1(1) 2(1) 3(1) 4(1) 5 show ?thesis by (simp add: AddToGroupVersion_def AddUnversionedTypes_def)
qed

section \<open>The three groups\<close>

definition declared :: "group_version_kind \<Rightarrow> go_name" where
  "declared g =
     (if gvk_Kind g = WatchEventKind
      then meta_type (if gvk_Version g = APIVersionInternal then ''InternalEvent'' else ''WatchEvent'')
      else if gvk_Kind g \<in> gt_Name ` set (option_types @ unversioned_types) then meta_type (gvk_Kind g)
      else if gvk_Group g = ''siddhi.io'' then siddhi_type (gvk_Kind g)
      else if gvk_Group g = ''nats.io'' then nats_type (gvk_Kind g)
      else stan_type (gvk_Kind g))"

definition group_kinds :: "group_version \<Rightarrow> go_name list \<Rightarrow> group_version_kind list" where
  "group_kinds gv ts = map (\<lambda>t. WithKind gv (gt_Name t)) ts @ meta_kinds gv"

lemma group_registers:
  assumes "gv_Version gv \<noteq> []" and "meta_declared declared gv" and "\<forall>t \<in> set ts. declared (WithKind gv (gt_Name t)) = t"
    and ok: "agrees declared (group_kinds gv ts) s" "marks_ok s"
  shows "\<exists>s'. do { s \<leftarrow> AddKnownTypes gv ts s; s \<leftarrow> AddToGroupVersion gv s; Some (None, s) } = Some (None, s') \<and>
    registered declared (group_kinds gv ts) s s' \<and> marks_ok s'"
proof -
  from ok(1) have a: "agrees declared (map (\<lambda>t. WithKind gv (gt_Name t)) ts) s" "agrees declared (meta_kinds gv) s"
    by (simp_all add: agrees_def group_kinds_def)
  from AddKnownTypes_registers [OF assms(1,3) a(1)] obtain s1 where
    1: "AddKnownTypes gv ts s = Some s1" "registered declared (map (\<lambda>t. WithKind gv (gt_Name t)) ts) s s1" "same_marks s s1"
    by blast
  have "marks_ok s1" using ok(2) 1(3) by (simp add: marks_ok_def same_marks_def)
  from AddToGroupVersion_registers [OF assms(1,2) registered_agrees [OF 1(2) a(2)] this] obtain s2 where
    2: "AddToGroupVersion gv s1 = Some s2" "registered declared (meta_kinds gv) s1 s2" "marks_ok s2" by blast
  with 1(1) registered_trans [OF 1(2) 2(2)] show ?thesis by (simp add: group_kinds_def)
qed

definition siddhi_kinds :: "group_version_kind list" where
  "siddhi_kinds = group_kinds Siddhi_SchemeGroupVersion [siddhi_type ''SiddhiProcess'', siddhi_type ''SiddhiProcessList'']"

definition nats_kinds :: "group_version_kind list" where
  "nats_kinds = group_kinds Nats_SchemeGroupVersion
     [nats_type ''NatsCluster'', nats_type ''NatsClusterList'', nats_type ''NatsServiceRole'', nats_type ''NatsServiceRoleList'']"

definition stan_kinds :: "group_version_kind list" where
  "stan_kinds = group_kinds Stan_SchemeGroupVersion
     [stan_type ''NatsStreamingCluster'', stan_type ''NatsStreamingClusterList'']"

lemmas group_defs = Siddhi_SchemeGroupVersion_def Nats_SchemeGroupVersion_def Nats_groupName_def
  Stan_SchemeGroupVersion_def Stan_groupName_def Stan_version_def

lemmas declared_simps = declared_def meta_declared_def WithKind_def option_types_def unversioned_types_def meta_type_def
  WatchEventKind_def APIVersionInternal_def Unversioned_def siddhi_type_def nats_type_def stan_type_def

lemma groups_declared:
  "meta_declared declared Siddhi_SchemeGroupVersion" "meta_declared declared Nats_SchemeGroupVersion"
  "meta_declared declared Stan_SchemeGroupVersion"
  by code_simp+

lemma Apis_registers:
  assumes "agrees declared siddhi_kinds s" and "marks_ok s"
  shows "\<exists>s'. Apis_AddToScheme s = Some (None, s') \<and> registered declared siddhi_kinds s s' \<and> marks_ok s'"
  using group_registers [OF _ groups_declared(1) _ assms(1) [unfolded siddhi_kinds_def] assms(2)]
  by (simp add: siddhi_kinds_def Apis_AddToScheme_def AddToSchemes_def Siddhi_SchemeBuilder_def Builder_Register_def
      declared_simps group_defs)

lemma Nats_registers:
  assumes "agrees declared nats_kinds s" and "marks_ok s"
  shows "\<exists>s'. Nats_AddToScheme s = Some (None, s') \<and> registered declared nats_kinds s s' \<and> marks_ok s'"
  using group_registers [OF _ groups_declared(2) _ assms(1) [unfolded nats_kinds_def] assms(2)]
  by (simp add: nats_kinds_def Nats_AddToScheme_def Nats_addKnownTypes_def declared_simps group_defs)
   

lemma Stan_registers:
  assumes "agrees declared stan_kinds s" and "marks_ok s"
  shows "\<exists>s'. Stan_AddToScheme s = Some (None, s') \<and> registered declared stan_kinds s s' \<and> marks_ok s'"
  using group_registers [OF _ groups_declared(3) _ assms(1) [unfolded stan_kinds_def] assms(2)]
  by (simp add: stan_kinds_def Stan_AddToScheme_def Stan_addKnownTypes_def declared_simps group_defs)
   

section \<open>The scheme of the operator\<close>

definition api_groups :: "string list" where
  "api_groups = [''siddhi.io'', ''nats.io'', ''streaming.nats.io'']"

definition api_packages :: "string list" where
  "api_packages = map gt_Pkg [siddhi_type [], nats_type [], stan_type []]"

text \<open>The types of the three groups with the kinds a client uses for them.\<close>

definition api_types :: "(go_name \<times> group_version_kind) list" where
  "api_types =
     [(siddhi_type ''SiddhiProcess'', WithKind Siddhi_SchemeGroupVersion ''SiddhiProcess''),
      (siddhi_type ''SiddhiProcessList'', WithKind Siddhi_SchemeGroupVersion ''SiddhiProcessList''),
      (nats_type ''NatsCluster'', NatsCluster_GetGroupVersionKind),
      (nats_type ''NatsClusterList'', WithKind Nats_SchemeGroupVersion ''NatsClusterList''),
      (nats_type ''NatsServiceRole'', WithKind Nats_SchemeGroupVersion ServiceRoleCRDResourceKind),
      (nats_type ''NatsServiceRoleList'', WithKind Nats_SchemeGroupVersion ''NatsServiceRoleList''),
      (stan_type ''NatsStreamingCluster'', WithKind Stan_SchemeGroupVersion ''NatsStreamingCluster''),
      (stan_type ''NatsStreamingClusterList'', WithKind Stan_SchemeGroupVersion ''NatsStreamingClusterList'')]"

text \<open>A scheme that knows nothing of the three groups and has the common types, if at all, under their names.\<close>

definition fresh_scheme :: "runtime_scheme \<Rightarrow> bool" where
  "fresh_scheme s \<longleftrightarrow>
     (\<forall>g t. rs_gvkToType s g = Some t \<longrightarrow> gvk_Group g \<notin> set api_groups) \<and>
     (\<forall>t \<in> set unversioned_types. rs_gvkToType s (WithKind Unversioned (gt_Name t)) \<in> {None, Some t}) \<and>
     (\<forall>t. gt_Pkg t \<in> set api_packages \<longrightarrow> rs_typeToGVK s t = None) \<and> marks_ok s"

abbreviation all_kinds :: "group_version_kind list" where
  "all_kinds \<equiv> siddhi_kinds @ nats_kinds @ stan_kinds"

lemmas kinds_defs = siddhi_kinds_def nats_kinds_def stan_kinds_def group_kinds_def meta_kinds_def

lemma fresh_agrees:
  assumes "fresh_scheme s"
  shows "agrees declared all_kinds s"
  unfolding agrees_def
proof
  fix g assume "g \<in> set all_kinds"
  then consider "gvk_Group g \<in> set api_groups" | t where "t \<in> set unversioned_types" "g = WithKind Unversioned (gt_Name t)"
    by (auto simp: kinds_defs api_groups_def WithKind_def group_defs)
  then show "rs_gvkToType s g \<in> {None, Some (declared g)}"
  proof cases
    case 1
    with assms show ?thesis by (cases "rs_gvkToType s g") (auto simp: fresh_scheme_def)
  next
    case 2
    from 2(1) groups_declared(1) have "declared g = t" unfolding meta_declared_def 2(2) by blast
    with 2 assms show ?thesis by (simp add: fresh_scheme_def)
  qed
qed

lemma api_kinds_all:
  "list_all (\<lambda>(t, g). remdups (filter (\<lambda>g'. declared g' = t) all_kinds) = [g] \<and> gt_Pkg t \<in> set api_packages) api_types"
  by code_simp

lemma api_kinds:
  assumes "(t, g) \<in> set api_types"
  shows "{g' \<in> set all_kinds. declared g' = t} = {g}" and "gt_Pkg t \<in> set api_packages"
proof -
  from api_kinds_all assms have f: "remdups (filter (\<lambda>g'. declared g' = t) all_kinds) = [g]"
    and p: "gt_Pkg t \<in> set api_packages" by (auto simp: list_all_iff)
  have "{g' \<in> set all_kinds. declared g' = t} = set (remdups (filter (\<lambda>g'. declared g' = t) all_kinds))"
    by (simp only: set_remdups set_filter)
  then show "{g' \<in> set all_kinds. declared g' = t} = {g}" unfolding f by simp
  show "gt_Pkg t \<in> set api_packages" by (fact p)
qed

lemma declared_package: "gt_Pkg t \<notin> insert (gt_Pkg (meta_type [])) (set api_packages) \<Longrightarrow> t \<notin> declared ` A"
  by (auto simp: declared_def api_packages_def meta_type_def siddhi_type_def nats_type_def stan_type_def split: if_splits)

lemma groups_register:
  assumes "fresh_scheme s"
  shows "\<exists>s1 s2 s3. Apis_AddToScheme s = Some (None, s1) \<and> Nats_AddToScheme s1 = Some (None, s2) \<and>
    Stan_AddToScheme s2 = Some (None, s3) \<and> registered declared all_kinds s s3 \<and> marks_ok s3"
proof -
  from assms have m: "marks_ok s" by (simp add: fresh_scheme_def)
  from fresh_agrees [OF assms] have a: "agrees declared siddhi_kinds s" "agrees declared nats_kinds s" "agrees declared stan_kinds s"
    by (simp_all add: agrees_def)
  from Apis_registers [OF a(1) m] obtain s1 where
    1: "Apis_AddToScheme s = Some (None, s1)" "registered declared siddhi_kinds s s1" "marks_ok s1" by blast
  from Nats_registers [OF registered_agrees [OF 1(2) a(2)] 1(3)] obtain s2 where
    2: "Nats_AddToScheme s1 = Some (None, s2)" "registered declared nats_kinds s1 s2" "marks_ok s2" by blast
  note r2 = registered_trans [OF 1(2) 2(2)]
  from Stan_registers [OF registered_agrees [OF r2 a(3)] 2(3)] obtain s3 where
    3: "Stan_AddToScheme s2 = Some (None, s3)" "registered declared stan_kinds s2 s3" "marks_ok s3" by blast
  from registered_trans [OF r2 3(2)] have "registered declared all_kinds s s3" by simp
  with 1(1) 2(1) 3(1,3) show ?thesis by blast
qed

lemma distinct_singleton:
  assumes "set xs = {g}" and "distinct xs"
  shows "xs = [g]"
proof (cases xs)
  case (Cons a ys)
  with assms have "a = g" "set ys \<subseteq> {g}" "g \<notin> set ys" by auto
  then have "ys = []" by (cases ys) auto
  with Cons \<open>a = g\<close> show ?thesis by simp
qed (use assms in simp)

lemma GVKForObject_single:
  "kinds_of s t = [g] \<Longrightarrow> rs_unversionedTypes s t = None \<Longrightarrow> GVKForObject t s = Inr g"
  by (cases "rs_typeToGVK s t") (simp_all add: kinds_of_def GVKForObject_def ObjectKinds_def)

lemma GVKForObject_registered:
  assumes fresh: "fresh_scheme s" and r: "registered declared all_kinds s s'" "marks_ok s'" and tg: "(t, g) \<in> set api_types"
  shows "GVKForObject t s' = Inr g" and "rs_gvkToType s' g = Some t"
proof -
  note k = api_kinds [OF tg]
  have "kinds_of s t = []" using fresh k(2) by (simp add: fresh_scheme_def kinds_of_def)
  with r(1) k(1) have "set (kinds_of s' t) = {g}" "distinct (kinds_of s' t)" by (simp_all add: registered_def)
  then have "kinds_of s' t = [g]" by (rule distinct_singleton)
  moreover have "gt_Pkg t \<noteq> gt_Pkg (meta_type [])"
    using k(2) by (auto simp: api_packages_def siddhi_type_def nats_type_def stan_type_def meta_type_def)
  with r(2) have "rs_unversionedTypes s' t = None" unfolding marks_ok_def by blast
  ultimately show "GVKForObject t s' = Inr g" by (rule GVKForObject_single)
  from k(1) have "g \<in> set all_kinds" "declared g = t" by auto
  with r(1) show "rs_gvkToType s' g = Some t" by (simp add: registered_def)
qed

lemma GVKForObject_others:
  assumes fresh: "fresh_scheme s" and r: "registered declared all_kinds s s'" "marks_ok s'"
    and t: "gt_Pkg t \<notin> insert (gt_Pkg (meta_type [])) (set api_packages)"
  shows "GVKForObject t s' = GVKForObject t s"
proof -
  have "rs_typeToGVK s' t = rs_typeToGVK s t" "rs_schemeName s' = rs_schemeName s"
    using r(1) declared_package [OF t] by (simp_all add: registered_def)
  moreover have "rs_unversionedTypes s' t = None" "rs_unversionedTypes s t = None"
    using r(2) fresh t unfolding fresh_scheme_def marks_ok_def by blast+
  ultimately show ?thesis by (cases "rs_typeToGVK s t") (simp_all add: GVKForObject_def ObjectKinds_def)
qed

lemma Scheme_registers:
  assumes "fresh_scheme s"
  shows "\<exists>s1 s2 s3. Apis_AddToScheme s = Some (None, s1) \<and> Nats_AddToScheme s1 = Some (None, s2) \<and>
    Stan_AddToScheme s2 = Some (None, s3) \<and>
    (\<forall>(t, g) \<in> set api_types. GVKForObject t s3 = Inr g \<and> rs_gvkToType s3 g = Some t) \<and>
    (\<forall>t. gt_Pkg t \<notin> insert (gt_Pkg (meta_type [])) (set api_packages) \<longrightarrow> GVKForObject t s3 = GVKForObject t s)"
  using groups_register [OF assms] GVKForObject_registered [OF assms] GVKForObject_others [OF assms] by blast

text \<open>An empty scheme (\<open>runtime.NewScheme()\<close>).\<close>

definition NewScheme :: "string \<Rightarrow> runtime_scheme" where
  "NewScheme n =
     \<lparr>rs_gvkToType = Map.empty, rs_typeToGVK = Map.empty, rs_unversionedTypes = Map.empty,
      rs_unversionedKinds = Map.empty, rs_observedVersions = [], rs_schemeName = n\<rparr>"

lemma NewScheme_fresh: "fresh_scheme (NewScheme n)"
  by (simp add: fresh_scheme_def NewScheme_def marks_ok_def)

section \<open>Properties\<close>

text \<open>C23: The three registrations the operator's main function makes succeed without a panic on a scheme that
  does not know the groups yet, although each of them registers the common types of the API machinery
  again. Afterwards each of the eight types of the groups is a versioned type with exactly one kind, of
  its own group and version, and that kind is decoded to that type; the types of other packages resolve as
  before. In particular GetGroupVersionKind of a NATS cluster is the kind the scheme has for it.\<close>

theorem Scheme_resolves:
  assumes "fresh_scheme s"
  shows "\<exists>s1 s2 s3. Apis_AddToScheme s = Some (None, s1) \<and> Nats_AddToScheme s1 = Some (None, s2) \<and>
    Stan_AddToScheme s2 = Some (None, s3) \<and>
    (\<forall>(t, g) \<in> set api_types. GVKForObject t s3 = Inr g \<and> rs_gvkToType s3 g = Some t) \<and>
    (\<forall>t. gt_Pkg t \<notin> insert (gt_Pkg (meta_type [])) (set api_packages) \<longrightarrow> GVKForObject t s3 = GVKForObject t s)"
  by (rule Scheme_registers [OF assms])

theorem Scheme_resolves_witness:
  "\<exists>s1 s2 s3. Apis_AddToScheme (NewScheme ''k8s'') = Some (None, s1) \<and> Nats_AddToScheme s1 = Some (None, s2) \<and>
    Stan_AddToScheme s2 = Some (None, s3) \<and>
    GVKForObject (siddhi_type ''SiddhiProcess'') s3 =
      Inr \<lparr>gvk_Group = ''siddhi.io'', gvk_Version = ''v1alpha2'', gvk_Kind = ''SiddhiProcess''\<rparr>"
proof -
  have "(siddhi_type ''SiddhiProcess'', WithKind Siddhi_SchemeGroupVersion ''SiddhiProcess'') \<in> set api_types"
    by (simp add: api_types_def)
  with Scheme_resolves [OF NewScheme_fresh, of "''k8s''"] show ?thesis
    by (fastforce simp: WithKind_def Siddhi_SchemeGroupVersion_def)
qed

end
