(* ===== verification/Manager.thy ===== *)
theory Manager
  imports EventLoop Registry
begin

text \<open>
  How the operator starts: \<open>main\<close> and the functions it calls to fill the scheme and to add the controller
  with its watches. Calls of the libraries (leader election, the API server's configuration, the manager)
  are fields of a record; what the manager is given is its state. The watches are values, so that
  what an event does in the event loop can be compared with what the watches say.
\<close>

section \<open>Watches\<close>

text \<open>
  \<open>predicate.Funcs\<close>: each function decides whether the event is handled. It may change the object, which
  is the one of the cache, and the operator's global variables; a function that is not set lets every
  event pass. Generic events do not occur, as no source of them is set up.
\<close>

record 'w predicate_funcs =
  CreateFunc :: "(kobject \<Rightarrow> bool \<times> kobject) option"
  UpdateFunc :: "(kobject \<Rightarrow> kobject \<Rightarrow> 'w op_state \<Rightarrow> bool \<times> kobject \<times> kobject \<times> 'w op_state) option"
  DeleteFunc :: "(kobject \<Rightarrow> bool \<Rightarrow> 'w op_state \<Rightarrow> bool \<times> 'w op_state) option"

datatype event_handler = ForObject | ForController go_name

record 'w watch =
  wt_Type :: go_name
  wt_Handler :: event_handler
  wt_Predicates :: "'w predicate_funcs list"

text \<open>The type of an object of a kind.\<close>

definition k8s_type :: "string \<Rightarrow> string \<Rightarrow> go_name" where
  "k8s_type g n = \<lparr>gt_Pkg = ''k8s.io/api/'' @ g, gt_Name = n\<rparr>"

fun object_type :: "kind \<Rightarrow> go_name" where
  "object_type KDeployment = k8s_type ''apps/v1'' ''Deployment''"
| "object_type KService = k8s_type ''core/v1'' ''Service''"
| "object_type KConfigMap = k8s_type ''core/v1'' ''ConfigMap''"
| "object_type KPVC = k8s_type ''core/v1'' ''PersistentVolumeClaim''"
| "object_type KIngress = k8s_type ''extensions/v1beta1'' ''Ingress''"
| "object_type KNatsCluster = nats_type ''NatsCluster''"
| "object_type KStanCluster = stan_type ''NatsStreamingCluster''"
| "object_type KSiddhiProcess = siddhi_type ''SiddhiProcess''"

text \<open>The predicates of \<open>add\<close>; the type assertions hold, as the watches are for objects of these types.\<close>

definition spPredicate :: "'w predicate_funcs" where
  "spPredicate =
     \<lparr>CreateFunc = Some (\<lambda>e. case e of
          OSiddhiProcess object \<Rightarrow> (let (ok, object) = sp_CreateFunc object in (ok, OSiddhiProcess object))
        | _ \<Rightarrow> (True, e)),
      UpdateFunc = Some (\<lambda>old new st. case (old, new) of
          (OSiddhiProcess oldObject, OSiddhiProcess newObject) \<Rightarrow>
            (let (ok, oldObject, newObject) = sp_UpdateFunc oldObject newObject
             in (ok, OSiddhiProcess oldObject, OSiddhiProcess newObject, st))
        | _ \<Rightarrow> (True, old, new, st)),
      DeleteFunc = Some (\<lambda>e DeleteStateUnknown st.
          (let (ok, spc) = sp_DeleteFunc (om_Name (meta_of e)) DeleteStateUnknown (os_SPContainer st)
           in (ok, st\<lparr>os_SPContainer := spc\<rparr>)))\<rparr>"

definition cmPredicate :: "'w predicate_funcs" where
  "cmPredicate =
     \<lparr>CreateFunc = Some (\<lambda>e. (cm_CreateFunc, e)),
      UpdateFunc = Some (\<lambda>old new st.
          (let (ok, cmc) = cm_UpdateFunc (om_Name (meta_of new)) (os_CMContainer st)
           in (ok, old, new, st\<lparr>os_CMContainer := cmc\<rparr>))),
      DeleteFunc = None\<rparr>"

definition siddhi_owner :: event_handler where
  "siddhi_owner = ForController (siddhi_type ''SiddhiProcess'')"

definition operator_watches :: "'w watch list" where
  "operator_watches =
     [\<lparr>wt_Type = siddhi_type ''SiddhiProcess'', wt_Handler = ForObject, wt_Predicates = [spPredicate]\<rparr>,
      \<lparr>wt_Type = k8s_type ''core/v1'' ''ConfigMap'', wt_Handler = ForObject, wt_Predicates = [cmPredicate]\<rparr>,
      \<lparr>wt_Type = k8s_type ''apps/v1'' ''Deployment'', wt_Handler = siddhi_owner, wt_Predicates = []\<rparr>,
      \<lparr>wt_Type = k8s_type ''core/v1'' ''Service'', wt_Handler = siddhi_owner, wt_Predicates = []\<rparr>,
      \<lparr>wt_Type = k8s_type ''core/v1'' ''Pod'', wt_Handler = siddhi_owner, wt_Predicates = []\<rparr>]"

section \<open>What a watch does with an event\<close>

text \<open>\<open>parseOwnerTypeGroupKind\<close>: the kind of the owner type has to be unique.\<close>

definition handler_requests :: "runtime_scheme \<Rightarrow> event_handler \<Rightarrow> object_meta \<Rightarrow> namespaced_name list" where
  "handler_requests s h m =
     (case h of
        ForObject \<Rightarrow> EnqueueRequestForObject m
      | ForController t \<Rightarrow>
          (case ObjectKinds t s of Inr ([gk], _) \<Rightarrow> getOwnerReconcileRequest gk m | _ \<Rightarrow> []))"

fun creates_pass :: "'w predicate_funcs list \<Rightarrow> kobject \<Rightarrow> bool \<times> kobject" where
  "creates_pass [] e = (True, e)"
| "creates_pass (p # ps) e =
     (case CreateFunc p of
        None \<Rightarrow> creates_pass ps e
      | Some f \<Rightarrow> (let (ok, e) = f e in if ok then creates_pass ps e else (False, e)))"

fun updates_pass :: "'w predicate_funcs list \<Rightarrow> kobject \<Rightarrow> kobject \<Rightarrow> 'w op_state \<Rightarrow>
    bool \<times> kobject \<times> kobject \<times> 'w op_state" where
  "updates_pass [] old new st = (True, old, new, st)"
| "updates_pass (p # ps) old new st =
     (case UpdateFunc p of
        None \<Rightarrow> updates_pass ps old new st
      | Some f \<Rightarrow>
          (let (ok, old, new, st) = f old new st
           in if ok then updates_pass ps old new st else (False, old, new, st)))"

fun deletes_pass :: "'w predicate_funcs list \<Rightarrow> kobject \<Rightarrow> bool \<Rightarrow> 'w op_state \<Rightarrow> bool \<times> 'w op_state" where
  "deletes_pass [] e unknown st = (True, st)"
| "deletes_pass (p # ps) e unknown st =
     (case DeleteFunc p of
        None \<Rightarrow> deletes_pass ps e unknown st
      | Some f \<Rightarrow> (let (ok, st) = f e unknown st in if ok then deletes_pass ps e unknown st else (False, st)))"

definition OnAdd :: "runtime_scheme \<Rightarrow> 'w watch \<Rightarrow> kobject \<Rightarrow> kobject \<times> namespaced_name list" where
  "OnAdd s w e =
     (let (ok, e) = creates_pass (wt_Predicates w) e
      in (e, if ok then handler_requests s (wt_Handler w) (meta_of e) else []))"

definition OnUpdate :: "runtime_scheme \<Rightarrow> 'w watch \<Rightarrow> kobject \<Rightarrow> kobject \<Rightarrow> 'w op_state \<Rightarrow>
    kobject \<times> namespaced_name list \<times> 'w op_state" where
  "OnUpdate s w old new st =
     (let (ok, old, new, st) = updates_pass (wt_Predicates w) old new st
      in (new, if ok then handler_requests s (wt_Handler w) (meta_of old) @ handler_requests s (wt_Handler w) (meta_of new)
               else [], st))"

definition OnDelete :: "runtime_scheme \<Rightarrow> 'w watch \<Rightarrow> kobject \<Rightarrow> bool \<Rightarrow> 'w op_state \<Rightarrow>
    namespaced_name list \<times> 'w op_state" where
  "OnDelete s w e unknown st =
     (let (ok, st) = deletes_pass (wt_Predicates w) e unknown st
      in (if ok then handler_requests s (wt_Handler w) (meta_of e) else [], st))"

section \<open>The manager\<close>

text \<open>A controller: its name, its reconciler (a client and the manager's scheme) and its watches.\<close>

record 'w controller =
  co_Name :: string
  co_Reconciler :: "'w kube_client"
  co_Watches :: "'w watch list"

record 'w manager =
  mg_Namespace :: string
  mg_MetricsBindAddress :: string
  mg_Client :: "'w client"
  mg_Scheme :: runtime_scheme
  mg_Controllers :: "'w controller list"

text \<open>The calls of the libraries, with what they answer; \<open>lib_New\<close> gives the client and the scheme.\<close>

record 'w library =
  lib_GetWatchNamespace :: "goerror + string"
  lib_GetConfig :: "goerror + unit"
  lib_Become :: "string \<Rightarrow> goerror option"
  lib_New :: "string \<Rightarrow> string \<Rightarrow> goerror + ('w client \<times> runtime_scheme)"
  lib_NewController :: "string \<Rightarrow> goerror option"
  lib_Watch :: "'w watch \<Rightarrow> goerror option"
  lib_ExposeMetricsPort :: "int \<Rightarrow> goerror option"
  lib_Start :: "goerror option"

text \<open>\<open>c.Watch\<close> for one watch after the other, up to the first error.\<close>

fun start_watches :: "'w library \<Rightarrow> 'w watch list \<Rightarrow> 'w controller \<Rightarrow> goerror option \<times> 'w controller" where
  "start_watches L [] c = (None, c)"
| "start_watches L (w # ws) c =
     (case lib_Watch L w of
        Some err \<Rightarrow> (Some err, c)
      | None \<Rightarrow> start_watches L ws (c\<lparr>co_Watches := co_Watches c @ [w]\<rparr>))"

text \<open>\<open>newReconciler\<close>: the client and the scheme of the manager, as the reconciler uses them.\<close>

definition newReconciler :: "'w manager \<Rightarrow> 'w kube_client" where
  "newReconciler mgr =
     \<lparr>kc_Client = mg_Client mgr, kc_Scheme = \<lambda>kd. GVKForObject (object_type kd) (mg_Scheme mgr)\<rparr>"

text \<open>
  \<open>add\<close>: the global variables are reset whether or not the rest succeeds. The event recorder it gets from
  the manager writes to the log of events, a field of the state that is there from the start.
\<close>

definition add_controller :: "'w library \<Rightarrow> 'w manager \<Rightarrow> 'w kube_client \<Rightarrow> 'w op_state \<Rightarrow>
    goerror option \<times> 'w manager \<times> 'w op_state" where
  "add_controller L mgr r st =
     (let st = st\<lparr>os_SPContainer := Map.empty, os_CMContainer := Map.empty, os_LoggedMessagingAvailability := False\<rparr>
      in case lib_NewController L ''siddhiprocess-controller'' of
           Some err \<Rightarrow> (Some err, mgr, st)
         | None \<Rightarrow>
             (let (err, c) = start_watches L operator_watches
                    \<lparr>co_Name = ''siddhiprocess-controller'', co_Reconciler = r, co_Watches = []\<rparr>
              in (err, mgr\<lparr>mg_Controllers := mg_Controllers mgr @ [c]\<rparr>, st)))"

definition Add :: "'w library \<Rightarrow> 'w manager \<Rightarrow> 'w op_state \<Rightarrow> goerror option \<times> 'w manager \<times> 'w op_state" where
  "Add L mgr st = add_controller L mgr (newReconciler mgr) st"

text \<open>After \<open>init\<close> of add_siddhiprocess.go.\<close>

definition AddToManagerFuncs ::
  "('w library \<Rightarrow> 'w manager \<Rightarrow> 'w op_state \<Rightarrow> goerror option \<times> 'w manager \<times> 'w op_state) list" where
  "AddToManagerFuncs = [] @ [Add]"

fun add_all ::
  "('w library \<Rightarrow> 'w manager \<Rightarrow> 'w op_state \<Rightarrow> goerror option \<times> 'w manager \<times> 'w op_state) list \<Rightarrow>
   'w library \<Rightarrow> 'w manager \<Rightarrow> 'w op_state \<Rightarrow> goerror option \<times> 'w manager \<times> 'w op_state" where
  "add_all [] L m st = (None, m, st)"
| "add_all (f # fs) L m st =
     (let (err, m, st) = f L m st in if err \<noteq> None then (err, m, st) else add_all fs L m st)"

definition AddToManager :: "'w library \<Rightarrow> 'w manager \<Rightarrow> 'w op_state \<Rightarrow> goerror option \<times> 'w manager \<times> 'w op_state" where
  "AddToManager L m st = add_all AddToManagerFuncs L m st"

section \<open>main\<close>

definition metricsHost :: string where "metricsHost = ''0.0.0.0''"

definition metricsPort :: int where "metricsPort = 8383"

text \<open>
  The exit code, the manager when it was started, and the operator's variables; None is a panic. Flags,
  log lines and the version are left out.
\<close>

definition main :: "'w library \<Rightarrow> 'w op_state \<Rightarrow> (int \<times> 'w manager option \<times> 'w op_state) option" where
  "main L st =
     (case lib_GetWatchNamespace L of
        Inl err \<Rightarrow> Some (1, None, st)
      | Inr namespace \<Rightarrow>
     (case lib_GetConfig L of
        Inl err \<Rightarrow> Some (1, None, st)
      | Inr cfg \<Rightarrow>
     (case lib_Become L ''siddhi-operator-lock'' of
        Some err \<Rightarrow> Some (1, None, st)
      | None \<Rightarrow>
     (case lib_New L namespace (metricsHost @ '':'' @ Itoa metricsPort) of
        Inl err \<Rightarrow> Some (1, None, st)
      | Inr (cl, scheme) \<Rightarrow> do {
          (err, scheme) \<leftarrow> Apis_AddToScheme scheme;
          if err \<noteq> None then Some (1, None, st) else do {
          (err, scheme) \<leftarrow> Nats_AddToScheme scheme;
          if err \<noteq> None then Some (1, None, st) else do {
          (err, scheme) \<leftarrow> Stan_AddToScheme scheme;
          if err \<noteq> None then Some (1, None, st) else
          (let mgr = \<lparr>mg_Namespace = namespace, mg_MetricsBindAddress = metricsHost @ '':'' @ Itoa metricsPort,
                      mg_Client = cl, mg_Scheme = scheme, mg_Controllers = []\<rparr>;
               (err, mgr, st) = AddToManager L mgr st
           in if err \<noteq> None then Some (1, None, st)
              else
                (let exposed = lib_ExposeMetricsPort L metricsPort
                 in if lib_Start L \<noteq> None then Some (1, Some mgr, st) else Some (0, Some mgr, st))) }}}))))"

section \<open>The watches and the event loop\<close>

definition watch_of :: "kobject \<Rightarrow> 'w watch option" where
  "watch_of obj = find (\<lambda>w. wt_Type w = object_type (kind_of obj)) operator_watches"

lemmas watch_defs = watch_of_def operator_watches_def siddhi_owner_def siddhi_type_def nats_type_def stan_type_def k8s_type_def

lemma siddhi_owner_requests:
  "ObjectKinds (siddhi_type ''SiddhiProcess'') s = Inr ([gk], u) \<Longrightarrow>
     handler_requests s siddhi_owner m = getOwnerReconcileRequest gk m"
  by (simp add: handler_requests_def siddhi_owner_def)

lemma watch_of_simps:
  "watch_of (OSiddhiProcess sp) =
     Some \<lparr>wt_Type = siddhi_type ''SiddhiProcess'', wt_Handler = ForObject, wt_Predicates = [spPredicate]\<rparr>"
  "watch_of (OConfigMap cm) =
     Some \<lparr>wt_Type = k8s_type ''core/v1'' ''ConfigMap'', wt_Handler = ForObject, wt_Predicates = [cmPredicate]\<rparr>"
  "watch_of (ODeployment d) =
     Some \<lparr>wt_Type = k8s_type ''apps/v1'' ''Deployment'', wt_Handler = siddhi_owner, wt_Predicates = []\<rparr>"
  "watch_of (OService svc) =
     Some \<lparr>wt_Type = k8s_type ''core/v1'' ''Service'', wt_Handler = siddhi_owner, wt_Predicates = []\<rparr>"
  "kind_of obj \<in> {KPVC, KIngress, KNatsCluster, KStanCluster} \<Longrightarrow> watch_of obj = None"
  by (auto simp: watch_defs)

lemmas event_defs = OnAdd_def OnUpdate_def OnDelete_def spPredicate_def cmPredicate_def

lemma own_requests: "handler_requests s ForObject m = EnqueueRequestForObject m"
  by (simp add: handler_requests_def)

lemma OnAdd_on_add:
  assumes "ObjectKinds (siddhi_type ''SiddhiProcess'') s = Inr ([gk], u)"
  shows "(case watch_of obj of None \<Rightarrow> (obj, []) | Some w \<Rightarrow> OnAdd s w obj) = on_add gk obj"
  by (cases obj) (auto simp: watch_of_simps event_defs siddhi_owner_requests [OF assms] own_requests split: prod.splits)

lemma OnUpdate_on_update:
  assumes "ObjectKinds (siddhi_type ''SiddhiProcess'') s = Inr ([gk], u)" and "kind_of old = kind_of new"
  shows "(case watch_of new of None \<Rightarrow> (new, [], st) | Some w \<Rightarrow> OnUpdate s w old new st) = on_update gk old new st"
  using assms(2)
  by (cases new; cases old)
    (auto simp: watch_of_simps event_defs siddhi_owner_requests [OF assms(1)] own_requests Let_def split: prod.splits)

lemma OnDelete_on_delete:
  assumes "ObjectKinds (siddhi_type ''SiddhiProcess'') s = Inr ([gk], u)"
  shows "(case watch_of obj of None \<Rightarrow> ([], st) | Some w \<Rightarrow> OnDelete s w obj unknown st) = on_delete gk obj unknown st"
  by (cases obj)
    (auto simp: watch_of_simps event_defs siddhi_owner_requests [OF assms] own_requests Let_def split: prod.splits)

section \<open>Starting\<close>

text \<open>What has to succeed for the manager to be started: everything but the metrics port.\<close>

definition startup_ok :: "'w library \<Rightarrow> bool" where
  "startup_ok L \<longleftrightarrow>
     (\<exists>namespace cfg r. lib_GetWatchNamespace L = Inr namespace \<and> lib_GetConfig L = Inr cfg \<and>
        lib_Become L ''siddhi-operator-lock'' = None \<and> lib_New L namespace ''0.0.0.0:8383'' = Inr r) \<and>
     lib_NewController L ''siddhiprocess-controller'' = None \<and> (\<forall>w \<in> set operator_watches. lib_Watch L w = None)"

lemma start_watches_result:
  "start_watches L ws c = (err, c') \<Longrightarrow>
     (err = None \<longleftrightarrow> (\<forall>w \<in> set ws. lib_Watch L w = None)) \<and>
     (err = None \<longrightarrow> c' = c\<lparr>co_Watches := co_Watches c @ ws\<rparr>)"
  by (induction L ws c arbitrary: err c' rule: start_watches.induct) (auto split: option.splits)

text \<open>The variables after \<open>add\<close>, as the event loop starts with them.\<close>

abbreviation started_state :: "'w op_state \<Rightarrow> 'w op_state" where
  "started_state st \<equiv> operator.or_state (start_operator (os_events st) (os_cluster st))"

lemma AddToManager_result:
  assumes "AddToManager L mgr st = (err, mgr', st')"
  shows "st' = started_state st" and "err = None \<longleftrightarrow>
      lib_NewController L ''siddhiprocess-controller'' = None \<and> (\<forall>w \<in> set operator_watches. lib_Watch L w = None)"
    and "err = None \<Longrightarrow> mgr' = mgr\<lparr>mg_Controllers := mg_Controllers mgr @
      [\<lparr>co_Name = ''siddhiprocess-controller'', co_Reconciler = newReconciler mgr, co_Watches = operator_watches\<rparr>]\<rparr>"
  using assms start_watches_result [of L operator_watches
      "\<lparr>co_Name = ''siddhiprocess-controller'', co_Reconciler = newReconciler mgr, co_Watches = []\<rparr>"]
  by (auto simp: AddToManager_def AddToManagerFuncs_def Add_def add_controller_def start_operator_def Let_def
      split: option.splits prod.splits if_splits)

lemma metrics_address: "metricsHost @ '':'' @ Itoa metricsPort = ''0.0.0.0:8383''"
proof -
  have "digit 8 = CHR ''8''" "digit 3 = CHR ''3''" by code_simp+
  then show ?thesis by (simp add: metricsHost_def metricsPort_def Itoa_def itoa_nat.simps)
qed

lemma api_scheme:
  assumes "\<forall>(t, g) \<in> set api_types. GVKForObject t s = Inr g \<and> rs_gvkToType s g = Some t"
  shows "GVKForObject (siddhi_type ''SiddhiProcess'') s =
    Inr \<lparr>gvk_Group = ''siddhi.io'', gvk_Version = ''v1alpha2'', gvk_Kind = ''SiddhiProcess''\<rparr>"
  using assms by (simp add: api_types_def WithKind_def Siddhi_SchemeGroupVersion_def)

text \<open>A cluster that answers every call, but has no metrics service.\<close>

definition sample_library :: "tracker library" where
  "sample_library =
     \<lparr>lib_GetWatchNamespace = Inr ''default'', lib_GetConfig = Inr (), lib_Become = \<lambda>_. None,
      lib_New = \<lambda>_ _. Inr (cached_client, NewScheme ''scheme''), lib_NewController = \<lambda>_. None, lib_Watch = \<lambda>_. None,
      lib_ExposeMetricsPort = \<lambda>_. Some (Failure ''no service''), lib_Start = None\<rparr>"

lemma sample_startup: "startup_ok sample_library"
  by (simp add: startup_ok_def sample_library_def)

definition owned_scheme :: runtime_scheme where
  "owned_scheme = (NewScheme ''scheme'')\<lparr>rs_typeToGVK := [siddhi_type ''SiddhiProcess'' \<mapsto> [sample_gvk]]\<rparr>"

section \<open>Properties\<close>

text \<open>C24: The handlers of the event loop are those of the registered watches: for an object of any kind, the
  watch for its type (predicates in order, then the handler, whose owner kind comes from the scheme) does
  what the event loop does when it is added, updated or deleted, and kinds without a watch give no
  requests.\<close>

theorem Watches_drive_events:
  assumes "ObjectKinds (siddhi_type ''SiddhiProcess'') s = Inr ([gk], u)" and "kind_of old = kind_of obj"
  shows "(case watch_of obj of None \<Rightarrow> (obj, []) | Some w \<Rightarrow> OnAdd s w obj) = on_add gk obj \<and>
    (case watch_of obj of None \<Rightarrow> (obj, [], st) | Some w \<Rightarrow> OnUpdate s w old obj st) = on_update gk old obj st \<and>
    (case watch_of obj of None \<Rightarrow> ([], st) | Some w \<Rightarrow> OnDelete s w obj unknown st) = on_delete gk obj unknown st"
  using OnAdd_on_add [OF assms(1)] OnUpdate_on_update [OF assms] OnDelete_on_delete [OF assms(1)] by blast

theorem Watches_drive_events_witness:
  "\<exists>w :: tracker watch. watch_of (ODeployment (sample_deployment ''app-0'' 1 0)) = Some w \<and>
     OnAdd owned_scheme w (ODeployment (sample_deployment ''app-0'' 1 0)) =
     on_add sample_gvk (ODeployment (sample_deployment ''app-0'' 1 0))"
proof -
  let ?d = "ODeployment (sample_deployment ''app-0'' 1 0)"
  have "ObjectKinds (siddhi_type ''SiddhiProcess'') owned_scheme = Inr ([sample_gvk], False)"
    by (simp add: owned_scheme_def NewScheme_def ObjectKinds_def)
  note both = Watches_drive_events [where old = ?d and obj = ?d and unknown = False, OF this refl,
    of "operator.or_state sample_operator"]
  from both [THEN conjunct1] show ?thesis
    by (simp add: watch_of_simps)
qed

text \<open>C8: Starting the operator. When the scheme the manager is made with does not know the API groups yet,
  main never panics, and it starts the manager if and only if the namespace, the configuration, the
  leader's lock, the manager, the controller and all five watches succeed; the metrics port does not
  matter. When the manager is not started the exit code is 1. When it is, it has one controller, with the
  operator's watches and a reconciler on the manager's client and scheme, all eight API types are
  registered, a process resolves to siddhi.io/v1alpha2, the global variables are empty as the event loop
  starts with them, and the exit code says whether the manager's run failed.\<close>

theorem Main_starts:
  assumes "\<forall>namespace address cl s. lib_New L namespace address = Inr (cl, s) \<longrightarrow> fresh_scheme s"
  shows "\<exists>code started st'. main L st = Some (code, started, st') \<and> (started \<noteq> None \<longleftrightarrow> startup_ok L) \<and>
    (case started of
       None \<Rightarrow> code = 1
     | Some mgr \<Rightarrow>
         code = (if lib_Start L = None then 0 else 1) \<and> st' = started_state st \<and>
         (\<exists>r. mg_Controllers mgr =
            [\<lparr>co_Name = ''siddhiprocess-controller'', co_Reconciler = r, co_Watches = operator_watches\<rparr>] \<and>
            kc_Client r = mg_Client mgr \<and>
            kc_Scheme r KSiddhiProcess = Inr \<lparr>gvk_Group = ''siddhi.io'', gvk_Version = ''v1alpha2'', gvk_Kind = ''SiddhiProcess''\<rparr>) \<and>
         (\<forall>(t, g) \<in> set api_types. GVKForObject t (mg_Scheme mgr) = Inr g \<and> rs_gvkToType (mg_Scheme mgr) g = Some t))"
proof -
  note m = main_def [of L st, unfolded metrics_address]
  consider err where "lib_GetWatchNamespace L = Inl err"
    | namespace err where "lib_GetWatchNamespace L = Inr namespace" "lib_GetConfig L = Inl err"
    | namespace cfg err where "lib_GetWatchNamespace L = Inr namespace" "lib_GetConfig L = Inr cfg"
        "lib_Become L ''siddhi-operator-lock'' = Some err"
    | namespace cfg err where "lib_GetWatchNamespace L = Inr namespace" "lib_GetConfig L = Inr cfg"
        "lib_Become L ''siddhi-operator-lock'' = None" "lib_New L namespace ''0.0.0.0:8383'' = Inl err"
    | namespace cfg cl s where "lib_GetWatchNamespace L = Inr namespace" "lib_GetConfig L = Inr cfg"
        "lib_Become L ''siddhi-operator-lock'' = None" "lib_New L namespace ''0.0.0.0:8383'' = Inr (cl, s)"
    by (metis not_None_eq prod.exhaust sum.exhaust)
  then show ?thesis
  proof cases
    case (5 namespace cfg cl s)
    with assms have "fresh_scheme s" by blast
    from Scheme_registers [OF this] obtain s1 s2 s3 where
      sch: "Apis_AddToScheme s = Some (None, s1)" "Nats_AddToScheme s1 = Some (None, s2)" "Stan_AddToScheme s2 = Some (None, s3)"
      and api: "\<forall>(t, g) \<in> set api_types. GVKForObject t s3 = Inr g \<and> rs_gvkToType s3 g = Some t" by blast
    let ?mgr = "\<lparr>mg_Namespace = namespace, mg_MetricsBindAddress = ''0.0.0.0:8383'', mg_Client = cl, mg_Scheme = s3, mg_Controllers = []\<rparr>"
    obtain err mgr st' where run: "AddToManager L ?mgr st = (err, mgr, st')" by (cases "AddToManager L ?mgr st")
    note res = AddToManager_result [OF run]
    have ok: "startup_ok L \<longleftrightarrow> err = None" using 5 res(2) by (auto simp: startup_ok_def)
    have main: "main L st = (if err \<noteq> None then Some (1, None, st')
        else if lib_Start L \<noteq> None then Some (1, Some mgr, st') else Some (0, Some mgr, st'))"
      using 5 sch run by (simp add: m Let_def)
    show ?thesis
    proof (cases err)
      case None
      with main ok res(1,3) api api_scheme [OF api] show ?thesis
        by (cases "lib_Start L") (simp_all add: newReconciler_def)
    qed (use main ok in simp)
  qed (simp_all add: m startup_ok_def)
qed

theorem Main_starts_witness:
  "\<exists>mgr. main sample_library (operator.or_state sample_operator) =
     Some (0, Some mgr, started_state (operator.or_state sample_operator)) \<and> mg_Scheme mgr \<noteq> NewScheme ''scheme''"
proof -
  let ?st = "operator.or_state sample_operator"
  have "\<forall>namespace address cl s. lib_New sample_library namespace address = Inr (cl, s) \<longrightarrow> fresh_scheme s"
    by (simp add: sample_library_def NewScheme_fresh)
  note starts = Main_starts [OF this, of ?st]
  have "mg_Scheme mgr \<noteq> NewScheme ''scheme''"
    if "\<forall>(t, g) \<in> set api_types. GVKForObject t (mg_Scheme mgr) = Inr g \<and> rs_gvkToType (mg_Scheme mgr) g = Some t"
    for mgr :: "tracker manager"
    using that by (auto simp: api_types_def NewScheme_def)
  moreover have "lib_Start sample_library = None" by (simp add: sample_library_def)
  ultimately show ?thesis using starts sample_startup by (elim exE conjE) (auto split: option.splits)
qed

end
