(* ===== verification/GoHeap.thy ===== *)
theory GoHeap
  imports Prelude
begin

text \<open>
  Go values with references, and deep copies of them. A struct is a value with named fields; pointers,
  slices and maps refer to storage in a heap. The elements of the generated copy functions
  (assignment, \<open>make\<close> and \<open>copy\<close>, \<open>new\<close>, loops over slices and maps) are copiers, and each
  is shown to be deep: the copy reads like the original and shares no storage with it.
\<close>

section \<open>Values and storage\<close>

type_synonym addr = nat

datatype scalar = SString string | SInt int | SBool bool | SFloat "64 word"

datatype go_value =
    Scalar scalar
  | Struct "(string \<times> go_value) list"
  | Nil_ref
  | Ptr addr
  | Slice addr nat nat
  | Map_ref addr

text \<open>
  A variable, the array under slices (a slice is an array, an offset and a length), and the table of a
  \<open>map[string]string\<close>.
\<close>

datatype block = Var go_value | Array "go_value list" | Table "string gomap"

record go_heap =
  hp_blocks :: "addr \<Rightarrow> block option"
  hp_next :: addr

definition heap_ok :: "go_heap \<Rightarrow> bool" where
  "heap_ok h \<longleftrightarrow> (\<forall>a. hp_next h \<le> a \<longrightarrow> hp_blocks h a = None)"

definition alloc :: "block \<Rightarrow> go_heap \<Rightarrow> addr \<times> go_heap" where
  "alloc b h = (hp_next h, \<lparr>hp_blocks = (hp_blocks h)(hp_next h \<mapsto> b), hp_next = Suc (hp_next h)\<rparr>)"

definition store :: "addr \<Rightarrow> block \<Rightarrow> go_heap \<Rightarrow> go_heap" where
  "store a b h = h\<lparr>hp_blocks := (hp_blocks h)(a \<mapsto> b)\<rparr>"

text \<open>Reads of a variable, of an element of an array and of a table.\<close>

definition deref :: "go_heap \<Rightarrow> addr \<Rightarrow> go_value" where
  "deref h a = (case hp_blocks h a of Some (Var v) \<Rightarrow> v | _ \<Rightarrow> Nil_ref)"

definition array :: "go_heap \<Rightarrow> addr \<Rightarrow> go_value list" where
  "array h a = (case hp_blocks h a of Some (Array vs) \<Rightarrow> vs | _ \<Rightarrow> [])"

definition table :: "go_heap \<Rightarrow> addr \<Rightarrow> string gomap" where
  "table h a = (case hp_blocks h a of Some (Table m) \<Rightarrow> m | _ \<Rightarrow> [])"

text \<open>The elements a slice shows.\<close>

definition slice_elems :: "go_heap \<Rightarrow> addr \<Rightarrow> nat \<Rightarrow> nat \<Rightarrow> go_value list" where
  "slice_elems h a off len = take len (drop off (array h a))"

text \<open>\<open>v.f\<close> and \<open>v.f = x\<close>.\<close>

definition field :: "string \<Rightarrow> go_value \<Rightarrow> go_value" where
  "field f v = (case v of Struct fs \<Rightarrow> (case map_of fs f of Some x \<Rightarrow> x | None \<Rightarrow> Nil_ref) | _ \<Rightarrow> Nil_ref)"

definition set_field :: "string \<Rightarrow> go_value \<Rightarrow> go_value \<Rightarrow> go_value" where
  "set_field f x v =
     (case v of Struct fs \<Rightarrow> Struct (map (\<lambda>(g, y). (g, if g = f then x else y)) fs) | _ \<Rightarrow> v)"

section \<open>Types\<close>

text \<open>
  The types of the API: strings, integers, booleans, floats, structs, pointers, slices and maps from strings to
  strings.
\<close>

datatype scalar_type = KString | KInt | KBool | KFloat

datatype go_type = TScalar scalar_type | TStruct "(string \<times> go_type) list" | TPtr go_type | TSlice go_type | TMap

text \<open>The zero value \<open>new\<close> and \<open>make\<close> fill in.\<close>

fun zero_value :: "go_type \<Rightarrow> go_value" where
  "zero_value (TScalar k) = Scalar (case k of KString \<Rightarrow> SString [] | KInt \<Rightarrow> SInt 0 | KBool \<Rightarrow> SBool False | KFloat \<Rightarrow> SFloat 0)"
| "zero_value (TStruct fs) = Struct (map (\<lambda>(f, t). (f, zero_value t)) fs)"
| "zero_value (TPtr t) = Nil_ref"
| "zero_value (TSlice t) = Nil_ref"
| "zero_value TMap = Nil_ref"

fun scalar_kind :: "scalar \<Rightarrow> scalar_type" where
  "scalar_kind (SString s) = KString"
| "scalar_kind (SInt n) = KInt"
| "scalar_kind (SBool b) = KBool"
| "scalar_kind (SFloat w) = KFloat"

text \<open>What a value of a type reads as, with everything it refers to; None for a value not of the type.\<close>

datatype go_tree =
  LScalar scalar | LStruct "(string \<times> go_tree) list" | LNil | LPtr go_tree | LSlice "go_tree list" | LMap "string gomap"

fun content :: "go_type \<Rightarrow> go_heap \<Rightarrow> go_value \<Rightarrow> go_tree option" where
  "content (TScalar k) h v = (case v of Scalar s \<Rightarrow> if scalar_kind s = k then Some (LScalar s) else None | _ \<Rightarrow> None)"
| "content (TStruct fs) h v =
     (case v of
        Struct vs \<Rightarrow>
          if map fst vs = map fst fs
          then map_option LStruct (those (map (\<lambda>(f, t). map_option (Pair f) (content t h (field f v))) fs))
          else None
      | _ \<Rightarrow> None)"
| "content (TPtr t) h v =
     (case v of
        Nil_ref \<Rightarrow> Some LNil
      | Ptr a \<Rightarrow> (case hp_blocks h a of Some (Var w) \<Rightarrow> map_option LPtr (content t h w) | _ \<Rightarrow> None)
      | _ \<Rightarrow> None)"
| "content (TSlice t) h v =
     (case v of
        Nil_ref \<Rightarrow> Some LNil
      | Slice a off len \<Rightarrow>
          (case hp_blocks h a of
             Some (Array ws) \<Rightarrow>
               if off + len \<le> length ws
               then map_option LSlice (those (map (content t h) (slice_elems h a off len))) else None
           | _ \<Rightarrow> None)
      | _ \<Rightarrow> None)"
| "content TMap h v =
     (case v of
        Nil_ref \<Rightarrow> Some LNil
      | Map_ref a \<Rightarrow> (case hp_blocks h a of Some (Table m) \<Rightarrow> if minv m then Some (LMap m) else None | _ \<Rightarrow> None)
      | _ \<Rightarrow> None)"

text \<open>The storage a value of a type refers to, directly or not.\<close>

fun owns :: "go_type \<Rightarrow> go_heap \<Rightarrow> go_value \<Rightarrow> addr set" where
  "owns (TScalar k) h v = {}"
| "owns (TStruct fs) h v = (\<Union>(f, t) \<in> set fs. owns t h (field f v))"
| "owns (TPtr t) h v = (case v of Ptr a \<Rightarrow> insert a (owns t h (deref h a)) | _ \<Rightarrow> {})"
| "owns (TSlice t) h v =
     (case v of Slice a off len \<Rightarrow> insert a (\<Union>w \<in> set (slice_elems h a off len). owns t h w) | _ \<Rightarrow> {})"
| "owns TMap h v = (case v of Map_ref a \<Rightarrow> {a} | _ \<Rightarrow> {})"

text \<open>Types without references.\<close>

fun flat :: "go_type \<Rightarrow> bool" where
  "flat (TScalar k) = True"
| "flat (TStruct fs) = (\<forall>(f, t) \<in> set fs. flat t)"
| "flat (TPtr t) = False"
| "flat (TSlice t) = False"
| "flat TMap = False"


section \<open>Copiers\<close>

type_synonym copier = "go_value \<Rightarrow> go_heap \<Rightarrow> go_value \<times> go_heap"

text \<open>\<open>*out = *in\<close>.\<close>

definition copy_value :: copier where
  "copy_value v h = (v, h)"

text \<open>\<open>*out = *in\<close>, and then the listed fields one by one, each from the field of \<open>in\<close>.\<close>

fun copy_fields :: "(string \<times> copier) list \<Rightarrow> go_value \<Rightarrow> go_value \<Rightarrow> go_heap \<Rightarrow> go_value \<times> go_heap" where
  "copy_fields [] inn out h = (out, h)"
| "copy_fields ((f, c) # cs) inn out h =
     (let (x, h1) = c (field f inn) h in copy_fields cs inn (set_field f x out) h1)"

definition copy_struct :: "(string \<times> copier) list \<Rightarrow> copier" where
  "copy_struct cs inn h = copy_fields cs inn inn h"

text \<open>\<open>if in != nil { *out = make([]T, len(*in)); copy(*out, *in) }\<close>\<close>

definition copy_slice :: copier where
  "copy_slice v h =
     (case v of
        Slice a off len \<Rightarrow> (let (b, h1) = alloc (Array (slice_elems h a off len)) h in (Slice b 0 len, h1))
      | _ \<Rightarrow> (v, h))"

text \<open>\<open>for i := range *in { (*in)[i].DeepCopyInto(&(*out)[i]) }\<close>\<close>

fun copy_elems :: "copier \<Rightarrow> addr \<Rightarrow> nat \<Rightarrow> addr \<Rightarrow> nat list \<Rightarrow> go_heap \<Rightarrow> go_heap" where
  "copy_elems c a off b [] h = h"
| "copy_elems c a off b (i # is) h =
     (let (x, h1) = c (array h a ! (off + i)) h
      in copy_elems c a off b is (store b (Array ((array h1 b)[i := x])) h1))"

definition copy_each :: "go_type \<Rightarrow> copier \<Rightarrow> copier" where
  "copy_each t c v h =
     (case v of
        Slice a off len \<Rightarrow>
          (let (b, h1) = alloc (Array (replicate len (zero_value t))) h
           in (Slice b 0 len, copy_elems c a off b [0..<len] h1))
      | _ \<Rightarrow> (v, h))"

text \<open>\<open>if in != nil { *out = new(T); (*in).DeepCopyInto(*out) }\<close>\<close>

definition copy_ptr :: "go_type \<Rightarrow> copier \<Rightarrow> copier" where
  "copy_ptr t c v h =
     (case v of
        Ptr a \<Rightarrow>
          (let (b, h1) = alloc (Var (zero_value t)) h; (x, h2) = c (deref h1 a) h1
           in (Ptr b, store b (Var x) h2))
      | _ \<Rightarrow> (v, h))"

text \<open>\<open>*out = make(map[string]string, len(*in)); for key, val := range *in { (*out)[key] = val }\<close>\<close>

fun put_entries :: "addr \<Rightarrow> string gomap \<Rightarrow> go_heap \<Rightarrow> go_heap" where
  "put_entries b [] h = h"
| "put_entries b ((key, val) # m) h = put_entries b m (store b (Table (mput key val (table h b))) h)"

definition copy_map :: copier where
  "copy_map v h =
     (case v of
        Map_ref a \<Rightarrow> (let (b, h1) = alloc (Table []) h in (Map_ref b, put_entries b (table h1 a) h1))
      | _ \<Rightarrow> (v, h))"

section \<open>Reading and writing\<close>

definition extends :: "go_heap \<Rightarrow> go_heap \<Rightarrow> bool" where
  "extends h h' \<longleftrightarrow> heap_ok h' \<and> hp_next h \<le> hp_next h' \<and> (\<forall>a < hp_next h. hp_blocks h' a = hp_blocks h a)"

lemma extends_refl: "heap_ok h \<Longrightarrow> extends h h"
  by (simp add: extends_def)

lemma extends_trans: "extends h h' \<Longrightarrow> extends h' h'' \<Longrightarrow> extends h h''"
  by (auto simp: extends_def)

lemma extends_ok: "extends h h' \<Longrightarrow> heap_ok h'"
  by (simp add: extends_def)

lemma alloc_extends: "heap_ok h \<Longrightarrow> alloc b h = (a, h') \<Longrightarrow> extends h h' \<and> a = hp_next h \<and> hp_next h' = Suc a \<and> hp_blocks h' a = Some b"
  by (auto simp: alloc_def extends_def heap_ok_def)

lemma store_extends: "extends h h' \<Longrightarrow> hp_next h \<le> a \<Longrightarrow> a < hp_next h' \<Longrightarrow> extends h (store a b h')"
  by (auto simp: store_def extends_def heap_ok_def)

lemma store_blocks [simp]: "hp_blocks (store a b h) = (hp_blocks h)(a \<mapsto> b)" "hp_next (store a b h) = hp_next h"
  by (simp_all add: store_def)

lemma heap_ok_dom: "heap_ok h \<Longrightarrow> hp_blocks h a = Some b \<Longrightarrow> a < hp_next h"
  by (metis heap_ok_def not_le option.distinct(1))

lemma map_of_set_field:
  "map_of (map (\<lambda>(g, y). (g, if g = f then x else y)) vs) k = (if k = f then map_option (\<lambda>_. x) (map_of vs k) else map_of vs k)"
  by (induction vs) auto

lemma field_set_other: "g \<noteq> f \<Longrightarrow> field g (set_field f x v) = field g v"
  by (cases v) (auto simp: field_def set_field_def map_of_set_field)

lemma field_set_same: "f \<in> fst ` set vs \<Longrightarrow> field f (set_field f x (Struct vs)) = x"
  by (auto simp: field_def set_field_def map_of_set_field map_of_eq_None_iff split: option.split)

lemma set_field_names: "\<exists>vs'. set_field f x (Struct vs) = Struct vs' \<and> map fst vs' = map fst vs"
  by (auto simp: set_field_def)

lemma those_map_eq: "(\<And>x. x \<in> set xs \<Longrightarrow> f x = g x) \<Longrightarrow> those (map f xs) = those (map g xs)"
  by (metis list.map_cong0)

lemma those_map_None: "those (map f xs) = None \<longleftrightarrow> (\<exists>x \<in> set xs. f x = None)"
  by (induction xs) (auto split: option.splits)

lemma struct_content:
  "content (TStruct fs) h v \<noteq> None \<longleftrightarrow>
     (\<exists>vs. v = Struct vs \<and> map fst vs = map fst fs \<and> (\<forall>(f, t) \<in> set fs. content t h (field f v) \<noteq> None))"
  by (cases v) (simp_all add: those_map_None case_prod_beta del: not_None_eq)

text \<open>What is read through a value depends on the storage it owns only; it is allocated.\<close>

lemma content_frame:
  assumes "content t h v \<noteq> None" and "\<And>a. a \<in> owns t h v \<Longrightarrow> hp_blocks h' a = hp_blocks h a"
  shows "content t h' v = content t h v \<and> owns t h' v = owns t h v"
  using assms
proof (induction t h v rule: content.induct)
  case (2 fs h v)
  then obtain vs where v: "v = Struct vs" "map fst vs = map fst fs"
    "\<forall>(f, t) \<in> set fs. content t h (field f v) \<noteq> None"
    unfolding struct_content by blast
  have each: "content t h' (field f v) = content t h (field f v) \<and> owns t h' (field f v) = owns t h (field f v)"
    if "(f, t) \<in> set fs" for f t
  proof -
    from v(3) that have "content t h (field f v) \<noteq> None" by blast
    moreover have "hp_blocks h' a = hp_blocks h a" if "a \<in> owns t h (field f v)" for a
      using 2(3) that \<open>(f, t) \<in> set fs\<close> by auto
    ultimately show ?thesis using 2(1) [OF v(1,2) that refl] by blast
  qed
  then have "those (map (\<lambda>(f, t). map_option (Pair f) (content t h' (field f v))) fs) =
      those (map (\<lambda>(f, t). map_option (Pair f) (content t h (field f v))) fs)"
    by (intro those_map_eq) auto
  moreover have "owns (TStruct fs) h' v = owns (TStruct fs) h v" using each by auto
  ultimately show ?case using v by simp
next
  case (3 t h v)
  then show ?case by (auto simp: deref_def split: go_value.splits option.splits block.splits)
next
  case (4 t h v)
  show ?case
  proof (cases v)
    case (Slice a off len)
    with 4(2) obtain ws where ws: "hp_blocks h a = Some (Array ws)" "off + len \<le> length ws"
      "those (map (content t h) (slice_elems h a off len)) \<noteq> None"
      by (auto split: option.splits block.splits if_splits)
    from 4(3) Slice ws have a: "hp_blocks h' a = Some (Array ws)" by simp
    then have same: "slice_elems h' a off len = slice_elems h a off len" using ws by (simp add: slice_elems_def array_def)
    have each: "content t h' w = content t h w \<and> owns t h' w = owns t h w" if "w \<in> set (slice_elems h a off len)" for w
    proof -
      from ws(3) that have "content t h w \<noteq> None" by (simp add: those_map_None)
      moreover have "hp_blocks h' x = hp_blocks h x" if "x \<in> owns t h w" for x
        using 4(3) Slice that \<open>w \<in> set (slice_elems h a off len)\<close> by auto
      ultimately show ?thesis using 4(1) [OF Slice ws(1) refl ws(2) that] by blast
    qed
    then have "those (map (content t h') (slice_elems h a off len)) = those (map (content t h) (slice_elems h a off len))"
      by (intro those_map_eq) auto
    with each same a ws Slice show ?thesis by simp
  qed (use 4(2) in auto)
next
  case (5 h v)
  then show ?case by (auto split: go_value.splits option.splits block.splits)
qed (auto split: go_value.splits)


lemma slice_content:
  "content (TSlice t) h (Slice a off len) \<noteq> None \<longleftrightarrow>
     (\<exists>ws. hp_blocks h a = Some (Array ws) \<and> off + len \<le> length ws \<and>
       (\<forall>w \<in> set (slice_elems h a off len). content t h w \<noteq> None))"
  by (auto simp: those_map_None simp del: not_None_eq split: option.split block.split)

lemma owns_allocated:
  "heap_ok h \<Longrightarrow> content t h v \<noteq> None \<Longrightarrow> a \<in> owns t h v \<Longrightarrow> a < hp_next h"
proof (induction t h v rule: content.induct)
  case (2 fs h v)
  then obtain vs where v: "v = Struct vs" "map fst vs = map fst fs"
    "\<forall>(f, t) \<in> set fs. content t h (field f v) \<noteq> None"
    unfolding struct_content by blast
  from 2(4) obtain f t where ft: "(f, t) \<in> set fs" "a \<in> owns t h (field f v)" by auto
  with v(3) have "content t h (field f v) \<noteq> None" by blast
  from 2(1) [OF v(1,2) ft(1) refl 2(2) this ft(2)] show ?case .
next
  case (3 t h v)
  show ?case
  proof (cases v)
    case (Ptr b)
    with 3(3) obtain w where w: "hp_blocks h b = Some (Var w)" "content t h w \<noteq> None"
      by (auto split: option.splits block.splits)
    from 3(1) [OF Ptr w(1) refl 3(2) w(2)] 3(4) Ptr w heap_ok_dom [OF 3(2) w(1)] show ?thesis
      by (auto simp: deref_def)
  qed (use 3 in auto)
next
  case (4 t h v)
  show ?case
  proof (cases v)
    case (Slice b off len)
    with 4(3) obtain ws where ws: "hp_blocks h b = Some (Array ws)" "off + len \<le> length ws"
      "\<forall>w \<in> set (slice_elems h b off len). content t h w \<noteq> None"
      unfolding Slice slice_content by blast
    from 4(4) Slice consider "a = b" | w where "w \<in> set (slice_elems h b off len)" "a \<in> owns t h w" by auto
    then show ?thesis
    proof cases
      case 1
      with heap_ok_dom [OF 4(2) ws(1)] show ?thesis by simp
    next
      case 2
      with ws(3) have "content t h w \<noteq> None" by blast
      from 4(1) [OF Slice ws(1) refl ws(2) 2(1) 4(2) this 2(2)] show ?thesis .
    qed
  qed (use 4 in auto)
next
  case (5 h v)
  then show ?case by (auto dest: heap_ok_dom split: go_value.splits option.splits block.splits)
qed simp

lemma flat_content: "flat t \<Longrightarrow> content t h' v = content t h v \<and> owns t h v = {}"
proof (induction t arbitrary: v rule: flat.induct)
  case (2 fs)
  then have each: "content t h' (field f v) = content t h (field f v) \<and> owns t h (field f v) = {}" if "(f, t) \<in> set fs" for f t
    using that by fastforce
  then have "those (map (\<lambda>(f, t). map_option (Pair f) (content t h' (field f v))) fs) =
      those (map (\<lambda>(f, t). map_option (Pair f) (content t h (field f v))) fs)"
    by (intro those_map_eq) auto
  with each show ?case by (auto split: go_value.split)
qed simp_all

section \<open>Deep copies\<close>


text \<open>
  A deep copy leaves the storage there is alone, reads like the original, and owns new storage only.
\<close>

definition deep_copied :: "go_type \<Rightarrow> go_heap \<Rightarrow> go_value \<Rightarrow> go_heap \<Rightarrow> go_value \<Rightarrow> bool" where
  "deep_copied t h v h' v' \<longleftrightarrow>
     extends h h' \<and> content t h' v' = content t h v \<and> (\<forall>a \<in> owns t h' v'. hp_next h \<le> a)"

definition deep_copies :: "go_type \<Rightarrow> copier \<Rightarrow> bool" where
  "deep_copies t c \<longleftrightarrow>
     (\<forall>h v h' v'. heap_ok h \<longrightarrow> content t h v \<noteq> None \<longrightarrow> c v h = (v', h') \<longrightarrow> deep_copied t h v h' v')"

lemma deep_copiesD:
  "deep_copies t c \<Longrightarrow> heap_ok h \<Longrightarrow> content t h v \<noteq> None \<Longrightarrow> c v h = (v', h') \<Longrightarrow>
     extends h h' \<and> content t h' v' = content t h v \<and> (\<forall>a \<in> owns t h' v'. hp_next h \<le> a)"
  unfolding deep_copies_def deep_copied_def by blast

text \<open>Extending a heap does not change what is read from before.\<close>

lemma content_extends:
  assumes "heap_ok h" and "extends h h'" and "content t h v \<noteq> None"
  shows "content t h' v = content t h v \<and> owns t h' v = owns t h v"
  by (rule content_frame [OF assms(3)]) (use owns_allocated [OF assms(1,3)] assms(2) in \<open>auto simp: extends_def\<close>)

lemma content_store:
  assumes "content t h v \<noteq> None" and "a \<notin> owns t h v"
  shows "content t (store a b h) v = content t h v \<and> owns t (store a b h) v = owns t h v"
  by (rule content_frame [OF assms(1)]) (use assms(2) in auto)

lemma deep_value [intro]: "flat t \<Longrightarrow> deep_copies t copy_value"
  by (auto simp: deep_copies_def deep_copied_def copy_value_def extends_refl flat_content)

lemma deep_copy_slice [intro]:
  assumes "flat t"
  shows "deep_copies (TSlice t) copy_slice"
  unfolding deep_copies_def deep_copied_def
proof (intro allI impI)
  fix h v h' v' assume ok: "heap_ok h" and c: "content (TSlice t) h v \<noteq> None" and run: "copy_slice v h = (v', h')"
  show "extends h h' \<and> content (TSlice t) h' v' = content (TSlice t) h v \<and> (\<forall>a \<in> owns (TSlice t) h' v'. hp_next h \<le> a)"
  proof (cases v)
    case (Slice a off len)
    let ?ws = "slice_elems h a off len"
    from c obtain ws where ws: "hp_blocks h a = Some (Array ws)" "off + len \<le> length ws" unfolding Slice slice_content by blast
    then have len: "length ?ws = len" by (simp add: slice_elems_def array_def)
    obtain b h1 where al: "alloc (Array ?ws) h = (b, h1)" by force
    from alloc_extends [OF ok al] have b: "extends h h1" "b = hp_next h" "hp_blocks h1 b = Some (Array ?ws)" by auto
    then have same: "slice_elems h1 b 0 len = ?ws" using len by (simp add: slice_elems_def array_def)
    have "those (map (content t h1) ?ws) = those (map (content t h) ?ws)"
      using flat_content [OF assms, of h1 _ h] by (intro those_map_eq) blast
    then have "content (TSlice t) h1 (Slice b 0 len) = content (TSlice t) h v"
      using Slice b(3) len same ws by simp
    moreover have "owns (TSlice t) h1 (Slice b 0 len) = {b}" using same flat_content [OF assms] by simp
    moreover have "v' = Slice b 0 len" "h' = h1" using run Slice al by (simp_all add: copy_slice_def)
    ultimately show ?thesis using b(1,2) by (simp del: content.simps owns.simps)
  qed (use c run ok in \<open>auto simp: copy_slice_def extends_refl\<close>)
qed

lemma deep_copy_ptr [intro]:
  assumes "deep_copies t c"
  shows "deep_copies (TPtr t) (copy_ptr t c)"
  unfolding deep_copies_def deep_copied_def
proof (intro allI impI)
  fix h v h' v' assume ok: "heap_ok h" and c: "content (TPtr t) h v \<noteq> None" and run: "copy_ptr t c v h = (v', h')"
  show "extends h h' \<and> content (TPtr t) h' v' = content (TPtr t) h v \<and> (\<forall>a \<in> owns (TPtr t) h' v'. hp_next h \<le> a)"
  proof (cases v)
    case (Ptr a)
    with c obtain w where w: "hp_blocks h a = Some (Var w)" "content t h w \<noteq> None"
      by (auto split: option.splits block.splits)
    obtain b h1 where al: "alloc (Var (zero_value t)) h = (b, h1)" by force
    from alloc_extends [OF ok al] have h1: "extends h h1" "b = hp_next h" "hp_next h1 = Suc b" by auto
    from content_extends [OF ok h1(1) w(2)] have w1: "content t h1 w = content t h w" by simp
    have d: "deref h1 a = w" using w h1(1) heap_ok_dom [OF ok w(1)] by (simp add: deref_def extends_def)
    obtain x h2 where cp: "c w h1 = (x, h2)" by force
    from deep_copiesD [OF assms extends_ok [OF h1(1)] _ cp] w w1 have
      h2: "extends h1 h2" "content t h2 x = content t h w" "\<forall>a \<in> owns t h2 x. Suc b \<le> a" using h1(3) by simp_all
    let ?h3 = "store b (Var x) h2"
    have "b \<notin> owns t h2 x" using h2(3) by fastforce
    with content_store [of t h2 x b] h2(2) w(2) have x: "content t ?h3 x = content t h w" "owns t ?h3 x = owns t h2 x" by auto
    have "extends h ?h3"
      by (rule store_extends [OF extends_trans [OF h1(1) h2(1)]]) (use h1 h2(1) in \<open>auto simp: extends_def\<close>)
    moreover have "content (TPtr t) ?h3 (Ptr b) = content (TPtr t) h v" using x w Ptr by simp
    moreover have "owns (TPtr t) ?h3 (Ptr b) = insert b (owns t h2 x)" using x by (simp add: deref_def)
    moreover have "\<forall>a \<in> insert b (owns t h2 x). hp_next h \<le> a" using h2(3) h1(2) by (auto dest: Suc_leD)
    moreover have "v' = Ptr b" "h' = ?h3" using run Ptr al d cp by (simp_all add: copy_ptr_def)
    ultimately show ?thesis by (simp del: content.simps owns.simps)
  qed (use c run ok in \<open>auto simp: copy_ptr_def extends_refl\<close>)
qed

text \<open>The loop over a map builds the same map in the new table.\<close>

lemma map_of_rev_distinct: "distinct (map fst m) \<Longrightarrow> map_of (rev m) = map_of m"
  by (induction m) (auto simp: map_add_upd_left dom_map_of_conv_image_fst)

lemma put_entries_eq:
  assumes "table h b = m0" and "hp_blocks h b \<noteq> None"
  shows "put_entries b m h = (if m = [] then h else store b (Table (fold (\<lambda>(k, v) m. mput k v m) m m0)) h)"
  using assms
proof (induction b m h arbitrary: m0 rule: put_entries.induct)
  case (2 b k v m h)
  let ?h = "store b (Table (mput k v (table h b))) h"
  have "table ?h b = mput k v m0" "hp_blocks ?h b \<noteq> None" using 2(2) by (simp_all add: table_def)
  from 2(1) [OF this] 2(2) show ?case by (auto simp: store_def fun_upd_idem)
qed simp

lemma copy_entries:
  assumes "minv m" and "hp_blocks h b = Some (Table [])"
  shows "hp_blocks (put_entries b m h) b = Some (Table m)"
    and "hp_next (put_entries b m h) = hp_next h"
    and "a \<noteq> b \<Longrightarrow> hp_blocks (put_entries b m h) a = hp_blocks h a"
proof -
  have "map_of (map_literal m) = map_of m"
    using assms(1) by (simp add: map_of_map_literal map_of_rev_distinct minv_distinct)
  then have lit: "map_literal m = m" by (intro minv_ext [OF minv_map_literal assms(1)])
  have "table h b = []" "hp_blocks h b \<noteq> None" using assms(2) by (simp_all add: table_def)
  note run = put_entries_eq [OF this, of m]
  show "hp_blocks (put_entries b m h) b = Some (Table m)"
    using run lit assms(2) by (simp add: map_literal_def)
  show "hp_next (put_entries b m h) = hp_next h" "a \<noteq> b \<Longrightarrow> hp_blocks (put_entries b m h) a = hp_blocks h a"
    using run by simp_all
qed

lemma deep_copy_map [intro]: "deep_copies TMap copy_map"
  unfolding deep_copies_def deep_copied_def
proof (intro allI impI)
  fix h v h' v' assume ok: "heap_ok h" and c: "content TMap h v \<noteq> None" and run: "copy_map v h = (v', h')"
  show "extends h h' \<and> content TMap h' v' = content TMap h v \<and> (\<forall>a \<in> owns TMap h' v'. hp_next h \<le> a)"
  proof (cases v)
    case (Map_ref a)
    with c obtain m where m: "hp_blocks h a = Some (Table m)" "minv m"
      by (auto split: option.splits block.splits if_splits)
    obtain b h1 where al: "alloc (Table []) h = (b, h1)" by force
    from alloc_extends [OF ok al] have
      h1: "extends h h1" "b = hp_next h" "hp_next h1 = Suc b" "hp_blocks h1 b = Some (Table [])" by auto
    have "table h1 a = m" using m h1(1) heap_ok_dom [OF ok m(1)] by (simp add: table_def extends_def)
    then have out: "v' = Map_ref b" "h' = put_entries b m h1" using run Map_ref al by (simp_all add: copy_map_def)
    note put = copy_entries [OF m(2) h1(4), folded out(2)]
    have "hp_blocks h' x = hp_blocks h1 x" if "x < b" for x using put(3) [of x] that by simp
    moreover have "hp_blocks h' x = None" if "Suc b \<le> x" for x
      using put(3) [of x] that h1(3) extends_ok [OF h1(1)] by (auto simp: heap_ok_def)
    ultimately have "extends h h'" using h1 put(2) by (auto simp: extends_def heap_ok_def)
    then show ?thesis using out(1) put(1) m Map_ref h1(2) by simp
  qed (use c run ok in \<open>auto simp: copy_map_def extends_refl\<close>)
qed

text \<open>
  The loop over a slice: before each iteration the elements already copied read like the originals and
  own storage younger than the new array.
\<close>

definition copied_upto :: "go_type \<Rightarrow> go_heap \<Rightarrow> go_value list \<Rightarrow> addr \<Rightarrow> nat \<Rightarrow> go_heap \<Rightarrow> go_value list \<Rightarrow> bool" where
  "copied_upto t h ws b k g xs \<longleftrightarrow>
     extends h g \<and> hp_next h \<le> b \<and> b < hp_next g \<and> hp_blocks g b = Some (Array xs) \<and> length xs = length ws \<and>
     (\<forall>i < k. content t g (xs ! i) = content t h (ws ! i) \<and> (\<forall>x \<in> owns t g (xs ! i). b < x))"

lemma copied_upto_step:
  assumes deep: "deep_copies t c" and ok: "heap_ok h" and ws: "\<forall>w \<in> set ws. content t h w \<noteq> None"
    and inv: "copied_upto t h ws b k g xs" and k: "k < length ws" and run: "c (ws ! k) g = (x, g1)"
  shows "copied_upto t h ws b (Suc k) (store b (Array ((array g1 b)[k := x])) g1) (xs[k := x])"
proof -
  note inv = inv [unfolded copied_upto_def]
  from inv have g: "extends h g" "heap_ok g" "hp_next h \<le> b" "b < hp_next g" "length xs = length ws"
    by (auto dest: extends_ok)
  have "content t h (ws ! k) \<noteq> None" using ws k by simp
  with content_extends [OF ok g(1)] have w: "content t g (ws ! k) = content t h (ws ! k)" "content t g (ws ! k) \<noteq> None"
    by simp_all
  from deep_copiesD [OF deep g(2) w(2) run] have
    x: "extends g g1" "content t g1 x = content t h (ws ! k)" "\<forall>a \<in> owns t g1 x. hp_next g \<le> a" using w(1) by simp_all
  have arr: "array g1 b = xs" using inv x(1) by (simp add: array_def extends_def)
  let ?g = "store b (Array (xs[k := x])) g1"
  have each: "content t ?g y = content t h (ws ! i) \<and> (\<forall>a \<in> owns t ?g y. b < a)"
    if "content t g1 y = content t h (ws ! i)" "\<forall>a \<in> owns t g1 y. b < a" "i < length ws" for y i
  proof -
    from that have "content t g1 y \<noteq> None" "b \<notin> owns t g1 y" using ws by force+
    from content_store [OF this] that show ?thesis by simp
  qed
  have "content t ?g (xs[k := x] ! i) = content t h (ws ! i) \<and> (\<forall>a \<in> owns t ?g (xs[k := x] ! i). b < a)" if "i < Suc k" for i
  proof (cases "i = k")
    case True
    with each [of x k] x(2,3) g(4,5) k show ?thesis by force
  next
    case False
    with that have i: "i < k" "i < length ws" using k by simp_all
    with inv have old: "content t g (xs ! i) = content t h (ws ! i)" "\<forall>a \<in> owns t g (xs ! i). b < a" by blast+
    with ws i(2) have "content t g (xs ! i) \<noteq> None" by simp
    with content_extends [OF g(2) x(1) this] each [of "xs ! i" i] old i False show ?thesis by simp
  qed
  moreover have "extends h ?g"
    by (rule store_extends [OF extends_trans [OF g(1) x(1)]]) (use g x(1) in \<open>auto simp: extends_def\<close>)
  ultimately show ?thesis using g x(1) arr by (simp add: copied_upto_def extends_def)
qed

lemma copied_upto_loop:
  assumes deep: "deep_copies t c" and ok: "heap_ok h" and a: "hp_blocks h a = Some (Array vs)" "off + length ws \<le> length vs"
    and ws: "ws = take (length ws) (drop off vs)" "\<forall>w \<in> set ws. content t h w \<noteq> None"
    and inv: "copied_upto t h ws b k g xs" and k: "k \<le> length ws"
  shows "\<exists>ys. copied_upto t h ws b (length ws) (copy_elems c a off b [k..<length ws] g) ys"
  using inv k
proof (induction "length ws - k" arbitrary: k g xs)
  case 0
  then show ?case by auto
next
  case (Suc n)
  then have k: "k < length ws" by simp
  have "array g a = vs" using Suc.prems(1) a(1) heap_ok_dom [OF ok a(1)] by (simp add: copied_upto_def extends_def array_def)
  moreover have "vs ! (off + k) = ws ! k" using ws(1) k a(2) by (metis nth_drop nth_take le_add1 le_trans)
  ultimately have e: "array g a ! (off + k) = ws ! k" by simp
  obtain x g1 where run: "c (ws ! k) g = (x, g1)" by force
  from Suc.hyps(1) [OF _ copied_upto_step [OF deep ok ws(2) Suc.prems(1) k run]] Suc.hyps(2) k e run
  show ?case by (simp add: upt_conv_Cons)
qed

lemma deep_copy_each [intro]:
  assumes "deep_copies t c"
  shows "deep_copies (TSlice t) (copy_each t c)"
  unfolding deep_copies_def deep_copied_def
proof (intro allI impI)
  fix h v h' v' assume ok: "heap_ok h" and c: "content (TSlice t) h v \<noteq> None" and run: "copy_each t c v h = (v', h')"
  show "extends h h' \<and> content (TSlice t) h' v' = content (TSlice t) h v \<and> (\<forall>a \<in> owns (TSlice t) h' v'. hp_next h \<le> a)"
  proof (cases v)
    case (Slice a off len)
    let ?ws = "slice_elems h a off len"
    from c obtain vs where vs: "hp_blocks h a = Some (Array vs)" "off + len \<le> length vs" "\<forall>w \<in> set ?ws. content t h w \<noteq> None"
      unfolding Slice slice_content by blast
    then have ws: "length ?ws = len" "?ws = take len (drop off vs)" by (simp_all add: slice_elems_def array_def)
    let ?zs = "replicate len (zero_value t)"
    obtain b h1 where al: "alloc (Array ?zs) h = (b, h1)" by force
    from alloc_extends [OF ok al] ws(1) have b: "b = hp_next h" and "copied_upto t h ?ws b 0 h1 ?zs"
      by (auto simp: copied_upto_def)
    from copied_upto_loop [OF assms ok vs(1) _ _ vs(3) this(2)] ws vs(2) obtain ys where
      ys: "copied_upto t h ?ws b len (copy_elems c a off b [0..<len] h1) ys" by auto
    have out: "v' = Slice b 0 len" "h' = copy_elems c a off b [0..<len] h1"
      using run Slice al by (simp_all add: copy_each_def)
    note ys = ys [folded out(2), unfolded copied_upto_def ws(1)]
    then have same: "slice_elems h' b 0 len = ys" by (simp add: slice_elems_def array_def)
    have "map (content t h') ys = map (content t h) ?ws" using ys ws(1) by (auto intro: nth_equalityI)
    then have "content (TSlice t) h' (Slice b 0 len) = content (TSlice t) h v"
      using Slice ys same vs(1,2) by simp
    moreover have "\<forall>x \<in> owns (TSlice t) h' (Slice b 0 len). hp_next h \<le> x"
      using same ys b by (auto simp: set_conv_nth) (meson less_imp_le)
    ultimately show ?thesis using ys out(1) by (simp del: content.simps owns.simps)
  qed (use c run ok in \<open>auto simp: copy_each_def extends_refl\<close>)
qed

text \<open>
  A struct is copied deeply when every field with a copier of its own is, and the other fields are flat:
  this is what \<open>*out = *in\<close> relies on.
\<close>

definition copies_fields :: "(string \<times> go_type) list \<Rightarrow> (string \<times> copier) list \<Rightarrow> bool" where
  "copies_fields fs cs \<longleftrightarrow>
     distinct (map fst fs) \<and>
     (\<forall>(f, c) \<in> set cs. \<exists>t. (f, t) \<in> set fs \<and> deep_copies t c) \<and>
     (\<forall>(f, t) \<in> set fs. f \<notin> fst ` set cs \<longrightarrow> flat t)"

text \<open>During the copy, every field but those of the copiers still to run is done.\<close>

definition fields_done ::
  "(string \<times> go_type) list \<Rightarrow> string set \<Rightarrow> go_heap \<Rightarrow> go_value \<Rightarrow> go_heap \<Rightarrow> go_value \<Rightarrow> bool" where
  "fields_done fs rest h inn g out \<longleftrightarrow>
     extends h g \<and> (\<exists>vs. out = Struct vs \<and> map fst vs = map fst fs) \<and>
     (\<forall>(f, t) \<in> set fs. f \<notin> rest \<longrightarrow>
        content t g (field f out) = content t h (field f inn) \<and> (\<forall>a \<in> owns t g (field f out). hp_next h \<le> a))"

lemma fields_done_step:
  assumes ok: "heap_ok h" and c: "\<forall>(f, t) \<in> set fs. content t h (field f inn) \<noteq> None" and d: "distinct (map fst fs)"
    and ft: "(f, t) \<in> set fs" "deep_copies t cp" and inv: "fields_done fs (insert f rest) h inn g out"
    and run: "cp (field f inn) g = (x, g1)"
  shows "fields_done fs rest h inn g1 (set_field f x out)"
proof -
  from inv obtain vs where g: "extends h g" "heap_ok g" and vs: "out = Struct vs" "map fst vs = map fst fs"
    by (auto simp: fields_done_def dest: extends_ok)
  from c ft have cf: "content t h (field f inn) \<noteq> None" by blast
  with content_extends [OF ok g(1)] have "content t g (field f inn) = content t h (field f inn)" by simp
  with deep_copiesD [OF ft(2) g(2) _ run] cf have
    x: "extends g g1" "content t g1 x = content t h (field f inn)" "\<forall>a \<in> owns t g1 x. hp_next g \<le> a" by simp_all
  have "content t' g1 (field f' (set_field f x out)) = content t' h (field f' inn) \<and>
      (\<forall>a \<in> owns t' g1 (field f' (set_field f x out)). hp_next h \<le> a)"
    if f': "(f', t') \<in> set fs" "f' \<notin> rest" for f' t'
  proof (cases "f' = f")
    case True
    with f'(1) ft(1) d have "t' = t" by (metis eq_key_imp_eq_value)
    moreover have "f \<in> fst ` set vs" using vs(2) ft(1) by (metis fst_conv image_eqI set_map)
    ultimately show ?thesis using True x g(1) vs(1) by (auto simp: field_set_same extends_def)
  next
    case False
    with inv f' have old: "content t' g (field f' out) = content t' h (field f' inn)" "\<forall>a \<in> owns t' g (field f' out). hp_next h \<le> a"
      unfolding fields_done_def by blast+
    from c f'(1) have "content t' h (field f' inn) \<noteq> None" by blast
    with old(1) have "content t' g (field f' out) \<noteq> None" by simp
    from content_extends [OF g(2) x(1) this] old False show ?thesis by (simp add: field_set_other)
  qed
  moreover from set_field_names [of f x vs] vs have "\<exists>vs'. set_field f x out = Struct vs' \<and> map fst vs' = map fst fs" by auto
  ultimately show ?thesis using extends_trans [OF g(1) x(1)] by (auto simp: fields_done_def)
qed

lemma fields_done_all:
  assumes ok: "heap_ok h" and c: "\<forall>(f, t) \<in> set fs. content t h (field f inn) \<noteq> None" and d: "distinct (map fst fs)"
    and cs: "\<forall>(f, c) \<in> set cs. \<exists>t. (f, t) \<in> set fs \<and> deep_copies t c"
    and inv: "fields_done fs (fst ` set cs) h inn g out"
  shows "fields_done fs {} h inn (snd (copy_fields cs inn out g)) (fst (copy_fields cs inn out g))"
  using cs inv
proof (induction cs arbitrary: out g)
  case Nil
  then show ?case by simp
next
  case (Cons fc cs)
  obtain f cp where fc: "fc = (f, cp)" by force
  with Cons.prems(1) obtain t where ft: "(f, t) \<in> set fs" "deep_copies t cp" by auto
  obtain x g1 where run: "cp (field f inn) g = (x, g1)" by force
  have "fields_done fs (insert f (fst ` set cs)) h inn g out" using Cons.prems(2) fc by simp
  from Cons.IH [OF _ fields_done_step [OF ok c d ft this run]] Cons.prems(1) fc run show ?case by simp
qed

lemma deep_copy_struct:
  assumes "copies_fields fs cs"
  shows "deep_copies (TStruct fs) (copy_struct cs)"
  unfolding deep_copies_def deep_copied_def
proof (intro allI impI)
  fix h v h' v' assume ok: "heap_ok h" and c: "content (TStruct fs) h v \<noteq> None" and run: "copy_struct cs v h = (v', h')"
  from c obtain vs where v: "v = Struct vs" "map fst vs = map fst fs"
    and each: "\<forall>(f, t) \<in> set fs. content t h (field f v) \<noteq> None"
    unfolding struct_content by blast
  have "fields_done fs (fst ` set cs) h v h v"
    using ok v assms flat_content by (fastforce simp: fields_done_def copies_fields_def extends_refl)
  from fields_done_all [OF ok each _ _ this] assms run have f: "fields_done fs {} h v h' v'"
    by (simp add: copies_fields_def copy_struct_def)
  then have same: "content t h' (field g v') = content t h (field g v)" "\<forall>a \<in> owns t h' (field g v'). hp_next h \<le> a"
    if "(g, t) \<in> set fs" for g t using that unfolding fields_done_def by blast+
  from f obtain vs' where v': "v' = Struct vs'" "map fst vs' = map fst fs" by (auto simp: fields_done_def)
  have "those (map (\<lambda>(g, t). map_option (Pair g) (content t h' (field g v'))) fs) =
      those (map (\<lambda>(g, t). map_option (Pair g) (content t h (field g v))) fs)"
    using same(1) by (intro those_map_eq) auto
  with v v' have "content (TStruct fs) h' v' = content (TStruct fs) h v" by simp
  moreover have "\<forall>a \<in> owns (TStruct fs) h' v'. hp_next h \<le> a" using same(2) by auto
  ultimately show "extends h h' \<and> content (TStruct fs) h' v' = content (TStruct fs) h v \<and>
      (\<forall>a \<in> owns (TStruct fs) h' v'. hp_next h \<le> a)"
    using f by (simp add: fields_done_def del: content.simps owns.simps)
qed

text \<open>What a deep copy gives its user: equal contents, disjoint storage, and neither sees writes to the other.\<close>

lemma deep_copy_independent:
  assumes "deep_copies t c" and "heap_ok h" and x: "content t h v = Some x" and "c v h = (v', h')"
  shows "content t h' v' = Some x" and "content t h' v = Some x" and "owns t h' v \<inter> owns t h' v' = {}"
    and "(\<And>a. a \<notin> owns t h' v' \<Longrightarrow> hp_blocks g a = hp_blocks h' a) \<Longrightarrow> content t g v = Some x"
    and "(\<And>a. a \<notin> owns t h' v \<Longrightarrow> hp_blocks g a = hp_blocks h' a) \<Longrightarrow> content t g v' = Some x"
proof -
  from x have s: "content t h v \<noteq> None" by simp
  from deep_copiesD [OF assms(1,2) s assms(4)] have
    d: "extends h h'" "content t h' v' = content t h v" "\<forall>a \<in> owns t h' v'. hp_next h \<le> a" by blast+
  from content_extends [OF assms(2) d(1) s] have o: "content t h' v = Some x" "owns t h' v = owns t h v" using x by simp_all
  show c': "content t h' v' = Some x" using d(2) x by simp
  show "content t h' v = Some x" by (fact o(1))
  show dis: "owns t h' v \<inter> owns t h' v' = {}" using owns_allocated [OF assms(2) s] d(3) o(2) by (force simp: not_le)
  show "content t g v = Some x" if "\<And>a. a \<notin> owns t h' v' \<Longrightarrow> hp_blocks g a = hp_blocks h' a"
    using content_frame [of t h' v g] that o(1) dis by (metis disjoint_iff option.distinct(1))
  show "content t g v' = Some x" if "\<And>a. a \<notin> owns t h' v \<Longrightarrow> hp_blocks g a = hp_blocks h' a"
    using content_frame [of t h' v' g] that c' dis by (metis disjoint_iff option.distinct(1))
qed

section \<open>The copier of a type\<close>

text \<open>The copy function deepcopy-gen writes for a type: the fields that are not flat have their copiers.\<close>

fun copy_type :: "go_type \<Rightarrow> copier" where
  "copy_type (TScalar k) = copy_value"
| "copy_type (TStruct fs) =
     copy_struct (map (\<lambda>(f, t). (f, copy_type t)) (filter (\<lambda>(f, t). \<not> flat t) fs))"
| "copy_type (TPtr t) = copy_ptr t (copy_type t)"
| "copy_type (TSlice t) = (if flat t then copy_slice else copy_each t (copy_type t))"
| "copy_type TMap = copy_map"

text \<open>Field names are distinct, at every level.\<close>

fun type_ok :: "go_type \<Rightarrow> bool" where
  "type_ok (TScalar k) = True"
| "type_ok (TStruct fs) = (distinct (map fst fs) \<and> (\<forall>(f, t) \<in> set fs. type_ok t))"
| "type_ok (TPtr t) = type_ok t"
| "type_ok (TSlice t) = type_ok t"
| "type_ok TMap = True"

lemma deep_copy_type: "type_ok t \<Longrightarrow> deep_copies t (copy_type t)"
proof (induction t rule: copy_type.induct)
  case (2 fs)
  then have "copies_fields fs (map (\<lambda>(f, t). (f, copy_type t)) (filter (\<lambda>(f, t). \<not> flat t) fs))"
    by (fastforce simp: copies_fields_def image_iff)
  then show ?case by (simp add: deep_copy_struct)
qed (auto intro: deep_copy_slice deep_copy_each deep_copy_ptr deep_copy_map)

end
