(* ===== verification/DeepCopy.thy ===== *)
theory DeepCopy
  imports GoHeap
begin

text \<open>
  The copy functions deepcopy-gen wrote for the API types of this repository
  (\<open>zz_generated.deepcopy.go\<close> of the three groups). \<open>X_type\<close> is the declaration of the struct \<open>X\<close>, with
  its fields in order; \<open>X_DeepCopyInto\<close> is the body of the method, copying \<open>*in\<close> and giving what it leaves
  in \<open>*out\<close>; \<open>X_DeepCopy\<close> copies behind a pointer; \<open>X_DeepCopyObject\<close> gives an interface value, None the
  nil interface. Every function is proved deep, in a locale for the types and copy functions of the
  Kubernetes libraries they use.
\<close>

section \<open>The types of the libraries\<close>

text \<open>The declared type and the copy function of the structs of k8s.io/api and k8s.io/apimachinery.\<close>

record vendored =
  vd_type :: "string \<Rightarrow> go_type"
  vd_copy :: "string \<Rightarrow> copier"

text \<open>The two that are flat.\<close>

definition TypeMeta_type :: go_type where
  "TypeMeta_type = TStruct [(''Kind'', TScalar KString), (''APIVersion'', TScalar KString)]"

definition ListMeta_type :: go_type where
  "ListMeta_type = TStruct
    [(''SelfLink'', TScalar KString), (''ResourceVersion'', TScalar KString), (''Continue'', TScalar
    KString)]"

section \<open>The group siddhi.io\<close>

definition TLS_type :: "go_type" where
  "TLS_type = TStruct
     [(''SecretName'', TScalar KString)]"

definition TLS_DeepCopyInto :: "copier" where
  "TLS_DeepCopyInto = copy_struct []"

definition TLS_DeepCopy :: "copier" where
  "TLS_DeepCopy = copy_ptr TLS_type TLS_DeepCopyInto"

definition MessagingConfig_type :: "go_type" where
  "MessagingConfig_type = TStruct
     [(''ClusterID'', TScalar KString), (''BootstrapServers'', TSlice (TScalar KString))]"

definition MessagingConfig_DeepCopyInto :: "copier" where
  "MessagingConfig_DeepCopyInto = copy_struct
     [(''BootstrapServers'', copy_slice)]"

definition MessagingConfig_DeepCopy :: "copier" where
  "MessagingConfig_DeepCopy = copy_ptr MessagingConfig_type MessagingConfig_DeepCopyInto"

definition MessagingSystem_type :: "go_type" where
  "MessagingSystem_type = TStruct
     [(''Type'', TScalar KString), (''Config'', MessagingConfig_type)]"

definition MessagingSystem_DeepCopyInto :: "copier" where
  "MessagingSystem_DeepCopyInto = copy_struct
     [(''Config'', MessagingConfig_DeepCopyInto)]"

definition MessagingSystem_DeepCopy :: "copier" where
  "MessagingSystem_DeepCopy = copy_ptr MessagingSystem_type MessagingSystem_DeepCopyInto"

definition Apps_type :: "go_type" where
  "Apps_type = TStruct
     [(''ConfigMap'', TScalar KString), (''Script'', TScalar KString)]"

definition Apps_DeepCopyInto :: "copier" where
  "Apps_DeepCopyInto = copy_struct []"

definition Apps_DeepCopy :: "copier" where
  "Apps_DeepCopy = copy_ptr Apps_type Apps_DeepCopyInto"

definition PartialApp_type :: "go_type" where
  "PartialApp_type = TStruct
     [(''DeploymentName'', TScalar KString), (''Apps'', TSlice (TScalar KString))]"

definition PartialApp_DeepCopyInto :: "copier" where
  "PartialApp_DeepCopyInto = copy_struct
     [(''Apps'', copy_slice)]"

definition PartialApp_DeepCopy :: "copier" where
  "PartialApp_DeepCopy = copy_ptr PartialApp_type PartialApp_DeepCopyInto"

definition SiddhiProcessSpec_type :: "vendored \<Rightarrow> go_type" where
  "SiddhiProcessSpec_type V = TStruct
     [(''Apps'', TSlice Apps_type), (''SiddhiConfig'', TScalar KString),
      (''Container'', vd_type V ''Container''), (''MessagingSystem'', MessagingSystem_type),
      (''PVC'', vd_type V ''PersistentVolumeClaimSpec''),
      (''ImagePullSecret'', TScalar KString)]"

definition SiddhiProcessSpec_DeepCopyInto :: "vendored \<Rightarrow> copier" where
  "SiddhiProcessSpec_DeepCopyInto V = copy_struct
     [(''Apps'', copy_slice), (''Container'', vd_copy V ''Container''),
      (''MessagingSystem'', MessagingSystem_DeepCopyInto),
      (''PVC'', vd_copy V ''PersistentVolumeClaimSpec'')]"

definition SiddhiProcessSpec_DeepCopy :: "vendored \<Rightarrow> copier" where
  "SiddhiProcessSpec_DeepCopy V = copy_ptr (SiddhiProcessSpec_type V) (SiddhiProcessSpec_DeepCopyInto V)"

definition SiddhiProcessStatus_type :: "go_type" where
  "SiddhiProcessStatus_type = TStruct
     [(''Status'', TScalar KString), (''Ready'', TScalar KString),
      (''CurrentVersion'', TScalar KInt), (''PreviousVersion'', TScalar KInt),
      (''EventType'', TScalar KString), (''PartialApps'', TSlice PartialApp_type)]"

definition SiddhiProcessStatus_DeepCopyInto :: "copier" where
  "SiddhiProcessStatus_DeepCopyInto = copy_struct
     [(''PartialApps'', copy_each PartialApp_type PartialApp_DeepCopyInto)]"

definition SiddhiProcessStatus_DeepCopy :: "copier" where
  "SiddhiProcessStatus_DeepCopy = copy_ptr SiddhiProcessStatus_type SiddhiProcessStatus_DeepCopyInto"

definition SiddhiProcess_type :: "vendored \<Rightarrow> go_type" where
  "SiddhiProcess_type V = TStruct
     [(''TypeMeta'', TypeMeta_type), (''ObjectMeta'', vd_type V ''ObjectMeta''),
      (''Spec'', SiddhiProcessSpec_type V), (''Status'', SiddhiProcessStatus_type)]"

definition SiddhiProcess_DeepCopyInto :: "vendored \<Rightarrow> copier" where
  "SiddhiProcess_DeepCopyInto V = copy_struct
     [(''TypeMeta'', copy_value), (''ObjectMeta'', vd_copy V ''ObjectMeta''),
      (''Spec'', SiddhiProcessSpec_DeepCopyInto V),
      (''Status'', SiddhiProcessStatus_DeepCopyInto)]"

definition SiddhiProcess_DeepCopy :: "vendored \<Rightarrow> copier" where
  "SiddhiProcess_DeepCopy V = copy_ptr (SiddhiProcess_type V) (SiddhiProcess_DeepCopyInto V)"

definition SiddhiProcess_DeepCopyObject :: "vendored \<Rightarrow> go_value \<Rightarrow> go_heap \<Rightarrow> go_value option \<times> go_heap" where
  "SiddhiProcess_DeepCopyObject V v h =
     (let (c, h1) = SiddhiProcess_DeepCopy V v h in if c \<noteq> Nil_ref then (Some c, h1) else (None, h1))"

definition SiddhiProcessList_type :: "vendored \<Rightarrow> go_type" where
  "SiddhiProcessList_type V = TStruct
     [(''TypeMeta'', TypeMeta_type), (''ListMeta'', ListMeta_type),
      (''Items'', TSlice (SiddhiProcess_type V))]"

definition SiddhiProcessList_DeepCopyInto :: "vendored \<Rightarrow> copier" where
  "SiddhiProcessList_DeepCopyInto V = copy_struct
     [(''TypeMeta'', copy_value), (''ListMeta'', copy_value),
      (''Items'', copy_each (SiddhiProcess_type V) (SiddhiProcess_DeepCopyInto V))]"

definition SiddhiProcessList_DeepCopy :: "vendored \<Rightarrow> copier" where
  "SiddhiProcessList_DeepCopy V = copy_ptr (SiddhiProcessList_type V) (SiddhiProcessList_DeepCopyInto V)"

definition SiddhiProcessList_DeepCopyObject :: "vendored \<Rightarrow> go_value \<Rightarrow> go_heap \<Rightarrow> go_value option \<times> go_heap" where
  "SiddhiProcessList_DeepCopyObject V v h =
    (let (c, h1) = SiddhiProcessList_DeepCopy V v h in if c \<noteq> Nil_ref then (Some c, h1) else (None,
    h1))"

section \<open>The group nats.io\<close>

definition Nats_ServerConfig_type :: "go_type" where
  "Nats_ServerConfig_type = TStruct
     [(''Debug'', TScalar KBool), (''Trace'', TScalar KBool),
      (''WriteDeadline'', TScalar KString), (''MaxConnections'', TScalar KInt),
      (''MaxPayload'', TScalar KInt), (''MaxPending'', TScalar KInt),
      (''MaxSubscriptions'', TScalar KInt), (''MaxControlLine'', TScalar KInt),
      (''DisableLogtime'', TScalar KBool)]"

definition Nats_ServerConfig_DeepCopyInto :: "copier" where
  "Nats_ServerConfig_DeepCopyInto = copy_struct []"

definition Nats_ServerConfig_DeepCopy :: "copier" where
  "Nats_ServerConfig_DeepCopy = copy_ptr Nats_ServerConfig_type Nats_ServerConfig_DeepCopyInto"

definition PodPolicy_type :: "vendored \<Rightarrow> go_type" where
  "PodPolicy_type V = TStruct
     [(''Labels'', TMap), (''Annotations'', TMap), (''NodeSelector'', TMap),
      (''AntiAffinity'', TScalar KBool), (''Resources'', vd_type V ''ResourceRequirements''),
      (''Tolerations'', TSlice (vd_type V ''Toleration'')),
      (''NatsEnv'', TSlice (vd_type V ''EnvVar'')), (''EnableConfigReload'', TScalar KBool),
      (''ReloaderImage'', TScalar KString), (''ReloaderImageTag'', TScalar KString),
      (''ReloaderImagePullPolicy'', TScalar KString), (''EnableMetrics'', TScalar KBool),
      (''MetricsImage'', TScalar KString), (''MetricsImageTag'', TScalar KString),
      (''MetricsImagePullPolicy'', TScalar KString),
      (''EnableClientsHostPort'', TScalar KBool), (''AdvertiseExternalIP'', TScalar KBool),
      (''BootConfigContainerImage'', TScalar KString),
      (''BootConfigContainerImageTag'', TScalar KString),
      (''VolumeMounts'', TSlice (vd_type V ''VolumeMount''))]"

definition PodPolicy_DeepCopyInto :: "vendored \<Rightarrow> copier" where
  "PodPolicy_DeepCopyInto V = copy_struct
     [(''Labels'', copy_map), (''Annotations'', copy_map), (''NodeSelector'', copy_map),
      (''Resources'', vd_copy V ''ResourceRequirements''),
      (''Tolerations'', copy_each (vd_type V ''Toleration'') (vd_copy V ''Toleration'')),
      (''NatsEnv'', copy_each (vd_type V ''EnvVar'') (vd_copy V ''EnvVar'')),
      (''VolumeMounts'', copy_each (vd_type V ''VolumeMount'') (vd_copy V ''VolumeMount''))]"

definition PodPolicy_DeepCopy :: "vendored \<Rightarrow> copier" where
  "PodPolicy_DeepCopy V = copy_ptr (PodPolicy_type V) (PodPolicy_DeepCopyInto V)"

definition TLSConfig_type :: "go_type" where
  "TLSConfig_type = TStruct
     [(''ServerSecret'', TScalar KString), (''ServerSecretCAFileName'', TScalar KString),
      (''ServerSecretKeyFileName'', TScalar KString),
      (''ServerSecretCertFileName'', TScalar KString), (''RoutesSecret'', TScalar KString),
      (''RoutesSecretCAFileName'', TScalar KString),
      (''RoutesSecretKeyFileName'', TScalar KString),
      (''RoutesSecretCertFileName'', TScalar KString), (''GatewaySecret'', TScalar KString),
      (''GatewaySecretCAFileName'', TScalar KString),
      (''GatewaySecretKeyFileName'', TScalar KString),
      (''GatewaySecretCertFileName'', TScalar KString), (''LeafnodeSecret'', TScalar KString),
      (''LeafnodeSecretCAFileName'', TScalar KString),
      (''LeafnodeSecretKeyFileName'', TScalar KString),
      (''LeafnodeSecretCertFileName'', TScalar KString), (''EnableHttps'', TScalar KBool),
      (''ClientsTLSTimeout'', TScalar KFloat), (''RoutesTLSTimeout'', TScalar KFloat),
      (''GatewaysTLSTimeout'', TScalar KFloat), (''LeafnodesTLSTimeout'', TScalar KFloat),
      (''Verify'', TScalar KBool)]"

definition TLSConfig_DeepCopyInto :: "copier" where
  "TLSConfig_DeepCopyInto = copy_struct []"

definition TLSConfig_DeepCopy :: "copier" where
  "TLSConfig_DeepCopy = copy_ptr TLSConfig_type TLSConfig_DeepCopyInto"

definition AuthConfig_type :: "go_type" where
  "AuthConfig_type = TStruct
     [(''EnableServiceAccounts'', TScalar KBool), (''ClientsAuthSecret'', TScalar KString),
      (''ClientsAuthFile'', TScalar KString), (''ClientsAuthTimeout'', TScalar KInt),
      (''TLSVerifyAndMap'', TScalar KBool)]"

definition AuthConfig_DeepCopyInto :: "copier" where
  "AuthConfig_DeepCopyInto = copy_struct []"

definition AuthConfig_DeepCopy :: "copier" where
  "AuthConfig_DeepCopy = copy_ptr AuthConfig_type AuthConfig_DeepCopyInto"

definition ExtraRoute_type :: "go_type" where
  "ExtraRoute_type = TStruct
     [(''Cluster'', TScalar KString), (''Route'', TScalar KString)]"

definition ExtraRoute_DeepCopyInto :: "copier" where
  "ExtraRoute_DeepCopyInto = copy_struct []"

definition ExtraRoute_DeepCopy :: "copier" where
  "ExtraRoute_DeepCopy = copy_ptr ExtraRoute_type ExtraRoute_DeepCopyInto"

definition RemoteGatewayOpts_type :: "go_type" where
  "RemoteGatewayOpts_type = TStruct
     [(''Name'', TScalar KString), (''URL'', TScalar KString)]"

definition RemoteGatewayOpts_DeepCopyInto :: "copier" where
  "RemoteGatewayOpts_DeepCopyInto = copy_struct []"

definition RemoteGatewayOpts_DeepCopy :: "copier" where
  "RemoteGatewayOpts_DeepCopy = copy_ptr RemoteGatewayOpts_type RemoteGatewayOpts_DeepCopyInto"

definition GatewayConfig_type :: "go_type" where
  "GatewayConfig_type = TStruct
     [(''Name'', TScalar KString), (''Port'', TScalar KInt),
      (''Gateways'', TSlice (TPtr RemoteGatewayOpts_type))]"

definition GatewayConfig_DeepCopyInto :: "copier" where
  "GatewayConfig_DeepCopyInto = copy_struct
     [(''Gateways'', copy_each (TPtr RemoteGatewayOpts_type) (copy_ptr RemoteGatewayOpts_type copy_value))]"

definition GatewayConfig_DeepCopy :: "copier" where
  "GatewayConfig_DeepCopy = copy_ptr GatewayConfig_type GatewayConfig_DeepCopyInto"

definition LeafNodeConfig_type :: "go_type" where
  "LeafNodeConfig_type = TStruct
     [(''Port'', TScalar KInt)]"

definition LeafNodeConfig_DeepCopyInto :: "copier" where
  "LeafNodeConfig_DeepCopyInto = copy_struct []"

definition LeafNodeConfig_DeepCopy :: "copier" where
  "LeafNodeConfig_DeepCopy = copy_ptr LeafNodeConfig_type LeafNodeConfig_DeepCopyInto"

definition OperatorConfig_type :: "go_type" where
  "OperatorConfig_type = TStruct
     [(''Secret'', TScalar KString), (''SystemAccount'', TScalar KString),
      (''Resolver'', TScalar KString)]"

definition OperatorConfig_DeepCopyInto :: "copier" where
  "OperatorConfig_DeepCopyInto = copy_struct []"

definition OperatorConfig_DeepCopy :: "copier" where
  "OperatorConfig_DeepCopy = copy_ptr OperatorConfig_type OperatorConfig_DeepCopyInto"

definition ClusterSpec_type :: "vendored \<Rightarrow> go_type" where
  "ClusterSpec_type V = TStruct
     [(''Size'', TScalar KInt), (''Version'', TScalar KString),
      (''ServerImage'', TScalar KString), (''ServerConfig'', TPtr Nats_ServerConfig_type),
      (''Paused'', TScalar KBool), (''Pod'', TPtr (PodPolicy_type V)),
      (''TLS'', TPtr TLSConfig_type), (''Auth'', TPtr AuthConfig_type),
      (''LameDuckDurationSeconds'', TPtr (TScalar KInt)), (''NoAdvertise'', TScalar KBool),
      (''PodTemplate'', TPtr (vd_type V ''PodTemplateSpec'')),
      (''ExtraRoutes'', TSlice (TPtr ExtraRoute_type)),
      (''GatewayConfig'', TPtr GatewayConfig_type),
      (''LeafNodeConfig'', TPtr LeafNodeConfig_type),
      (''OperatorConfig'', TPtr OperatorConfig_type)]"

definition ClusterSpec_DeepCopyInto :: "vendored \<Rightarrow> copier" where
  "ClusterSpec_DeepCopyInto V = copy_struct
     [(''ServerConfig'', copy_ptr Nats_ServerConfig_type copy_value),
      (''Pod'', copy_ptr (PodPolicy_type V) (PodPolicy_DeepCopyInto V)),
      (''TLS'', copy_ptr TLSConfig_type copy_value),
      (''Auth'', copy_ptr AuthConfig_type copy_value),
      (''LameDuckDurationSeconds'', copy_ptr (TScalar KInt) copy_value),
      (''PodTemplate'', copy_ptr (vd_type V ''PodTemplateSpec'') (vd_copy V ''PodTemplateSpec'')),
      (''ExtraRoutes'', copy_each (TPtr ExtraRoute_type) (copy_ptr ExtraRoute_type copy_value)),
      (''GatewayConfig'', copy_ptr GatewayConfig_type GatewayConfig_DeepCopyInto),
      (''LeafNodeConfig'', copy_ptr LeafNodeConfig_type copy_value),
      (''OperatorConfig'', copy_ptr OperatorConfig_type copy_value)]"

definition ClusterSpec_DeepCopy :: "vendored \<Rightarrow> copier" where
  "ClusterSpec_DeepCopy V = copy_ptr (ClusterSpec_type V) (ClusterSpec_DeepCopyInto V)"

definition ClusterCondition_type :: "go_type" where
  "ClusterCondition_type = TStruct
     [(''Type'', TScalar KString), (''Reason'', TScalar KString),
      (''TransitionTime'', TScalar KString)]"

definition ClusterCondition_DeepCopyInto :: "copier" where
  "ClusterCondition_DeepCopyInto = copy_struct []"

definition ClusterCondition_DeepCopy :: "copier" where
  "ClusterCondition_DeepCopy = copy_ptr ClusterCondition_type ClusterCondition_DeepCopyInto"

definition ClusterStatus_type :: "go_type" where
  "ClusterStatus_type = TStruct
     [(''Phase'', TScalar KString), (''Reason'', TScalar KString),
      (''ControlPaused'', TScalar KBool), (''Conditions'', TSlice ClusterCondition_type),
      (''Size'', TScalar KInt), (''CurrentVersion'', TScalar KString)]"

definition ClusterStatus_DeepCopyInto :: "copier" where
  "ClusterStatus_DeepCopyInto = copy_struct
     [(''Conditions'', copy_slice)]"

definition ClusterStatus_DeepCopy :: "copier" where
  "ClusterStatus_DeepCopy = copy_ptr ClusterStatus_type ClusterStatus_DeepCopyInto"

definition NatsCluster_type :: "vendored \<Rightarrow> go_type" where
  "NatsCluster_type V = TStruct
     [(''TypeMeta'', TypeMeta_type), (''ObjectMeta'', vd_type V ''ObjectMeta''),
      (''Spec'', ClusterSpec_type V), (''Status'', ClusterStatus_type)]"

definition NatsCluster_DeepCopyInto :: "vendored \<Rightarrow> copier" where
  "NatsCluster_DeepCopyInto V = copy_struct
     [(''TypeMeta'', copy_value), (''ObjectMeta'', vd_copy V ''ObjectMeta''),
      (''Spec'', ClusterSpec_DeepCopyInto V), (''Status'', ClusterStatus_DeepCopyInto)]"

definition NatsCluster_DeepCopy :: "vendored \<Rightarrow> copier" where
  "NatsCluster_DeepCopy V = copy_ptr (NatsCluster_type V) (NatsCluster_DeepCopyInto V)"

definition NatsCluster_DeepCopyObject :: "vendored \<Rightarrow> go_value \<Rightarrow> go_heap \<Rightarrow> go_value option \<times> go_heap" where
  "NatsCluster_DeepCopyObject V v h =
     (let (c, h1) = NatsCluster_DeepCopy V v h in if c \<noteq> Nil_ref then (Some c, h1) else (None, h1))"

definition NatsClusterList_type :: "vendored \<Rightarrow> go_type" where
  "NatsClusterList_type V = TStruct
     [(''TypeMeta'', TypeMeta_type), (''ListMeta'', ListMeta_type),
      (''Items'', TSlice (NatsCluster_type V))]"

definition NatsClusterList_DeepCopyInto :: "vendored \<Rightarrow> copier" where
  "NatsClusterList_DeepCopyInto V = copy_struct
     [(''TypeMeta'', copy_value), (''ListMeta'', copy_value),
      (''Items'', copy_each (NatsCluster_type V) (NatsCluster_DeepCopyInto V))]"

definition NatsClusterList_DeepCopy :: "vendored \<Rightarrow> copier" where
  "NatsClusterList_DeepCopy V = copy_ptr (NatsClusterList_type V) (NatsClusterList_DeepCopyInto V)"

definition NatsClusterList_DeepCopyObject :: "vendored \<Rightarrow> go_value \<Rightarrow> go_heap \<Rightarrow> go_value option \<times> go_heap" where
  "NatsClusterList_DeepCopyObject V v h =
     (let (c, h1) = NatsClusterList_DeepCopy V v h in if c \<noteq> Nil_ref then (Some c, h1) else (None, h1))"

definition Permissions_type :: "go_type" where
  "Permissions_type = TStruct
     [(''Publish'', TSlice (TScalar KString)), (''Subscribe'', TSlice (TScalar KString))]"

definition Permissions_DeepCopyInto :: "copier" where
  "Permissions_DeepCopyInto = copy_struct
     [(''Publish'', copy_slice), (''Subscribe'', copy_slice)]"

definition Permissions_DeepCopy :: "copier" where
  "Permissions_DeepCopy = copy_ptr Permissions_type Permissions_DeepCopyInto"

definition ServiceRoleSpec_type :: "go_type" where
  "ServiceRoleSpec_type = TStruct
     [(''Permissions'', Permissions_type)]"

definition ServiceRoleSpec_DeepCopyInto :: "copier" where
  "ServiceRoleSpec_DeepCopyInto = copy_struct
     [(''Permissions'', Permissions_DeepCopyInto)]"

definition ServiceRoleSpec_DeepCopy :: "copier" where
  "ServiceRoleSpec_DeepCopy = copy_ptr ServiceRoleSpec_type ServiceRoleSpec_DeepCopyInto"

definition NatsServiceRole_type :: "vendored \<Rightarrow> go_type" where
  "NatsServiceRole_type V = TStruct
     [(''TypeMeta'', TypeMeta_type), (''ObjectMeta'', vd_type V ''ObjectMeta''),
      (''Spec'', ServiceRoleSpec_type)]"

definition NatsServiceRole_DeepCopyInto :: "vendored \<Rightarrow> copier" where
  "NatsServiceRole_DeepCopyInto V = copy_struct
     [(''TypeMeta'', copy_value), (''ObjectMeta'', vd_copy V ''ObjectMeta''),
      (''Spec'', ServiceRoleSpec_DeepCopyInto)]"

definition NatsServiceRole_DeepCopy :: "vendored \<Rightarrow> copier" where
  "NatsServiceRole_DeepCopy V = copy_ptr (NatsServiceRole_type V) (NatsServiceRole_DeepCopyInto V)"

definition NatsServiceRole_DeepCopyObject :: "vendored \<Rightarrow> go_value \<Rightarrow> go_heap \<Rightarrow> go_value option \<times> go_heap" where
  "NatsServiceRole_DeepCopyObject V v h =
     (let (c, h1) = NatsServiceRole_DeepCopy V v h in if c \<noteq> Nil_ref then (Some c, h1) else (None, h1))"

definition NatsServiceRoleList_type :: "vendored \<Rightarrow> go_type" where
  "NatsServiceRoleList_type V = TStruct
     [(''TypeMeta'', TypeMeta_type), (''ListMeta'', ListMeta_type),
      (''Items'', TSlice (NatsServiceRole_type V))]"

definition NatsServiceRoleList_DeepCopyInto :: "vendored \<Rightarrow> copier" where
  "NatsServiceRoleList_DeepCopyInto V = copy_struct
     [(''TypeMeta'', copy_value), (''ListMeta'', copy_value),
      (''Items'', copy_each (NatsServiceRole_type V) (NatsServiceRole_DeepCopyInto V))]"

definition NatsServiceRoleList_DeepCopy :: "vendored \<Rightarrow> copier" where
  "NatsServiceRoleList_DeepCopy V = copy_ptr (NatsServiceRoleList_type V) (NatsServiceRoleList_DeepCopyInto V)"

definition NatsServiceRoleList_DeepCopyObject :: "vendored \<Rightarrow> go_value \<Rightarrow> go_heap \<Rightarrow> go_value option \<times> go_heap" where
  "NatsServiceRoleList_DeepCopyObject V v h =
    (let (c, h1) = NatsServiceRoleList_DeepCopy V v h in if c \<noteq> Nil_ref then (Some c, h1) else
    (None, h1))"

section \<open>The group streaming.nats.io\<close>

definition Stan_ServerConfig_type :: "go_type" where
  "Stan_ServerConfig_type = TStruct
     [(''Debug'', TScalar KBool), (''Trace'', TScalar KBool),
      (''RaftLogging'', TScalar KBool), (''StoreDir'', TScalar KString)]"

definition Stan_ServerConfig_DeepCopyInto :: "copier" where
  "Stan_ServerConfig_DeepCopyInto = copy_struct []"

definition Stan_ServerConfig_DeepCopy :: "copier" where
  "Stan_ServerConfig_DeepCopy = copy_ptr Stan_ServerConfig_type Stan_ServerConfig_DeepCopyInto"

definition NatsStreamingClusterSpec_type :: "vendored \<Rightarrow> go_type" where
  "NatsStreamingClusterSpec_type V = TStruct
     [(''Size'', TScalar KInt), (''Image'', TScalar KString),
      (''NatsService'', TScalar KString), (''Config'', TPtr Stan_ServerConfig_type),
      (''StoreType'', TScalar KString), (''ConfigFile'', TScalar KString),
      (''PodTemplate'', TPtr (vd_type V ''PodTemplateSpec''))]"

definition NatsStreamingClusterSpec_DeepCopyInto :: "vendored \<Rightarrow> copier" where
  "NatsStreamingClusterSpec_DeepCopyInto V = copy_struct
     [(''Config'', copy_ptr Stan_ServerConfig_type copy_value),
      (''PodTemplate'', copy_ptr (vd_type V ''PodTemplateSpec'') (vd_copy V ''PodTemplateSpec''))]"

definition NatsStreamingClusterSpec_DeepCopy :: "vendored \<Rightarrow> copier" where
  "NatsStreamingClusterSpec_DeepCopy V = copy_ptr (NatsStreamingClusterSpec_type V) (NatsStreamingClusterSpec_DeepCopyInto V)"

definition NatsStreamingClusterStatus_type :: "go_type" where
  "NatsStreamingClusterStatus_type = TStruct
     []"

definition NatsStreamingClusterStatus_DeepCopyInto :: "copier" where
  "NatsStreamingClusterStatus_DeepCopyInto = copy_struct []"

definition NatsStreamingClusterStatus_DeepCopy :: "copier" where
  "NatsStreamingClusterStatus_DeepCopy = copy_ptr NatsStreamingClusterStatus_type NatsStreamingClusterStatus_DeepCopyInto"

definition NatsStreamingCluster_type :: "vendored \<Rightarrow> go_type" where
  "NatsStreamingCluster_type V = TStruct
     [(''TypeMeta'', TypeMeta_type), (''ObjectMeta'', vd_type V ''ObjectMeta''),
      (''Spec'', NatsStreamingClusterSpec_type V),
      (''Status'', NatsStreamingClusterStatus_type)]"

definition NatsStreamingCluster_DeepCopyInto :: "vendored \<Rightarrow> copier" where
  "NatsStreamingCluster_DeepCopyInto V = copy_struct
     [(''TypeMeta'', copy_value), (''ObjectMeta'', vd_copy V ''ObjectMeta''),
      (''Spec'', NatsStreamingClusterSpec_DeepCopyInto V), (''Status'', copy_value)]"

definition NatsStreamingCluster_DeepCopy :: "vendored \<Rightarrow> copier" where
  "NatsStreamingCluster_DeepCopy V = copy_ptr (NatsStreamingCluster_type V) (NatsStreamingCluster_DeepCopyInto V)"

definition NatsStreamingCluster_DeepCopyObject :: "vendored \<Rightarrow> go_value \<Rightarrow> go_heap \<Rightarrow> go_value option \<times> go_heap" where
  "NatsStreamingCluster_DeepCopyObject V v h =
    (let (c, h1) = NatsStreamingCluster_DeepCopy V v h in if c \<noteq> Nil_ref then (Some c, h1) else
    (None, h1))"

definition NatsStreamingClusterList_type :: "vendored \<Rightarrow> go_type" where
  "NatsStreamingClusterList_type V = TStruct
     [(''TypeMeta'', TypeMeta_type), (''ListMeta'', ListMeta_type),
      (''Items'', TSlice (NatsStreamingCluster_type V))]"

definition NatsStreamingClusterList_DeepCopyInto :: "vendored \<Rightarrow> copier" where
  "NatsStreamingClusterList_DeepCopyInto V = copy_struct
     [(''TypeMeta'', copy_value), (''ListMeta'', copy_value),
      (''Items'', copy_each (NatsStreamingCluster_type V) (NatsStreamingCluster_DeepCopyInto V))]"

definition NatsStreamingClusterList_DeepCopy :: "vendored \<Rightarrow> copier" where
  "NatsStreamingClusterList_DeepCopy V = copy_ptr (NatsStreamingClusterList_type V) (NatsStreamingClusterList_DeepCopyInto V)"

definition NatsStreamingClusterList_DeepCopyObject :: "vendored \<Rightarrow> go_value \<Rightarrow> go_heap \<Rightarrow> go_value option \<times> go_heap" where
  "NatsStreamingClusterList_DeepCopyObject V v h =
    (let (c, h1) = NatsStreamingClusterList_DeepCopy V v h in if c \<noteq> Nil_ref then (Some c, h1) else
    (None, h1))"

section \<open>Every copy is deep\<close>

lemma meta_flat [simp]: "flat TypeMeta_type" "flat ListMeta_type"
  by (simp_all add: TypeMeta_type_def ListMeta_type_def)

lemmas deep_copy_simps = deep_copy_struct deep_copy_ptr deep_copy_slice deep_copy_each deep_copy_map deep_value
  copies_fields_def

lemma types_flat [simp]:
  "flat TLS_type"
  "flat Apps_type"
  "flat Nats_ServerConfig_type"
  "flat TLSConfig_type"
  "flat AuthConfig_type"
  "flat ExtraRoute_type"
  "flat RemoteGatewayOpts_type"
  "flat LeafNodeConfig_type"
  "flat OperatorConfig_type"
  "flat ClusterCondition_type"
  "flat Stan_ServerConfig_type"
  "flat NatsStreamingClusterStatus_type"
  by (simp_all add: TLS_type_def Apps_type_def Nats_ServerConfig_type_def TLSConfig_type_def AuthConfig_type_def ExtraRoute_type_def RemoteGatewayOpts_type_def LeafNodeConfig_type_def OperatorConfig_type_def ClusterCondition_type_def Stan_ServerConfig_type_def NatsStreamingClusterStatus_type_def)

locale vendored_copies =
  fixes V :: vendored
  assumes deep: "deep_copies (vd_type V n) (vd_copy V n)"
begin

lemma TLS_deep [simp]: "deep_copies TLS_type TLS_DeepCopyInto"
  by (simp add: TLS_type_def TLS_DeepCopyInto_def deep_copy_simps deep)

lemma MessagingConfig_deep [simp]: "deep_copies MessagingConfig_type MessagingConfig_DeepCopyInto"
  by (simp add: MessagingConfig_type_def MessagingConfig_DeepCopyInto_def deep_copy_simps deep)

lemma MessagingSystem_deep [simp]: "deep_copies MessagingSystem_type MessagingSystem_DeepCopyInto"
  by (simp add: MessagingSystem_type_def MessagingSystem_DeepCopyInto_def deep_copy_simps deep)

lemma Apps_deep [simp]: "deep_copies Apps_type Apps_DeepCopyInto"
  by (simp add: Apps_type_def Apps_DeepCopyInto_def deep_copy_simps deep)

lemma PartialApp_deep [simp]: "deep_copies PartialApp_type PartialApp_DeepCopyInto"
  by (simp add: PartialApp_type_def PartialApp_DeepCopyInto_def deep_copy_simps deep)

lemma SiddhiProcessSpec_deep [simp]: "deep_copies (SiddhiProcessSpec_type V) (SiddhiProcessSpec_DeepCopyInto V)"
  by (simp add: SiddhiProcessSpec_type_def SiddhiProcessSpec_DeepCopyInto_def deep_copy_simps deep)

lemma SiddhiProcessStatus_deep [simp]: "deep_copies SiddhiProcessStatus_type SiddhiProcessStatus_DeepCopyInto"
  by (simp add: SiddhiProcessStatus_type_def SiddhiProcessStatus_DeepCopyInto_def deep_copy_simps deep)

lemma SiddhiProcess_deep [simp]: "deep_copies (SiddhiProcess_type V) (SiddhiProcess_DeepCopyInto V)"
  by (simp add: SiddhiProcess_type_def SiddhiProcess_DeepCopyInto_def deep_copy_simps deep)

lemma SiddhiProcessList_deep [simp]: "deep_copies (SiddhiProcessList_type V) (SiddhiProcessList_DeepCopyInto V)"
  by (simp add: SiddhiProcessList_type_def SiddhiProcessList_DeepCopyInto_def deep_copy_simps deep)

lemma Nats_ServerConfig_deep [simp]: "deep_copies Nats_ServerConfig_type Nats_ServerConfig_DeepCopyInto"
  by (simp add: Nats_ServerConfig_type_def Nats_ServerConfig_DeepCopyInto_def deep_copy_simps deep)

lemma PodPolicy_deep [simp]: "deep_copies (PodPolicy_type V) (PodPolicy_DeepCopyInto V)"
  by (simp add: PodPolicy_type_def PodPolicy_DeepCopyInto_def deep_copy_simps deep)

lemma TLSConfig_deep [simp]: "deep_copies TLSConfig_type TLSConfig_DeepCopyInto"
  by (simp add: TLSConfig_type_def TLSConfig_DeepCopyInto_def deep_copy_simps deep)

lemma AuthConfig_deep [simp]: "deep_copies AuthConfig_type AuthConfig_DeepCopyInto"
  by (simp add: AuthConfig_type_def AuthConfig_DeepCopyInto_def deep_copy_simps deep)

lemma ExtraRoute_deep [simp]: "deep_copies ExtraRoute_type ExtraRoute_DeepCopyInto"
  by (simp add: ExtraRoute_type_def ExtraRoute_DeepCopyInto_def deep_copy_simps deep)

lemma RemoteGatewayOpts_deep [simp]: "deep_copies RemoteGatewayOpts_type RemoteGatewayOpts_DeepCopyInto"
  by (simp add: RemoteGatewayOpts_type_def RemoteGatewayOpts_DeepCopyInto_def deep_copy_simps deep)

lemma GatewayConfig_deep [simp]: "deep_copies GatewayConfig_type GatewayConfig_DeepCopyInto"
  by (simp add: GatewayConfig_type_def GatewayConfig_DeepCopyInto_def deep_copy_simps deep)

lemma LeafNodeConfig_deep [simp]: "deep_copies LeafNodeConfig_type LeafNodeConfig_DeepCopyInto"
  by (simp add: LeafNodeConfig_type_def LeafNodeConfig_DeepCopyInto_def deep_copy_simps deep)

lemma OperatorConfig_deep [simp]: "deep_copies OperatorConfig_type OperatorConfig_DeepCopyInto"
  by (simp add: OperatorConfig_type_def OperatorConfig_DeepCopyInto_def deep_copy_simps deep)

lemma ClusterSpec_deep [simp]: "deep_copies (ClusterSpec_type V) (ClusterSpec_DeepCopyInto V)"
  by (simp add: ClusterSpec_type_def ClusterSpec_DeepCopyInto_def deep_copy_simps deep)

lemma ClusterCondition_deep [simp]: "deep_copies ClusterCondition_type ClusterCondition_DeepCopyInto"
  by (simp add: ClusterCondition_type_def ClusterCondition_DeepCopyInto_def deep_copy_simps deep)

lemma ClusterStatus_deep [simp]: "deep_copies ClusterStatus_type ClusterStatus_DeepCopyInto"
  by (simp add: ClusterStatus_type_def ClusterStatus_DeepCopyInto_def deep_copy_simps deep)

lemma NatsCluster_deep [simp]: "deep_copies (NatsCluster_type V) (NatsCluster_DeepCopyInto V)"
  by (simp add: NatsCluster_type_def NatsCluster_DeepCopyInto_def deep_copy_simps deep)

lemma NatsClusterList_deep [simp]: "deep_copies (NatsClusterList_type V) (NatsClusterList_DeepCopyInto V)"
  by (simp add: NatsClusterList_type_def NatsClusterList_DeepCopyInto_def deep_copy_simps deep)

lemma Permissions_deep [simp]: "deep_copies Permissions_type Permissions_DeepCopyInto"
  by (simp add: Permissions_type_def Permissions_DeepCopyInto_def deep_copy_simps deep)

lemma ServiceRoleSpec_deep [simp]: "deep_copies ServiceRoleSpec_type ServiceRoleSpec_DeepCopyInto"
  by (simp add: ServiceRoleSpec_type_def ServiceRoleSpec_DeepCopyInto_def deep_copy_simps deep)

lemma NatsServiceRole_deep [simp]: "deep_copies (NatsServiceRole_type V) (NatsServiceRole_DeepCopyInto V)"
  by (simp add: NatsServiceRole_type_def NatsServiceRole_DeepCopyInto_def deep_copy_simps deep)

lemma NatsServiceRoleList_deep [simp]: "deep_copies (NatsServiceRoleList_type V) (NatsServiceRoleList_DeepCopyInto V)"
  by (simp add: NatsServiceRoleList_type_def NatsServiceRoleList_DeepCopyInto_def deep_copy_simps deep)

lemma Stan_ServerConfig_deep [simp]: "deep_copies Stan_ServerConfig_type Stan_ServerConfig_DeepCopyInto"
  by (simp add: Stan_ServerConfig_type_def Stan_ServerConfig_DeepCopyInto_def deep_copy_simps deep)

lemma NatsStreamingClusterSpec_deep [simp]: "deep_copies (NatsStreamingClusterSpec_type V) (NatsStreamingClusterSpec_DeepCopyInto V)"
  by (simp add: NatsStreamingClusterSpec_type_def NatsStreamingClusterSpec_DeepCopyInto_def deep_copy_simps deep)

lemma NatsStreamingClusterStatus_deep [simp]: "deep_copies NatsStreamingClusterStatus_type NatsStreamingClusterStatus_DeepCopyInto"
  by (simp add: NatsStreamingClusterStatus_type_def NatsStreamingClusterStatus_DeepCopyInto_def deep_copy_simps deep)

lemma NatsStreamingCluster_deep [simp]: "deep_copies (NatsStreamingCluster_type V) (NatsStreamingCluster_DeepCopyInto V)"
  by (simp add: NatsStreamingCluster_type_def NatsStreamingCluster_DeepCopyInto_def deep_copy_simps deep)

lemma NatsStreamingClusterList_deep [simp]: "deep_copies (NatsStreamingClusterList_type V) (NatsStreamingClusterList_DeepCopyInto V)"
  by (simp add: NatsStreamingClusterList_type_def NatsStreamingClusterList_DeepCopyInto_def deep_copy_simps deep)

end

text \<open>All copy functions of the three groups, and those of the kinds a client reads and writes.\<close>

definition deep_copy_functions :: "vendored \<Rightarrow> (go_type \<times> copier) list" where
  "deep_copy_functions V =
     [(TLS_type, TLS_DeepCopy),
      (MessagingConfig_type, MessagingConfig_DeepCopy),
      (MessagingSystem_type, MessagingSystem_DeepCopy),
      (Apps_type, Apps_DeepCopy),
      (PartialApp_type, PartialApp_DeepCopy),
      (SiddhiProcessSpec_type V, SiddhiProcessSpec_DeepCopy V),
      (SiddhiProcessStatus_type, SiddhiProcessStatus_DeepCopy),
      (SiddhiProcess_type V, SiddhiProcess_DeepCopy V),
      (SiddhiProcessList_type V, SiddhiProcessList_DeepCopy V),
      (Nats_ServerConfig_type, Nats_ServerConfig_DeepCopy),
      (PodPolicy_type V, PodPolicy_DeepCopy V),
      (TLSConfig_type, TLSConfig_DeepCopy),
      (AuthConfig_type, AuthConfig_DeepCopy),
      (ExtraRoute_type, ExtraRoute_DeepCopy),
      (RemoteGatewayOpts_type, RemoteGatewayOpts_DeepCopy),
      (GatewayConfig_type, GatewayConfig_DeepCopy),
      (LeafNodeConfig_type, LeafNodeConfig_DeepCopy),
      (OperatorConfig_type, OperatorConfig_DeepCopy),
      (ClusterSpec_type V, ClusterSpec_DeepCopy V),
      (ClusterCondition_type, ClusterCondition_DeepCopy),
      (ClusterStatus_type, ClusterStatus_DeepCopy),
      (NatsCluster_type V, NatsCluster_DeepCopy V),
      (NatsClusterList_type V, NatsClusterList_DeepCopy V),
      (Permissions_type, Permissions_DeepCopy),
      (ServiceRoleSpec_type, ServiceRoleSpec_DeepCopy),
      (NatsServiceRole_type V, NatsServiceRole_DeepCopy V),
      (NatsServiceRoleList_type V, NatsServiceRoleList_DeepCopy V),
      (Stan_ServerConfig_type, Stan_ServerConfig_DeepCopy),
      (NatsStreamingClusterSpec_type V, NatsStreamingClusterSpec_DeepCopy V),
      (NatsStreamingClusterStatus_type, NatsStreamingClusterStatus_DeepCopy),
      (NatsStreamingCluster_type V, NatsStreamingCluster_DeepCopy V),
      (NatsStreamingClusterList_type V, NatsStreamingClusterList_DeepCopy V)]"

definition api_objects :: "vendored \<Rightarrow> (go_type \<times> (go_value \<Rightarrow> go_heap \<Rightarrow> go_value option \<times> go_heap)) list" where
  "api_objects V =
     [(SiddhiProcess_type V, SiddhiProcess_DeepCopyObject V),
      (SiddhiProcessList_type V, SiddhiProcessList_DeepCopyObject V),
      (NatsCluster_type V, NatsCluster_DeepCopyObject V),
      (NatsClusterList_type V, NatsClusterList_DeepCopyObject V),
      (NatsServiceRole_type V, NatsServiceRole_DeepCopyObject V),
      (NatsServiceRoleList_type V, NatsServiceRoleList_DeepCopyObject V),
      (NatsStreamingCluster_type V, NatsStreamingCluster_DeepCopyObject V),
      (NatsStreamingClusterList_type V, NatsStreamingClusterList_DeepCopyObject V)]"

text \<open>A deep copy behind a pointer, as an interface value.\<close>

definition object_copy :: "go_type \<Rightarrow> (go_value \<Rightarrow> go_heap \<Rightarrow> go_value option \<times> go_heap) \<Rightarrow> bool" where
  "object_copy t f \<longleftrightarrow>
     (\<exists>c. deep_copies t c \<and>
    (\<forall>v h. f v h = (let (x, h1) = copy_ptr t c v h in if x \<noteq> Nil_ref then (Some x, h1) else
    (None, h1))))"

lemma object_copyI:
  "deep_copies t c \<Longrightarrow>
    (\<And>v h. f v h = (let (x, h1) = copy_ptr t c v h in if x \<noteq> Nil_ref then (Some x, h1) else
    (None, h1))) \<Longrightarrow>
    object_copy t f"
  by (auto simp: object_copy_def)

context vendored_copies begin

lemma functions_deep: "(t, f) \<in> set (deep_copy_functions V) \<Longrightarrow> deep_copies (TPtr t) f"
  by (auto simp: deep_copy_functions_def deep_copy_ptr
    TLS_DeepCopy_def MessagingConfig_DeepCopy_def MessagingSystem_DeepCopy_def Apps_DeepCopy_def
    PartialApp_DeepCopy_def SiddhiProcessSpec_DeepCopy_def SiddhiProcessStatus_DeepCopy_def
    SiddhiProcess_DeepCopy_def SiddhiProcessList_DeepCopy_def Nats_ServerConfig_DeepCopy_def
    PodPolicy_DeepCopy_def TLSConfig_DeepCopy_def AuthConfig_DeepCopy_def ExtraRoute_DeepCopy_def
    RemoteGatewayOpts_DeepCopy_def GatewayConfig_DeepCopy_def LeafNodeConfig_DeepCopy_def
    OperatorConfig_DeepCopy_def ClusterSpec_DeepCopy_def ClusterCondition_DeepCopy_def
    ClusterStatus_DeepCopy_def NatsCluster_DeepCopy_def NatsClusterList_DeepCopy_def
    Permissions_DeepCopy_def ServiceRoleSpec_DeepCopy_def NatsServiceRole_DeepCopy_def
    NatsServiceRoleList_DeepCopy_def Stan_ServerConfig_DeepCopy_def NatsStreamingClusterSpec_DeepCopy_def
    NatsStreamingClusterStatus_DeepCopy_def NatsStreamingCluster_DeepCopy_def
    NatsStreamingClusterList_DeepCopy_def)

lemma SiddhiProcess_object [simp]: "object_copy (SiddhiProcess_type V) (SiddhiProcess_DeepCopyObject V)"
  by (rule object_copyI [where c = "SiddhiProcess_DeepCopyInto V"]) (simp_all add: SiddhiProcess_DeepCopyObject_def SiddhiProcess_DeepCopy_def)

lemma SiddhiProcessList_object [simp]: "object_copy (SiddhiProcessList_type V) (SiddhiProcessList_DeepCopyObject V)"
  by (rule object_copyI [where c = "SiddhiProcessList_DeepCopyInto V"]) (simp_all add: SiddhiProcessList_DeepCopyObject_def SiddhiProcessList_DeepCopy_def)

lemma NatsCluster_object [simp]: "object_copy (NatsCluster_type V) (NatsCluster_DeepCopyObject V)"
  by (rule object_copyI [where c = "NatsCluster_DeepCopyInto V"]) (simp_all add: NatsCluster_DeepCopyObject_def NatsCluster_DeepCopy_def)

lemma NatsClusterList_object [simp]: "object_copy (NatsClusterList_type V) (NatsClusterList_DeepCopyObject V)"
  by (rule object_copyI [where c = "NatsClusterList_DeepCopyInto V"]) (simp_all add: NatsClusterList_DeepCopyObject_def NatsClusterList_DeepCopy_def)

lemma NatsServiceRole_object [simp]: "object_copy (NatsServiceRole_type V) (NatsServiceRole_DeepCopyObject V)"
  by (rule object_copyI [where c = "NatsServiceRole_DeepCopyInto V"]) (simp_all add: NatsServiceRole_DeepCopyObject_def NatsServiceRole_DeepCopy_def)

lemma NatsServiceRoleList_object [simp]: "object_copy (NatsServiceRoleList_type V) (NatsServiceRoleList_DeepCopyObject V)"
  by (rule object_copyI [where c = "NatsServiceRoleList_DeepCopyInto V"]) (simp_all add: NatsServiceRoleList_DeepCopyObject_def NatsServiceRoleList_DeepCopy_def)

lemma NatsStreamingCluster_object [simp]: "object_copy (NatsStreamingCluster_type V) (NatsStreamingCluster_DeepCopyObject V)"
  by (rule object_copyI [where c = "NatsStreamingCluster_DeepCopyInto V"]) (simp_all add: NatsStreamingCluster_DeepCopyObject_def NatsStreamingCluster_DeepCopy_def)

lemma NatsStreamingClusterList_object [simp]: "object_copy (NatsStreamingClusterList_type V) (NatsStreamingClusterList_DeepCopyObject V)"
  by (rule object_copyI [where c = "NatsStreamingClusterList_DeepCopyInto V"]) (simp_all add: NatsStreamingClusterList_DeepCopyObject_def NatsStreamingClusterList_DeepCopy_def)

lemma objects_copied: "(t, f) \<in> set (api_objects V) \<Longrightarrow> object_copy t f"
  by (auto simp: api_objects_def)

end

lemma object_copyD:
  assumes "object_copy t f" and ok: "heap_ok h" and x: "content (TPtr t) h v = Some x" and run: "f v h = (r, h')"
  shows "(v = Nil_ref \<and> r = None \<and> h' = h) \<or>
    (\<exists>c v'. v \<noteq> Nil_ref \<and> r = Some v' \<and> v' \<noteq> Nil_ref \<and> deep_copies (TPtr t) c \<and> c v h = (v', h'))"
proof -
  from assms(1) obtain c where c: "deep_copies t c"
    "\<And>v h. f v h = (let (x, h1) = copy_ptr t c v h in if x \<noteq> Nil_ref then (Some x, h1) else (None, h1))"
    unfolding object_copy_def by blast
  obtain y h1 where y: "copy_ptr t c v h = (y, h1)" by force
  from x consider "v = Nil_ref" | a where "v = Ptr a" by (auto split: go_value.splits)
  then show ?thesis
  proof cases
    case 1
    with c(2) [of v h] run show ?thesis by (simp add: copy_ptr_def)
  next
    case (2 a)
    with y have "y \<noteq> Nil_ref" by (auto simp: copy_ptr_def split: prod.splits)
    with 2 y run c(2) [of v h] deep_copy_ptr [OF c(1)] show ?thesis by auto
  qed
qed

text \<open>
  The Kubernetes types for the concrete cases: each struct with the fields that show its kinds of
  reference, copied field by field.
\<close>

definition core_types :: "string \<Rightarrow> go_type" where
  "core_types n =
     (let str = TScalar KString;
          meta = TStruct [(''Name'', str), (''Namespace'', str), (''Generation'', TScalar KInt), (''Labels'', TMap),
            (''Annotations'', TMap), (''Finalizers'', TSlice str),
            (''OwnerReferences'', TSlice (TStruct [(''Name'', str), (''UID'', str), (''Controller'', TPtr (TScalar KBool))]))];
          resources = TStruct [(''Limits'', TMap), (''Requests'', TMap)];
          env = TStruct [(''Name'', str), (''Value'', str),
            (''ValueFrom'', TPtr (TStruct [(''FieldRef'', TPtr (TStruct [(''FieldPath'', str)]))]))];
          mount = TStruct [(''Name'', str), (''MountPath'', str), (''MountPropagation'', TPtr str)];
          container = TStruct [(''Name'', str), (''Image'', str), (''Command'', TSlice str), (''Args'', TSlice str),
            (''Env'', TSlice env), (''Resources'', resources), (''VolumeMounts'', TSlice mount)]
      in if n = ''ObjectMeta'' then meta
         else if n = ''Container'' then container
         else if n = ''PersistentVolumeClaimSpec'' then
           TStruct [(''AccessModes'', TSlice str), (''Resources'', resources), (''StorageClassName'', TPtr str)]
         else if n = ''PodTemplateSpec'' then
           TStruct [(''ObjectMeta'', meta), (''Spec'', TStruct [(''Containers'', TSlice container)])]
         else if n = ''ResourceRequirements'' then resources
         else if n = ''Toleration'' then TStruct [(''Key'', str), (''TolerationSeconds'', TPtr (TScalar KInt))]
         else if n = ''EnvVar'' then env
         else mount)"

definition core_copies :: vendored where
  "core_copies = \<lparr>vd_type = core_types, vd_copy = \<lambda>n. copy_type (core_types n)\<rparr>"

lemma core_types_ok: "type_ok (core_types n)"
  by (simp add: core_types_def Let_def)

interpretation core: vendored_copies core_copies
  by unfold_locales (simp add: core_copies_def deep_copy_type core_types_ok)

text \<open>A process of two applications, with labels, and a status of one partial application.\<close>

definition sample_object :: go_value where
  "sample_object =
     (let str = (\<lambda>s. Scalar (SString s));
          zero = zero_value (SiddhiProcess_type core_copies)
      in set_field ''ObjectMeta'' (set_field ''Name'' (str ''monitor'') (set_field ''Labels'' (Map_ref 1) (field ''ObjectMeta'' zero)))
          (set_field ''Spec'' (set_field ''Apps'' (Slice 2 0 2) (field ''Spec'' zero))
            (set_field ''Status'' (set_field ''PartialApps'' (Slice 3 0 1) (field ''Status'' zero)) zero)))"

definition sample_heap :: go_heap where
  "sample_heap =
     (let str = (\<lambda>s. Scalar (SString s));
          app = (\<lambda>cm. Struct [(''ConfigMap'', str cm), (''Script'', str [])])
      in \<lparr>hp_blocks = [0 \<mapsto> Var sample_object, 1 \<mapsto> Table [(''team'', ''a'')], 2 \<mapsto> Array [app ''app-0'', app ''app-1''],
              3 \<mapsto> Array [Struct [(''DeploymentName'', str ''monitor-0''), (''Apps'', Slice 4 0 1)]],
              4 \<mapsto> Array [str ''Monitor'']],
          hp_next = 5\<rparr>)"

lemma sample_heap_ok: "heap_ok sample_heap"
  by (simp add: heap_ok_def sample_heap_def Let_def)

lemmas sample_defs = sample_heap_def sample_object_def SiddhiProcess_type_def SiddhiProcessSpec_type_def
  SiddhiProcessStatus_type_def Apps_type_def PartialApp_type_def MessagingSystem_type_def MessagingConfig_type_def
  TypeMeta_type_def core_copies_def core_types_def Let_def field_def set_field_def

lemma sample_content: "content (TPtr (SiddhiProcess_type core_copies)) sample_heap (Ptr 0) \<noteq> None"
  by (simp add: sample_defs slice_elems_def array_def minv_def)

section \<open>Properties\<close>

text \<open>C26: Every generated DeepCopy of the three API groups is deep, given that the copies of the Kubernetes
  structs they embed are: from a heap where the pointer has a value of its type, the call leaves the
  storage there is alone, returns a pointer that reads the same through every level of pointers, slices
  and maps (nil for nil, an empty slice for an empty one), and all the storage it refers to is new.\<close>

theorem DeepCopy_deep:
  assumes "\<forall>n. deep_copies (vd_type V n) (vd_copy V n)" and "(t, f) \<in> set (deep_copy_functions V)"
    and "heap_ok h" and "content (TPtr t) h v \<noteq> None" and "f v h = (v', h')"
  shows "extends h h' \<and> content (TPtr t) h' v' = content (TPtr t) h v \<and> (\<forall>a \<in> owns (TPtr t) h' v'. hp_next h \<le> a)"
proof -
  have "deep_copies (TPtr t) f"
    by (rule vendored_copies.functions_deep [OF vendored_copies.intro]) (use assms(1,2) in auto)
  from deep_copiesD [OF this assms(3-5)] show ?thesis .
qed

theorem DeepCopy_deep_witness:
  "\<exists>v' h'. SiddhiProcess_DeepCopy core_copies (Ptr 0) sample_heap = (v', h') \<and> extends sample_heap h' \<and>
     content (TPtr (SiddhiProcess_type core_copies)) h' v' = content (TPtr (SiddhiProcess_type core_copies)) sample_heap (Ptr 0)"
proof -
  obtain v' h' where run: "SiddhiProcess_DeepCopy core_copies (Ptr 0) sample_heap = (v', h')" by force
  have "(SiddhiProcess_type core_copies, SiddhiProcess_DeepCopy core_copies) \<in> set (deep_copy_functions core_copies)"
    by (simp add: deep_copy_functions_def)
  from DeepCopy_deep [OF _ this sample_heap_ok sample_content run] core.deep run show ?thesis by blast
qed

text \<open>C7: DeepCopyObject of every kind the operator reads or writes (processes, NATS clusters and service
  roles, NATS streaming clusters, and their lists) gives the nil interface exactly for a nil pointer, never
  an interface that holds one, and otherwise an object that reads like the original and is independent of
  it: they share no storage, and whatever is written to the storage of one, the other reads as before. The
  operator changes objects it got from the cache of its client; the cache keeps its own.\<close>

theorem DeepCopyObject_independent:
  assumes "\<forall>n. deep_copies (vd_type V n) (vd_copy V n)" and "(t, f) \<in> set (api_objects V)"
    and "heap_ok h" and "content (TPtr t) h v = Some x" and "f v h = (r, h')"
  shows "case r of
      None \<Rightarrow> v = Nil_ref \<and> h' = h
    | Some v' \<Rightarrow>
        v \<noteq> Nil_ref \<and> v' \<noteq> Nil_ref \<and> content (TPtr t) h' v' = Some x \<and> content (TPtr t) h' v = Some x \<and>
        owns (TPtr t) h' v \<inter> owns (TPtr t) h' v' = {} \<and>
        (\<forall>g. (\<forall>a. a \<notin> owns (TPtr t) h' v' \<longrightarrow> hp_blocks g a = hp_blocks h' a) \<longrightarrow> content (TPtr t) g v = Some x) \<and>
        (\<forall>g. (\<forall>a. a \<notin> owns (TPtr t) h' v \<longrightarrow> hp_blocks g a = hp_blocks h' a) \<longrightarrow> content (TPtr t) g v' = Some x)"
proof -
  have "object_copy t f"
    by (rule vendored_copies.objects_copied [OF vendored_copies.intro]) (use assms(1,2) in auto)
  from object_copyD [OF this assms(3-5)] consider "v = Nil_ref" "r = None" "h' = h"
    | c v' where "v \<noteq> Nil_ref" "r = Some v'" "v' \<noteq> Nil_ref" "deep_copies (TPtr t) c" "c v h = (v', h')"
    by blast
  then show ?thesis
  proof cases
    case 2
    note d = deep_copy_independent [OF 2(4) assms(3,4) 2(5)]
    from 2(1-3) d(1-3) show ?thesis
      by (simp del: content.simps owns.simps) (use d(4,5) in blast)
  qed simp
qed

theorem DeepCopyObject_independent_witness:
  "\<exists>v' h'. SiddhiProcess_DeepCopyObject core_copies (Ptr 0) sample_heap = (Some v', h') \<and>
     (\<forall>g. (\<forall>a. a \<notin> owns (TPtr (SiddhiProcess_type core_copies)) h' v' \<longrightarrow> hp_blocks g a = hp_blocks h' a) \<longrightarrow>
        content (TPtr (SiddhiProcess_type core_copies)) g (Ptr 0) =
        content (TPtr (SiddhiProcess_type core_copies)) sample_heap (Ptr 0))"
proof -
  obtain x where x: "content (TPtr (SiddhiProcess_type core_copies)) sample_heap (Ptr 0) = Some x"
    using sample_content by blast
  obtain r h' where run: "SiddhiProcess_DeepCopyObject core_copies (Ptr 0) sample_heap = (r, h')" by force
  have "(SiddhiProcess_type core_copies, SiddhiProcess_DeepCopyObject core_copies) \<in> set (api_objects core_copies)"
    by (simp add: api_objects_def)
  from DeepCopyObject_independent [OF _ this sample_heap_ok x run] core.deep run x show ?thesis
    by (auto split: option.splits simp del: content.simps owns.simps)
qed

end
