(* ===== verification/OpenApi.thy ===== *)
theory OpenApi
  imports DeepCopy
begin

text \<open>
  The OpenAPI description openapi-gen wrote for the process (\<open>zz_generated.openapi.go\<close>), with the schema
  types of the library as far as it fills them in, and how it compares with the Go types.
\<close>

section \<open>Schemas\<close>

text \<open>\<open>spec.Schema\<close>: a description, the JSON types, a format, a reference (none when not set), properties.\<close>

datatype schema = Schema
  (sc_Description: string) (sc_Type: "string list") (sc_Format: string) (sc_Ref: "string option")
  (sc_Properties: "(string \<times> schema) list")

record open_api_definition =
  oad_Schema :: schema
  oad_Dependencies :: "string list"

definition ref_to :: "string \<Rightarrow> schema" where
  "ref_to r = Schema [] [] [] (Some r) []"

definition text_of :: "string \<Rightarrow> schema" where
  "text_of description = Schema description [''string''] [] None []"

section \<open>The definitions\<close>

definition api_path :: "string \<Rightarrow> string" where
  "api_path n = ''github.com/siddhi-io/siddhi-operator/pkg/apis/siddhi/v1alpha2.'' @ n"

definition object_meta_path :: string where
  "object_meta_path = ''k8s.io/apimachinery/pkg/apis/meta/v1.ObjectMeta''"

definition schema_SiddhiProcess :: "(string \<Rightarrow> string) \<Rightarrow> open_api_definition" where
  "schema_SiddhiProcess ref =
     \<lparr>oad_Schema = Schema ''SiddhiProcess is the Schema for the siddhiprocesses API'' [] [] None
        [(''kind'', text_of (''Kind is a string value representing the REST resource this object represents. Servers may infer this from the endpoint the client submits requests to. Cannot be updated. In CamelCase. More info: '' @
            ''https://git.k8s.io/community/contributors/devel/api-conventions.md#types-kinds'')),
         (''apiVersion'', text_of (''APIVersion defines the versioned schema of this representation of an object. Servers should convert recognized schemas to the latest internal value, and may reject unrecognized values. More info: '' @
            ''https://git.k8s.io/community/contributors/devel/api-conventions.md#resources'')),
         (''metadata'', ref_to (ref object_meta_path)),
         (''spec'', ref_to (ref (api_path ''SiddhiProcessSpec''))),
         (''status'', ref_to (ref (api_path ''SiddhiProcessStatus'')))],
      oad_Dependencies = [api_path ''SiddhiProcessSpec'', api_path ''SiddhiProcessStatus'', object_meta_path]\<rparr>"

definition schema_SiddhiProcessSpec :: "(string \<Rightarrow> string) \<Rightarrow> open_api_definition" where
  "schema_SiddhiProcessSpec ref =
     \<lparr>oad_Schema = Schema ''SiddhiProcessSpec defines the desired state of SiddhiProcess'' [] [] None [],
      oad_Dependencies = []\<rparr>"

definition schema_SiddhiProcessStatus :: "(string \<Rightarrow> string) \<Rightarrow> open_api_definition" where
  "schema_SiddhiProcessStatus ref =
     \<lparr>oad_Schema = Schema ''SiddhiProcessStatus defines the observed state of SiddhiProcess'' [] [] None [],
      oad_Dependencies = []\<rparr>"

definition GetOpenAPIDefinitions :: "(string \<Rightarrow> string) \<Rightarrow> (string \<times> open_api_definition) list" where
  "GetOpenAPIDefinitions ref =
     [(api_path ''SiddhiProcess'', schema_SiddhiProcess ref),
      (api_path ''SiddhiProcessSpec'', schema_SiddhiProcessSpec ref),
      (api_path ''SiddhiProcessStatus'', schema_SiddhiProcessStatus ref)]"

section \<open>References\<close>

fun refs :: "schema \<Rightarrow> string list" where
  "refs (Schema d t f r ps) = (case r of None \<Rightarrow> [] | Some x \<Rightarrow> [x]) @ concat (map (\<lambda>(n, s). refs s) ps)"

text \<open>The fields of a struct type, by name.\<close>

fun field_names :: "go_type \<Rightarrow> string list" where
  "field_names (TStruct fs) = map fst fs"
| "field_names t = []"

lemmas open_api_defs = GetOpenAPIDefinitions_def schema_SiddhiProcess_def schema_SiddhiProcessSpec_def
  schema_SiddhiProcessStatus_def ref_to_def text_of_def

section \<open>Properties\<close>

text \<open>The OpenAPI description of the API is closed, and incomplete: each definition refers to exactly the
  types it names as dependencies, by the callback's names, and these are described too or are the library's
  object metadata; the process has the properties of its JSON form. But the descriptions of its spec and its
  status, which the comments on the Go types ask for, list no property at all, although the types have six
  fields each.\<close>

theorem OpenApi_closed_but_empty:
  "(\<forall>(n, d) \<in> set (GetOpenAPIDefinitions ref). set (refs (oad_Schema d)) = ref ` set (oad_Dependencies d) \<and>
      set (oad_Dependencies d) \<subseteq> insert object_meta_path (fst ` set (GetOpenAPIDefinitions ref))) \<and>
   map_option (\<lambda>d. map fst (sc_Properties (oad_Schema d))) (map_of (GetOpenAPIDefinitions ref) (api_path ''SiddhiProcess'')) =
     Some [''kind'', ''apiVersion'', ''metadata'', ''spec'', ''status''] \<and>
   (\<forall>n \<in> {''SiddhiProcessSpec'', ''SiddhiProcessStatus''}.
      map_option (\<lambda>d. sc_Properties (oad_Schema d)) (map_of (GetOpenAPIDefinitions ref) (api_path n)) = Some []) \<and>
   length (field_names (SiddhiProcessSpec_type V)) = 6 \<and> length (field_names SiddhiProcessStatus_type) = 6"
  by (auto simp: open_api_defs api_path_def SiddhiProcessSpec_type_def SiddhiProcessStatus_type_def)

theorem OpenApi_closed_but_empty_witness:
  "set (refs (oad_Schema (schema_SiddhiProcess (\<lambda>n. n)))) = set (oad_Dependencies (schema_SiddhiProcess (\<lambda>n. n))) \<and>
   length (field_names (SiddhiProcessSpec_type core_copies)) = 6"
  using OpenApi_closed_but_empty [of "\<lambda>n. n" core_copies] by (simp add: GetOpenAPIDefinitions_def)

end
