(* ===== verification/Spec2Isabelle.thy ===== *)
theory Spec2Isabelle
  imports EndToEnd UnitTests Manager OpenApi
begin

text \<open>
  A model of the Siddhi operator: a Kubernetes controller, written in Go, that keeps the deployments,
  services, ingresses, volumes and config maps of every \<open>SiddhiProcess\<close> resource in step with the
  resource.

  \<^bold>\<open>The program.\<close> \<open>main\<close> (\<open>cmd/manager\<close>) registers the API types, adds the controller with its watches to a
  manager of the runtime library and starts it. A watch event passes a predicate and becomes a request; \<open>Reconcile\<close>
  (\<open>pkg/controller/siddhiprocess\<close>) handles the request. It reads the process, has its apps parsed by
  a parser service it deploys for the purpose, creates the NATS clusters when they are asked for,
  deploys one application for every app the parser returns, scales and checks the deployments, and
  writes the status of the process. Everything it knows between requests is in two global maps, of
  the applications by process and of the config maps listened to, and in the cluster itself.

  \<^bold>\<open>Theories\<close>, each over the ones before it:
  \<^item> \<open>Prelude\<close>: Go's integers, slices and maps (association lists in canonical order, where the order of
    iteration does not matter), with their laws.
  \<^item> \<open>GoStrings\<close>, \<open>GoRegexp\<close>: the functions of the Go standard library that the code calls, on strings
    as character lists: \<open>strings\<close>, \<open>strconv.Itoa\<close>, \<open>path\<close> and \<open>filepath\<close>, \<open>sort\<close>, and the regular
    expressions as a backtracking search with its declarative reading.
  \<^item> \<open>Json\<close>, \<open>JsonValue\<close>, \<open>GoJson\<close>: \<open>encoding/json\<close>: strings in UTF-8 with their escapes, values and their
    parser, and the encoding and decoding of Go values by the tags of their types, with the round trips.
  \<^item> \<open>KubeTypes\<close>: the API types, with the fields the operator uses and the others in a \<open>rest\<close> field.
  \<^item> \<open>SiddhiTypes\<close>, \<open>NatsTypes\<close>: the resources under \<open>pkg/apis\<close>, the comparison of two specs by which the
    update predicate decides, and the defaulting, validation and status log of a NATS cluster.
  \<^item> \<open>KubeClient\<close>: the client of the API server as a record of calls over any state of the cluster, the
    laws \<open>kube_api\<close> and \<open>kube_store\<close> it is relied on for, and two instances: a client over an object
    store, modelled from vendored sources, and that client with injected faults.
  \<^item> \<open>ControllerUtil\<close>: owner references and \<open>CreateOrUpdate\<close> of the vendored controller runtime.
  \<^item> \<open>Artifact\<close>: \<open>artifact/artifacts.go\<close>, the objects written and the functions that change them.
  \<^item> \<open>DeployManager\<close>: \<open>deploymanager/application.go\<close>, the deployment of one application.
  \<^item> \<open>Messaging\<close>: \<open>messaging/messaging.go\<close>, NATS on demand.
  \<^item> \<open>ParserApi\<close>, \<open>Parser\<close>: \<open>parser/parser.go\<close>, the data on the wire and the client of the parser service.
  \<^item> \<open>SiddhiController\<close>: \<open>siddhicontroller/\<close>, status, versions, artifacts and checks of one process.
  \<^item> \<open>Reconcile\<close>: \<open>siddhiprocess_controller.go\<close>, the predicates and the handling of a request.
  \<^item> \<open>Deployed\<close>, \<open>Rollout\<close>: what \<open>Deploy\<close>, \<open>CreateArtifacts\<close>, \<open>Parse\<close> and a whole request achieve on a server that
    answers (no definitions of code).
  \<^item> \<open>Reads\<close>: clients that read from a cache, next to others who write, their laws \<open>kube_reads\<close> and instances;
    \<open>Safety\<close>: that no request panics with such a client, or writes what is not its own (no definitions of code).
  \<^item> \<open>EventLoop\<close>: the vendored runtime around \<open>Reconcile\<close>, handlers and work queue, as a step relation.
  \<^item> \<open>Settled\<close>, \<open>Isolation\<close>: the end of the timer; processes that leave each other alone; \<open>Journey\<close>: the whole way of a
    process from its request to being ready (no definitions of code).
  \<^item> \<open>UnitTests\<close>, \<open>EndToEnd\<close>: the tests of the repository, \<open>artifact/artifacts_test.go\<close> and \<open>test/e2e\<close>, run on the model.
  \<^item> \<open>Registry\<close>: the scheme of the API machinery and the registration functions under \<open>pkg/apis\<close>.
  \<^item> \<open>Manager\<close>: \<open>cmd/manager/main.go\<close>, \<open>pkg/controller\<close> and \<open>add\<close>, the start of the operator.
  \<^item> \<open>GoHeap\<close>, \<open>DeepCopy\<close>: references to storage, and the copy functions of \<open>zz_generated.deepcopy.go\<close> in the
    three API packages, over the declared types as \<open>X_type\<close>.
  \<^item> \<open>OpenApi\<close>: \<open>zz_generated.openapi.go\<close>.

  \<^bold>\<open>How code becomes definitions.\<close> Definitions keep the names of the Go functions; the parts of a long
  function (a loop's body, a phase) are definitions of their own, composed as the code composes
  them. A struct is a record, a pointer to one an option; the one pointer that the code shares and
  saves, the controller's process, is an address into a heap. The rest of the model passes resources as
  values; that copies are as good as values is what \<open>DeepCopy\<close> shows, where pointers, slices and maps are
  references. A call passes the state of the
  cluster on. An error is a value of \<open>goerror\<close>; a panic (a nil dereference) is \<^const>\<open>None\<close>, so that a
  result of the form \<open>Some\<close> says that the call returns. Integers have Go's width.

  \<^bold>\<open>What is outside\<close> is a parameter: the API server (a \<open>client\<close>), the
  YAML decoder, the parser service and the HTTP clients it is called with (what goes through them is
  modelled as bytes), environment variables, the order in which Go ranges over a map. What is assumed of
  the API server are the laws of the locales. \<open>kube_api\<close>: a call that succeeds does what it
  says, one that fails changes nothing, and any call may fail. \<open>kube_store\<close>: no call fails
  without reason. \<open>kube_defaulting\<close>: the server's defaulting keeps what the operator writes.
  \<open>kube_status\<close>: a status update that succeeds answers with the status and spec sent.
  \<open>kube_live\<close>: the last two together. \<open>kube_settled\<close>: besides, status updates
  take effect. \<open>kube_open\<close>: others can write any object. \<open>vendored_copies\<close>: the
  generated copies of Kubernetes structs are deep. In these, reads are current and nobody writes during a
  call of \<open>Reconcile\<close>. \<open>kube_reads\<close> is without both: reads may lag by any
  number of changes, others may write between any two calls, and calls may fail; it asks that a read
  object has the kind and name asked for and that no call makes an object readable that is not well
  formed. The absence of panics and the ownership of what is written, for one request and for the
  operator as a whole, rest on it alone. \<open>kube_owned\<close> and \<open>kube_request\<close> are
  the same for the objects of one request. Every law is proved for the object store by an interpretation,
  those that allow failures also for the store with faults, \<open>kube_reads\<close> also for the store
  with a lagging copy, faults and others at work, \<open>kube_owned\<close> for that store with a log of
  the writes.

  \<^bold>\<open>What the lemmas show.\<close> For the artifacts: what the server holds afterwards, on every path, and that
  nothing else was touched. For the controller: which objects each operation may touch (the frame
  relations \<open>touches\<close>, \<open>ctl_step\<close>, \<open>ns_step\<close>, \<open>request_objects\<close>), the version and status it leaves, that it returns, and,
  on a server that answers, exactly what its checks, its scaling and its clean-up do; a persistent application's claim is there and mounted. For a request:
  that it writes the objects of its process only, caching of the parsed applications, the timer path and the error paths, that
  it never panics, and that it rolls a process out when nothing outside fails. For the operator as a
  whole: invariants of every reachable state (the cluster stays well formed, the applications stored are
  answers of the parser, processes with unrelated names do not interfere), the refinement of an abstract registry, that a change of a child wakes its
  owner, that a process whose pods are there is reported ready and leaves the queue, and that a
  new or changed process has a run of the operator to that end. The repository's tests pass: the unit tests on any
  server that answers, the end-to-end tests in a run of the operator. For the start:
  when the manager runs, with which scheme and watches. For the generated copies: equal contents,
  separate storage.
  Some properties state behaviour that is hardly meant; the manifest lists them as findings.

  \<^bold>\<open>Termination.\<close> Every loop of the code runs over a list and is structural recursion here, but for the
  search of a pattern, which ends by a measure, and the digits of a number. The parser of JSON has fuel, twice
  the length of the text and two more; \<open>parse_fuel\<close> of \<open>JsonValue\<close> shows that more changes nothing.

  \<^bold>\<open>Not modelled:\<close> log output, flags and metrics; the runtime library's informers and the timing of its
  queue (a delayed request is one that may run); the scheme's conversion and defaulting functions; the
  HTTP transport, with the retries of the client that waits for the parser; the text of JSON errors;
  concurrent requests
  (the runtime's queue hands one request at a time to the reconciler); what a cache that lags behind its
  server does to the functional results, which are stated for current reads; of the
  end-to-end tests the framework that sets them up, their timeouts and the runner's answer to the event they post.
\<close>

end
